(* ===== verification/Prelude.thy ===== *)
theory Prelude
  imports Main "HOL-Library.Word"
begin

text \<open>
  The part every theory of the development shares: the Go error values, the three ways a pure
  Go call can end (a value, an error, a panic), the computation type of Go code that reads and
  writes a state, and the total-correctness calculus the component proofs use.

  A Go call that touches the world (a store, a clock) is a function of the state. It may end
  normally, it may panic, and a loop such as the store retry loop may never end:
  \<^item> \<open>Some (Done x, s')\<close> -- it returned \<open>x\<close> and left the state \<open>s'\<close>;
  \<^item> \<open>Some (Panicked, s')\<close> -- it panicked in the state \<open>s'\<close>;
  \<^item> \<open>None\<close> -- it never returns.
\<close>

section \<open>Machine types\<close>

type_synonym uint64 = "64 word"
type_synonym uint32 = "32 word"
type_synonym byte = "8 word"

text \<open>Go strings and byte slices are sequences of bytes; a \<open>char\<close> of HOL is one byte.\<close>

type_synonym bytes = string

text \<open>
  A Go slice distinguishes \<open>nil\<close> from an empty slice (its JSON differs): \<open>None\<close> is \<open>nil\<close>.
\<close>

type_synonym 'a slice = "'a list option"

definition slice_elems :: "'a slice \<Rightarrow> 'a list" where
  "slice_elems s = (case s of None \<Rightarrow> [] | Some xs \<Rightarrow> xs)"

lemma slice_elems_simps [simp]: "slice_elems None = []" "slice_elems (Some xs) = xs"
  by (simp_all add: slice_elems_def)

text \<open>
  Go's \<open>int\<close> and \<open>int64\<close> are 64 bits wide here. Values that only pass through (indices, memory
  sizes, time stamps) are HOL integers, with this range as their well-formedness condition.
\<close>

definition int64_ok :: "int \<Rightarrow> bool" where
  "int64_ok n \<longleftrightarrow> - (2 ^ 63) \<le> n \<and> n < 2 ^ 63"

section \<open>Errors\<close>

text \<open>
  The error values the program compares or builds. The first eight are the variables of
  storeadapter/errors.go; \<open>Errorf\<close> is the result of \<open>fmt.Errorf\<close> or \<open>errors.New\<close>: its format, its
  string arguments, and the error whose text it quotes.
\<close>

datatype error =
    ErrorKeyNotFound
  | ErrorNodeIsDirectory
  | ErrorNodeIsNotDirectory
  | ErrorTimeout
  | ErrorInvalidFormat
  | ErrorInvalidTTL
  | ErrorKeyExists
  | ErrorKeyComparisonFailed
  | ErrInvalidJSONMessage string
  | InvalidActionConversion
  | JSONSyntaxError
  | JSONTypeError
  | NumError string
  | RandError string
  | EtcdError int string
  | ErrWatchStoppedByUser
  | ErrRequestCancelled
  | Errorf string "string list" "error option"

text \<open>How a pure call ends: with a value, with an error return, or in a panic.\<close>

datatype 'a outcome = Ok 'a | Err error | Panic

fun outcome_bind :: "'a outcome \<Rightarrow> ('a \<Rightarrow> 'b outcome) \<Rightarrow> 'b outcome" where
  "outcome_bind (Ok x) f = f x"
| "outcome_bind (Err e) f = Err e"
| "outcome_bind Panic f = Panic"

section \<open>Stateful computations\<close>

datatype 'a run = Done 'a | Panicked

type_synonym ('s, 'a) go = "'s \<Rightarrow> ('a run \<times> 's) option"

definition go_return :: "'a \<Rightarrow> ('s, 'a) go" where
  "go_return x s = Some (Done x, s)"

definition go_panic :: "('s, 'a) go" where
  "go_panic s = Some (Panicked, s)"

definition go_bind :: "('s, 'a) go \<Rightarrow> ('a \<Rightarrow> ('s, 'b) go) \<Rightarrow> ('s, 'b) go" where
  "go_bind m f s =
     (case m s of
        None \<Rightarrow> None
      | Some (r, s') \<Rightarrow> (case r of Done x \<Rightarrow> f x s' | Panicked \<Rightarrow> Some (Panicked, s')))"

text \<open>A pure value that the code can only have if it did not panic, e.g. \<open>x.ToJSON()\<close>.\<close>

definition go_must :: "'a option \<Rightarrow> ('s, 'a) go" where
  "go_must r = (case r of None \<Rightarrow> go_panic | Some x \<Rightarrow> go_return x)"

text \<open>A pure call with an error result, as the pair of results Go returns.\<close>

definition go_outcome :: "'a \<Rightarrow> 'a outcome \<Rightarrow> ('s, 'a \<times> error option) go" where
  "go_outcome zero r =
     (case r of Ok x \<Rightarrow> go_return (x, None) | Err e \<Rightarrow> go_return (zero, Some e) | Panic \<Rightarrow> go_panic)"

text \<open>A loop over a list whose body is a computation.\<close>

fun go_for :: "'a list \<Rightarrow> ('a \<Rightarrow> ('s, unit) go) \<Rightarrow> ('s, unit) go" where
  "go_for [] body = go_return ()"
| "go_for (x # xs) body = go_bind (body x) (\<lambda>_. go_for xs body)"

text \<open>The same loop with an accumulator, for loops that append to slices.\<close>

fun go_fold :: "('a \<Rightarrow> 'b \<Rightarrow> ('s, 'b) go) \<Rightarrow> 'a list \<Rightarrow> 'b \<Rightarrow> ('s, 'b) go" where
  "go_fold body [] acc = go_return acc"
| "go_fold body (x # xs) acc = go_bind (body x acc) (\<lambda>acc'. go_fold body xs acc')"

subsection \<open>Monad laws\<close>

named_theorems go_simps \<open>evaluation of computations at a state\<close>

lemma go_return_bind [simp]: "go_bind (go_return x) f = f x"
  by (simp add: go_bind_def go_return_def fun_eq_iff)

lemma go_bind_return [simp]: "go_bind m go_return = m"
  by (auto simp: go_bind_def go_return_def fun_eq_iff split: option.splits run.splits)

lemma go_bind_assoc: "go_bind (go_bind m f) g = go_bind m (\<lambda>x. go_bind (f x) g)"
  by (auto simp: go_bind_def fun_eq_iff split: option.splits run.splits)

lemma go_panic_bind [simp]: "go_bind go_panic f = go_panic"
  by (simp add: go_bind_def go_panic_def fun_eq_iff)

lemma go_must_simps [simp]:
  "go_must None = go_panic"
  "go_must (Some x) = go_return x"
  by (simp_all add: go_must_def)

lemma go_outcome_simps [simp]:
  "go_outcome z (Ok x) = go_return (x, None)"
  "go_outcome z (Err e) = go_return (z, Some e)"
  "go_outcome z Panic = go_panic"
  by (simp_all add: go_outcome_def)

lemma go_return_run [go_simps]: "go_return x s = Some (Done x, s)"
  by (simp add: go_return_def)

lemma go_panic_run [go_simps]: "go_panic s = Some (Panicked, s)"
  by (simp add: go_panic_def)

lemma go_bind_run [go_simps]:
  "m s = Some (Done x, s') \<Longrightarrow> go_bind m f s = f x s'"
  "m s = Some (Panicked, s') \<Longrightarrow> go_bind m f s = Some (Panicked, s')"
  "m s = None \<Longrightarrow> go_bind m f s = None"
  by (simp_all add: go_bind_def)

lemma go_bind_eq_Done:
  "go_bind m f s = Some (Done y, s') \<longleftrightarrow>
     (\<exists>x s1. m s = Some (Done x, s1) \<and> f x s1 = Some (Done y, s'))"
  by (auto simp: go_bind_def split: option.splits run.splits)

section \<open>Total correctness\<close>

text \<open>
  \<open>wp m Q s\<close>: run from \<open>s\<close>, the computation \<open>m\<close> returns (it neither panics nor runs forever) and
  its result and final state satisfy \<open>Q\<close>.
\<close>

definition wp :: "('s, 'a) go \<Rightarrow> ('a \<Rightarrow> 's \<Rightarrow> bool) \<Rightarrow> 's \<Rightarrow> bool" where
  "wp m Q s = (case m s of Some (Done x, s') \<Rightarrow> Q x s' | _ \<Rightarrow> False)"

lemma wp_iff: "wp m Q s \<longleftrightarrow> (\<exists>x s'. m s = Some (Done x, s') \<and> Q x s')"
  by (auto simp: wp_def split: option.splits run.splits)

lemma wp_return [simp]: "wp (go_return x) Q s = Q x s"
  by (simp add: wp_def go_return_def)

lemma wp_return_fun [simp]: "wp (go_return x) Q = Q x"
  by (rule ext) simp

lemma wp_panic [simp]: "\<not> wp go_panic Q s"
  by (simp add: wp_def go_panic_def)

lemma wp_bind [simp]: "wp (go_bind m f) Q s = wp m (\<lambda>x. wp (f x) Q) s"
  by (auto simp: wp_def go_bind_def split: option.splits run.splits)

lemma wp_must [simp]: "wp (go_must r) Q s \<longleftrightarrow> (\<exists>x. r = Some x \<and> Q x s)"
  by (cases r) auto

lemma wp_mono: "wp m Q s \<Longrightarrow> (\<And>x s'. Q x s' \<Longrightarrow> Q' x s') \<Longrightarrow> wp m Q' s"
  by (auto simp: wp_iff)

lemma wp_conj: "wp m Q s \<Longrightarrow> wp m Q' s \<Longrightarrow> wp m (\<lambda>x s'. Q x s' \<and> Q' x s') s"
  by (auto simp: wp_iff)

lemma wp_eqI: "m s = Some (Done x, s') \<Longrightarrow> Q x s' \<Longrightarrow> wp m Q s"
  by (auto simp: wp_iff)

lemma wpD: "wp m Q s \<Longrightarrow> m s = Some (Done x, s') \<Longrightarrow> Q x s'"
  by (auto simp: wp_iff)

text \<open>Loops: an invariant of the state, indexed by what is still to do.\<close>

lemma wp_for:
  assumes "\<And>x s. x \<in> set xs \<Longrightarrow> I s \<Longrightarrow> wp (body x) (\<lambda>_. I) s" and "I s"
  shows "wp (go_for xs body) (\<lambda>_. I) s"
  using assms
proof (induction xs arbitrary: s)
  case Nil
  then show ?case by simp
next
  case (Cons x xs)
  have "wp (body x) (\<lambda>_. I) s" using Cons.prems by simp
  then have "wp (body x) (\<lambda>_. wp (go_for xs body) (\<lambda>_. I)) s"
    by (rule wp_mono) (rule Cons.IH, auto intro: Cons.prems)
  then show ?case by simp
qed

lemma wp_fold:
  assumes "\<And>ys x zs acc s. xs = ys @ x # zs \<Longrightarrow> I ys acc s \<Longrightarrow> wp (body x acc) (\<lambda>acc'. I (ys @ [x]) acc') s"
    and "I [] acc s"
  shows "wp (go_fold body xs acc) (I xs) s"
proof -
  have "I ys acc s \<Longrightarrow> xs = ys @ zs \<Longrightarrow> wp (go_fold body zs acc) (I xs) s" for ys zs acc s
  proof (induction zs arbitrary: ys acc s)
    case Nil
    then show ?case by simp
  next
    case (Cons z zs)
    from assms(1)[OF Cons.prems(2) Cons.prems(1)]
    have "wp (body z acc) (\<lambda>acc'. I (ys @ [z]) acc') s" .
    then have "wp (body z acc) (\<lambda>acc'. wp (go_fold body zs acc') (I xs)) s"
      by (rule wp_mono) (rule Cons.IH, use Cons.prems in auto)
    then show ?case by simp
  qed
  from this [OF assms(2), of xs] show ?thesis by simp
qed

section \<open>Lists\<close>

lemma filter_empty_iff: "filter P xs = [] \<longleftrightarrow> (\<forall>x \<in> set xs. \<not> P x)"
  by (auto simp: filter_empty_conv)

lemma map_of_Some_set: "map_of xs k = Some v \<Longrightarrow> (k, v) \<in> set xs"
  by (rule map_of_SomeD)

end
