(* ===== verification/DeltaForce.thy ===== *)
theory DeltaForce
  imports Prelude
begin

text \<open>
  delta_force.go: the reconciliation of a desired number of instances with the instances that
  are actually running. The Go \<open>int\<close>s here are instance indices and counts; the loops only
  compare and count up to \<open>numDesired\<close>, so no operation leaves the 64-bit range.
\<close>

section \<open>Data\<close>

record actual_instance =
  Index :: int
  Guid :: string

record delta_result =
  IndicesToStart :: "int list"
  GuidsToStop :: "string list"
  IndicesToStopAllButOne :: "int list"

definition empty_result :: delta_result where
  "empty_result = \<lparr>IndicesToStart = [], GuidsToStop = [], IndicesToStopAllButOne = []\<rparr>"

definition Empty :: "delta_result \<Rightarrow> bool" where
  "Empty r \<longleftrightarrow> length (IndicesToStart r) = 0 \<and> length (GuidsToStop r) = 0
     \<and> length (IndicesToStopAllButOne r) = 0"

section \<open>Operations\<close>

fun hasIndex :: "actual_instance list \<Rightarrow> int \<Rightarrow> bool" where
  "hasIndex [] index = False"
| "hasIndex (actual # a) index = (if Index actual = index then True else hasIndex a index)"

text \<open>The counting loop, with the counter as an accumulator.\<close>

fun numAtIndex_loop :: "actual_instance list \<Rightarrow> int \<Rightarrow> int \<Rightarrow> int" where
  "numAtIndex_loop [] index count = count"
| "numAtIndex_loop (actual # a) index count =
     numAtIndex_loop a index (if Index actual = index then count + 1 else count)"

definition numAtIndex :: "actual_instance list \<Rightarrow> int \<Rightarrow> int" where
  "numAtIndex a index = numAtIndex_loop a index 0"

text \<open>
  The two counting loops \<open>for i := 0; i < numDesired; i++\<close> of \<open>Reconcile\<close>: each appends \<open>i\<close> to a
  slice when its test holds.
\<close>

function index_loop :: "(int \<Rightarrow> bool) \<Rightarrow> int \<Rightarrow> int \<Rightarrow> int list \<Rightarrow> int list" where
  "index_loop P i numDesired out =
     (if i < numDesired then index_loop P (i + 1) numDesired (if P i then out @ [i] else out)
      else out)"
  by pat_completeness auto
termination
  by (relation "measure (\<lambda>(P, i, n, out). nat (n - i))") auto

declare index_loop.simps [simp del]

fun stop_loop :: "int \<Rightarrow> actual_instance list \<Rightarrow> string list \<Rightarrow> string list" where
  "stop_loop numDesired [] out = out"
| "stop_loop numDesired (actual # a) out =
     stop_loop numDesired a (if Index actual \<ge> numDesired then out @ [Guid actual] else out)"

definition Reconcile :: "int \<Rightarrow> actual_instance list \<Rightarrow> delta_result" where
  "Reconcile numDesired actuals =
     (let result = empty_result\<lparr>IndicesToStart :=
            index_loop (\<lambda>i. \<not> hasIndex actuals i) 0 numDesired []\<rparr>
      in if length (IndicesToStart result) > 0 then result
         else
           let result = result\<lparr>GuidsToStop := stop_loop numDesired actuals []\<rparr>
           in result\<lparr>IndicesToStopAllButOne :=
                index_loop (\<lambda>i. numAtIndex actuals i > 1) 0 numDesired []\<rparr>)"

section \<open>The operations against their meaning\<close>

lemma hasIndex_iff: "hasIndex a i \<longleftrightarrow> (\<exists>x \<in> set a. Index x = i)"
  by (induction a) auto

lemma numAtIndex_loop_eq:
  "numAtIndex_loop a i c = c + int (length (filter (\<lambda>x. Index x = i) a))"
  by (induction a arbitrary: c) auto

lemma numAtIndex_eq: "numAtIndex a i = int (length (filter (\<lambda>x. Index x = i) a))"
  by (simp add: numAtIndex_def numAtIndex_loop_eq)

lemma index_loop_eq: "index_loop P i n out = out @ filter P [i..n - 1]"
proof (induction P i n out rule: index_loop.induct)
  case (1 P i n out)
  show ?case
  proof (cases "i < n")
    case True
    then have "[i..n - 1] = i # [i + 1..n - 1]" by (simp add: upto_rec1)
    with 1 True show ?thesis by (simp add: index_loop.simps [of P i n out])
  next
    case False
    then show ?thesis by (simp add: index_loop.simps [of P i n out])
  qed
qed

lemma stop_loop_eq:
  "stop_loop n a out = out @ map Guid (filter (\<lambda>x. n \<le> Index x) a)"
  by (induction a arbitrary: out) auto

text \<open>The three fields of the result in closed form.\<close>

definition missing :: "int \<Rightarrow> actual_instance list \<Rightarrow> int list" where
  "missing n a = filter (\<lambda>i. \<not> (\<exists>x \<in> set a. Index x = i)) [0..n - 1]"

definition extra :: "int \<Rightarrow> actual_instance list \<Rightarrow> string list" where
  "extra n a = map Guid (filter (\<lambda>x. n \<le> Index x) a)"

definition duplicated :: "int \<Rightarrow> actual_instance list \<Rightarrow> int list" where
  "duplicated n a = filter (\<lambda>i. length (filter (\<lambda>x. Index x = i) a) > 1) [0..n - 1]"

lemma Reconcile_closed:
  "Reconcile n a =
     (if missing n a \<noteq> []
      then \<lparr>IndicesToStart = missing n a, GuidsToStop = [], IndicesToStopAllButOne = []\<rparr>
      else \<lparr>IndicesToStart = [], GuidsToStop = extra n a, IndicesToStopAllButOne = duplicated n a\<rparr>)"
  by (simp add: Reconcile_def Let_def index_loop_eq stop_loop_eq missing_def extra_def
      duplicated_def hasIndex_iff numAtIndex_eq empty_result_def)

lemma in_missing: "i \<in> set (missing n a) \<longleftrightarrow> 0 \<le> i \<and> i < n \<and> (\<forall>x \<in> set a. Index x \<noteq> i)"
  by (auto simp: missing_def)

lemma in_extra: "g \<in> set (extra n a) \<longleftrightarrow> (\<exists>x \<in> set a. Guid x = g \<and> n \<le> Index x)"
  by (auto simp: extra_def)

lemma in_duplicated:
  "i \<in> set (duplicated n a) \<longleftrightarrow> 0 \<le> i \<and> i < n \<and> 1 < length (filter (\<lambda>x. Index x = i) a)"
  by (auto simp: duplicated_def)

lemma missing_empty_iff: "missing n a = [] \<longleftrightarrow> (\<forall>i. 0 \<le> i \<and> i < n \<longrightarrow> (\<exists>x \<in> set a. Index x = i))"
  by (auto simp: missing_def filter_empty_iff)

lemma extra_empty_iff: "extra n a = [] \<longleftrightarrow> (\<forall>x \<in> set a. Index x < n)"
  by (auto simp: extra_def filter_empty_iff)

lemma duplicated_empty_iff:
  "duplicated n a = [] \<longleftrightarrow> (\<forall>i. 0 \<le> i \<and> i < n \<longrightarrow> length (filter (\<lambda>x. Index x = i) a) \<le> 1)"
  by (force simp: duplicated_def filter_empty_iff not_less)

lemma Empty_iff: "Empty r \<longleftrightarrow> IndicesToStart r = [] \<and> GuidsToStop r = [] \<and> IndicesToStopAllButOne r = []"
  by (simp add: Empty_def)

end
