(* ===== verification/GoLib.thy ===== *)
theory GoLib
  imports Prelude
begin

text \<open>
  What the code uses of Go's standard library on strings, paths and times: \<open>strings.Split\<close> and
  \<open>strings.Join\<close>, \<open>path.Clean\<close>, \<open>path.Join\<close> and \<open>path.Base\<close>, decimal printing and parsing
  (\<open>strconv.Itoa\<close>, \<open>strconv.ParseInt\<close>, \<open>strconv.ParseUint\<close>, \<open>strconv.Atoi\<close>), and differences
  of times.
\<close>

section \<open>strings\<close>

text \<open>\<open>strings.Split\<close> with a one-byte separator.\<close>

fun strings_Split :: "char \<Rightarrow> string \<Rightarrow> string list" where
  "strings_Split c [] = [[]]"
| "strings_Split c (x # xs) =
     (if x = c then [] # strings_Split c xs
      else (case strings_Split c xs of [] \<Rightarrow> [[x]] | y # ys \<Rightarrow> (x # y) # ys))"

fun strings_Join :: "string \<Rightarrow> string list \<Rightarrow> string" where
  "strings_Join sep [] = []"
| "strings_Join sep [x] = x"
| "strings_Join sep (x # y # ys) = x @ sep @ strings_Join sep (y # ys)"

lemma strings_Split_nonempty [simp]: "strings_Split c s \<noteq> []"
  by (induction s) (auto split: list.splits)

lemma strings_Split_nosep: "c \<notin> set x \<Longrightarrow> strings_Split c x = [x]"
  by (induction x) auto

lemma strings_Split_append:
  "c \<notin> set x \<Longrightarrow> strings_Split c (x @ c # s) = x # strings_Split c s"
  by (induction x) auto

lemma strings_Split_Join:
  "xs \<noteq> [] \<Longrightarrow> \<forall>x \<in> set xs. c \<notin> set x \<Longrightarrow> strings_Split c (strings_Join [c] xs) = xs"
  by (induction "[c]" xs rule: strings_Join.induct)
     (simp_all add: strings_Split_nosep strings_Split_append)

lemma strings_Join_Split: "strings_Join [c] (strings_Split c s) = s"
proof (induction s)
  case Nil
  then show ?case by simp
next
  case (Cons x xs)
  obtain y ys where yys: "strings_Split c xs = y # ys"
    by (cases "strings_Split c xs") auto
  then show ?case using Cons by (cases ys) auto
qed

lemma strings_Split_no_sep: "x \<in> set (strings_Split c s) \<Longrightarrow> c \<notin> set x"
proof (induction s arbitrary: x)
  case Nil
  then show ?case by simp
next
  case (Cons a s)
  obtain y ys where "strings_Split c s = y # ys" by (cases "strings_Split c s") auto
  then show ?case using Cons by (auto split: if_splits)
qed

lemma strings_Join_Cons: "xs \<noteq> [] \<Longrightarrow> strings_Join sep (x # xs) = x @ sep @ strings_Join sep xs"
  by (cases xs) auto

lemma strings_Join_append:
  "xs \<noteq> [] \<Longrightarrow> ys \<noteq> [] \<Longrightarrow>
   strings_Join sep (xs @ ys) = strings_Join sep xs @ sep @ strings_Join sep ys"
proof (induction xs)
  case Nil
  then show ?case by simp
next
  case (Cons x xs)
  then show ?case by (cases "xs = []") (simp_all add: strings_Join_Cons)
qed

section \<open>path\<close>

abbreviation slash :: char where "slash \<equiv> CHR ''/''"

text \<open>
  \<open>path.Clean\<close> keeps a stack of path elements: empty elements and \<open>.\<close> are dropped, \<open>..\<close> pops
  the element before it; at the root of a rooted path it is dropped, else it is kept.
\<close>

fun clean_elems :: "bool \<Rightarrow> string list \<Rightarrow> string list \<Rightarrow> string list" where
  "clean_elems rooted acc [] = rev acc"
| "clean_elems rooted acc (e # es) =
     (if e = [] \<or> e = ''.'' then clean_elems rooted acc es
      else if e = ''..'' then
        (if acc \<noteq> [] \<and> hd acc \<noteq> ''..'' then clean_elems rooted (tl acc) es
         else if rooted then clean_elems rooted acc es
         else clean_elems rooted (e # acc) es)
      else clean_elems rooted (e # acc) es)"

definition path_Clean :: "string \<Rightarrow> string" where
  "path_Clean p =
     (if p = [] then ''.''
      else
        let rooted = (hd p = slash);
            body = strings_Join [slash] (clean_elems rooted [] (strings_Split slash p))
        in if rooted then slash # body else if body = [] then ''.'' else body)"

fun path_Join :: "string list \<Rightarrow> string" where
  "path_Join [] = []"
| "path_Join (e # es) = (if e = [] then path_Join es else path_Clean (strings_Join [slash] (e # es)))"

text \<open>\<open>path.Base\<close>: trailing slashes go, then everything up to the last slash.\<close>

definition path_Base :: "string \<Rightarrow> string" where
  "path_Base p =
     (if p = [] then ''.''
      else
        let p1 = rev (dropWhile (\<lambda>c. c = slash) (rev p));
            p2 = rev (takeWhile (\<lambda>c. c \<noteq> slash) (rev p1))
        in if p2 = [] then [slash] else p2)"

text \<open>
  A path element that \<open>path.Clean\<close> leaves alone. Process guids, instance guids, task guids and
  executor ids are such elements unless they are empty, hold a slash, or are a dot or two.
\<close>

definition simple_elem :: "string \<Rightarrow> bool" where
  "simple_elem e \<longleftrightarrow> e \<noteq> [] \<and> e \<noteq> ''.'' \<and> e \<noteq> ''..'' \<and> slash \<notin> set e"

lemma clean_elems_simple:
  "\<forall>e \<in> set es. simple_elem e \<Longrightarrow> clean_elems r acc es = rev acc @ es"
  by (induction es arbitrary: acc) (auto simp: simple_elem_def)

text \<open>The absolute path of a list of elements.\<close>

definition abs_path :: "string list \<Rightarrow> string" where
  "abs_path es = slash # strings_Join [slash] es"

lemma path_Clean_simple:
  assumes "es \<noteq> []" and "\<forall>e \<in> set es. simple_elem e"
  shows "path_Clean (abs_path es) = abs_path es"
proof -
  have "strings_Split slash (abs_path es) = [] # es"
    using assms strings_Split_Join [of es slash] by (auto simp: abs_path_def simple_elem_def)
  then show ?thesis
    using assms(2) by (simp add: path_Clean_def abs_path_def clean_elems_simple)
qed

lemma path_Join_abs:
  assumes "es \<noteq> []" and "fs \<noteq> []" and "\<forall>e \<in> set es. simple_elem e" and "\<forall>e \<in> set fs. simple_elem e"
  shows "path_Join (abs_path es # fs) = abs_path (es @ fs)"
proof -
  have "strings_Join [slash] (abs_path es # fs) = abs_path (es @ fs)"
    using assms(1,2) by (simp add: abs_path_def strings_Join_Cons strings_Join_append)
  then show ?thesis
    using assms path_Clean_simple [of "es @ fs"] by (auto simp: abs_path_def)
qed

lemma abs_path_inj:
  assumes "abs_path es = abs_path fs" and "es \<noteq> []" and "fs \<noteq> []"
    and "\<forall>e \<in> set es. simple_elem e" and "\<forall>e \<in> set fs. simple_elem e"
  shows "es = fs"
proof -
  have "strings_Join [slash] es = strings_Join [slash] fs"
    using assms(1) by (simp add: abs_path_def)
  then have "strings_Split slash (strings_Join [slash] es) = strings_Split slash (strings_Join [slash] fs)"
    by simp
  with assms(2-) show ?thesis
    by (simp add: strings_Split_Join simple_elem_def)
qed

lemma path_Base_abs:
  assumes "simple_elem e"
  shows "path_Base (abs_path (es @ [e])) = e"
proof -
  have e: "e \<noteq> []" "slash \<notin> set e" using assms by (auto simp: simple_elem_def)
  obtain pre where pre: "abs_path (es @ [e]) = pre @ slash # e"
  proof (cases es)
    case Nil
    then show ?thesis using that [of "[]"] by (simp add: abs_path_def)
  next
    case (Cons a as)
    then show ?thesis
      using that [of "slash # strings_Join [slash] es"]
      using strings_Join_append [of es "[e]" "[slash]"] by (simp add: abs_path_def)
  qed
  have rev_e: "rev e \<noteq> []" "\<forall>c \<in> set (rev e). c \<noteq> slash" using e by auto
  have d: "dropWhile (\<lambda>c. c = slash) (rev e @ slash # rev pre) = rev e @ slash # rev pre"
    using rev_e by (cases "rev e") auto
  have t: "takeWhile (\<lambda>c. c \<noteq> slash) (rev e @ slash # rev pre) = rev e"
    using rev_e(2) by (subst takeWhile_append2) auto
  show ?thesis
    using e by (simp add: path_Base_def pre d t)
qed

section \<open>strconv\<close>

definition digit_char :: "nat \<Rightarrow> char" where
  "digit_char d = char_of (48 + d)"

definition digit_val :: "char \<Rightarrow> nat option" where
  "digit_val c = (let n = of_char c in if 48 \<le> n \<and> n \<le> 57 then Some (n - 48) else None)"

lemma digit_val_char [simp]: "d < 10 \<Longrightarrow> digit_val (digit_char d) = Some d"
  by (simp add: digit_val_def digit_char_def)

fun nat_digits :: "nat \<Rightarrow> string" where
  "nat_digits n = (if n < 10 then [digit_char n] else nat_digits (n div 10) @ [digit_char (n mod 10)])"

declare nat_digits.simps [simp del]

definition Itoa :: "int \<Rightarrow> string" where
  "Itoa n = (if n < 0 then CHR ''-'' # nat_digits (nat (- n)) else nat_digits (nat n))"

fun parse_digits :: "nat \<Rightarrow> string \<Rightarrow> nat option" where
  "parse_digits acc [] = Some acc"
| "parse_digits acc (c # cs) =
     (case digit_val c of None \<Rightarrow> None | Some d \<Rightarrow> parse_digits (10 * acc + d) cs)"

text \<open>\<open>strconv.ParseUint (s, 10, 64)\<close> and \<open>strconv.ParseInt (s, 10, 64)\<close>; \<open>Atoi\<close> is the latter.\<close>

definition ParseUint :: "string \<Rightarrow> nat option" where
  "ParseUint s =
     (if s = [] then None
      else case parse_digits 0 s of
             None \<Rightarrow> None
           | Some n \<Rightarrow> if n < 2 ^ 64 then Some n else None)"

definition ParseInt :: "string \<Rightarrow> int option" where
  "ParseInt s =
     (let neg = (s \<noteq> [] \<and> hd s = CHR ''-'');
          ds = (if s \<noteq> [] \<and> (hd s = CHR ''-'' \<or> hd s = CHR ''+'') then tl s else s)
      in if ds = [] then None
         else case parse_digits 0 ds of
                None \<Rightarrow> None
              | Some n \<Rightarrow>
                  let v = (if neg then - int n else int n)
                  in if int64_ok v then Some v else None)"

definition Atoi :: "string \<Rightarrow> int option" where
  "Atoi s = ParseInt s"

lemma nat_digits_nonempty [simp]: "nat_digits n \<noteq> []"
  by (subst nat_digits.simps) simp

lemma nat_digits_digit: "c \<in> set (nat_digits n) \<Longrightarrow> \<exists>d < 10. c = digit_char d"
proof (induction n arbitrary: c rule: nat_digits.induct)
  case (1 n)
  show ?case
  proof (cases "n < 10")
    case True
    with "1.prems" show ?thesis by (auto simp: nat_digits.simps [of n])
  next
    case False
    with "1.prems" consider "c \<in> set (nat_digits (n div 10))" | "c = digit_char (n mod 10)"
      by (auto simp: nat_digits.simps [of n])
    then show ?thesis
    proof cases
      case 1
      with False "1.IH" show ?thesis by simp
    next
      case 2
      then show ?thesis by (intro exI [of _ "n mod 10"]) simp
    qed
  qed
qed

lemma parse_digits_append:
  "parse_digits acc (xs @ ys) = Option.bind (parse_digits acc xs) (\<lambda>a. parse_digits a ys)"
  by (induction xs arbitrary: acc) (auto split: option.splits)

lemma parse_nat_digits: "parse_digits 0 (nat_digits n) = Some n"
proof (induction n rule: nat_digits.induct)
  case (1 n)
  show ?case
  proof (cases "n < 10")
    case True
    then show ?thesis by (simp add: nat_digits.simps [of n])
  next
    case False
    have "n mod 10 < 10" by simp
    with False 1 show ?thesis by (simp add: nat_digits.simps [of n] parse_digits_append)
  qed
qed

lemma of_char_digit_char: "d < 10 \<Longrightarrow> (of_char (digit_char d) :: nat) = 48 + d"
  by (simp add: digit_char_def)

lemma digit_char_neq:
  assumes "d < 10" and "(of_char c :: nat) < 48 \<or> 57 < (of_char c :: nat)"
  shows "digit_char d \<noteq> c"
  using assms of_char_digit_char [OF assms(1)] by auto

lemma nat_digits_notin:
  assumes "(of_char c :: nat) < 48 \<or> 57 < (of_char c :: nat)"
  shows "c \<notin> set (nat_digits n)"
  using nat_digits_digit digit_char_neq [OF _ assms] by metis

lemma Itoa_chars:
  assumes "c \<in> set (Itoa n)"
  shows "c = CHR ''-'' \<or> (\<exists>d < 10. c = digit_char d)"
  using assms nat_digits_digit by (auto simp: Itoa_def split: if_splits)

lemma Itoa_notin:
  assumes "c \<noteq> CHR ''-''" and "(of_char c :: nat) < 48 \<or> 57 < (of_char c :: nat)"
  shows "c \<notin> set (Itoa n)"
  using assms nat_digits_notin [OF assms(2)] by (auto simp: Itoa_def)

lemma Itoa_nonempty [simp]: "Itoa n \<noteq> []"
  by (simp add: Itoa_def)

lemma Itoa_simple [simp]: "simple_elem (Itoa n)"
proof -
  have "slash \<notin> set (Itoa n)" "CHR ''.'' \<notin> set (Itoa n)" by (simp_all add: Itoa_notin)
  then show ?thesis by (auto simp: simple_elem_def)
qed

lemma of_char_minus_plus:
  "(of_char (CHR ''-'') :: nat) < 48 \<or> 57 < (of_char (CHR ''-'') :: nat)"
  "(of_char (CHR ''+'') :: nat) < 48 \<or> 57 < (of_char (CHR ''+'') :: nat)"
  by simp_all

lemma nat_digits_hd:
  "hd (nat_digits n) \<noteq> CHR ''-''" "hd (nat_digits n) \<noteq> CHR ''+''"
  using nat_digits_notin [of "CHR ''-''" n] nat_digits_notin [of "CHR ''+''" n]
    hd_in_set [OF nat_digits_nonempty, of n] by (metis of_char_minus_plus)+

lemma ParseInt_Itoa [simp]: "int64_ok n \<Longrightarrow> ParseInt (Itoa n) = Some n"
  by (auto simp: ParseInt_def Itoa_def Let_def nat_digits_hd parse_nat_digits)

lemma ParseUint_digits: "n < 2 ^ 64 \<Longrightarrow> ParseUint (nat_digits n) = Some n"
  by (simp add: ParseUint_def parse_nat_digits)

lemma nat_digits_inj: "nat_digits m = nat_digits n \<Longrightarrow> m = n"
  by (metis option.inject parse_nat_digits)

lemma Itoa_inj: "Itoa m = Itoa n \<Longrightarrow> m = n"
proof -
  assume eq: "Itoa m = Itoa n"
  have neg: "hd (Itoa k) = CHR ''-'' \<longleftrightarrow> k < 0" for k
    by (simp add: Itoa_def nat_digits_hd)
  from eq neg [of m] neg [of n] have "m < 0 \<longleftrightarrow> n < 0" by metis
  with eq show "m = n" by (auto simp: Itoa_def dest!: nat_digits_inj split: if_splits)
qed

section \<open>time\<close>

text \<open>
  A time is its number of nanoseconds since 1970 (what \<open>UnixNano\<close> reads and \<open>time.Unix (0, n)\<close>
  makes); a duration is a 64-bit number of nanoseconds, and \<open>Sub\<close> saturates at its range.
\<close>

type_synonym gotime = int
type_synonym duration = int

definition time_Sub :: "gotime \<Rightarrow> gotime \<Rightarrow> duration" where
  "time_Sub t u = (if t - u < - (2 ^ 63) then - (2 ^ 63)
     else if t - u > 2 ^ 63 - 1 then 2 ^ 63 - 1 else t - u)"

lemma time_Sub_exact: "int64_ok (t - u) \<Longrightarrow> time_Sub t u = t - u"
  by (auto simp: time_Sub_def int64_ok_def)

lemma time_Sub_range: "int64_ok (time_Sub t u)"
  by (auto simp: time_Sub_def int64_ok_def)

end
