(* ===== verification/JsonRoundtrip.thy ===== *)
theory JsonRoundtrip
  imports Json
begin

text \<open>
  Facts about the JSON text layer: the parser's fuel is always enough, and a printed value parses
  back to itself, whatever follows it.
\<close>

section \<open>The parser reads its input\<close>

lemma skip_ws_length: "length (skip_ws s) \<le> length s"
  by (simp add: skip_ws_def length_dropWhile_le)

lemma skip_ws_Cons_length: "skip_ws s = c # cs \<Longrightarrow> length cs < length s"
  using skip_ws_length [of s] by simp

lemma expect_length: "expect c s = Some r \<Longrightarrow> length r < length s"
  using skip_ws_length [of s]
  by (auto simp: expect_def split: list.splits if_splits)

lemma prepend_Some: "prepend p x = Some (a, r) \<longleftrightarrow> (\<exists>s. x = Some (s, r) \<and> a = p @ s)"
  by (auto simp: prepend_def)

lemma parse_str_length: "parse_str k s = Some (t, r) \<Longrightarrow> length r < length s"
proof (induction k s arbitrary: t r rule: parse_str.induct)
  case (1 cp)
  then show ?case by simp
next
  case (2 cp c cs)
  then show ?case by (fastforce simp: prepend_Some)
next
  case (3 c cs)
  consider (q) "c = dquote" | (b) "c = backslash" | (ctl) "c \<notin> {dquote, backslash}" "bval c < 32"
    | (asc) "c \<notin> {dquote, backslash}" "32 \<le> bval c" "bval c < 128"
    | (bad) "c \<notin> {dquote, backslash}" "128 \<le> bval c" "decode_rune (c # cs) = (65533, 1)"
    | (ok) "c \<notin> {dquote, backslash}" "128 \<le> bval c" "decode_rune (c # cs) \<noteq> (65533, 1)"
    by fastforce
  then show ?case
  proof cases
    case q
    with "3.prems" show ?thesis by (simp add: parse_str.simps(3))
  next
    case b
    with "3.prems" obtain e ds t' where e: "parse_escape cs = Some (e, ds)"
      and t: "parse_str 0 ds = Some (t', r)"
      by (auto simp: parse_str.simps(3) prepend_Some split: option.splits)
    from "3.IH"(1) [OF _ b e refl t] b parse_escape_length [OF e] show ?thesis by simp
  next
    case ctl
    with "3.prems" show ?thesis by (simp add: parse_str.simps(3))
  next
    case asc
    with "3.prems" obtain t' where "parse_str 0 cs = Some (t', r)"
      by (auto simp: parse_str.simps(3) prepend_Some)
    with "3.IH"(2) asc show ?thesis by fastforce
  next
    case bad
    with "3.prems" obtain t' where "parse_str 0 cs = Some (t', r)"
      by (auto simp: parse_str.simps(3) prepend_Some)
    with "3.IH"(3) bad show ?thesis by fastforce
  next
    case ok
    with "3.prems" obtain t' where "parse_str (snd (decode_rune (c # cs)) - 1) cs = Some (t', r)"
      by (auto simp: parse_str.simps(3) prepend_Some)
    with "3.IH"(4) ok show ?thesis by fastforce
  qed
qed

lemma dropWhile_length: "length (dropWhile P s) \<le> length s"
  by (rule length_dropWhile_le)

lemma scan_exp_length: "scan_exp s = Some (l, r) \<Longrightarrow> length r \<le> length s"
  by (auto simp: scan_exp_def Let_def intro: le_SucI order_trans [OF dropWhile_length]
      split: list.splits if_splits prod.splits)

lemma scan_frac_length: "scan_frac s = Some (l, r) \<Longrightarrow> length r \<le> length s"
  by (auto simp: scan_frac_def Let_def prepend_Some dest!: scan_exp_length
      intro: le_SucI order_trans [OF _ dropWhile_length] split: list.splits if_splits)

lemma scan_nat_length: "scan_nat s = Some (l, r) \<Longrightarrow> length r < length s"
  by (auto simp: scan_nat_def Let_def prepend_Some dest!: scan_frac_length
      intro: le_imp_less_Suc order_trans [OF _ dropWhile_length] split: list.splits if_splits)

lemma scan_number_length: "scan_number s = Some (l, r) \<Longrightarrow> length r < length s"
  by (fastforce simp: scan_number_def prepend_Some dest!: scan_nat_length split: list.splits if_splits)

lemma keyword_length: "keyword w j s = Some (k, r) \<Longrightarrow> w \<noteq> [] \<Longrightarrow> s \<noteq> [] \<Longrightarrow> length r < length s"
  by (auto simp: keyword_def split: if_splits)

lemma parse_length:
  "parse_value n s = Some (j, r) \<Longrightarrow> length r < length s"
  "parse_elems n s = Some (js, r) \<Longrightarrow> length r < length s"
  "parse_members n s = Some (ms, r) \<Longrightarrow> length r < length s"
proof (induction n s and n s and n s arbitrary: j r and js r and ms r
    rule: parse_value_parse_elems_parse_members.induct)
  case (2 n s)
  obtain c cs where c: "skip_ws s = c # cs" using "2.prems" by (cases "skip_ws s") auto
  have l: "length (c # cs) \<le> length s" using skip_ws_length [of s] c by simp
  have "length r < length (c # cs)"
  proof -
    consider (obj) "c = CHR ''{''" | (arr) "c = CHR ''[''" | (str) "c = dquote"
      | (t) "c = CHR ''t''" | (f) "c = CHR ''f''" | (n) "c = CHR ''n''"
      | (num) "c \<notin> {CHR ''{'', CHR ''['', dquote, CHR ''t'', CHR ''f'', CHR ''n''}" by auto
    then show ?thesis
    proof cases
      case obj
      with "2.prems" c show ?thesis
        by (auto split: option.splits dest!: expect_length "2.IH"(1) [OF c obj] intro: less_SucI)
    next
      case arr
      with "2.prems" c show ?thesis
        by (auto split: option.splits dest!: expect_length "2.IH"(2) [OF c _ arr, rotated] intro: less_SucI)
    next
      case str
      with "2.prems" c show ?thesis by (auto dest!: parse_str_length)
    next
      case t
      with "2.prems" c show ?thesis by (auto dest!: keyword_length)
    next
      case f
      with "2.prems" c show ?thesis by (auto dest!: keyword_length)
    next
      case n
      with "2.prems" c show ?thesis by (auto dest!: keyword_length)
    next
      case num
      with "2.prems" c show ?thesis by (auto dest!: scan_number_length)
    qed
  qed
  with l show ?case by simp
next
  case (4 n s)
  obtain j1 r1 where v: "parse_value n s = Some (j1, r1)"
    using "4.prems" by (auto split: option.splits)
  have l: "length r1 < length s" using "4.IH"(1) [OF v] .
  show ?case
  proof (cases "expect (CHR '']'') r1")
    case (Some r')
    with "4.prems" v l show ?thesis by (auto dest!: expect_length)
  next
    case None
    with "4.prems" v obtain r2 js' where e: "expect (CHR '','') r1 = Some r2"
      and es: "parse_elems n r2 = Some (js', r)"
      by (auto split: option.splits)
    from "4.IH"(2) [OF v refl None e es] l expect_length [OF e] show ?thesis by simp
  qed
next
  case (6 n s)
  obtain s1 k s2 s3 v r1 where a: "expect dquote s = Some s1" "parse_str 0 s1 = Some (k, s2)"
      "expect (CHR '':'') s2 = Some s3" and v: "parse_value n s3 = Some (v, r1)"
    using "6.prems" by (auto split: bind_splits)
  have l: "length r1 < length s"
    using "6.IH"(1) [OF a(1,2) refl a(3) v] expect_length [OF a(1)] parse_str_length [OF a(2)]
      expect_length [OF a(3)] by simp
  show ?case
  proof (cases "expect (CHR ''}'') r1")
    case (Some r')
    with "6.prems" a v l show ?thesis by (auto dest!: expect_length)
  next
    case None
    with "6.prems" a v obtain r2 ms' where e: "expect (CHR '','') r1 = Some r2"
      and es: "parse_members n r2 = Some (ms', r)"
      by (auto split: bind_splits)
    from "6.IH"(2) [OF a(1,2) refl a(3) v refl None e es] l expect_length [OF e] show ?thesis by simp
  qed
qed auto

section \<open>The fuel is enough\<close>

lemma parse_fuel_enough:
  "2 * length s < n \<Longrightarrow> 2 * length s < m \<Longrightarrow> parse_value n s = parse_value m s"
  "Suc (2 * length s) < n \<Longrightarrow> Suc (2 * length s) < m \<Longrightarrow> parse_elems n s = parse_elems m s"
  "Suc (2 * length s) < n \<Longrightarrow> Suc (2 * length s) < m \<Longrightarrow> parse_members n s = parse_members m s"
proof (induction n s and n s and n s arbitrary: m and m and m
    rule: parse_value_parse_elems_parse_members.induct)
  case (2 n s)
  obtain m' where m: "m = Suc m'" using "2.prems" by (cases m) auto
  show ?case
  proof (cases "skip_ws s")
    case Nil
    then show ?thesis by (simp add: m)
  next
    case (Cons c cs)
    have l: "length cs < length s" by (rule skip_ws_Cons_length [OF Cons])
    have es: "parse_elems n cs = parse_elems m' cs"
      if "c = CHR ''[''" "expect (CHR '']'') cs = None"
      using "2.IH"(2) [OF Cons _ that(1) that(2), of m'] that(1) l "2.prems" by (simp add: m)
    have ms: "parse_members n cs = parse_members m' cs"
      if "c = CHR ''{''" "expect (CHR ''}'') cs = None"
      using "2.IH"(1) [OF Cons that(1) that(2), of m'] l "2.prems" by (simp add: m)
    show ?thesis
      using es ms by (auto simp: m Cons split: option.split)
  qed
next
  case (4 n s)
  obtain m' where m: "m = Suc m'" using "4.prems" by (cases m) auto
  have v: "parse_value n s = parse_value m' s" using "4.IH"(1) [of m'] "4.prems" m by simp
  have "parse_elems n r2 = parse_elems m' r2"
    if "parse_value n s = Some (j1, r1)" "expect (CHR '']'') r1 = None" "expect (CHR '','') r1 = Some r2"
    for j1 r1 r2
    using "4.IH"(2) [OF that(1) refl that(2,3), of m'] parse_length(1) [OF that(1)]
      expect_length [OF that(3)] "4.prems" m by simp
  then show ?case by (auto simp: m v [symmetric] split: option.split)
next
  case (6 n s)
  obtain m' where m: "m = Suc m'" using "6.prems" by (cases m) auto
  have v: "parse_value n s3 = parse_value m' s3"
    if "expect dquote s = Some s1" "parse_str 0 s1 = Some (k, s2)" "expect (CHR '':'') s2 = Some s3"
    for s1 k s2 s3
    using "6.IH"(1) [OF that(1,2) refl that(3), of m'] expect_length [OF that(1)]
      parse_str_length [OF that(2)] expect_length [OF that(3)] "6.prems" m by simp
  have ms: "parse_members n r2 = parse_members m' r2"
    if "expect dquote s = Some s1" "parse_str 0 s1 = Some (k, s2)" "expect (CHR '':'') s2 = Some s3"
      "parse_value n s3 = Some (v, r1)" "expect (CHR ''}'') r1 = None" "expect (CHR '','') r1 = Some r2"
    for s1 k s2 s3 v r1 r2
    using "6.IH"(2) [OF that(1,2) refl that(3,4) refl that(5,6), of m'] expect_length [OF that(1)]
      parse_str_length [OF that(2)] expect_length [OF that(3)] parse_length(1) [OF that(4)]
      expect_length [OF that(6)] "6.prems" m by simp
  show ?case
    using v ms by (auto simp: m split: bind_split option.split)
qed auto

section \<open>Strings\<close>

text \<open>The strings whose round trip is proved: bytes below 128 (Go's guids and names are such).\<close>

definition ascii :: "bytes \<Rightarrow> bool" where
  "ascii s \<longleftrightarrow> (\<forall>c \<in> set s. bval c < 128)"

lemma ascii_simps [simp]: "ascii []" "ascii (c # s) \<longleftrightarrow> bval c < 128 \<and> ascii s"
  "ascii (s @ t) \<longleftrightarrow> ascii s \<and> ascii t"
  by (auto simp: ascii_def)

lemma hex_val_char: "d < 16 \<Longrightarrow> hex_val (hex_char d) = Some d"
  by (auto simp: hex_val_def hex_char_def Let_def)

lemma escape_u00:
  assumes "bval c < 128"
  shows "parse_escape (CHR ''u'' # CHR ''0'' # CHR ''0'' # hex_char (bval c div 16) # hex_char (bval c mod 16) # r)
    = Some ([c], r)"
proof -
  have "hex_val (CHR ''0'') = Some 0" by (simp add: hex_val_def)
  moreover have "bval c div 16 < 16" using assms by simp
  ultimately show ?thesis
    using assms
    by (simp add: parse_escape_def unicode_escape_def hex4_def hex_val_char is_surrogate_def encode_rune_def)
qed

lemma parse_escape_ascii:
  assumes "bval c < 128"
  shows "parse_str 0 (escape_ascii c @ r) = prepend [c] (parse_str 0 r)"
proof -
  have neq: "backslash \<noteq> dquote" by simp
  consider (esc) "c = backslash \<or> c = dquote" | (nl) "c = CHR 0x0A" | (cr) "c = CHR 0x0D"
    | (u) "c \<notin> {backslash, dquote, CHR 0x0A, CHR 0x0D}"
        "bval c < 32 \<or> c = CHR ''<'' \<or> c = CHR ''>'' \<or> c = CHR ''&''"
    | (lit) "c \<notin> {backslash, dquote, CHR 0x0A, CHR 0x0D}"
        "\<not> (bval c < 32 \<or> c = CHR ''<'' \<or> c = CHR ''>'' \<or> c = CHR ''&'')"
    by blast
  then show ?thesis
  proof cases
    case esc
    then show ?thesis
      by (auto simp: escape_ascii_def parse_str.simps(3) parse_escape_def simple_escape_def)
  next
    case u
    then show ?thesis using assms
      by (simp add: escape_ascii_def parse_str.simps(3) [of backslash] escape_u00)
  next
    case lit
    then show ?thesis using assms
      by (simp add: escape_ascii_def parse_str.simps(3))
  qed (simp_all add: escape_ascii_def parse_str.simps(3) parse_escape_def simple_escape_def)
qed

lemma parse_escape_body:
  "ascii s \<Longrightarrow> parse_str 0 (escape_body 0 0 s @ dquote # rest) = Some (s, rest)"
proof (induction s)
  case Nil
  then show ?case by (simp add: parse_str.simps(3))
next
  case (Cons c s)
  then show ?case by (simp add: parse_escape_ascii prepend_def)
qed

section \<open>Numbers\<close>

definition number_lit :: "string \<Rightarrow> bool" where
  "number_lit l \<longleftrightarrow> scan_number l = Some (l, [])"

definition num_end :: "bytes \<Rightarrow> bool" where
  "num_end s = (case s of [] \<Rightarrow> True
     | c # _ \<Rightarrow> \<not> is_digit c \<and> c \<noteq> CHR ''.'' \<and> c \<noteq> CHR ''e'' \<and> c \<noteq> CHR ''E'')"

lemma digits_append:
  assumes "num_end r"
  shows "takeWhile is_digit (s @ r) = takeWhile is_digit s"
    and "dropWhile is_digit (s @ r) = dropWhile is_digit s @ r"
proof -
  have r: "takeWhile is_digit r = []" "dropWhile is_digit r = r"
    using assms by (auto simp: num_end_def split: list.splits)
  show "takeWhile is_digit (s @ r) = takeWhile is_digit s"
    "dropWhile is_digit (s @ r) = dropWhile is_digit s @ r"
    using r by (induction s) auto
qed

lemma digits_end:
  assumes "dropWhile is_digit ds = []" and "num_end r"
  shows "takeWhile is_digit (ds @ r) = ds" and "dropWhile is_digit (ds @ r) = r"
    and "takeWhile is_digit ds = ds"
proof -
  have "takeWhile is_digit ds = ds" using assms(1) by (metis append_Nil2 takeWhile_dropWhile_id)
  then show "takeWhile is_digit (ds @ r) = ds" "dropWhile is_digit (ds @ r) = r" "takeWhile is_digit ds = ds"
    using assms(1) digits_append [OF assms(2), of ds] by simp_all
qed

lemma scan_exp_append:
  assumes "scan_exp s = Some (l, [])" and "num_end r"
  shows "scan_exp (s @ r) = Some (s, r)"
proof (cases s)
  case Nil
  with assms show ?thesis by (auto simp: scan_exp_def num_end_def split: list.splits)
next
  case (Cons e s1)
  then have e: "e = CHR ''e'' \<or> e = CHR ''E''"
    using assms(1) by (auto simp: scan_exp_def split: if_splits)
  show ?thesis
  proof (cases s1)
    case Nil
    with Cons e assms show ?thesis by (auto simp: scan_exp_def)
  next
    case (Cons c cs)
    with \<open>s = e # s1\<close> e assms digits_end [of s1 r] digits_end [of cs r] show ?thesis
      by (auto simp: scan_exp_def Let_def split: if_splits)
  qed
qed

lemma scan_frac_append:
  assumes "scan_frac s = Some (l, [])" and "num_end r"
  shows "scan_frac (s @ r) = Some (s, r)"
proof (cases s)
  case Nil
  then show ?thesis using scan_exp_append [of "[]" "[]" r] assms
    by (auto simp: scan_frac_def scan_exp_def num_end_def split: list.splits)
next
  case (Cons c s1)
  show ?thesis
  proof (cases "c = CHR ''.''")
    case False
    with Cons assms scan_exp_append [of s l r] show ?thesis by (simp add: scan_frac_def)
  next
    case True
    define ds where "ds = takeWhile is_digit s1"
    define t where "t = dropWhile is_digit s1"
    have s1: "s1 = ds @ t" by (simp add: ds_def t_def)
    from Cons True assms(1) obtain l' where "ds \<noteq> []" and t: "scan_exp t = Some (l', [])"
      by (auto simp: scan_frac_def Let_def ds_def t_def prepend_Some split: if_splits)
    have ta: "scan_exp (t @ r) = Some (t, r)" by (rule scan_exp_append [OF t assms(2)])
    have "takeWhile is_digit (s1 @ r) = ds" "dropWhile is_digit (s1 @ r) = t @ r"
      using digits_append [OF assms(2), of s1] by (simp_all add: ds_def t_def)
    with Cons True ta \<open>ds \<noteq> []\<close> show ?thesis
      by (simp add: scan_frac_def Let_def prepend_def s1)
  qed
qed

lemma scan_nat_append:
  assumes "scan_nat s = Some (l, [])" and "num_end r"
  shows "scan_nat (s @ r) = Some (s, r)"
proof (cases s)
  case Nil
  with assms show ?thesis by (simp add: scan_nat_def)
next
  case (Cons c s1)
  show ?thesis
  proof (cases "c = CHR ''0''")
    case True
    with Cons assms scan_frac_append [of s1 _ r] show ?thesis
      by (auto simp: scan_nat_def prepend_Some)
  next
    case False
    define ds where "ds = takeWhile is_digit s1"
    define t where "t = dropWhile is_digit s1"
    have s1: "s1 = ds @ t" by (simp add: ds_def t_def)
    from Cons False assms(1) obtain l' where c: "is_digit c" and t: "scan_frac t = Some (l', [])"
      by (auto simp: scan_nat_def ds_def t_def prepend_Some split: if_splits)
    have ta: "scan_frac (t @ r) = Some (t, r)" by (rule scan_frac_append [OF t assms(2)])
    have "takeWhile is_digit (s1 @ r) = ds" "dropWhile is_digit (s1 @ r) = t @ r"
      using digits_append [OF assms(2), of s1] by (simp_all add: ds_def t_def)
    with Cons False c ta show ?thesis
      by (simp add: scan_nat_def prepend_def s1)
  qed
qed

lemma scan_number_append:
  assumes "number_lit l" and "num_end r"
  shows "scan_number (l @ r) = Some (l, r)"
proof (cases l)
  case Nil
  with assms show ?thesis by (simp add: number_lit_def scan_number_def)
next
  case (Cons c cs)
  with assms scan_nat_append [of cs _ r] scan_nat_append [of l _ r] show ?thesis
    by (auto simp: number_lit_def scan_number_def prepend_Some split: if_splits)
qed

lemma number_lit_first:
  assumes "number_lit l"
  obtains c cs where "l = c # cs" and "c = CHR ''-'' \<or> is_digit c"
proof (cases l)
  case Nil
  with assms show ?thesis by (simp add: number_lit_def scan_number_def)
next
  case (Cons c cs)
  with assms that [OF Cons] show ?thesis
    by (auto simp: number_lit_def scan_number_def scan_nat_def is_digit_def split: if_splits)
qed

lemma nat_digits_hd_nonzero: "0 < n \<Longrightarrow> hd (nat_digits n) \<noteq> CHR ''0''"
proof (induction n rule: nat_digits.induct)
  case (1 n)
  show ?case
  proof (cases "n < 10")
    case True
    then have "(of_char (digit_char n) :: nat) = 48 + n" by (rule of_char_digit_char)
    with True "1.prems" show ?thesis by (auto simp: nat_digits.simps [of n])
  next
    case False
    with 1 show ?thesis by (simp add: nat_digits.simps [of n])
  qed
qed

lemma is_digit_char: "d < 10 \<Longrightarrow> is_digit (digit_char d)"
  by (simp add: is_digit_def of_char_digit_char)

lemma nat_digits_is_digit: "c \<in> set (nat_digits n) \<Longrightarrow> is_digit c"
  using nat_digits_digit is_digit_char by blast

lemma scan_nat_digits: "scan_nat (nat_digits n) = Some (nat_digits n, [])"
proof (cases "n = 0")
  case True
  have "digit_char 0 = CHR ''0''" by code_simp
  with True show ?thesis
    by (simp add: nat_digits.simps scan_nat_def scan_frac_def scan_exp_def prepend_def)
next
  case False
  obtain c cs where c: "nat_digits n = c # cs" using nat_digits_nonempty [of n] by (cases "nat_digits n") auto
  have "c \<noteq> CHR ''0''" using nat_digits_hd_nonzero [of n] False c by simp
  moreover have d: "is_digit c" "\<forall>x \<in> set cs. is_digit x" using nat_digits_is_digit [of _ n] c by auto
  moreover have t: "takeWhile is_digit cs = cs" "dropWhile is_digit cs = []"
    using d(2) by (simp_all add: takeWhile_eq_all_conv dropWhile_eq_Nil_conv)
  ultimately show ?thesis
    by (simp only: c scan_nat_def list.case t) (simp add: scan_frac_def scan_exp_def prepend_def)
qed

lemma number_lit_digits [simp]: "number_lit (nat_digits n)"
proof -
  obtain c cs where c: "nat_digits n = c # cs" using nat_digits_nonempty [of n] by (cases "nat_digits n") auto
  then have "c \<noteq> CHR ''-''" using nat_digits_hd(1) [of n] by auto
  then show ?thesis using scan_nat_digits [of n] by (simp add: number_lit_def scan_number_def c)
qed

lemma number_lit_Itoa [simp]: "number_lit (Itoa n)"
  using number_lit_digits [of "nat n"] scan_nat_digits [of "nat (- n)"]
  by (simp add: Itoa_def number_lit_def scan_number_def prepend_def)

section \<open>Values\<close>

text \<open>The trees whose round trip is proved: ASCII strings and keys, numbers with a valid literal.\<close>

fun json_ok :: "json \<Rightarrow> bool" where
  "json_ok JNull = True"
| "json_ok (JBool b) = True"
| "json_ok (JNum l) = number_lit l"
| "json_ok (JStr s) = ascii s"
| "json_ok (JArr js) = (\<forall>j \<in> set js. json_ok j)"
| "json_ok (JObj kvs) = (\<forall>kv \<in> set kvs. ascii (fst kv) \<and> json_ok (snd kv))"

text \<open>What may follow a value in a text: nothing, a comma or a closing bracket.\<close>

definition value_end :: "bytes \<Rightarrow> bool" where
  "value_end s = (case s of [] \<Rightarrow> True | c # _ \<Rightarrow> c = CHR '','' \<or> c = CHR '']'' \<or> c = CHR ''}'')"

lemma value_end_num_end: "value_end s \<Longrightarrow> num_end s"
  by (auto simp: value_end_def num_end_def is_digit_def split: list.splits)

definition value_start :: "char \<Rightarrow> bool" where
  "value_start c \<longleftrightarrow> \<not> is_ws c \<and> c \<noteq> CHR '']'' \<and> c \<noteq> CHR ''}''"

lemma json_print_start: "json_ok j \<Longrightarrow> \<exists>c cs. json_print j = c # cs \<and> value_start c"
  by (cases j)
    (auto simp: json_quote_def value_start_def is_ws_def is_digit_def elim!: number_lit_first)

lemma json_print_skip: "json_ok j \<Longrightarrow> skip_ws (json_print j @ r) = json_print j @ r"
  using json_print_start [of j] by (auto simp: skip_ws_def value_start_def)

lemma expect_Cons: "\<not> is_ws d \<Longrightarrow> expect c (d # ds) = (if d = c then Some ds else None)"
  by (simp add: expect_def skip_ws_def)

lemma ws_punct [simp]: "\<not> is_ws CHR '',''" "\<not> is_ws CHR '']''" "\<not> is_ws CHR ''}''" "\<not> is_ws CHR '':''"
  "\<not> is_ws dquote" "\<not> is_ws CHR ''{''" "\<not> is_ws CHR ''[''"
  by (simp_all add: is_ws_def)

lemma expect_value: "json_ok j \<Longrightarrow> c = CHR '']'' \<or> c = CHR ''}'' \<Longrightarrow> expect c (json_print j @ r) = None"
  using json_print_start [of j] by (auto simp: value_start_def expect_Cons)

definition member_text :: "bytes \<times> json \<Rightarrow> bytes" where
  "member_text kv = json_quote (fst kv) @ CHR '':'' # json_print (snd kv)"

lemma parse_elems_print:
  assumes "\<And>j m r. j \<in> set js \<Longrightarrow> length (json_print j) \<le> m \<Longrightarrow> value_end r \<Longrightarrow>
      parse_value m (json_print j @ r) = Some (j, r)"
    and "\<forall>j \<in> set js. json_ok j" and "js \<noteq> []"
    and "Suc (length (strings_Join '','' (map json_print js))) \<le> n"
  shows "parse_elems n (strings_Join '','' (map json_print js) @ CHR '']'' # r) = Some (js, r)"
  using assms
proof (induction js arbitrary: n)
  case Nil
  then show ?case by simp
next
  case (Cons j js)
  obtain m where n: "n = Suc m" using Cons.prems(4) by (cases n) auto
  show ?case
  proof (cases js)
    case Nil
    with Cons.prems show ?thesis
      using Cons.prems(1) [of j m "CHR '']'' # r"] by (simp add: n value_end_def expect_Cons)
  next
    case js: (Cons j' js')
    then have j: "strings_Join '','' (map json_print (j # js))
        = json_print j @ CHR '','' # strings_Join '','' (map json_print js)" by simp
    have "parse_value m (json_print j @ CHR '','' # strings_Join '','' (map json_print js) @ CHR '']'' # r)
        = Some (j, CHR '','' # strings_Join '','' (map json_print js) @ CHR '']'' # r)"
      using Cons.prems(1) [of j m] Cons.prems(4) j n by (simp add: value_end_def)
    moreover have "parse_elems m (strings_Join '','' (map json_print js) @ CHR '']'' # r) = Some (js, r)"
      using Cons.prems j n js by (intro Cons.IH) auto
    ultimately show ?thesis by (simp add: j n expect_Cons del: list.map)
  qed
qed

lemma parse_members_print:
  assumes "\<And>kv m r. kv \<in> set kvs \<Longrightarrow> length (json_print (snd kv)) \<le> m \<Longrightarrow> value_end r \<Longrightarrow>
      parse_value m (json_print (snd kv) @ r) = Some (snd kv, r)"
    and "\<forall>kv \<in> set kvs. ascii (fst kv) \<and> json_ok (snd kv)" and "kvs \<noteq> []"
    and "Suc (length (strings_Join '','' (map member_text kvs))) \<le> n"
  shows "parse_members n (strings_Join '','' (map member_text kvs) @ CHR ''}'' # r) = Some (kvs, r)"
  using assms
proof (induction kvs arbitrary: n)
  case Nil
  then show ?case by simp
next
  case (Cons kv kvs)
  obtain m where n: "n = Suc m" using Cons.prems(4) by (cases n) auto
  have k: "parse_str 0 (escape_body 0 0 (fst kv) @ dquote # t) = Some (fst kv, t)" for t
    using Cons.prems(2) by (simp add: parse_escape_body)
  show ?case
  proof (cases kvs)
    case Nil
    with Cons.prems show ?thesis
      using Cons.prems(1) [of kv m "CHR ''}'' # r"] k
      by (simp add: n value_end_def expect_Cons member_text_def json_quote_def)
  next
    case kvs: (Cons kv' kvs')
    define t where "t = strings_Join '','' (map member_text kvs) @ CHR ''}'' # r"
    have j: "strings_Join '','' (map member_text (kv # kvs))
        = member_text kv @ CHR '','' # strings_Join '','' (map member_text kvs)" using kvs by simp
    have "length (json_print (snd kv)) \<le> m"
      using Cons.prems(4) unfolding j by (simp add: n member_text_def)
    then have v: "parse_value m (json_print (snd kv) @ CHR '','' # t) = Some (snd kv, CHR '','' # t)"
      by (intro Cons.prems(1)) (simp_all add: value_end_def)
    have ms: "parse_members m t = Some (kvs, r)"
      unfolding t_def using Cons.prems j n kvs by (intro Cons.IH) auto
    have "strings_Join '','' (map member_text (kv # kvs)) @ CHR ''}'' # r
        = dquote # escape_body 0 0 (fst kv) @ dquote # CHR '':'' # json_print (snd kv) @ CHR '','' # t"
      by (simp add: j t_def member_text_def json_quote_def del: list.map)
    then show ?thesis by (simp add: n expect_Cons k v ms del: list.map)
  qed
qed

lemma parse_value_print:
  "json_ok j \<Longrightarrow> length (json_print j) \<le> n \<Longrightarrow> value_end r \<Longrightarrow>
   parse_value n (json_print j @ r) = Some (j, r)"
proof (induction j arbitrary: n r)
  case JNull
  then obtain m where "n = Suc m" by (cases n) auto
  with JNull show ?case by (simp add: skip_ws_def is_ws_def keyword_def)
next
  case (JBool b)
  then obtain m where "n = Suc m" by (cases n) (auto split: if_splits)
  with JBool show ?case by (simp add: skip_ws_def is_ws_def keyword_def)
next
  case (JNum l)
  then have l: "number_lit l" by simp
  then obtain c cs where c: "l = c # cs" "c = CHR ''-'' \<or> is_digit c" by (rule number_lit_first)
  then obtain m where n: "n = Suc m" using JNum by (cases n) auto
  have "\<not> is_ws c" "c \<notin> {CHR ''{'', CHR ''['', dquote, CHR ''t'', CHR ''f'', CHR ''n''}"
    using c(2) by (auto simp: is_digit_def is_ws_def)
  with c(1) n scan_number_append [OF l value_end_num_end [OF JNum(3)]]
  show ?case by (simp add: skip_ws_def)
next
  case (JStr s)
  then obtain m where "n = Suc m" by (cases n) (auto simp: json_quote_def)
  with JStr show ?case by (simp add: skip_ws_def json_quote_def parse_escape_body)
next
  case (JArr js)
  then obtain m where n: "n = Suc m" by (cases n) auto
  show ?case
  proof (cases "js = []")
    case True
    then show ?thesis by (simp add: n skip_ws_def expect_Cons)
  next
    case False
    then obtain j js' where js: "js = j # js'" by (cases js) auto
    have "expect (CHR '']'') (strings_Join '','' (map json_print js) @ CHR '']'' # r) = None"
      using JArr.prems(1) by (cases js') (simp_all add: js expect_value)
    moreover have "parse_elems m (strings_Join '','' (map json_print js) @ CHR '']'' # r) = Some (js, r)"
      using JArr n False by (intro parse_elems_print) auto
    ultimately show ?thesis by (simp add: n skip_ws_def)
  qed
next
  case (JObj kvs)
  then obtain m where n: "n = Suc m" by (cases n) auto
  have p: "json_print (JObj kvs) = CHR ''{'' # strings_Join '','' (map member_text kvs) @ ''}''"
    by (simp add: member_text_def [abs_def])
  show ?case
  proof (cases "kvs = []")
    case True
    then show ?thesis by (simp add: n skip_ws_def expect_Cons)
  next
    case False
    then obtain kv kvs' where kvs: "kvs = kv # kvs'" by (cases kvs) auto
    have "expect (CHR ''}'') (strings_Join '','' (map member_text kvs) @ CHR ''}'' # r) = None"
      by (cases kvs') (simp_all add: kvs member_text_def json_quote_def expect_Cons)
    moreover have "parse_members m (strings_Join '','' (map member_text kvs) @ CHR ''}'' # r) = Some (kvs, r)"
    proof (rule parse_members_print)
      show "Suc (length (strings_Join '','' (map member_text kvs))) \<le> m"
        using JObj.prems(2) n p by (simp del: json_print.simps)
      show "parse_value m' (json_print (snd kv') @ r') = Some (snd kv', r')"
        if "kv' \<in> set kvs" "length (json_print (snd kv')) \<le> m'" "value_end r'" for kv' m' r'
        using JObj.IH [of kv' "snd kv'"] JObj.prems(1) that by (cases kv') auto
    qed (use JObj.prems False in auto)
    ultimately show ?thesis unfolding p by (simp add: n skip_ws_def)
  qed
qed

theorem json_roundtrip: "json_ok j \<Longrightarrow> json_parse (json_print j) = Some j"
  using parse_value_print [of j "Suc (2 * length (json_print j))" "[]"]
  by (simp add: json_parse_def value_end_def skip_ws_def)

end
