(* ===== verification/JsonCodec.thy ===== *)
theory JsonCodec
  imports JsonRoundtrip
begin

text \<open>
  Go's reflective decoding of JSON into a struct, as tables of field decoders: a key selects the
  field with its name (or, failing that, the first one equal to it up to case folding), unknown
  keys are skipped, \<open>null\<close> leaves a scalar alone and makes a slice or a pointer \<open>nil\<close>, a value of
  the wrong kind or out of range records an error and decoding goes on, and an \<open>UnmarshalJSON\<close>
  method that fails stops it.
\<close>

section \<open>Decoders\<close>

text \<open>
  The state of a decoding: a value and whether a type error was recorded, an abort with an error,
  or a panic (a nil dereference inside an \<open>UnmarshalJSON\<close> method is not recovered).
\<close>

datatype 'a dec = Dec 'a bool | DecAbort error | DecPanic

type_synonym 'a decoder = "'a \<Rightarrow> json \<Rightarrow> 'a dec"

fun dec_map :: "('a \<Rightarrow> 'b) \<Rightarrow> 'a dec \<Rightarrow> 'b dec" where
  "dec_map f (Dec x e) = Dec (f x) e"
| "dec_map f (DecAbort err) = DecAbort err"
| "dec_map f DecPanic = DecPanic"

text \<open>Go on with the decoded value; a recorded error stays recorded.\<close>

fun dec_then :: "'a dec \<Rightarrow> ('a \<Rightarrow> 'b dec) \<Rightarrow> 'b dec" where
  "dec_then (Dec x e) f = (case f x of Dec y e' \<Rightarrow> Dec y (e \<or> e') | d \<Rightarrow> d)"
| "dec_then (DecAbort err) f = DecAbort err"
| "dec_then DecPanic f = DecPanic"

lemma dec_then_ok [simp]: "dec_then (Dec x False) f = f x"
  by (simp split: dec.split)

declare dec_then.simps(1) [simp del]

definition dec_string :: "string decoder" where
  "dec_string old j = (case j of JStr s \<Rightarrow> Dec s False | JNull \<Rightarrow> Dec old False | _ \<Rightarrow> Dec old True)"

definition dec_bool :: "bool decoder" where
  "dec_bool old j = (case j of JBool b \<Rightarrow> Dec b False | JNull \<Rightarrow> Dec old False | _ \<Rightarrow> Dec old True)"

text \<open>\<open>int\<close> and \<open>int64\<close>: the literal must be an integer of 64 bits.\<close>

definition dec_int :: "int decoder" where
  "dec_int old j =
     (case j of
        JNum lit \<Rightarrow> (case ParseInt lit of Some n \<Rightarrow> Dec n False | None \<Rightarrow> Dec old True)
      | JNull \<Rightarrow> Dec old False
      | _ \<Rightarrow> Dec old True)"

definition dec_word :: "'w::len word decoder" where
  "dec_word old j =
     (case j of
        JNum lit \<Rightarrow>
          (case ParseUint lit of
             Some n \<Rightarrow> if n < 2 ^ LENGTH('w) then Dec (of_nat n) False else Dec old True
           | None \<Rightarrow> Dec old True)
      | JNull \<Rightarrow> Dec old False
      | _ \<Rightarrow> Dec old True)"

definition dec_ptr :: "'a decoder \<Rightarrow> 'a \<Rightarrow> 'a option decoder" where
  "dec_ptr d zero old j =
     (case j of
        JNull \<Rightarrow> Dec None False
      | _ \<Rightarrow> dec_map Some (d (case old of Some x \<Rightarrow> x | None \<Rightarrow> zero) j))"

text \<open>
  Array elements are decoded onto the elements the slice already had, the others onto the zero
  value, as \<open>encoding/json\<close> reuses the backing array.
\<close>

fun dec_elems :: "'a decoder \<Rightarrow> 'a \<Rightarrow> 'a list \<Rightarrow> json list \<Rightarrow> 'a list dec" where
  "dec_elems d zero olds [] = Dec [] False"
| "dec_elems d zero olds (j # js) =
     dec_then (d (case olds of [] \<Rightarrow> zero | x # _ \<Rightarrow> x) j)
       (\<lambda>x. dec_map (\<lambda>xs. x # xs) (dec_elems d zero (drop 1 olds) js))"

definition dec_slice :: "'a decoder \<Rightarrow> 'a \<Rightarrow> 'a slice decoder" where
  "dec_slice d zero old j =
     (case j of
        JNull \<Rightarrow> Dec None False
      | JArr js \<Rightarrow> dec_map Some (dec_elems d zero (slice_elems old) js)
      | _ \<Rightarrow> Dec old True)"

section \<open>Structs\<close>

definition lower :: "char \<Rightarrow> char" where
  "lower c = (if 65 \<le> bval c \<and> bval c \<le> 90 then char_of (bval c + 32) else c)"

text \<open>
  \<open>bytes.EqualFold\<close> of a lower-case ASCII field name with a key: besides the ASCII case, the
  Kelvin sign folds to \<open>k\<close> and the long s to \<open>s\<close>.
\<close>

fun fold_eq :: "string \<Rightarrow> bytes \<Rightarrow> bool" where
  "fold_eq [] t = (t = [])"
| "fold_eq (c # cs) [] = False"
| "fold_eq (c # cs) (d # ds) =
     (if c = CHR ''k'' \<and> d = CHR 0xE2 \<and> take 2 ds = [CHR 0x84, CHR 0xAA] then fold_eq cs (drop 2 ds)
      else if c = CHR ''s'' \<and> d = CHR 0xC5 \<and> take 1 ds = [CHR 0xBF] then fold_eq cs (drop 1 ds)
      else lower d = c \<and> fold_eq cs ds)"

type_synonym 'r fields = "(string \<times> 'r decoder) list"

definition find_field :: "'r fields \<Rightarrow> bytes \<Rightarrow> 'r decoder option" where
  "find_field tbl k =
     (case map_of tbl k of
        Some d \<Rightarrow> Some d
      | None \<Rightarrow> map_option snd (find (\<lambda>f. fold_eq (fst f) k) tbl))"

fun dec_members :: "'r fields \<Rightarrow> 'r \<Rightarrow> (bytes \<times> json) list \<Rightarrow> 'r dec" where
  "dec_members tbl r [] = Dec r False"
| "dec_members tbl r ((k, j) # kvs) =
     (case find_field tbl k of
        None \<Rightarrow> dec_members tbl r kvs
      | Some d \<Rightarrow> dec_then (d r j) (\<lambda>r'. dec_members tbl r' kvs))"

definition dec_struct :: "'r fields \<Rightarrow> 'r decoder" where
  "dec_struct tbl r j =
     (case j of JObj kvs \<Rightarrow> dec_members tbl r kvs | JNull \<Rightarrow> Dec r False | _ \<Rightarrow> Dec r True)"

text \<open>A field: its name, how to read and write it in the struct, and the decoder of its type.\<close>

definition field :: "string \<Rightarrow> ('r \<Rightarrow> 'a) \<Rightarrow> (('a \<Rightarrow> 'a) \<Rightarrow> 'r \<Rightarrow> 'r) \<Rightarrow> 'a decoder \<Rightarrow> string \<times> 'r decoder" where
  "field name get upd d = (name, \<lambda>r j. dec_map (\<lambda>x. upd (\<lambda>_. x) r) (d (get r) j))"

text \<open>\<open>json.Unmarshal\<close> into a zero value.\<close>

definition json_Unmarshal :: "'a decoder \<Rightarrow> 'a \<Rightarrow> bytes \<Rightarrow> 'a outcome" where
  "json_Unmarshal d zero payload =
     (case json_parse payload of
        None \<Rightarrow> Err JSONSyntaxError
      | Some j \<Rightarrow>
          (case d zero j of
             Dec x False \<Rightarrow> Ok x
           | Dec x True \<Rightarrow> Err JSONTypeError
           | DecAbort e \<Rightarrow> Err e
           | DecPanic \<Rightarrow> Panic))"

section \<open>Encoding\<close>

definition enc_int :: "int \<Rightarrow> json" where
  "enc_int n = JNum (Itoa n)"

definition enc_word :: "'w::len word \<Rightarrow> json" where
  "enc_word w = JNum (nat_digits (unat w))"

definition enc_slice :: "('a \<Rightarrow> json) \<Rightarrow> 'a slice \<Rightarrow> json" where
  "enc_slice e s = (case s of None \<Rightarrow> JNull | Some xs \<Rightarrow> JArr (map e xs))"

section \<open>Round trips of the building blocks\<close>

text \<open>\<open>rt d e x\<close>: decoding the encoding of \<open>x\<close> gives \<open>x\<close>, onto whatever was there before.\<close>

definition rt :: "'a decoder \<Rightarrow> ('a \<Rightarrow> json) \<Rightarrow> 'a \<Rightarrow> bool" where
  "rt d e x \<longleftrightarrow> (\<forall>old. d old (e x) = Dec x False)"

lemma dec_string_enc [simp]: "dec_string old (JStr s) = Dec s False"
  by (simp add: dec_string_def)

lemma dec_bool_enc [simp]: "dec_bool old (JBool b) = Dec b False"
  by (simp add: dec_bool_def)

lemma dec_int_enc [simp]: "int64_ok n \<Longrightarrow> dec_int old (enc_int n) = Dec n False"
  by (simp add: dec_int_def enc_int_def)

lemma dec_word_enc:
  assumes "LENGTH('w::len) \<le> 64"
  shows "dec_word old (enc_word (w :: 'w word)) = Dec w False"
proof -
  have "unat w < 2 ^ LENGTH('w)" by (rule unsigned_less)
  moreover have "(2 :: nat) ^ LENGTH('w) \<le> 2 ^ 64" using assms by (intro power_increasing) simp_all
  ultimately have "unat w < 2 ^ 64" by (rule order_less_le_trans)
  then have "ParseUint (nat_digits (unat w)) = Some (unat w)" by (rule ParseUint_digits)
  then show ?thesis
    using \<open>unat w < 2 ^ LENGTH('w)\<close> by (simp add: dec_word_def enc_word_def)
qed

lemma dec_word_enc_32_64 [simp]:
  "dec_word old (enc_word (w :: 32 word)) = Dec w False"
  "dec_word old' (enc_word (v :: 64 word)) = Dec v False"
  by (simp_all add: dec_word_enc)

lemma dec_ptr_null [simp]: "dec_ptr d z old JNull = Dec None False"
  by (simp add: dec_ptr_def)

lemma dec_ptr_value: "j \<noteq> JNull \<Longrightarrow> dec_ptr d z old j = dec_map Some (d (case old of Some x \<Rightarrow> x | None \<Rightarrow> z) j)"
  by (cases j) (simp_all add: dec_ptr_def)

lemma dec_elems_enc:
  "\<forall>x \<in> set xs. \<forall>old. d old (e x) = Dec x False \<Longrightarrow> dec_elems d z olds (map e xs) = Dec xs False"
  by (induction xs arbitrary: olds) auto

lemma dec_slice_enc:
  "\<forall>x \<in> set (slice_elems s). \<forall>old. d old (e x) = Dec x False \<Longrightarrow>
   dec_slice d z old (enc_slice e s) = Dec s False"
  by (cases s) (simp_all add: dec_slice_def enc_slice_def dec_elems_enc)

lemma find_field_Cons:
  "find_field ((n, d) # tbl) k =
     (if k = n then Some d
      else case map_of tbl k of
             Some d' \<Rightarrow> Some d'
           | None \<Rightarrow> if fold_eq n k then Some d else map_option snd (find (\<lambda>f. fold_eq (fst f) k) tbl))"
  by (auto simp: find_field_def split: option.split)

lemma find_field_exact: "map_of tbl k = Some d \<Longrightarrow> find_field tbl k = Some d"
  by (simp add: find_field_def)

lemma dec_members_exact:
  "map_of tbl k = Some d \<Longrightarrow>
   dec_members tbl r ((k, j) # kvs) = dec_then (d r j) (\<lambda>r'. dec_members tbl r' kvs)"
  by (simp add: find_field_exact)

lemma dec_struct_JObj [simp]: "dec_struct tbl r (JObj kvs) = dec_members tbl r kvs"
  by (simp add: dec_struct_def)

lemma json_Unmarshal_print:
  "json_ok j \<Longrightarrow> d zero j = Dec x False \<Longrightarrow> json_Unmarshal d zero (json_print j) = Ok x"
  by (simp add: json_Unmarshal_def json_roundtrip)

lemma json_ok_enc [simp]:
  "json_ok (enc_int n)" "json_ok (enc_word w)"
  "json_ok (enc_slice e s) \<longleftrightarrow> (\<forall>x \<in> set (slice_elems s). json_ok (e x))"
  by (cases s; simp add: enc_int_def enc_word_def enc_slice_def)+

lemma enc_neq_JNull [simp]: "enc_int n \<noteq> JNull" "enc_word w \<noteq> JNull"
  by (simp_all add: enc_int_def enc_word_def)

text \<open>What the decoders depend on: the congruence used for the recursive action decoder.\<close>

lemma dec_elems_cong:
  "(\<And>old j. j \<in> set js \<Longrightarrow> d old j = d' old j) \<Longrightarrow> dec_elems d z olds js = dec_elems d' z olds js"
proof (induction js arbitrary: olds)
  case Nil
  then show ?case by simp
next
  case (Cons j js)
  have "dec_elems d z os js = dec_elems d' z os js" for os
    by (rule Cons.IH) (simp add: Cons.prems)
  with Cons.prems [of j] show ?case by simp
qed

lemma find_field_rel:
  assumes "list_all2 (\<lambda>f g. fst f = fst g \<and> R (snd f) (snd g)) tbl tbl'"
  shows "rel_option R (find_field tbl k) (find_field tbl' k)"
proof -
  have m: "rel_option R (map_of tbl k) (map_of tbl' k)"
    using assms by (induction rule: list_all2_induct) auto
  have f: "rel_option R (map_option snd (find (\<lambda>f. fold_eq (fst f) k) tbl))
      (map_option snd (find (\<lambda>f. fold_eq (fst f) k) tbl'))"
    using assms by (induction rule: list_all2_induct) auto
  show ?thesis
    using m f unfolding find_field_def
    by (cases "map_of tbl k"; cases "map_of tbl' k") auto
qed

lemma dec_members_cong:
  assumes "map fst tbl = map fst tbl'"
    and "\<And>k j i r. (k, j) \<in> set kvs \<Longrightarrow> i < length tbl \<Longrightarrow> snd (tbl ! i) r j = snd (tbl' ! i) r j"
  shows "dec_members tbl r kvs = dec_members tbl' r kvs"
proof -
  have len: "length tbl = length tbl'" using assms(1) by (metis length_map)
  have same: "rel_option (\<lambda>d d'. \<forall>r. d r j = d' r j) (find_field tbl k) (find_field tbl' k)"
    if "(k, j) \<in> set kvs" for k j
  proof (rule find_field_rel)
    show "list_all2 (\<lambda>f g. fst f = fst g \<and> (\<forall>r. snd f r j = snd g r j)) tbl tbl'"
      using assms(1) assms(2) [OF that] len
      by (auto simp: list_all2_conv_all_nth) (metis len nth_map)
  qed
  show ?thesis
    using same
  proof (induction kvs arbitrary: r)
    case Nil
    then show ?case by simp
  next
    case (Cons kv kvs)
    obtain k j where kv: "kv = (k, j)" by (cases kv)
    have "dec_members tbl r' kvs = dec_members tbl' r' kvs" for r'
      by (rule Cons.IH) (use Cons.prems in auto)
    with Cons.prems [of k j] kv show ?case
      by (cases "find_field tbl k"; cases "find_field tbl' k") auto
  qed
qed

end
