(* ===== verification/Actions.thy ===== *)
theory Actions
  imports JsonCodec
begin

text \<open>
  models/executor_action.go: the actions an executor runs, and their JSON. An action is written as
  an envelope naming its kind, with the action's own struct as payload; \<open>UnmarshalJSON\<close> reads the
  envelope, then the payload into the struct of that kind. The payload pointer of the envelope is
  dereferenced without a check, so an envelope of a known kind without \<open>args\<close> panics.
\<close>

section \<open>Data\<close>

record download_action =
  dl_From :: string
  dl_To :: string
  dl_Extract :: bool
  dl_CacheKey :: string

record upload_action =
  ul_To :: string
  ul_From :: string
  ul_Compress :: bool

record environment_variable =
  env_Name :: string
  env_Value :: string

record resource_limits =
  rl_Nofile :: "uint64 option"

record run_action =
  run_Path :: string
  run_Args :: "string slice"
  run_Env :: "environment_variable slice"
  run_Timeout :: int
  run_ResourceLimits :: resource_limits

record fetch_result_action =
  fr_File :: string

record health_request =
  hr_Method :: string
  hr_URL :: string

text \<open>
  \<open>ExecutorAction\<close> holds an \<open>interface{}\<close>. \<open>InvalidAction\<close> stands for the values \<open>MarshalJSON\<close>
  refuses: \<open>nil\<close> (the zero value) and a value of any other type.
\<close>

datatype executor_action =
    DownloadAction download_action
  | RunAction run_action
  | UploadAction upload_action
  | FetchResultAction fetch_result_action
  | EmitProgressAction executor_action string string string
  | TryAction executor_action
  | MonitorAction executor_action health_request health_request uint64 uint64
  | ParallelAction "executor_action list option"
  | InvalidAction

definition EmitProgressFor :: "executor_action \<Rightarrow> string \<Rightarrow> string \<Rightarrow> string \<Rightarrow> executor_action" where
  "EmitProgressFor action startMessage successMessage failureMessage =
     EmitProgressAction action startMessage successMessage failureMessage"

definition Try :: "executor_action \<Rightarrow> executor_action" where
  "Try action = TryAction action"

text \<open>A variadic call without arguments passes a \<open>nil\<close> slice.\<close>

definition Parallel :: "executor_action list \<Rightarrow> executor_action" where
  "Parallel actions = ParallelAction (if actions = [] then None else Some actions)"

section \<open>MarshalJSON\<close>

definition enc_download :: "download_action \<Rightarrow> json" where
  "enc_download a = JObj
     [(''from'', JStr (dl_From a)), (''to'', JStr (dl_To a)), (''extract'', JBool (dl_Extract a)),
      (''cache_key'', JStr (dl_CacheKey a))]"

definition enc_upload :: "upload_action \<Rightarrow> json" where
  "enc_upload a = JObj
     [(''to'', JStr (ul_To a)), (''from'', JStr (ul_From a)), (''compress'', JBool (ul_Compress a))]"

definition enc_env :: "environment_variable \<Rightarrow> json" where
  "enc_env v = JObj [(''name'', JStr (env_Name v)), (''value'', JStr (env_Value v))]"

definition enc_limits :: "resource_limits \<Rightarrow> json" where
  "enc_limits l = JObj (case rl_Nofile l of None \<Rightarrow> [] | Some n \<Rightarrow> [(''nofile'', enc_word n)])"

definition enc_run :: "run_action \<Rightarrow> json" where
  "enc_run a = JObj
     [(''path'', JStr (run_Path a)), (''args'', enc_slice JStr (run_Args a)),
      (''env'', enc_slice enc_env (run_Env a)), (''timeout'', enc_int (run_Timeout a)),
      (''resource_limits'', enc_limits (run_ResourceLimits a))]"

definition enc_fetch_result :: "fetch_result_action \<Rightarrow> json" where
  "enc_fetch_result a = JObj [(''file'', JStr (fr_File a))]"

definition enc_health :: "health_request \<Rightarrow> json" where
  "enc_health h = JObj [(''method'', JStr (hr_Method h)), (''url'', JStr (hr_URL h))]"

definition envelope :: "string \<Rightarrow> json \<Rightarrow> json" where
  "envelope name payload = JObj [(''action'', JStr name), (''args'', payload)]"

text \<open>\<open>None\<close> is the error return \<open>InvalidActionConversion\<close> (wrapped by the marshaller).\<close>

fun enc_action :: "executor_action \<Rightarrow> json option" where
  "enc_action (DownloadAction a) = Some (envelope ''download'' (enc_download a))"
| "enc_action (RunAction a) = Some (envelope ''run'' (enc_run a))"
| "enc_action (UploadAction a) = Some (envelope ''upload'' (enc_upload a))"
| "enc_action (FetchResultAction a) = Some (envelope ''fetch_result'' (enc_fetch_result a))"
| "enc_action (EmitProgressAction a sm su fm) =
     map_option (\<lambda>j. envelope ''emit_progress'' (JObj
       [(''action'', j), (''start_message'', JStr sm), (''success_message'', JStr su),
        (''failure_message'', JStr fm)])) (enc_action a)"
| "enc_action (TryAction a) = map_option (\<lambda>j. envelope ''try'' (JObj [(''action'', j)])) (enc_action a)"
| "enc_action (MonitorAction a hh uh ht ut) =
     map_option (\<lambda>j. envelope ''monitor'' (JObj
       [(''action'', j), (''healthy_hook'', enc_health hh), (''unhealthy_hook'', enc_health uh),
        (''healthy_threshold'', enc_word ht), (''unhealthy_threshold'', enc_word ut)])) (enc_action a)"
| "enc_action (ParallelAction None) = Some (envelope ''parallel'' (JObj [(''actions'', JNull)]))"
| "enc_action (ParallelAction (Some as)) =
     map_option (\<lambda>js. envelope ''parallel'' (JObj [(''actions'', JArr js)])) (those (map enc_action as))"
| "enc_action InvalidAction = None"

section \<open>UnmarshalJSON\<close>

definition download_fields :: "download_action fields" where
  "download_fields =
     [field ''from'' dl_From dl_From_update dec_string,
      field ''to'' dl_To dl_To_update dec_string,
      field ''extract'' dl_Extract dl_Extract_update dec_bool,
      field ''cache_key'' dl_CacheKey dl_CacheKey_update dec_string]"

definition upload_fields :: "upload_action fields" where
  "upload_fields =
     [field ''to'' ul_To ul_To_update dec_string,
      field ''from'' ul_From ul_From_update dec_string,
      field ''compress'' ul_Compress ul_Compress_update dec_bool]"

definition env_fields :: "environment_variable fields" where
  "env_fields =
     [field ''name'' env_Name env_Name_update dec_string,
      field ''value'' env_Value env_Value_update dec_string]"

definition limits_fields :: "resource_limits fields" where
  "limits_fields = [field ''nofile'' rl_Nofile rl_Nofile_update (dec_ptr dec_word 0)]"

definition zero_env :: environment_variable where
  "zero_env = \<lparr>env_Name = [], env_Value = []\<rparr>"

definition run_fields :: "run_action fields" where
  "run_fields =
     [field ''path'' run_Path run_Path_update dec_string,
      field ''args'' run_Args run_Args_update (dec_slice dec_string []),
      field ''env'' run_Env run_Env_update (dec_slice (dec_struct env_fields) zero_env),
      field ''timeout'' run_Timeout run_Timeout_update dec_int,
      field ''resource_limits'' run_ResourceLimits run_ResourceLimits_update (dec_struct limits_fields)]"

definition fetch_result_fields :: "fetch_result_action fields" where
  "fetch_result_fields = [field ''file'' fr_File fr_File_update dec_string]"

definition health_fields :: "health_request fields" where
  "health_fields =
     [field ''method'' hr_Method hr_Method_update dec_string,
      field ''url'' hr_URL hr_URL_update dec_string]"

definition zero_download :: download_action where
  "zero_download = \<lparr>dl_From = [], dl_To = [], dl_Extract = False, dl_CacheKey = []\<rparr>"

definition zero_upload :: upload_action where
  "zero_upload = \<lparr>ul_To = [], ul_From = [], ul_Compress = False\<rparr>"

definition zero_run :: run_action where
  "zero_run = \<lparr>run_Path = [], run_Args = None, run_Env = None, run_Timeout = 0,
     run_ResourceLimits = \<lparr>rl_Nofile = None\<rparr>\<rparr>"

definition zero_health :: health_request where
  "zero_health = \<lparr>hr_Method = [], hr_URL = []\<rparr>"

text \<open>The structs of the action kinds that hold actions, as their payload is decoded.\<close>

record nested_action =
  na_Action :: executor_action
  na_Start :: string
  na_Success :: string
  na_Failure :: string
  na_Healthy :: health_request
  na_Unhealthy :: health_request
  na_HealthyThreshold :: uint64
  na_UnhealthyThreshold :: uint64
  na_Actions :: "executor_action slice"

definition zero_nested :: nested_action where
  "zero_nested = \<lparr>na_Action = InvalidAction, na_Start = [], na_Success = [], na_Failure = [],
     na_Healthy = zero_health, na_Unhealthy = zero_health, na_HealthyThreshold = 0,
     na_UnhealthyThreshold = 0, na_Actions = None\<rparr>"

definition emit_fields :: "executor_action decoder \<Rightarrow> nested_action fields" where
  "emit_fields d =
     [field ''action'' na_Action na_Action_update d,
      field ''start_message'' na_Start na_Start_update dec_string,
      field ''success_message'' na_Success na_Success_update dec_string,
      field ''failure_message'' na_Failure na_Failure_update dec_string]"

definition try_fields :: "executor_action decoder \<Rightarrow> nested_action fields" where
  "try_fields d = [field ''action'' na_Action na_Action_update d]"

definition monitor_fields :: "executor_action decoder \<Rightarrow> nested_action fields" where
  "monitor_fields d =
     [field ''action'' na_Action na_Action_update d,
      field ''healthy_hook'' na_Healthy na_Healthy_update (dec_struct health_fields),
      field ''unhealthy_hook'' na_Unhealthy na_Unhealthy_update (dec_struct health_fields),
      field ''healthy_threshold'' na_HealthyThreshold na_HealthyThreshold_update dec_word,
      field ''unhealthy_threshold'' na_UnhealthyThreshold na_UnhealthyThreshold_update dec_word]"

definition parallel_fields :: "executor_action decoder \<Rightarrow> nested_action fields" where
  "parallel_fields d = [field ''actions'' na_Actions na_Actions_update (dec_slice d InvalidAction)]"

record action_envelope =
  ev_Name :: string
  ev_ActionPayload :: "json option"

definition envelope_fields :: "action_envelope fields" where
  "envelope_fields =
     [field ''action'' ev_Name ev_Name_update dec_string,
      field ''args'' ev_ActionPayload ev_ActionPayload_update (dec_ptr (\<lambda>_ j. Dec j False) JNull)]"

text \<open>
  \<open>err = json.Unmarshal (*envelope.ActionPayload, &action); a.Action = action; return err\<close>: a nil
  payload panics, a type error recorded in the payload is the error of the method.
\<close>

definition unmarshal_payload :: "'r decoder \<Rightarrow> 'r \<Rightarrow> ('r \<Rightarrow> executor_action) \<Rightarrow> json option \<Rightarrow> executor_action dec" where
  "unmarshal_payload d zero con payload =
     (case payload of
        None \<Rightarrow> DecPanic
      | Some j \<Rightarrow>
          (case d zero j of
             Dec r e \<Rightarrow> if e then DecAbort JSONTypeError else Dec (con r) False
           | DecAbort err \<Rightarrow> DecAbort err
           | DecPanic \<Rightarrow> DecPanic))"

text \<open>
  \<open>UnmarshalJSON\<close>, with fuel for the nesting of actions; a text nested \<open>jdepth\<close> deep needs no
  more than that (lemma \<open>dec_action_fuel\<close>).
\<close>

fun dec_action :: "nat \<Rightarrow> executor_action decoder" where
  "dec_action 0 old j = DecAbort JSONSyntaxError"
| "dec_action (Suc n) old j =
     (case dec_struct envelope_fields \<lparr>ev_Name = [], ev_ActionPayload = None\<rparr> j of
        DecAbort err \<Rightarrow> DecAbort err
      | DecPanic \<Rightarrow> DecPanic
      | Dec env e \<Rightarrow>
          let payload = ev_ActionPayload env; d = dec_action n in
          if e then DecAbort JSONTypeError
          else if ev_Name env = ''download'' then
            unmarshal_payload (dec_struct download_fields) zero_download DownloadAction payload
          else if ev_Name env = ''run'' then
            unmarshal_payload (dec_struct run_fields) zero_run RunAction payload
          else if ev_Name env = ''upload'' then
            unmarshal_payload (dec_struct upload_fields) zero_upload UploadAction payload
          else if ev_Name env = ''fetch_result'' then
            unmarshal_payload (dec_struct fetch_result_fields) \<lparr>fr_File = []\<rparr> FetchResultAction payload
          else if ev_Name env = ''emit_progress'' then
            unmarshal_payload (dec_struct (emit_fields d)) zero_nested
              (\<lambda>a. EmitProgressAction (na_Action a) (na_Start a) (na_Success a) (na_Failure a)) payload
          else if ev_Name env = ''try'' then
            unmarshal_payload (dec_struct (try_fields d)) zero_nested (\<lambda>a. TryAction (na_Action a)) payload
          else if ev_Name env = ''monitor'' then
            unmarshal_payload (dec_struct (monitor_fields d)) zero_nested
              (\<lambda>a. MonitorAction (na_Action a) (na_Healthy a) (na_Unhealthy a)
                 (na_HealthyThreshold a) (na_UnhealthyThreshold a)) payload
          else if ev_Name env = ''parallel'' then
            unmarshal_payload (dec_struct (parallel_fields d)) zero_nested
              (\<lambda>a. ParallelAction (na_Actions a)) payload
          else DecAbort InvalidActionConversion)"

text \<open>The nesting depth of a value.\<close>

fun jdepth :: "json \<Rightarrow> nat" where
  "jdepth (JArr js) = Suc (foldr (\<lambda>j m. max (jdepth j) m) js 0)"
| "jdepth (JObj kvs) = Suc (foldr (\<lambda>kv m. max (jdepth (snd kv)) m) kvs 0)"
| "jdepth _ = 0"

definition UnmarshalJSON :: "executor_action decoder" where
  "UnmarshalJSON old j = dec_action (Suc (jdepth j)) old j"

section \<open>Round trips\<close>

text \<open>The actions whose round trip is proved: no invalid action inside, ASCII strings, 64-bit integers.\<close>

definition run_ok :: "run_action \<Rightarrow> bool" where
  "run_ok a \<longleftrightarrow> ascii (run_Path a) \<and> (\<forall>s \<in> set (slice_elems (run_Args a)). ascii s)
     \<and> (\<forall>v \<in> set (slice_elems (run_Env a)). ascii (env_Name v) \<and> ascii (env_Value v))
     \<and> int64_ok (run_Timeout a)"

definition health_ok :: "health_request \<Rightarrow> bool" where
  "health_ok h \<longleftrightarrow> ascii (hr_Method h) \<and> ascii (hr_URL h)"

fun action_ok :: "executor_action \<Rightarrow> bool" where
  "action_ok (DownloadAction a) \<longleftrightarrow> ascii (dl_From a) \<and> ascii (dl_To a) \<and> ascii (dl_CacheKey a)"
| "action_ok (RunAction a) \<longleftrightarrow> run_ok a"
| "action_ok (UploadAction a) \<longleftrightarrow> ascii (ul_To a) \<and> ascii (ul_From a)"
| "action_ok (FetchResultAction a) \<longleftrightarrow> ascii (fr_File a)"
| "action_ok (EmitProgressAction a sm su fm) \<longleftrightarrow> action_ok a \<and> ascii sm \<and> ascii su \<and> ascii fm"
| "action_ok (TryAction a) \<longleftrightarrow> action_ok a"
| "action_ok (MonitorAction a hh uh ht ut) \<longleftrightarrow> action_ok a \<and> health_ok hh \<and> health_ok uh"
| "action_ok (ParallelAction as) \<longleftrightarrow> (case as of None \<Rightarrow> True | Some xs \<Rightarrow> (\<forall>x \<in> set xs. action_ok x))"
| "action_ok InvalidAction \<longleftrightarrow> False"

lemmas table_simps = field_def find_field_def

lemma dec_download_enc: "dec_struct download_fields r (enc_download a) = Dec a False"
  by (simp add: download_fields_def enc_download_def table_simps)

lemma dec_upload_enc: "dec_struct upload_fields r (enc_upload a) = Dec a False"
  by (simp add: upload_fields_def enc_upload_def table_simps)

lemma dec_env_enc: "dec_struct env_fields r (enc_env a) = Dec a False"
  by (simp add: env_fields_def enc_env_def table_simps)

lemma dec_limits_enc:
  "rl_Nofile r = None \<Longrightarrow> dec_struct limits_fields r (enc_limits a) = Dec a False"
  by (cases a) (auto simp: limits_fields_def enc_limits_def table_simps dec_ptr_value split: option.split)

lemma dec_run_enc:
  assumes "run_ok a"
  shows "dec_struct run_fields zero_run (enc_run a) = Dec a False"
  using assms
  by (simp add: run_fields_def enc_run_def table_simps run_ok_def dec_slice_enc dec_env_enc
      dec_limits_enc zero_run_def)

lemma dec_fetch_result_enc: "dec_struct fetch_result_fields r (enc_fetch_result a) = Dec a False"
  by (simp add: fetch_result_fields_def enc_fetch_result_def table_simps)

lemma dec_health_enc: "dec_struct health_fields r (enc_health a) = Dec a False"
  by (simp add: health_fields_def enc_health_def table_simps)

lemma dec_envelope:
  "p \<noteq> JNull \<Longrightarrow> dec_struct envelope_fields r (envelope name p) = Dec \<lparr>ev_Name = name, ev_ActionPayload = Some p\<rparr> False"
  by (simp add: envelope_fields_def envelope_def table_simps dec_ptr_value)

lemma enc_payload_neq_JNull [simp]:
  "enc_download d \<noteq> JNull" "enc_upload u \<noteq> JNull" "enc_run r \<noteq> JNull" "enc_fetch_result f \<noteq> JNull"
  by (simp_all add: enc_download_def enc_upload_def enc_run_def enc_fetch_result_def)

lemma dec_emit_enc:
  assumes "\<And>old. d old j = Dec a False"
  shows "dec_struct (emit_fields d) zero_nested
    (JObj [(''action'', j), (''start_message'', JStr sm), (''success_message'', JStr su), (''failure_message'', JStr fm)])
    = Dec (zero_nested\<lparr>na_Action := a, na_Start := sm, na_Success := su, na_Failure := fm\<rparr>) False"
  by (simp add: emit_fields_def table_simps assms)

lemma dec_try_enc:
  assumes "\<And>old. d old j = Dec a False"
  shows "dec_struct (try_fields d) zero_nested (JObj [(''action'', j)]) = Dec (zero_nested\<lparr>na_Action := a\<rparr>) False"
  by (simp add: try_fields_def table_simps assms)

lemma dec_monitor_enc:
  assumes "\<And>old. d old j = Dec a False"
  shows "dec_struct (monitor_fields d) zero_nested
    (JObj [(''action'', j), (''healthy_hook'', enc_health hh), (''unhealthy_hook'', enc_health uh),
        (''healthy_threshold'', enc_word ht), (''unhealthy_threshold'', enc_word ut)])
    = Dec (zero_nested\<lparr>na_Action := a, na_Healthy := hh, na_Unhealthy := uh, na_HealthyThreshold := ht,
        na_UnhealthyThreshold := ut\<rparr>) False"
  by (simp add: monitor_fields_def table_simps assms dec_health_enc)

lemma dec_parallel_enc:
  assumes "dec_slice d InvalidAction None j = Dec as False"
  shows "dec_struct (parallel_fields d) zero_nested (JObj [(''actions'', j)]) = Dec (zero_nested\<lparr>na_Actions := as\<rparr>) False"
  using assms by (simp add: parallel_fields_def table_simps zero_nested_def)

lemma jdepth_arr: "j \<in> set js \<Longrightarrow> jdepth j < jdepth (JArr js)"
  by (induction js) auto

lemma jdepth_obj: "(k, j) \<in> set kvs \<Longrightarrow> jdepth j < jdepth (JObj kvs)"
  by (induction kvs) auto

lemma jdepth_envelope: "jdepth p < jdepth (envelope name p)"
  unfolding envelope_def by (rule jdepth_obj [of "''args''"]) simp

lemma those_Some: "those xs = Some ys \<longleftrightarrow> xs = map Some ys"
proof (induction xs arbitrary: ys)
  case Nil
  then show ?case by auto
next
  case (Cons x xs)
  then show ?case by (cases ys) (auto split: option.splits)
qed

lemma dec_elems_map:
  assumes "map f xs = map Some js" and "\<And>x j old. x \<in> set xs \<Longrightarrow> j \<in> set js \<Longrightarrow> f x = Some j \<Longrightarrow> d old j = Dec x False"
  shows "dec_elems d z olds js = Dec xs False"
  using assms
proof (induction xs arbitrary: js olds)
  case Nil
  then show ?case by simp
next
  case (Cons x xs)
  then obtain j js' where js: "js = j # js'" "f x = Some j" "map f xs = map Some js'" by (cases js) auto
  have "dec_elems d z os js' = Dec xs False" for os
    by (rule Cons.IH) (use Cons.prems js in auto)
  with Cons.prems(2) [of x j] js show ?case by simp
qed

lemma dec_action_enc:
  "action_ok a \<Longrightarrow> enc_action a = Some j \<Longrightarrow> jdepth j < n \<Longrightarrow> dec_action n old j = Dec a False"
proof (induction a arbitrary: j n old)
  case (EmitProgressAction a sm su fm)
  then obtain j' m where j': "enc_action a = Some j'" and n: "n = Suc m"
    and j: "j = envelope ''emit_progress'' (JObj [(''action'', j'), (''start_message'', JStr sm),
        (''success_message'', JStr su), (''failure_message'', JStr fm)])"
    by (cases n) auto
  have "jdepth j' < m"
    using EmitProgressAction.prems(3) jdepth_obj [of "''action''" j'] jdepth_envelope unfolding j n
    by (meson list.set_intros(1) less_trans_Suc not_less_eq order_less_trans)
  then have "\<And>old. dec_action m old j' = Dec a False"
    using EmitProgressAction j' by simp
  then show ?case
    by (simp add: n j dec_envelope unmarshal_payload_def dec_emit_enc del: dec_struct_JObj)
next
  case (TryAction a)
  then obtain j' m where j': "enc_action a = Some j'" and n: "n = Suc m"
    and j: "j = envelope ''try'' (JObj [(''action'', j')])"
    by (cases n) auto
  have "jdepth j' < m"
    using TryAction.prems(3) jdepth_obj [of "''action''" j'] jdepth_envelope unfolding j n
    by (meson list.set_intros(1) less_trans_Suc not_less_eq order_less_trans)
  then have "\<And>old. dec_action m old j' = Dec a False"
    using TryAction j' by simp
  then show ?case
    by (simp add: n j dec_envelope unmarshal_payload_def dec_try_enc del: dec_struct_JObj)
next
  case (MonitorAction a hh uh ht ut)
  then obtain j' m where j': "enc_action a = Some j'" and n: "n = Suc m"
    and j: "j = envelope ''monitor'' (JObj [(''action'', j'), (''healthy_hook'', enc_health hh),
        (''unhealthy_hook'', enc_health uh), (''healthy_threshold'', enc_word ht),
        (''unhealthy_threshold'', enc_word ut)])"
    by (cases n) auto
  have "jdepth j' < m"
    using MonitorAction.prems(3) jdepth_obj [of "''action''" j'] jdepth_envelope unfolding j n
    by (meson list.set_intros(1) less_trans_Suc not_less_eq order_less_trans)
  then have "\<And>old. dec_action m old j' = Dec a False"
    using MonitorAction j' by simp
  then show ?case
    by (simp add: n j dec_envelope unmarshal_payload_def dec_monitor_enc del: dec_struct_JObj)
next
  case (ParallelAction as)
  obtain m where n: "n = Suc m" using ParallelAction.prems(3) by (cases n) auto
  show ?case
  proof (cases as)
    case None
    with ParallelAction.prems(2) have j: "j = envelope ''parallel'' (JObj [(''actions'', JNull)])" by simp
    show ?thesis
      by (simp add: n j None dec_envelope unmarshal_payload_def dec_parallel_enc [of _ JNull None] dec_slice_def
          del: dec_struct_JObj)
  next
    case (Some xs)
    with ParallelAction.prems(2) obtain js where js: "map enc_action xs = map Some js"
      and j: "j = envelope ''parallel'' (JObj [(''actions'', JArr js)])"
      by (auto simp: those_Some)
    have d: "jdepth j' < m" if "j' \<in> set js" for j'
      using ParallelAction.prems(3) jdepth_arr [OF that] jdepth_obj [of "''actions''" "JArr js"] jdepth_envelope
      unfolding j n by (meson list.set_intros(1) less_trans_Suc not_less_eq order_less_trans)
    have "dec_elems (dec_action m) InvalidAction [] js = Dec xs False"
      by (rule dec_elems_map [OF js]) (use ParallelAction Some d in auto)
    then have "dec_slice (dec_action m) InvalidAction None (JArr js) = Dec (Some xs) False"
      by (simp add: dec_slice_def)
    then show ?thesis
      by (simp add: n j Some dec_envelope unmarshal_payload_def dec_parallel_enc del: dec_struct_JObj)
  qed
qed (auto simp: gr0_conv_Suc dec_envelope unmarshal_payload_def dec_download_enc dec_upload_enc dec_run_enc
    dec_fetch_result_enc dest!: less_imp_Suc_add)

lemma action_ok_enc: "action_ok a \<Longrightarrow> \<exists>j. enc_action a = Some j \<and> json_ok j \<and> j \<noteq> JNull"
proof (induction a)
  case (ParallelAction as)
  show ?case
  proof (cases as)
    case None
    then show ?thesis by (simp add: envelope_def)
  next
    case (Some xs)
    have "\<exists>js. map enc_action xs = map Some js \<and> (\<forall>j \<in> set js. json_ok j)"
      using ParallelAction Some by (induction xs arbitrary: as) (auto, metis list.simps(9) set_ConsD)
    then show ?thesis by (auto simp: Some envelope_def those_Some)
  qed
qed (auto simp: envelope_def enc_download_def enc_upload_def enc_run_def enc_fetch_result_def enc_env_def
    enc_limits_def enc_health_def run_ok_def health_ok_def split: option.split)

text \<open>\<open>UnmarshalJSON\<close> inverts \<open>MarshalJSON\<close>.\<close>

lemma UnmarshalJSON_enc:
  "action_ok a \<Longrightarrow> enc_action a = Some j \<Longrightarrow> UnmarshalJSON old j = Dec a False"
  unfolding UnmarshalJSON_def by (rule dec_action_enc) simp_all

text \<open>An envelope of a known kind without a payload panics.\<close>

definition action_kinds :: "string list" where
  "action_kinds = [''download'', ''run'', ''upload'', ''fetch_result'', ''emit_progress'', ''try'',
     ''monitor'', ''parallel'']"

lemma UnmarshalJSON_no_args:
  "k \<in> set action_kinds \<Longrightarrow> UnmarshalJSON old (JObj [(''action'', JStr k)]) = DecPanic"
  by (auto simp: action_kinds_def UnmarshalJSON_def envelope_fields_def table_simps unmarshal_payload_def)

lemma UnmarshalJSON_unknown_kind:
  "k \<notin> set action_kinds \<Longrightarrow> UnmarshalJSON old (JObj [(''action'', JStr k)]) = DecAbort InvalidActionConversion"
  by (simp add: action_kinds_def UnmarshalJSON_def envelope_fields_def table_simps unmarshal_payload_def)

section \<open>The fuel is enough\<close>

lemma find_envelope_field:
  assumes "find_field envelope_fields k = Some d"
  shows "d = snd (field ''action'' ev_Name ev_Name_update dec_string)
       \<or> d = snd (field ''args'' ev_ActionPayload ev_ActionPayload_update (dec_ptr (\<lambda>_ j. Dec j False) JNull))"
  using assms
  by (auto simp: find_field_def envelope_fields_def field_def split: option.splits if_splits)

lemma envelope_payload:
  "dec_members envelope_fields r kvs = Dec env e \<Longrightarrow> ev_ActionPayload env = Some p \<Longrightarrow>
   ev_ActionPayload r = Some p \<or> (\<exists>k. (k, p) \<in> set kvs)"
proof (induction kvs arbitrary: r e)
  case Nil
  then show ?case by simp
next
  case (Cons kv kvs)
  obtain k j where kv: "kv = (k, j)" by (cases kv)
  show ?case
  proof (cases "find_field envelope_fields k")
    case None
    with Cons kv show ?thesis by fastforce
  next
    case (Some d)
    with Cons.prems(1) kv obtain r1 e1 e2 where d: "d r j = Dec r1 e1"
      and rest: "dec_members envelope_fields r1 kvs = Dec env e2"
      by (cases "d r j") (auto simp: dec_then.simps(1) split: dec.splits)
    have "ev_ActionPayload r1 = ev_ActionPayload r \<or> ev_ActionPayload r1 \<in> {None, Some j}"
      using find_envelope_field [OF Some] d
      by (cases j) (auto simp: field_def dec_string_def dec_ptr_def split: option.splits)
    with Cons.IH [OF rest Cons.prems(2)] kv show ?thesis by auto
  qed
qed

lemma dec_struct_cong:
  assumes "map fst tbl = map fst tbl'"
    and "\<And>j' i r. jdepth j' < jdepth j \<Longrightarrow> i < length tbl \<Longrightarrow> snd (tbl ! i) r j' = snd (tbl' ! i) r j'"
  shows "dec_struct tbl z j = dec_struct tbl' z j"
proof (cases j)
  case (JObj kvs)
  show ?thesis
    unfolding JObj dec_struct_JObj
    by (rule dec_members_cong [OF assms(1)]) (use assms(2) jdepth_obj JObj in blast)
qed (simp_all add: dec_struct_def)

lemma nested_fields_cong:
  assumes "\<And>old j'. jdepth j' < jdepth j \<Longrightarrow> d old j' = d' old j'"
  shows "dec_struct (emit_fields d) z j = dec_struct (emit_fields d') z j"
    and "dec_struct (try_fields d) z j = dec_struct (try_fields d') z j"
    and "dec_struct (monitor_fields d) z j = dec_struct (monitor_fields d') z j"
    and "dec_struct (parallel_fields d) z j = dec_struct (parallel_fields d') z j"
proof -
  have sl: "dec_slice d InvalidAction old j' = dec_slice d' InvalidAction old j'"
    if "jdepth j' < jdepth j" for old j'
  proof (cases j')
    case (JArr js)
    have "dec_elems d InvalidAction os js = dec_elems d' InvalidAction os js" for os
      by (rule dec_elems_cong) (use assms jdepth_arr that JArr in \<open>meson order_less_trans\<close>)
    then show ?thesis by (simp add: JArr dec_slice_def)
  qed (simp_all add: dec_slice_def)
  show "dec_struct (emit_fields d) z j = dec_struct (emit_fields d') z j"
    "dec_struct (try_fields d) z j = dec_struct (try_fields d') z j"
    "dec_struct (monitor_fields d) z j = dec_struct (monitor_fields d') z j"
    "dec_struct (parallel_fields d) z j = dec_struct (parallel_fields d') z j"
    by (rule dec_struct_cong;
        simp add: emit_fields_def try_fields_def monitor_fields_def parallel_fields_def field_def
          nth_Cons assms sl split: nat.split)+
qed

lemma dec_action_fuel:
  "jdepth j < n \<Longrightarrow> jdepth j < m \<Longrightarrow> dec_action n old j = dec_action m old j"
proof (induction n arbitrary: m old j)
  case 0
  then show ?case by simp
next
  case (Suc n)
  obtain m' where m: "m = Suc m'" using Suc.prems by (cases m) auto
  define env where "env = dec_struct envelope_fields \<lparr>ev_Name = [], ev_ActionPayload = None\<rparr> j"
  have same: "unmarshal_payload (dec_struct (F (dec_action n))) zero_nested con (ev_ActionPayload r)
      = unmarshal_payload (dec_struct (F (dec_action m'))) zero_nested con (ev_ActionPayload r)"
    if "env = Dec r e" and "F \<in> {emit_fields, try_fields, monitor_fields, parallel_fields}" for r e F con
  proof (cases "ev_ActionPayload r")
    case None
    then show ?thesis by (simp add: unmarshal_payload_def)
  next
    case (Some p)
    have "\<exists>kvs k. j = JObj kvs \<and> (k, p) \<in> set kvs"
    proof (cases j)
      case (JObj kvs)
      with that(1) Some envelope_payload [of "\<lparr>ev_Name = [], ev_ActionPayload = None\<rparr>" kvs r e p]
      show ?thesis by (simp add: env_def)
    qed (use that(1) Some in \<open>auto simp: env_def dec_struct_def\<close>)
    then have p: "jdepth p < jdepth j" using jdepth_obj by blast
    have "dec_action n old j' = dec_action m' old j'" if "jdepth j' < jdepth p" for old j'
      by (rule Suc.IH) (use p that Suc.prems m in simp_all)
    then show ?thesis
      using that(2) nested_fields_cong [of p "dec_action n" "dec_action m'" zero_nested]
      by (auto simp: Some unmarshal_payload_def)
  qed
  show ?case
    by (cases env) (auto simp: m Let_def same env_def [symmetric])
qed

end
