(* ===== verification/Float64.thy ===== *)
theory Float64
  imports GoLib
begin

text \<open>
  The one floating-point value of the models, \<open>Task.CpuPercent\<close>, is only carried through JSON.
  A \<open>float64\<close> is its 64 IEEE bits; this theory holds what \<open>encoding/json\<close> does with it:
  \<open>strconv.ParseFloat\<close> (correctly rounded, half to even) and \<open>strconv.FormatFloat (f, 'g', -1, 64)\<close>
  (the shortest decimal that parses back), both computed in exact integer arithmetic.
\<close>

unbundle bit_operations_syntax

type_synonym float64 = "64 word"

section \<open>The value of the bits\<close>

definition f64_neg :: "float64 \<Rightarrow> bool" where
  "f64_neg w \<longleftrightarrow> 2 ^ 63 \<le> unat w"

definition f64_exp :: "float64 \<Rightarrow> nat" where
  "f64_exp w = unat w div 2 ^ 52 mod 2048"

definition f64_frac :: "float64 \<Rightarrow> nat" where
  "f64_frac w = unat w mod 2 ^ 52"

definition f64_finite :: "float64 \<Rightarrow> bool" where
  "f64_finite w \<longleftrightarrow> f64_exp w < 2047"

text \<open>The magnitude of a finite value as the fraction of two naturals.\<close>

definition f64_fraction :: "float64 \<Rightarrow> nat \<times> nat" where
  "f64_fraction w =
     (let m = (if f64_exp w = 0 then f64_frac w else f64_frac w + 2 ^ 52);
          e = int (if f64_exp w = 0 then 1 else f64_exp w) - 1075
      in if 0 \<le> e then (m * 2 ^ nat e, 1) else (m, 2 ^ nat (- e)))"

section \<open>Rounding a fraction to a float64\<close>

fun bit_len :: "nat \<Rightarrow> nat" where
  "bit_len n = (if n = 0 then 0 else Suc (bit_len (n div 2)))"

declare bit_len.simps [simp del]

definition scale2 :: "nat \<Rightarrow> nat \<Rightarrow> int \<Rightarrow> nat \<times> nat" where
  "scale2 num den e = (if 0 \<le> e then (num, den * 2 ^ nat e) else (num * 2 ^ nat (- e), den))"

definition div_half_even :: "nat \<Rightarrow> nat \<Rightarrow> nat" where
  "div_half_even n d =
     (let q = n div d; r = n mod d
      in if 2 * r > d \<or> 2 * r = d \<and> odd q then q + 1 else q)"

text \<open>The nearest float64 of \<open>num / den\<close>; \<open>None\<close> when it overflows to infinity.\<close>

definition round_f64 :: "bool \<Rightarrow> nat \<Rightarrow> nat \<Rightarrow> float64 option" where
  "round_f64 neg num den =
     (let sgn = (if neg then 2 ^ 63 else 0) in
      if num = 0 then Some (of_nat sgn)
      else
        let e0 = int (bit_len num) - int (bit_len den) - 53;
            big = (let (n, d) = scale2 num den (e0 + 53) in d \<le> n);
            e = max (if big then e0 + 1 else e0) (- 1074);
            q = (let (n, d) = scale2 num den e in div_half_even n d);
            (q, e) = (if q = 2 ^ 53 then (2 ^ 52, e + 1) else (q, e))
        in if q < 2 ^ 52 then Some (of_nat (sgn + q))
           else if e > 971 then None
           else Some (of_nat (sgn + nat (e + 1075) * 2 ^ 52 + (q - 2 ^ 52))))"

text \<open>The value \<open>c * 10 ^ e\<close>, rounded.\<close>

definition decimal_f64 :: "bool \<Rightarrow> nat \<Rightarrow> int \<Rightarrow> float64 option" where
  "decimal_f64 neg c e =
     (if 0 \<le> e then round_f64 neg (c * 10 ^ nat e) 1 else round_f64 neg c (10 ^ nat (- e)))"

section \<open>ParseFloat, on the literals of the JSON grammar\<close>

definition dec_digit :: "char \<Rightarrow> bool" where
  "dec_digit c \<longleftrightarrow> digit_val c \<noteq> None"

definition digits_value :: "string \<Rightarrow> nat" where
  "digits_value ds = (case parse_digits 0 ds of Some n \<Rightarrow> n | None \<Rightarrow> 0)"

definition exp_value :: "string \<Rightarrow> int" where
  "exp_value s =
     (case s of
        [] \<Rightarrow> 0
      | _ # t \<Rightarrow>
          (case t of
             [] \<Rightarrow> 0
           | c # ds \<Rightarrow> if c = CHR ''-'' then - int (digits_value ds)
                       else if c = CHR ''+'' then int (digits_value ds)
                       else int (digits_value t)))"

definition ParseFloat :: "string \<Rightarrow> float64 option" where
  "ParseFloat s =
     (let neg = (s \<noteq> [] \<and> hd s = CHR ''-'');
          s1 = (if neg then tl s else s);
          ip = takeWhile dec_digit s1;
          s2 = dropWhile dec_digit s1;
          fp = (if s2 \<noteq> [] \<and> hd s2 = CHR ''.'' then takeWhile dec_digit (tl s2) else []);
          s3 = (if s2 \<noteq> [] \<and> hd s2 = CHR ''.'' then dropWhile dec_digit (tl s2) else s2)
      in decimal_f64 neg (digits_value (ip @ fp)) (exp_value s3 - int (length fp)))"

section \<open>FormatFloat with format g and the shortest precision\<close>

text \<open>The position \<open>dp\<close> of the decimal point: \<open>10 ^ (dp - 1) \<le> num / den < 10 ^ dp\<close>.\<close>

fun leading_zeros :: "nat \<Rightarrow> nat \<Rightarrow> nat \<Rightarrow> nat" where
  "leading_zeros 0 num den = 0"
| "leading_zeros (Suc k) num den = (if den \<le> 10 * num then 0 else Suc (leading_zeros k (10 * num) den))"

definition point_pos :: "nat \<Rightarrow> nat \<Rightarrow> int" where
  "point_pos num den =
     (if den \<le> num then int (length (nat_digits (num div den)))
      else - int (leading_zeros 400 num den))"

definition scale10 :: "nat \<Rightarrow> nat \<Rightarrow> int \<Rightarrow> nat \<times> nat" where
  "scale10 num den e = (if 0 \<le> e then (num * 10 ^ nat e, den) else (num, den * 10 ^ nat (- e)))"

text \<open>
  The digits kept at length \<open>n\<close>: rounding down or up is allowed when the result still parses to
  the same value; when both are, the nearer one is taken.
\<close>

definition shortest_at :: "float64 \<Rightarrow> nat \<Rightarrow> nat \<Rightarrow> int \<Rightarrow> nat \<Rightarrow> nat option" where
  "shortest_at w num den dp n =
     (let (a, b) = scale10 num den (int n - dp);
          down = a div b;
          okdown = (decimal_f64 (f64_neg w) down (dp - int n) = Some w);
          okup = (decimal_f64 (f64_neg w) (down + 1) (dp - int n) = Some w)
      in if okdown \<and> okup then Some (div_half_even a b)
         else if okdown then Some down
         else if okup then Some (down + 1)
         else None)"

fun shortest_from :: "nat \<Rightarrow> nat \<Rightarrow> float64 \<Rightarrow> nat \<Rightarrow> nat \<Rightarrow> int \<Rightarrow> nat \<times> nat" where
  "shortest_from 0 n w num den dp = (let (a, b) = scale10 num den (int n - dp) in (div_half_even a b, n))"
| "shortest_from (Suc k) n w num den dp =
     (case shortest_at w num den dp n of
        Some c \<Rightarrow> (c, n)
      | None \<Rightarrow> shortest_from k (Suc n) w num den dp)"

definition strip_zeros :: "string \<Rightarrow> string" where
  "strip_zeros ds = rev (dropWhile (\<lambda>c. c = CHR ''0'') (rev ds))"

text \<open>The shortest digits and the position of the point.\<close>

definition shortest_digits :: "float64 \<Rightarrow> string \<times> int" where
  "shortest_digits w =
     (let (num, den) = f64_fraction w in
      if num = 0 then ([], 0)
      else
        let dp = point_pos num den;
            (c, n) = shortest_from 17 1 w num den dp;
            ds = nat_digits c
        in (strip_zeros ds, dp + int (length ds) - int n))"

definition fmt_e :: "string \<Rightarrow> int \<Rightarrow> string" where
  "fmt_e ds dp =
     (let e = dp - 1; es = nat_digits (nat \<bar>e\<bar>)
      in take 1 ds @ (if length ds > 1 then CHR ''.'' # drop 1 ds else [])
         @ CHR ''e'' # (if e < 0 then CHR ''-'' else CHR ''+'')
         # (if length es < 2 then CHR ''0'' # es else es))"

definition fmt_f :: "string \<Rightarrow> int \<Rightarrow> string" where
  "fmt_f ds dp =
     (let ip = (if dp > 0 then take (nat dp) ds @ replicate (nat dp - length ds) (CHR ''0'') else ''0'');
          fp = (if dp > 0 then drop (nat dp) ds else replicate (nat (- dp)) (CHR ''0'') @ ds)
      in ip @ (if ds = [] \<or> fp = [] then [] else CHR ''.'' # fp))"

definition FormatFloat :: "float64 \<Rightarrow> string" where
  "FormatFloat w =
     (let (ds, dp) = shortest_digits w;
          e = dp - 1
      in (if f64_neg w then ''-'' else [])
         @ (if ds \<noteq> [] \<and> (e < -4 \<or> e \<ge> 6) then fmt_e ds dp else fmt_f ds dp))"

end
