(* ===== verification/Models.thy ===== *)
theory Models
  imports Actions Float64
begin

text \<open>
  runtime-schema/models: the records the components keep in the store and exchange, with their JSON.
  Each model has its struct, its \<open>ToJSON\<close> (\<open>None\<close> when it panics, because an action or a number cannot
  be marshalled) and its \<open>New...FromJSON\<close> with the required-field checks of the source.
\<close>

section \<open>PortMapping, LogConfig\<close>

record port_mapping =
  pm_ContainerPort :: uint32
  pm_HostPort :: uint32

record log_config =
  log_Guid :: string
  log_SourceName :: string

definition zero_port :: port_mapping where
  "zero_port = \<lparr>pm_ContainerPort = 0, pm_HostPort = 0\<rparr>"

definition zero_log :: log_config where
  "zero_log = \<lparr>log_Guid = [], log_SourceName = []\<rparr>"

definition port_fields :: "port_mapping fields" where
  "port_fields =
     [field ''container_port'' pm_ContainerPort pm_ContainerPort_update dec_word,
      field ''host_port'' pm_HostPort pm_HostPort_update dec_word]"

definition log_fields :: "log_config fields" where
  "log_fields =
     [field ''guid'' log_Guid log_Guid_update dec_string,
      field ''source_name'' log_SourceName log_SourceName_update dec_string]"

text \<open>\<open>host_port\<close> is omitted when it is zero.\<close>

definition enc_port :: "port_mapping \<Rightarrow> json" where
  "enc_port p = JObj ((''container_port'', enc_word (pm_ContainerPort p))
     # (if pm_HostPort p = 0 then [] else [(''host_port'', enc_word (pm_HostPort p))]))"

definition enc_log :: "log_config \<Rightarrow> json" where
  "enc_log l = JObj [(''guid'', JStr (log_Guid l)), (''source_name'', JStr (log_SourceName l))]"

definition enc_actions :: "executor_action slice \<Rightarrow> json option" where
  "enc_actions s = (case s of None \<Rightarrow> Some JNull | Some as \<Rightarrow> map_option JArr (those (map enc_action as)))"

section \<open>DesiredLRP\<close>

record desired_lrp =
  desired_ProcessGuid :: string
  desired_Domain :: string
  desired_RootFSPath :: string
  desired_Instances :: int
  desired_Stack :: string
  desired_Actions :: "executor_action slice"
  desired_DiskMB :: int
  desired_MemoryMB :: int
  desired_Ports :: "port_mapping slice"
  desired_Routes :: "string slice"
  desired_Log :: log_config

definition zero_desired :: desired_lrp where
  "zero_desired = \<lparr>desired_ProcessGuid = [], desired_Domain = [], desired_RootFSPath = [],
     desired_Instances = 0, desired_Stack = [], desired_Actions = None, desired_DiskMB = 0,
     desired_MemoryMB = 0, desired_Ports = None, desired_Routes = None, desired_Log = zero_log\<rparr>"

record desired_lrp_change =
  dchange_Before :: "desired_lrp option"
  dchange_After :: "desired_lrp option"

definition desired_fields :: "desired_lrp fields" where
  "desired_fields =
     [field ''process_guid'' desired_ProcessGuid desired_ProcessGuid_update dec_string,
      field ''domain'' desired_Domain desired_Domain_update dec_string,
      field ''root_fs'' desired_RootFSPath desired_RootFSPath_update dec_string,
      field ''instances'' desired_Instances desired_Instances_update dec_int,
      field ''stack'' desired_Stack desired_Stack_update dec_string,
      field ''actions'' desired_Actions desired_Actions_update (dec_slice UnmarshalJSON InvalidAction),
      field ''disk_mb'' desired_DiskMB desired_DiskMB_update dec_int,
      field ''memory_mb'' desired_MemoryMB desired_MemoryMB_update dec_int,
      field ''ports'' desired_Ports desired_Ports_update (dec_slice (dec_struct port_fields) zero_port),
      field ''routes'' desired_Routes desired_Routes_update (dec_slice dec_string []),
      field ''log'' desired_Log desired_Log_update (dec_struct log_fields)]"

definition enc_desired :: "desired_lrp \<Rightarrow> json option" where
  "enc_desired d = map_option (\<lambda>acts. JObj
     [(''process_guid'', JStr (desired_ProcessGuid d)), (''domain'', JStr (desired_Domain d)),
      (''root_fs'', JStr (desired_RootFSPath d)), (''instances'', enc_int (desired_Instances d)),
      (''stack'', JStr (desired_Stack d)), (''actions'', acts),
      (''disk_mb'', enc_int (desired_DiskMB d)), (''memory_mb'', enc_int (desired_MemoryMB d)),
      (''ports'', enc_slice enc_port (desired_Ports d)), (''routes'', enc_slice JStr (desired_Routes d)),
      (''log'', enc_log (desired_Log d))]) (enc_actions (desired_Actions d))"

definition DesiredLRP_ToJSON :: "desired_lrp \<Rightarrow> bytes option" where
  "DesiredLRP_ToJSON d = map_option json_print (enc_desired d)"

definition NewDesiredLRPFromJSON :: "bytes \<Rightarrow> desired_lrp outcome" where
  "NewDesiredLRPFromJSON payload =
     outcome_bind (json_Unmarshal (dec_struct desired_fields) zero_desired payload)
       (\<lambda>task. if desired_ProcessGuid task = [] then Err (ErrInvalidJSONMessage ''process_guid'')
               else if desired_Stack task = [] then Err (ErrInvalidJSONMessage ''stack'')
               else if length (slice_elems (desired_Actions task)) = 0 then Err (ErrInvalidJSONMessage ''actions'')
               else Ok task)"

section \<open>ActualLRP\<close>

text \<open>States are Go \<open>int\<close>s; the named ones are the constants of the source, and any other may be read.\<close>

abbreviation ActualLRPStateInvalid :: int where "ActualLRPStateInvalid \<equiv> 0"
abbreviation ActualLRPStateStarting :: int where "ActualLRPStateStarting \<equiv> 1"
abbreviation ActualLRPStateRunning :: int where "ActualLRPStateRunning \<equiv> 2"

record actual_lrp =
  actual_ProcessGuid :: string
  actual_InstanceGuid :: string
  actual_ExecutorID :: string
  actual_Index :: int
  actual_Host :: string
  actual_Ports :: "port_mapping slice"
  actual_State :: int
  actual_Since :: int

record actual_lrp_change =
  achange_Before :: "actual_lrp option"
  achange_After :: "actual_lrp option"

definition zero_actual :: actual_lrp where
  "zero_actual = \<lparr>actual_ProcessGuid = [], actual_InstanceGuid = [], actual_ExecutorID = [],
     actual_Index = 0, actual_Host = [], actual_Ports = None, actual_State = 0, actual_Since = 0\<rparr>"

definition actual_fields :: "actual_lrp fields" where
  "actual_fields =
     [field ''process_guid'' actual_ProcessGuid actual_ProcessGuid_update dec_string,
      field ''instance_guid'' actual_InstanceGuid actual_InstanceGuid_update dec_string,
      field ''executor_id'' actual_ExecutorID actual_ExecutorID_update dec_string,
      field ''index'' actual_Index actual_Index_update dec_int,
      field ''host'' actual_Host actual_Host_update dec_string,
      field ''ports'' actual_Ports actual_Ports_update (dec_slice (dec_struct port_fields) zero_port),
      field ''state'' actual_State actual_State_update dec_int,
      field ''since'' actual_Since actual_Since_update dec_int]"

definition enc_actual :: "actual_lrp \<Rightarrow> json" where
  "enc_actual a = JObj
     [(''process_guid'', JStr (actual_ProcessGuid a)), (''instance_guid'', JStr (actual_InstanceGuid a)),
      (''executor_id'', JStr (actual_ExecutorID a)), (''index'', enc_int (actual_Index a)),
      (''host'', JStr (actual_Host a)), (''ports'', enc_slice enc_port (actual_Ports a)),
      (''state'', enc_int (actual_State a)), (''since'', enc_int (actual_Since a))]"

definition ActualLRP_ToJSON :: "actual_lrp \<Rightarrow> bytes option" where
  "ActualLRP_ToJSON a = Some (json_print (enc_actual a))"

definition NewActualLRPFromJSON :: "bytes \<Rightarrow> actual_lrp outcome" where
  "NewActualLRPFromJSON payload =
     outcome_bind (json_Unmarshal (dec_struct actual_fields) zero_actual payload)
       (\<lambda>task. if actual_ProcessGuid task = [] then Err (ErrInvalidJSONMessage ''process_guid'')
               else if actual_InstanceGuid task = [] then Err (ErrInvalidJSONMessage ''instance_guid'')
               else if actual_ExecutorID task = [] then Err (ErrInvalidJSONMessage ''executor_id'')
               else Ok task)"

section \<open>LRPIdentifier\<close>

record lrp_identifier =
  id_ProcessGuid :: string
  id_Index :: int
  id_InstanceGuid :: string

definition LRPIdentifierFromOpaqueID :: "string \<Rightarrow> lrp_identifier outcome" where
  "LRPIdentifierFromOpaqueID opaqueID =
     (let substrings = strings_Split (CHR ''.'') opaqueID in
      if length substrings \<noteq> 3 then Err (Errorf ''invalid opaqueID for LRP: %s'' [opaqueID] None)
      else case Atoi (substrings ! 1) of
             None \<Rightarrow> Err (NumError (substrings ! 1))
           | Some index \<Rightarrow> Ok \<lparr>id_ProcessGuid = substrings ! 0, id_Index = index, id_InstanceGuid = substrings ! 2\<rparr>)"

definition OpaqueID :: "lrp_identifier \<Rightarrow> string" where
  "OpaqueID ids = id_ProcessGuid ids @ ''.'' @ Itoa (id_Index ids) @ ''.'' @ id_InstanceGuid ids"

section \<open>LRPStartAuction\<close>

abbreviation LRPStartAuctionStateInvalid :: int where "LRPStartAuctionStateInvalid \<equiv> 0"
abbreviation LRPStartAuctionStatePending :: int where "LRPStartAuctionStatePending \<equiv> 1"
abbreviation LRPStartAuctionStateClaimed :: int where "LRPStartAuctionStateClaimed \<equiv> 2"

record lrp_start_auction =
  sta_DesiredLRP :: desired_lrp
  sta_InstanceGuid :: string
  sta_Index :: int
  sta_State :: int
  sta_UpdatedAt :: int

definition zero_start_auction :: lrp_start_auction where
  "zero_start_auction = \<lparr>sta_DesiredLRP = zero_desired, sta_InstanceGuid = [], sta_Index = 0,
     sta_State = 0, sta_UpdatedAt = 0\<rparr>"

definition start_auction_fields :: "lrp_start_auction fields" where
  "start_auction_fields =
     [field ''desired_lrp'' sta_DesiredLRP sta_DesiredLRP_update (dec_struct desired_fields),
      field ''instance_guid'' sta_InstanceGuid sta_InstanceGuid_update dec_string,
      field ''index'' sta_Index sta_Index_update dec_int,
      field ''state'' sta_State sta_State_update dec_int,
      field ''updated_at'' sta_UpdatedAt sta_UpdatedAt_update dec_int]"

definition enc_start_auction :: "lrp_start_auction \<Rightarrow> json option" where
  "enc_start_auction a = map_option (\<lambda>d. JObj
     [(''desired_lrp'', d), (''instance_guid'', JStr (sta_InstanceGuid a)), (''index'', enc_int (sta_Index a)),
      (''state'', enc_int (sta_State a)), (''updated_at'', enc_int (sta_UpdatedAt a))])
     (enc_desired (sta_DesiredLRP a))"

definition LRPStartAuction_ToJSON :: "lrp_start_auction \<Rightarrow> bytes option" where
  "LRPStartAuction_ToJSON a = map_option json_print (enc_start_auction a)"

definition NewLRPStartAuctionFromJSON :: "bytes \<Rightarrow> lrp_start_auction outcome" where
  "NewLRPStartAuctionFromJSON payload =
     outcome_bind (json_Unmarshal (dec_struct start_auction_fields) zero_start_auction payload)
       (\<lambda>task. if sta_InstanceGuid task = [] then Err (ErrInvalidJSONMessage ''instance_guid'') else Ok task)"

definition LRPStartAuction_LRPIdentifier :: "lrp_start_auction \<Rightarrow> lrp_identifier" where
  "LRPStartAuction_LRPIdentifier a =
     \<lparr>id_ProcessGuid = desired_ProcessGuid (sta_DesiredLRP a), id_Index = sta_Index a,
      id_InstanceGuid = sta_InstanceGuid a\<rparr>"

section \<open>LRPStopAuction\<close>

abbreviation LRPStopAuctionStateInvalid :: int where "LRPStopAuctionStateInvalid \<equiv> 0"
abbreviation LRPStopAuctionStatePending :: int where "LRPStopAuctionStatePending \<equiv> 1"
abbreviation LRPStopAuctionStateClaimed :: int where "LRPStopAuctionStateClaimed \<equiv> 2"

record lrp_stop_auction =
  spa_ProcessGuid :: string
  spa_Index :: int
  spa_State :: int
  spa_UpdatedAt :: int

definition zero_stop_auction :: lrp_stop_auction where
  "zero_stop_auction = \<lparr>spa_ProcessGuid = [], spa_Index = 0, spa_State = 0, spa_UpdatedAt = 0\<rparr>"

definition stop_auction_fields :: "lrp_stop_auction fields" where
  "stop_auction_fields =
     [field ''process_guid'' spa_ProcessGuid spa_ProcessGuid_update dec_string,
      field ''index'' spa_Index spa_Index_update dec_int,
      field ''state'' spa_State spa_State_update dec_int,
      field ''updated_at'' spa_UpdatedAt spa_UpdatedAt_update dec_int]"

definition enc_stop_auction :: "lrp_stop_auction \<Rightarrow> json" where
  "enc_stop_auction a = JObj
     [(''process_guid'', JStr (spa_ProcessGuid a)), (''index'', enc_int (spa_Index a)),
      (''state'', enc_int (spa_State a)), (''updated_at'', enc_int (spa_UpdatedAt a))]"

definition LRPStopAuction_ToJSON :: "lrp_stop_auction \<Rightarrow> bytes option" where
  "LRPStopAuction_ToJSON a = Some (json_print (enc_stop_auction a))"

definition NewLRPStopAuctionFromJSON :: "bytes \<Rightarrow> lrp_stop_auction outcome" where
  "NewLRPStopAuctionFromJSON payload =
     outcome_bind (json_Unmarshal (dec_struct stop_auction_fields) zero_stop_auction payload)
       (\<lambda>task. if spa_ProcessGuid task = [] then Err (ErrInvalidJSONMessage ''process_guid'') else Ok task)"

section \<open>StopLRPInstance\<close>

record stop_lrp_instance =
  sli_ProcessGuid :: string
  sli_InstanceGuid :: string
  sli_Index :: int

definition zero_stop_instance :: stop_lrp_instance where
  "zero_stop_instance = \<lparr>sli_ProcessGuid = [], sli_InstanceGuid = [], sli_Index = 0\<rparr>"

definition stop_instance_fields :: "stop_lrp_instance fields" where
  "stop_instance_fields =
     [field ''process_guid'' sli_ProcessGuid sli_ProcessGuid_update dec_string,
      field ''instance_guid'' sli_InstanceGuid sli_InstanceGuid_update dec_string,
      field ''index'' sli_Index sli_Index_update dec_int]"

definition enc_stop_instance :: "stop_lrp_instance \<Rightarrow> json" where
  "enc_stop_instance s = JObj
     [(''process_guid'', JStr (sli_ProcessGuid s)), (''instance_guid'', JStr (sli_InstanceGuid s)),
      (''index'', enc_int (sli_Index s))]"

definition StopLRPInstance_ToJSON :: "stop_lrp_instance \<Rightarrow> bytes option" where
  "StopLRPInstance_ToJSON s = Some (json_print (enc_stop_instance s))"

definition NewStopLRPInstanceFromJSON :: "bytes \<Rightarrow> stop_lrp_instance outcome" where
  "NewStopLRPInstanceFromJSON payload =
     outcome_bind (json_Unmarshal (dec_struct stop_instance_fields) zero_stop_instance payload)
       (\<lambda>s. if sli_ProcessGuid s = [] then Err (ErrInvalidJSONMessage ''process_guid'')
            else if sli_InstanceGuid s = [] then Err (ErrInvalidJSONMessage ''instance_guid'')
            else Ok s)"

definition StopLRPInstance_LRPIdentifier :: "stop_lrp_instance \<Rightarrow> lrp_identifier" where
  "StopLRPInstance_LRPIdentifier s =
     \<lparr>id_ProcessGuid = sli_ProcessGuid s, id_Index = sli_Index s, id_InstanceGuid = sli_InstanceGuid s\<rparr>"

section \<open>ExecutorPresence, ServiceRegistration\<close>

record executor_presence =
  ep_ExecutorID :: string
  ep_Stack :: string

definition zero_presence :: executor_presence where
  "zero_presence = \<lparr>ep_ExecutorID = [], ep_Stack = []\<rparr>"

definition presence_fields :: "executor_presence fields" where
  "presence_fields =
     [field ''executor_id'' ep_ExecutorID ep_ExecutorID_update dec_string,
      field ''stack'' ep_Stack ep_Stack_update dec_string]"

definition enc_presence :: "executor_presence \<Rightarrow> json" where
  "enc_presence p = JObj [(''executor_id'', JStr (ep_ExecutorID p)), (''stack'', JStr (ep_Stack p))]"

definition ExecutorPresence_ToJSON :: "executor_presence \<Rightarrow> bytes option" where
  "ExecutorPresence_ToJSON p = Some (json_print (enc_presence p))"

definition NewExecutorPresenceFromJSON :: "bytes \<Rightarrow> executor_presence outcome" where
  "NewExecutorPresenceFromJSON payload =
     json_Unmarshal (dec_struct presence_fields) zero_presence payload"

definition ExecutorServiceName :: string where "ExecutorServiceName = ''Executor''"
definition FileServerServiceName :: string where "FileServerServiceName = ''FileServer''"

record service_registration =
  reg_Name :: string
  reg_Id :: string

fun FilterByName :: "service_registration list \<Rightarrow> string \<Rightarrow> service_registration list" where
  "FilterByName [] serviceName = []"
| "FilterByName (reg # s) serviceName =
     (if reg_Name reg = serviceName then reg # FilterByName s serviceName else FilterByName s serviceName)"

section \<open>Task\<close>

abbreviation TaskStateInvalid :: int where "TaskStateInvalid \<equiv> 0"
abbreviation TaskStatePending :: int where "TaskStatePending \<equiv> 1"
abbreviation TaskStateClaimed :: int where "TaskStateClaimed \<equiv> 2"
abbreviation TaskStateRunning :: int where "TaskStateRunning \<equiv> 3"
abbreviation TaskStateCompleted :: int where "TaskStateCompleted \<equiv> 4"
abbreviation TaskStateResolving :: int where "TaskStateResolving \<equiv> 5"

record task =
  task_Guid :: string
  task_Domain :: string
  task_Actions :: "executor_action slice"
  task_Stack :: string
  task_MemoryMB :: int
  task_DiskMB :: int
  task_CpuPercent :: float64
  task_Log :: log_config
  task_CreatedAt :: int
  task_UpdatedAt :: int
  task_State :: int
  task_ExecutorID :: string
  task_ContainerHandle :: string
  task_Result :: string
  task_Failed :: bool
  task_FailureReason :: string
  task_Annotation :: string

definition zero_task :: task where
  "zero_task = \<lparr>task_Guid = [], task_Domain = [], task_Actions = None, task_Stack = [], task_MemoryMB = 0,
     task_DiskMB = 0, task_CpuPercent = 0, task_Log = zero_log, task_CreatedAt = 0, task_UpdatedAt = 0,
     task_State = 0, task_ExecutorID = [], task_ContainerHandle = [], task_Result = [], task_Failed = False,
     task_FailureReason = [], task_Annotation = []\<rparr>"

definition dec_float :: "float64 decoder" where
  "dec_float old j =
     (case j of
        JNum lit \<Rightarrow> (case ParseFloat lit of Some f \<Rightarrow> Dec f False | None \<Rightarrow> Dec old True)
      | JNull \<Rightarrow> Dec old False
      | _ \<Rightarrow> Dec old True)"

text \<open>NaN and the infinities cannot be marshalled.\<close>

definition enc_float :: "float64 \<Rightarrow> json option" where
  "enc_float f = (if f64_finite f then Some (JNum (FormatFloat f)) else None)"

definition task_fields :: "task fields" where
  "task_fields =
     [field ''guid'' task_Guid task_Guid_update dec_string,
      field ''domain'' task_Domain task_Domain_update dec_string,
      field ''actions'' task_Actions task_Actions_update (dec_slice UnmarshalJSON InvalidAction),
      field ''stack'' task_Stack task_Stack_update dec_string,
      field ''memory_mb'' task_MemoryMB task_MemoryMB_update dec_int,
      field ''disk_mb'' task_DiskMB task_DiskMB_update dec_int,
      field ''cpu_percent'' task_CpuPercent task_CpuPercent_update dec_float,
      field ''log'' task_Log task_Log_update (dec_struct log_fields),
      field ''created_at'' task_CreatedAt task_CreatedAt_update dec_int,
      field ''updated_at'' task_UpdatedAt task_UpdatedAt_update dec_int,
      field ''state'' task_State task_State_update dec_int,
      field ''executor_id'' task_ExecutorID task_ExecutorID_update dec_string,
      field ''container_handle'' task_ContainerHandle task_ContainerHandle_update dec_string,
      field ''result'' task_Result task_Result_update dec_string,
      field ''failed'' task_Failed task_Failed_update dec_bool,
      field ''failure_reason'' task_FailureReason task_FailureReason_update dec_string,
      field ''annotation'' task_Annotation task_Annotation_update dec_string]"

definition enc_task :: "task \<Rightarrow> json option" where
  "enc_task t =
     (case (enc_actions (task_Actions t), enc_float (task_CpuPercent t)) of
        (Some acts, Some cpu) \<Rightarrow> Some (JObj (
          [(''guid'', JStr (task_Guid t)), (''domain'', JStr (task_Domain t)), (''actions'', acts),
           (''stack'', JStr (task_Stack t)), (''memory_mb'', enc_int (task_MemoryMB t)),
           (''disk_mb'', enc_int (task_DiskMB t)), (''cpu_percent'', cpu), (''log'', enc_log (task_Log t)),
           (''created_at'', enc_int (task_CreatedAt t)), (''updated_at'', enc_int (task_UpdatedAt t)),
           (''state'', enc_int (task_State t)), (''executor_id'', JStr (task_ExecutorID t)),
           (''container_handle'', JStr (task_ContainerHandle t)), (''result'', JStr (task_Result t)),
           (''failed'', JBool (task_Failed t)), (''failure_reason'', JStr (task_FailureReason t))]
          @ (if task_Annotation t = [] then [] else [(''annotation'', JStr (task_Annotation t))])))
      | _ \<Rightarrow> None)"

definition Task_ToJSON :: "task \<Rightarrow> bytes option" where
  "Task_ToJSON t = map_option json_print (enc_task t)"

definition NewTaskFromJSON :: "bytes \<Rightarrow> task outcome" where
  "NewTaskFromJSON payload =
     outcome_bind (json_Unmarshal (dec_struct task_fields) zero_task payload)
       (\<lambda>task. if task_Guid task = [] then Err (ErrInvalidJSONMessage ''guid'')
               else if length (slice_elems (task_Actions task)) = 0 then Err (ErrInvalidJSONMessage ''actions'')
               else if task_Stack task = [] then Err (ErrInvalidJSONMessage ''stack'')
               else Ok task)"

end
