(* ===== verification/ModelsRoundtrip.thy ===== *)
theory ModelsRoundtrip
  imports Models
begin

text \<open>
  What the models' JSON keeps: every well-formed model is printed without a panic and read back
  as it was, the required-field checks of the readers, the identifiers' text form, and the panic of
  the readers on an action without a payload.
\<close>

section \<open>Well-formed models\<close>

definition log_ok :: "log_config \<Rightarrow> bool" where
  "log_ok l \<longleftrightarrow> ascii (log_Guid l) \<and> ascii (log_SourceName l)"

definition actions_ok :: "executor_action slice \<Rightarrow> bool" where
  "actions_ok as \<longleftrightarrow> slice_elems as \<noteq> [] \<and> (\<forall>a \<in> set (slice_elems as). action_ok a)"

definition desired_ok :: "desired_lrp \<Rightarrow> bool" where
  "desired_ok d \<longleftrightarrow> desired_ProcessGuid d \<noteq> [] \<and> ascii (desired_ProcessGuid d) \<and> ascii (desired_Domain d)
     \<and> ascii (desired_RootFSPath d) \<and> int64_ok (desired_Instances d) \<and> desired_Stack d \<noteq> []
     \<and> ascii (desired_Stack d) \<and> actions_ok (desired_Actions d) \<and> int64_ok (desired_DiskMB d)
     \<and> int64_ok (desired_MemoryMB d) \<and> (\<forall>r \<in> set (slice_elems (desired_Routes d)). ascii r)
     \<and> log_ok (desired_Log d)"

definition actual_ok :: "actual_lrp \<Rightarrow> bool" where
  "actual_ok a \<longleftrightarrow> actual_ProcessGuid a \<noteq> [] \<and> ascii (actual_ProcessGuid a) \<and> actual_InstanceGuid a \<noteq> []
     \<and> ascii (actual_InstanceGuid a) \<and> actual_ExecutorID a \<noteq> [] \<and> ascii (actual_ExecutorID a)
     \<and> int64_ok (actual_Index a) \<and> ascii (actual_Host a) \<and> int64_ok (actual_State a)
     \<and> int64_ok (actual_Since a)"

definition start_auction_ok :: "lrp_start_auction \<Rightarrow> bool" where
  "start_auction_ok a \<longleftrightarrow> desired_ok (sta_DesiredLRP a) \<and> sta_InstanceGuid a \<noteq> [] \<and> ascii (sta_InstanceGuid a)
     \<and> int64_ok (sta_Index a) \<and> int64_ok (sta_State a) \<and> int64_ok (sta_UpdatedAt a)"

definition stop_auction_ok :: "lrp_stop_auction \<Rightarrow> bool" where
  "stop_auction_ok a \<longleftrightarrow> spa_ProcessGuid a \<noteq> [] \<and> ascii (spa_ProcessGuid a)
     \<and> int64_ok (spa_Index a) \<and> int64_ok (spa_State a) \<and> int64_ok (spa_UpdatedAt a)"

definition stop_instance_ok :: "stop_lrp_instance \<Rightarrow> bool" where
  "stop_instance_ok s \<longleftrightarrow> sli_ProcessGuid s \<noteq> [] \<and> ascii (sli_ProcessGuid s) \<and> sli_InstanceGuid s \<noteq> []
     \<and> ascii (sli_InstanceGuid s) \<and> int64_ok (sli_Index s)"

definition presence_ok :: "executor_presence \<Rightarrow> bool" where
  "presence_ok p \<longleftrightarrow> ascii (ep_ExecutorID p) \<and> ascii (ep_Stack p)"

text \<open>A finite float whose shortest literal is a JSON number that reads back (decidable by evaluation).\<close>

definition float_ok :: "float64 \<Rightarrow> bool" where
  "float_ok f \<longleftrightarrow> f64_finite f \<and> number_lit (FormatFloat f) \<and> ParseFloat (FormatFloat f) = Some f"

definition task_ok :: "task \<Rightarrow> bool" where
  "task_ok t \<longleftrightarrow> task_Guid t \<noteq> [] \<and> ascii (task_Guid t) \<and> ascii (task_Domain t) \<and> actions_ok (task_Actions t)
     \<and> task_Stack t \<noteq> [] \<and> ascii (task_Stack t) \<and> int64_ok (task_MemoryMB t) \<and> int64_ok (task_DiskMB t)
     \<and> float_ok (task_CpuPercent t) \<and> log_ok (task_Log t) \<and> int64_ok (task_CreatedAt t)
     \<and> int64_ok (task_UpdatedAt t) \<and> int64_ok (task_State t) \<and> ascii (task_ExecutorID t)
     \<and> ascii (task_ContainerHandle t) \<and> ascii (task_Result t) \<and> ascii (task_FailureReason t)
     \<and> ascii (task_Annotation t)"

section \<open>Parts\<close>

lemma dec_port_enc: "dec_struct port_fields zero_port (enc_port p) = Dec p False"
  by (cases p) (simp add: port_fields_def enc_port_def table_simps zero_port_def)

lemma dec_log_enc: "dec_struct log_fields r (enc_log l) = Dec l False"
  by (simp add: log_fields_def enc_log_def table_simps)

lemma json_ok_log: "log_ok l \<Longrightarrow> json_ok (enc_log l)"
  by (simp add: enc_log_def log_ok_def)

lemma json_ok_port [simp]: "json_ok (enc_port p)"
  by (simp add: enc_port_def)

lemma dec_slice_from_nil:
  assumes "\<And>x. x \<in> set (slice_elems s) \<Longrightarrow> d z (e x) = Dec x False"
  shows "dec_slice d z None (enc_slice e s) = Dec s False"
proof -
  have "\<forall>x \<in> set xs. d z (e x) = Dec x False \<Longrightarrow> dec_elems d z [] (map e xs) = Dec xs False" for xs
    by (induction xs) auto
  with assms show ?thesis by (cases s) (simp_all add: dec_slice_def enc_slice_def)
qed

lemma dec_ports_enc: "dec_slice (dec_struct port_fields) zero_port None (enc_slice enc_port s) = Dec s False"
  by (rule dec_slice_from_nil) (rule dec_port_enc)

lemma actions_enc:
  assumes "\<forall>a \<in> set (slice_elems as). action_ok a"
  obtains j where "enc_actions as = Some j" and "json_ok j"
    and "\<And>old. dec_slice UnmarshalJSON InvalidAction old j = Dec as False"
proof (cases as)
  case None
  then show ?thesis using that [of JNull] by (simp add: enc_actions_def dec_slice_def)
next
  case (Some xs)
  with assms have "\<exists>js. map enc_action xs = map Some js \<and> (\<forall>j \<in> set js. json_ok j)"
  proof (induction xs arbitrary: as)
    case Nil
    then show ?case by simp
  next
    case (Cons x xs)
    then obtain js where "map enc_action xs = map Some js" "\<forall>j \<in> set js. json_ok j" by auto
    moreover obtain j where "enc_action x = Some j" "json_ok j"
      using action_ok_enc [of x] Cons.prems by auto
    ultimately show ?case by (intro exI [of _ "j # js"]) simp
  qed
  then obtain js where js: "map enc_action xs = map Some js" "\<forall>j \<in> set js. json_ok j" by blast
  have "dec_elems UnmarshalJSON InvalidAction olds js = Dec xs False" for olds
    by (rule dec_elems_map [OF js(1)]) (use assms Some UnmarshalJSON_enc in auto)
  with js Some show ?thesis
    using that [of "JArr js"] by (simp add: enc_actions_def those_Some dec_slice_def)
qed

section \<open>Round trips\<close>

lemma desired_enc:
  assumes "desired_ok d"
  obtains j where "enc_desired d = Some j" and "json_ok j"
    and "dec_struct desired_fields zero_desired j = Dec d False"
proof -
  from assms obtain acts where a: "enc_actions (desired_Actions d) = Some acts" "json_ok acts"
    "\<And>old. dec_slice UnmarshalJSON InvalidAction old acts = Dec (desired_Actions d) False"
    by (auto simp: desired_ok_def actions_ok_def elim: actions_enc)
  define j where "j = the (enc_desired d)"
  have "enc_desired d = Some j" by (simp add: j_def enc_desired_def a)
  moreover have "json_ok j"
    using assms by (simp add: j_def enc_desired_def a desired_ok_def json_ok_log)
  moreover have "dec_struct desired_fields zero_desired j = Dec d False"
    using assms
    by (simp add: j_def enc_desired_def a desired_fields_def table_simps desired_ok_def zero_desired_def
        dec_ports_enc dec_log_enc dec_slice_enc)
  ultimately show ?thesis by (rule that)
qed

lemma desired_roundtrip:
  assumes "desired_ok d"
  shows "\<exists>b. DesiredLRP_ToJSON d = Some b \<and> NewDesiredLRPFromJSON b = Ok d"
proof -
  from assms obtain j where j: "enc_desired d = Some j" "json_ok j"
    "dec_struct desired_fields zero_desired j = Dec d False" by (rule desired_enc)
  then have "json_Unmarshal (dec_struct desired_fields) zero_desired (json_print j) = Ok d"
    by (intro json_Unmarshal_print)
  with assms j(1) show ?thesis
    by (simp add: DesiredLRP_ToJSON_def NewDesiredLRPFromJSON_def desired_ok_def actions_ok_def)
qed

lemma actual_roundtrip:
  assumes "actual_ok a"
  shows "\<exists>b. ActualLRP_ToJSON a = Some b \<and> NewActualLRPFromJSON b = Ok a"
proof -
  have "json_ok (enc_actual a)" using assms by (simp add: enc_actual_def actual_ok_def)
  moreover have "dec_struct actual_fields zero_actual (enc_actual a) = Dec a False"
    using assms
    by (simp add: enc_actual_def actual_fields_def table_simps actual_ok_def zero_actual_def dec_ports_enc)
  ultimately have "json_Unmarshal (dec_struct actual_fields) zero_actual (json_print (enc_actual a)) = Ok a"
    by (rule json_Unmarshal_print)
  with assms show ?thesis
    by (simp add: ActualLRP_ToJSON_def NewActualLRPFromJSON_def actual_ok_def)
qed

lemma start_auction_roundtrip:
  assumes "start_auction_ok a"
  shows "\<exists>b. LRPStartAuction_ToJSON a = Some b \<and> NewLRPStartAuctionFromJSON b = Ok a"
proof -
  from assms obtain d where d: "enc_desired (sta_DesiredLRP a) = Some d" "json_ok d"
    "dec_struct desired_fields zero_desired d = Dec (sta_DesiredLRP a) False"
    by (auto simp: start_auction_ok_def elim: desired_enc)
  define j where "j = the (enc_start_auction a)"
  have e: "enc_start_auction a = Some j" by (simp add: j_def enc_start_auction_def d)
  have "json_ok j" using assms by (simp add: j_def enc_start_auction_def d start_auction_ok_def)
  moreover have "dec_struct start_auction_fields zero_start_auction j = Dec a False"
    using assms
    by (simp add: j_def enc_start_auction_def d start_auction_fields_def table_simps start_auction_ok_def
        zero_start_auction_def)
  ultimately have "json_Unmarshal (dec_struct start_auction_fields) zero_start_auction (json_print j) = Ok a"
    by (rule json_Unmarshal_print)
  with assms e show ?thesis
    by (simp add: LRPStartAuction_ToJSON_def NewLRPStartAuctionFromJSON_def start_auction_ok_def)
qed

lemma stop_auction_roundtrip:
  assumes "stop_auction_ok a"
  shows "\<exists>b. LRPStopAuction_ToJSON a = Some b \<and> NewLRPStopAuctionFromJSON b = Ok a"
proof -
  have "json_ok (enc_stop_auction a)" using assms by (simp add: enc_stop_auction_def stop_auction_ok_def)
  moreover have "dec_struct stop_auction_fields zero_stop_auction (enc_stop_auction a) = Dec a False"
    using assms by (simp add: enc_stop_auction_def stop_auction_fields_def table_simps stop_auction_ok_def)
  ultimately have "json_Unmarshal (dec_struct stop_auction_fields) zero_stop_auction
      (json_print (enc_stop_auction a)) = Ok a"
    by (rule json_Unmarshal_print)
  with assms show ?thesis
    by (simp add: LRPStopAuction_ToJSON_def NewLRPStopAuctionFromJSON_def stop_auction_ok_def)
qed

lemma stop_instance_roundtrip:
  assumes "stop_instance_ok s"
  shows "\<exists>b. StopLRPInstance_ToJSON s = Some b \<and> NewStopLRPInstanceFromJSON b = Ok s"
proof -
  have "json_ok (enc_stop_instance s)" using assms by (simp add: enc_stop_instance_def stop_instance_ok_def)
  moreover have "dec_struct stop_instance_fields zero_stop_instance (enc_stop_instance s) = Dec s False"
    using assms by (simp add: enc_stop_instance_def stop_instance_fields_def table_simps stop_instance_ok_def)
  ultimately have "json_Unmarshal (dec_struct stop_instance_fields) zero_stop_instance
      (json_print (enc_stop_instance s)) = Ok s"
    by (rule json_Unmarshal_print)
  with assms show ?thesis
    by (simp add: StopLRPInstance_ToJSON_def NewStopLRPInstanceFromJSON_def stop_instance_ok_def)
qed

lemma presence_roundtrip:
  assumes "presence_ok p"
  shows "\<exists>b. ExecutorPresence_ToJSON p = Some b \<and> NewExecutorPresenceFromJSON b = Ok p"
proof -
  have "json_ok (enc_presence p)" using assms by (simp add: enc_presence_def presence_ok_def)
  moreover have "dec_struct presence_fields zero_presence (enc_presence p) = Dec p False"
    by (simp add: enc_presence_def presence_fields_def table_simps)
  ultimately show ?thesis
    by (simp add: ExecutorPresence_ToJSON_def NewExecutorPresenceFromJSON_def json_Unmarshal_print)
qed

lemma task_roundtrip:
  assumes "task_ok t"
  shows "\<exists>b. Task_ToJSON t = Some b \<and> NewTaskFromJSON b = Ok t"
proof -
  from assms obtain acts where a: "enc_actions (task_Actions t) = Some acts" "json_ok acts"
    "\<And>old. dec_slice UnmarshalJSON InvalidAction old acts = Dec (task_Actions t) False"
    by (auto simp: task_ok_def actions_ok_def elim: actions_enc)
  have f: "enc_float (task_CpuPercent t) = Some (JNum (FormatFloat (task_CpuPercent t)))"
    using assms by (simp add: enc_float_def task_ok_def float_ok_def)
  have df: "dec_float old (JNum (FormatFloat (task_CpuPercent t))) = Dec (task_CpuPercent t) False" for old
    using assms by (simp add: dec_float_def task_ok_def float_ok_def)
  define j where "j = the (enc_task t)"
  have e: "enc_task t = Some j" by (simp add: j_def enc_task_def a f)
  have "json_ok j"
    using assms by (simp add: j_def enc_task_def a f task_ok_def json_ok_log float_ok_def)
  moreover have "dec_struct task_fields zero_task j = Dec t False"
    using assms
    by (cases "task_Annotation t = []")
      (simp_all add: j_def enc_task_def a f df task_fields_def table_simps task_ok_def zero_task_def dec_log_enc
        task.equality)
  ultimately have "json_Unmarshal (dec_struct task_fields) zero_task (json_print j) = Ok t"
    by (rule json_Unmarshal_print)
  with assms e show ?thesis
    by (simp add: Task_ToJSON_def NewTaskFromJSON_def task_ok_def actions_ok_def)
qed

text \<open>The round trips as rewrite rules on the printed text.\<close>

lemma FromJSON_ToJSON:
  "desired_ok d \<Longrightarrow> DesiredLRP_ToJSON d = Some b \<Longrightarrow> NewDesiredLRPFromJSON b = Ok d"
  "actual_ok a \<Longrightarrow> ActualLRP_ToJSON a = Some b \<Longrightarrow> NewActualLRPFromJSON b = Ok a"
  "start_auction_ok sa \<Longrightarrow> LRPStartAuction_ToJSON sa = Some b \<Longrightarrow> NewLRPStartAuctionFromJSON b = Ok sa"
  "stop_auction_ok pa \<Longrightarrow> LRPStopAuction_ToJSON pa = Some b \<Longrightarrow> NewLRPStopAuctionFromJSON b = Ok pa"
  "stop_instance_ok s \<Longrightarrow> StopLRPInstance_ToJSON s = Some b \<Longrightarrow> NewStopLRPInstanceFromJSON b = Ok s"
  "presence_ok p \<Longrightarrow> ExecutorPresence_ToJSON p = Some b \<Longrightarrow> NewExecutorPresenceFromJSON b = Ok p"
  "task_ok t \<Longrightarrow> Task_ToJSON t = Some b \<Longrightarrow> NewTaskFromJSON b = Ok t"
  using desired_roundtrip actual_roundtrip start_auction_roundtrip stop_auction_roundtrip
    stop_instance_roundtrip presence_roundtrip task_roundtrip by fastforce+

section \<open>What a reader accepts\<close>

lemma NewDesiredLRPFromJSON_valid:
  "NewDesiredLRPFromJSON b = Ok d \<Longrightarrow>
   desired_ProcessGuid d \<noteq> [] \<and> desired_Stack d \<noteq> [] \<and> slice_elems (desired_Actions d) \<noteq> []"
  by (cases "json_Unmarshal (dec_struct desired_fields) zero_desired b")
    (auto simp: NewDesiredLRPFromJSON_def split: if_splits)

lemma NewActualLRPFromJSON_valid:
  "NewActualLRPFromJSON b = Ok a \<Longrightarrow>
   actual_ProcessGuid a \<noteq> [] \<and> actual_InstanceGuid a \<noteq> [] \<and> actual_ExecutorID a \<noteq> []"
  by (cases "json_Unmarshal (dec_struct actual_fields) zero_actual b")
    (auto simp: NewActualLRPFromJSON_def split: if_splits)

lemma NewTaskFromJSON_valid:
  "NewTaskFromJSON b = Ok t \<Longrightarrow> task_Guid t \<noteq> [] \<and> slice_elems (task_Actions t) \<noteq> [] \<and> task_Stack t \<noteq> []"
  by (cases "json_Unmarshal (dec_struct task_fields) zero_task b")
    (auto simp: NewTaskFromJSON_def split: if_splits)

text \<open>
  A text that is JSON, whose first action names a known kind and has no payload, makes the readers
  of tasks and desired LRPs panic: the other fields do not matter.
\<close>

lemma NewTaskFromJSON_panics:
  assumes "k \<in> set action_kinds" and "ascii k" and "ascii g"
  shows "NewTaskFromJSON (json_print (JObj [(''guid'', JStr g), (''actions'', JArr [JObj [(''action'', JStr k)]])])) = Panic"
proof -
  let ?j = "JObj [(''guid'', JStr g), (''actions'', JArr [JObj [(''action'', JStr k)]])]"
  have "json_parse (json_print ?j) = Some ?j"
    by (rule json_roundtrip) (simp add: assms)
  moreover have "dec_struct task_fields zero_task ?j = DecPanic"
    by (simp add: task_fields_def table_simps zero_task_def dec_slice_def UnmarshalJSON_no_args [OF assms(1)])
  ultimately show ?thesis
    unfolding NewTaskFromJSON_def json_Unmarshal_def by (simp del: json_print.simps)
qed

section \<open>Identifiers\<close>

lemma OpaqueID_roundtrip:
  assumes "CHR ''.'' \<notin> set (id_ProcessGuid ids)" and "CHR ''.'' \<notin> set (id_InstanceGuid ids)"
    and "int64_ok (id_Index ids)"
  shows "LRPIdentifierFromOpaqueID (OpaqueID ids) = Ok ids"
proof -
  have "CHR ''.'' \<notin> set (Itoa (id_Index ids))" by (rule Itoa_notin) simp_all
  then have "strings_Split (CHR ''.'') (OpaqueID ids)
      = [id_ProcessGuid ids, Itoa (id_Index ids), id_InstanceGuid ids]"
    using assms by (simp add: OpaqueID_def strings_Split_append strings_Split_nosep)
  with assms(3) show ?thesis by (simp add: LRPIdentifierFromOpaqueID_def Atoi_def)
qed

lemma LRPIdentifierFromOpaqueID_Ok:
  assumes "LRPIdentifierFromOpaqueID s = Ok ids"
  shows "\<exists>i. s = id_ProcessGuid ids @ ''.'' @ i @ ''.'' @ id_InstanceGuid ids \<and> Atoi i = Some (id_Index ids)
    \<and> CHR ''.'' \<notin> set (id_ProcessGuid ids) \<and> CHR ''.'' \<notin> set (id_InstanceGuid ids)"
proof -
  define xs where "xs = strings_Split (CHR ''.'') s"
  have len: "length xs = 3" and i: "Atoi (xs ! 1) = Some (id_Index ids)"
    and ids: "id_ProcessGuid ids = xs ! 0" "id_InstanceGuid ids = xs ! 2"
    using assms by (auto simp: LRPIdentifierFromOpaqueID_def Let_def xs_def split: if_splits option.splits)
  then have xs: "xs = [xs ! 0, xs ! 1, xs ! 2]"
    by (auto simp: list_eq_iff_nth_eq less_Suc_eq numeral_3_eq_3 numeral_2_eq_2)
  have "s = strings_Join ''.'' xs" by (simp add: xs_def strings_Join_Split)
  then have "s = xs ! 0 @ ''.'' @ xs ! 1 @ ''.'' @ xs ! 2" by (subst (asm) xs) simp
  moreover have "CHR ''.'' \<notin> set (xs ! 0)" "CHR ''.'' \<notin> set (xs ! 2)"
    using strings_Split_no_sep [of _ "CHR ''.''" s] len unfolding xs_def [symmetric] by simp_all
  ultimately show ?thesis using i ids by (intro exI [of _ "xs ! 1"]) simp
qed

lemma FilterByName_eq: "FilterByName s n = filter (\<lambda>r. reg_Name r = n) s"
  by (induction s) auto

end
