(* ===== verification/StoreAdapter.thy ===== *)
theory StoreAdapter
  imports GoLib "HOL-Library.Sublist"
begin

text \<open>
  storeadapter: the node and event types, the \<open>StoreAdapter\<close> interface as a record of operations
  (an interface value is a table of methods), and the contract its users rely on, as two locales
  over an abstract view of the store: a tree of directories and leaves addressed by key components.
  FakeStore shows that the in-memory store of the source meets the first contract.
\<close>

section \<open>Nodes and events\<close>

text \<open>TTLs and indices are \<open>uint64\<close>s that the program only copies and compares, never computes with.\<close>

datatype store_node =
  StoreNode (sn_Key: string) (sn_Value: bytes) (sn_Dir: bool) (sn_TTL: nat)
    (sn_ChildNodes: "store_node list") (sn_Index: nat)

definition zero_node :: store_node where
  "zero_node = StoreNode [] [] False 0 [] 0"

text \<open>\<open>StoreNode{Key: key, Value: value, TTL: ttl}\<close>\<close>

definition leaf_node :: "string \<Rightarrow> bytes \<Rightarrow> nat \<Rightarrow> store_node" where
  "leaf_node key v ttl = StoreNode key v False ttl [] 0"

lemma leaf_node_sel [simp]:
  "sn_Key (leaf_node k v t) = k" "sn_Value (leaf_node k v t) = v" "sn_Dir (leaf_node k v t) = False"
  "sn_TTL (leaf_node k v t) = t" "sn_ChildNodes (leaf_node k v t) = []" "sn_Index (leaf_node k v t) = 0"
  by (simp_all add: leaf_node_def)

definition Lookup :: "store_node \<Rightarrow> string \<Rightarrow> store_node option" where
  "Lookup self childKey =
     (let lookupKey = path_Join [sn_Key self, childKey]
      in find (\<lambda>node. sn_Key node = lookupKey) (sn_ChildNodes self))"

definition KeyComponents :: "store_node \<Rightarrow> string list" where
  "KeyComponents self = tl (strings_Split slash (sn_Key self))"

datatype event_type = CreateEvent | DeleteEvent | ExpireEvent | UpdateEvent

record watch_event =
  we_Type :: event_type
  we_Node :: "store_node option"
  we_PrevNode :: "store_node option"

definition zero_event :: watch_event where
  "zero_event = \<lparr>we_Type = CreateEvent, we_Node = None, we_PrevNode = None\<rparr>"

section \<open>The interface\<close>

record 's store_adapter =
  sa_Create :: "store_node \<Rightarrow> ('s, error option) go"
  sa_Update :: "store_node \<Rightarrow> ('s, error option) go"
  sa_CompareAndSwap :: "store_node \<Rightarrow> store_node \<Rightarrow> ('s, error option) go"
  sa_CompareAndSwapByIndex :: "nat \<Rightarrow> store_node \<Rightarrow> ('s, error option) go"
  sa_SetMulti :: "store_node list \<Rightarrow> ('s, error option) go"
  sa_Get :: "string \<Rightarrow> ('s, store_node \<times> error option) go"
  sa_ListRecursively :: "string \<Rightarrow> ('s, store_node \<times> error option) go"
  sa_Delete :: "string list \<Rightarrow> ('s, error option) go"
  sa_CompareAndDelete :: "store_node \<Rightarrow> ('s, error option) go"
  sa_UpdateDirTTL :: "string \<Rightarrow> nat \<Rightarrow> ('s, error option) go"

text \<open>The clock: \<open>Time().UnixNano()\<close> of the time provider.\<close>

type_synonym 's clock = "('s, gotime) go"

section \<open>The abstract view of a store\<close>

datatype entry = DirE | LeafE bytes nat

type_synonym path = "string list"
type_synonym view = "path \<Rightarrow> entry option"

text \<open>
  The keys the contract speaks of: absolute paths of simple elements, none of which is hidden (etcd
  leaves the keys that start with an underscore out of its listings).
\<close>

definition key_elem :: "string \<Rightarrow> bool" where
  "key_elem e \<longleftrightarrow> simple_elem e \<and> hd e \<noteq> CHR ''_''"

lemma key_elem_simple [dest]: "key_elem e \<Longrightarrow> simple_elem e"
  by (simp add: key_elem_def)

lemma key_elem_simples: "\<forall>e \<in> set es. key_elem e \<Longrightarrow> \<forall>e \<in> set es. simple_elem e"
  by (simp add: key_elem_def)

lemma Itoa_key [simp]: "key_elem (Itoa n)"
proof -
  have "CHR ''_'' \<notin> set (Itoa n)" by (simp add: Itoa_notin)
  then show ?thesis by (metis Itoa_nonempty Itoa_simple hd_in_set key_elem_def)
qed

definition clean :: "path \<Rightarrow> bool" where
  "clean es \<longleftrightarrow> es \<noteq> [] \<and> (\<forall>e \<in> set es. key_elem e)"

lemma abs_path_eq: "clean es \<Longrightarrow> clean fs \<Longrightarrow> abs_path es = abs_path fs \<longleftrightarrow> es = fs"
  unfolding clean_def using abs_path_inj key_elem_simples by metis

lemma KeyComponents_abs: "clean es \<Longrightarrow> sn_Key n = abs_path es \<Longrightarrow> KeyComponents n = es"
  using strings_Split_Join [of es slash] by (simp add: KeyComponents_def abs_path_def clean_def key_elem_def simple_elem_def)

definition is_leaf :: "entry option \<Rightarrow> bool" where
  "is_leaf x \<longleftrightarrow> (\<exists>v i. x = Some (LeafE v i))"

definition no_leaf_above :: "view \<Rightarrow> path \<Rightarrow> bool" where
  "no_leaf_above f es \<longleftrightarrow> (\<forall>p. strict_prefix p es \<longrightarrow> \<not> is_leaf (f p))"

definition put_path :: "view \<Rightarrow> path \<Rightarrow> bytes \<Rightarrow> nat \<Rightarrow> view" where
  "put_path f es v i =
     (\<lambda>p. if p = es then Some (LeafE v i) else if strict_prefix p es then Some DirE else f p)"

definition del_path :: "view \<Rightarrow> path \<Rightarrow> view" where
  "del_path f es = (\<lambda>p. if prefix es p then None else f p)"

definition creatable :: "view \<Rightarrow> path \<Rightarrow> bool" where
  "creatable f es \<longleftrightarrow> f es = None \<and> no_leaf_above f es"

definition holds :: "view \<Rightarrow> path \<Rightarrow> bytes \<Rightarrow> bool" where
  "holds f es v \<longleftrightarrow> (\<exists>j. f es = Some (LeafE v j))"

definition settable :: "view \<Rightarrow> path \<Rightarrow> bool" where
  "settable f es \<longleftrightarrow> f es \<noteq> Some DirE \<and> no_leaf_above f es"

lemma put_path_same [simp]: "put_path f es v i es = Some (LeafE v i)"
  by (simp add: put_path_def)

lemma put_path_leaf_other:
  "is_leaf (f p) \<Longrightarrow> no_leaf_above f es \<Longrightarrow> p \<noteq> es \<Longrightarrow> put_path f es v i p = f p"
  by (auto simp: put_path_def no_leaf_above_def)

lemma put_path_None: "put_path f es v i p = None \<longleftrightarrow> p \<noteq> es \<and> \<not> strict_prefix p es \<and> f p = None"
  by (simp add: put_path_def)

lemma put_path_put: "put_path (put_path f es v i) es w j = put_path f es w j"
  by (auto simp: put_path_def)

lemma settable_put: "settable f es \<Longrightarrow> settable (put_path f es v i) es"
  by (auto simp: settable_def no_leaf_above_def put_path_def is_leaf_def)

lemma creatable_settable: "creatable f es \<Longrightarrow> settable f es"
  by (simp add: creatable_def settable_def)

lemma del_path_del: "del_path (del_path f es) es = del_path f es"
  by (auto simp: del_path_def)

text \<open>Several keys: deleted together, and written one after the other with some indices.\<close>

definition del_paths :: "view \<Rightarrow> path list \<Rightarrow> view" where
  "del_paths f ess = (\<lambda>p. if \<exists>es \<in> set ess. prefix es p then None else f p)"

inductive puts :: "view \<Rightarrow> (path \<times> bytes) list \<Rightarrow> view \<Rightarrow> bool" where
  puts_Nil: "puts f [] f"
| puts_Cons: "puts (put_path f es v i) xs g \<Longrightarrow> puts f ((es, v) # xs) g"

inductive_simps puts_simps [simp]: "puts f [] g" "puts f ((es, v) # xs) g"

definition independent :: "path set \<Rightarrow> bool" where
  "independent P \<longleftrightarrow> (\<forall>p \<in> P. \<forall>q \<in> P. \<not> strict_prefix p q)"

lemma del_paths_simps [simp]:
  "del_paths f [] = f"
  "del_paths f (es # ess) = del_paths (del_path f es) ess"
  by (auto simp: del_paths_def del_path_def)

lemma puts_append: "puts f (xs @ ys) h \<longleftrightarrow> (\<exists>g. puts f xs g \<and> puts g ys h)"
  by (induction xs arbitrary: f) (simp, force)

text \<open>What a path holds after several writes.\<close>

lemma puts_other:
  assumes "puts f xs g" and "\<forall>(es, v) \<in> set xs. \<not> prefix p es"
  shows "g p = f p"
  using assms by (induction) (auto simp: put_path_def strict_prefix_def)

lemma puts_key:
  assumes "puts f xs g" and "es \<in> fst ` set xs" and "independent (fst ` set xs)"
  shows "\<exists>v i. (es, v) \<in> set xs \<and> g es = Some (LeafE v i)"
  using assms
proof (induction)
  case (puts_Cons f es' v i xs g)
  have ind: "independent (fst ` set xs)" using puts_Cons.prems by (auto simp: independent_def)
  show ?case
  proof (cases "es \<in> fst ` set xs")
    case True
    then show ?thesis using puts_Cons.IH ind by auto
  next
    case False
    then have "es = es'" using puts_Cons.prems by auto
    moreover have "\<forall>(es'', v) \<in> set xs. \<not> prefix es es''"
      using False puts_Cons.prems \<open>es = es'\<close> by (fastforce simp: independent_def strict_prefix_def)
    ultimately show ?thesis using puts_other [OF puts_Cons.hyps(1)] by auto
  qed
qed simp

lemma settable_put_other:
  assumes "settable f es" and "\<not> strict_prefix es es'" and "\<not> strict_prefix es' es"
  shows "settable (put_path f es' v i) es"
  using assms by (auto simp: settable_def no_leaf_above_def put_path_def is_leaf_def)

lemma settable_puts:
  assumes "puts f xs g" and "settable f es" and "independent (insert es (fst ` set xs))"
  shows "settable g es"
  using assms by (induction) (auto simp: independent_def intro: settable_put_other)

text \<open>A listed node and what it shows of the view below its path.\<close>

inductive tree_of :: "view \<Rightarrow> path \<Rightarrow> store_node \<Rightarrow> bool" for f where
  tree_leaf: "f es = Some (LeafE v i) \<Longrightarrow> tree_of f es (StoreNode (abs_path es) v False ttl [] i)"
| tree_dir: "f es = Some DirE \<Longrightarrow> distinct names \<Longrightarrow> set names = {e. f (es @ [e]) \<noteq> None} \<Longrightarrow>
    list_all2 (\<lambda>e c. tree_of f (es @ [e]) c) names cs \<Longrightarrow>
    tree_of f es (StoreNode (abs_path es) [] True ttl cs i)"

inductive_cases tree_of_cases: "tree_of f es n"
inductive_simps tree_of_simps: "tree_of f es (StoreNode k v d ttl cs i)"

lemma tree_of_key: "tree_of f es n \<Longrightarrow> sn_Key n = abs_path es"
  by (auto elim: tree_of_cases)

lemma tree_of_leaf: "tree_of f es n \<Longrightarrow> f es = Some (LeafE v i) \<Longrightarrow> sn_Value n = v \<and> sn_Index n = i \<and> sn_ChildNodes n = []"
  by (auto elim: tree_of_cases)

lemma tree_of_child:
  assumes "tree_of f es n" and "c \<in> set (sn_ChildNodes n)"
  obtains e where "tree_of f (es @ [e]) c"
  using assms
  by (cases rule: tree_of.cases) (auto simp: list_all2_conv_all_nth in_set_conv_nth)

lemma tree_of_names:
  assumes "tree_of f es n" and "f es = Some DirE"
  obtains names where "distinct names" and "set names = {e. f (es @ [e]) \<noteq> None}"
    and "list_all2 (\<lambda>e c. tree_of f (es @ [e]) c) names (sn_ChildNodes n)"
  using assms by (cases rule: tree_of.cases) auto

lemma tree_of_dir: "tree_of f es n \<Longrightarrow> f es = Some DirE \<Longrightarrow> sn_Value n = []"
  by (auto elim: tree_of_cases)

lemma tree_of_exists: "tree_of f es n \<Longrightarrow> f es \<noteq> None"
  by (auto elim: tree_of_cases)

lemma tree_of_entry:
  assumes "tree_of f es n" and "f es = Some DirE" and "f (es @ [e]) \<noteq> None"
  obtains c where "c \<in> set (sn_ChildNodes n)" and "tree_of f (es @ [e]) c"
proof -
  from assms obtain names cs where "set names = {e. f (es @ [e]) \<noteq> None}"
    and all: "list_all2 (\<lambda>e c. tree_of f (es @ [e]) c) names cs" and cs: "sn_ChildNodes n = cs"
    by (cases rule: tree_of.cases) auto
  then have "e \<in> set names" using assms(3) by simp
  then obtain k where k: "k < length names" "names ! k = e" by (auto simp: in_set_conv_nth)
  have "tree_of f (es @ [e]) (cs ! k)" using all k by (auto simp: list_all2_conv_all_nth)
  moreover have "cs ! k \<in> set cs" using all k by (auto dest: list_all2_lengthD)
  ultimately show ?thesis using that cs by blast
qed

section \<open>The contract of a store\<close>

text \<open>
  \<open>inv\<close> is what every operation keeps, \<open>look\<close> the abstract view, and \<open>slack\<close> how many more times the
  store can time out: a store that comes back answers after finitely many timeouts. A write that
  timed out may or may not have been applied.
\<close>

locale kv_store =
  fixes ops :: "'s store_adapter"
    and inv :: "'s \<Rightarrow> bool"
    and look :: "'s \<Rightarrow> view"
    and slack :: "'s \<Rightarrow> nat"
  assumes look_dir: "inv s \<Longrightarrow> look s p \<noteq> None \<Longrightarrow> strict_prefix q p \<Longrightarrow> look s q = Some DirE"
  and look_simple: "inv s \<Longrightarrow> look s p \<noteq> None \<Longrightarrow> \<forall>e \<in> set p. key_elem e"
  and law_Get:
    "inv s \<Longrightarrow> clean es \<Longrightarrow>
     wp (sa_Get ops (abs_path es)) (\<lambda>(n, err) s'. inv s' \<and> look s' = look s \<and>
       (if err = Some ErrorTimeout then slack s' < slack s
        else slack s' \<le> slack s \<and>
          (case look s es of
             Some (LeafE v i) \<Rightarrow> err = None \<and> sn_Key n = abs_path es \<and> sn_Value n = v \<and> sn_Index n = i
           | Some DirE \<Rightarrow> err = Some ErrorNodeIsDirectory
           | None \<Rightarrow> err \<noteq> None \<and> (no_leaf_above (look s) es \<longrightarrow> err = Some ErrorKeyNotFound)))) s"
  and law_Create:
    "inv s \<Longrightarrow> clean es \<Longrightarrow>
     wp (sa_Create ops (leaf_node (abs_path es) v ttl)) (\<lambda>err s'. inv s' \<and>
       (if err = Some ErrorTimeout
        then slack s' < slack s \<and>
          (look s' = look s \<or> creatable (look s) es \<and> (\<exists>i. look s' = put_path (look s) es v i))
        else slack s' \<le> slack s \<and>
          (if creatable (look s) es then err = None \<and> (\<exists>i. look s' = put_path (look s) es v i)
           else look s' = look s \<and> err \<noteq> None \<and> (is_leaf (look s es) \<longrightarrow> err = Some ErrorKeyExists)))) s"
  and law_Set_multi:
    "inv s \<Longrightarrow> \<forall>(es, v) \<in> set xs. clean es \<and> settable (look s) es \<Longrightarrow> independent (fst ` set xs) \<Longrightarrow>
     wp (sa_SetMulti ops (map (\<lambda>(es, v). leaf_node (abs_path es) v ttl) xs)) (\<lambda>err s'. inv s' \<and>
       (if err = Some ErrorTimeout
        then slack s' < slack s \<and> (\<exists>ys. set ys \<subseteq> set xs \<and> puts (look s) ys (look s'))
        else slack s' \<le> slack s \<and> err = None \<and> (\<exists>ys. set ys = set xs \<and> puts (look s) ys (look s')))) s"
  and law_Delete:
    "inv s \<Longrightarrow> clean es \<Longrightarrow> no_leaf_above (look s) es \<Longrightarrow>
     wp (sa_Delete ops [abs_path es]) (\<lambda>err s'. inv s' \<and>
       (if err = Some ErrorTimeout
        then slack s' < slack s \<and> (look s' = look s \<or> look s' = del_path (look s) es)
        else slack s' \<le> slack s \<and>
          (if look s es = None then look s' = look s \<and> err = Some ErrorKeyNotFound
           else look s' = del_path (look s) es \<and> err = None))) s"
  and law_Delete_multi:
    "inv s \<Longrightarrow> \<forall>es \<in> set ess. clean es \<and> no_leaf_above (look s) es \<Longrightarrow>
     wp (sa_Delete ops (map abs_path ess)) (\<lambda>err s'. inv s' \<and> slack s' \<le> slack s \<and>
       (\<exists>ds. set ds \<subseteq> set ess \<and> look s' = del_paths (look s) ds) \<and>
       (err = None \<longrightarrow> look s' = del_paths (look s) ess) \<and>
       (slack s = 0 \<and> distinct ess \<and> independent (set ess) \<and> (\<forall>es \<in> set ess. look s es \<noteq> None) \<longrightarrow> err = None)) s"
  and law_List:
    "inv s \<Longrightarrow> clean es \<Longrightarrow>
     wp (sa_ListRecursively ops (abs_path es)) (\<lambda>(n, err) s'. inv s' \<and> look s' = look s \<and> (err \<noteq> None \<longrightarrow> n = zero_node) \<and>
       (if err = Some ErrorTimeout then slack s' < slack s
        else slack s' \<le> slack s \<and>
          (case look s es of
             Some DirE \<Rightarrow> err = None \<and> tree_of (look s) es n
           | Some (LeafE v i) \<Rightarrow> err = Some ErrorNodeIsNotDirectory
           | None \<Rightarrow> err \<noteq> None \<and> (no_leaf_above (look s) es \<longrightarrow> err = Some ErrorKeyNotFound)))) s"

context kv_store
begin

lemma look_above: "inv s \<Longrightarrow> look s p \<noteq> None \<Longrightarrow> no_leaf_above (look s) p"
  by (auto simp: no_leaf_above_def is_leaf_def dest: look_dir)

text \<open>Overwriting an entry changes nothing else.\<close>

lemma put_existing:
  assumes "inv s" and "look s es \<noteq> None"
  shows "put_path (look s) es v i = (look s)(es \<mapsto> LeafE v i)"
  using look_dir [OF assms] by (auto simp: put_path_def)

end

text \<open>
  A store with comparing writes: every write gives its leaf an index above all indices used so far
  (\<open>tick\<close>), so a write that compares the index succeeds only if nothing was written in between.
\<close>

definition compare_refused :: "view \<Rightarrow> path \<Rightarrow> error option \<Rightarrow> bool" where
  "compare_refused f es err \<longleftrightarrow> err \<noteq> None \<and> (is_leaf (f es) \<longrightarrow> err = Some ErrorKeyComparisonFailed) \<and>
     (f es = None \<and> no_leaf_above f es \<longrightarrow> err = Some ErrorKeyNotFound)"

locale cas_store = kv_store ops inv look slack
  for ops :: "'s store_adapter" and inv :: "'s \<Rightarrow> bool" and look :: "'s \<Rightarrow> view" and slack :: "'s \<Rightarrow> nat" +
  fixes tick :: "'s \<Rightarrow> nat"
  assumes tick_bound: "inv s \<Longrightarrow> look s p = Some (LeafE v i) \<Longrightarrow> 0 < i \<and> i \<le> tick s"
  and law_CAS_index:
    "inv s \<Longrightarrow> clean es \<Longrightarrow> look s es = Some (LeafE old j) \<Longrightarrow> 0 < idx \<Longrightarrow>
     wp (sa_CompareAndSwapByIndex ops idx (leaf_node (abs_path es) v ttl)) (\<lambda>err s'. inv s' \<and> tick s \<le> tick s' \<and>
       (if err = Some ErrorTimeout
        then slack s' < slack s \<and>
          (look s' = look s \<or> j = idx \<and> (\<exists>i > tick s. look s' = put_path (look s) es v i))
        else slack s' \<le> slack s \<and>
          (if j = idx then err = None \<and> (\<exists>i > tick s. look s' = put_path (look s) es v i)
           else look s' = look s \<and> err = Some ErrorKeyComparisonFailed))) s"
  and law_CAS_value:
    "inv s \<Longrightarrow> clean es \<Longrightarrow> old \<noteq> [] \<Longrightarrow>
     wp (sa_CompareAndSwap ops (leaf_node okey old ottl) (leaf_node (abs_path es) v ttl)) (\<lambda>err s'. inv s' \<and>
       tick s \<le> tick s' \<and>
       (if err = Some ErrorTimeout
        then slack s' < slack s \<and>
          (look s' = look s \<or> holds (look s) es old \<and> (\<exists>i > tick s. look s' = put_path (look s) es v i))
        else slack s' \<le> slack s \<and>
          (if holds (look s) es old then err = None \<and> (\<exists>i > tick s. look s' = put_path (look s) es v i)
           else look s' = look s \<and> compare_refused (look s) es err))) s"
  and law_CAD:
    "inv s \<Longrightarrow> clean es \<Longrightarrow> old \<noteq> [] \<Longrightarrow>
     wp (sa_CompareAndDelete ops (leaf_node (abs_path es) old ttl)) (\<lambda>err s'. inv s' \<and> tick s \<le> tick s' \<and>
       (if err = Some ErrorTimeout
        then slack s' < slack s \<and> (look s' = look s \<or> holds (look s) es old \<and> look s' = del_path (look s) es)
        else slack s' \<le> slack s \<and>
          (if holds (look s) es old then err = None \<and> look s' = del_path (look s) es
           else look s' = look s \<and> compare_refused (look s) es err))) s"

end
