(* ===== verification/Shared.thy ===== *)
theory Shared
  imports ModelsRoundtrip StoreAdapter "HOL-Library.Multiset"
begin

text \<open>
  runtime-schema/bbs/shared: the keys of the store (schema.go), the retry loop every write goes
  through, and the goroutine that filters watch events (bbs_helpers.go). A \<open>bbs\<close> value is what the
  component structs \<open>TaskBBS\<close>, \<open>LRPBBS\<close>, \<open>StartAuctionBBS\<close>, \<open>StopAuctionBBS\<close> and \<open>ServicesBBS\<close> hold: the
  store and the time provider (their loggers only write logs and are left out).
\<close>

section \<open>Keys\<close>

definition SchemaRoot :: string where "SchemaRoot = ''/v1/''"
definition ExecutorSchemaRoot :: string where "ExecutorSchemaRoot = SchemaRoot @ ''executor''"
definition FileServerSchemaRoot :: string where "FileServerSchemaRoot = SchemaRoot @ ''file_server''"
definition LRPStartAuctionSchemaRoot :: string where "LRPStartAuctionSchemaRoot = SchemaRoot @ ''start''"
definition LRPStopAuctionSchemaRoot :: string where "LRPStopAuctionSchemaRoot = SchemaRoot @ ''stop''"
definition StopLRPInstanceSchemaRoot :: string where "StopLRPInstanceSchemaRoot = SchemaRoot @ ''stop-instance''"
definition ActualLRPSchemaRoot :: string where "ActualLRPSchemaRoot = SchemaRoot @ ''actual''"
definition DesiredLRPSchemaRoot :: string where "DesiredLRPSchemaRoot = SchemaRoot @ ''desired''"
definition TaskSchemaRoot :: string where "TaskSchemaRoot = SchemaRoot @ ''task''"
definition LockSchemaRoot :: string where "LockSchemaRoot = SchemaRoot @ ''locks''"

definition ExecutorSchemaPath :: "string \<Rightarrow> string" where
  "ExecutorSchemaPath executorID = path_Join [ExecutorSchemaRoot, executorID]"

definition FileServerSchemaPath :: "string list \<Rightarrow> string" where
  "FileServerSchemaPath segments = path_Join (FileServerSchemaRoot # segments)"

definition LRPStartAuctionSchemaPath :: "lrp_start_auction \<Rightarrow> string" where
  "LRPStartAuctionSchemaPath lrp =
     path_Join [LRPStartAuctionSchemaRoot, desired_ProcessGuid (sta_DesiredLRP lrp), Itoa (sta_Index lrp)]"

definition LRPStopAuctionSchemaPath :: "lrp_stop_auction \<Rightarrow> string" where
  "LRPStopAuctionSchemaPath lrp = path_Join [LRPStopAuctionSchemaRoot, spa_ProcessGuid lrp, Itoa (spa_Index lrp)]"

definition StopLRPInstanceSchemaPath :: "stop_lrp_instance \<Rightarrow> string" where
  "StopLRPInstanceSchemaPath stopInstance = path_Join [StopLRPInstanceSchemaRoot, sli_InstanceGuid stopInstance]"

definition ActualLRPSchemaPathFromStopLRPInstance :: "stop_lrp_instance \<Rightarrow> string" where
  "ActualLRPSchemaPathFromStopLRPInstance stopInstance =
     path_Join [ActualLRPSchemaRoot, sli_ProcessGuid stopInstance, Itoa (sli_Index stopInstance),
       sli_InstanceGuid stopInstance]"

definition ActualLRPSchemaPath :: "string \<Rightarrow> int \<Rightarrow> string \<Rightarrow> string" where
  "ActualLRPSchemaPath processGuid index instanceGuid =
     path_Join [ActualLRPSchemaRoot, processGuid, Itoa index, instanceGuid]"

definition DesiredLRPSchemaPathByProcessGuid :: "string \<Rightarrow> string" where
  "DesiredLRPSchemaPathByProcessGuid processGuid = path_Join [DesiredLRPSchemaRoot, processGuid]"

definition DesiredLRPSchemaPath :: "desired_lrp \<Rightarrow> string" where
  "DesiredLRPSchemaPath lrp = DesiredLRPSchemaPathByProcessGuid (desired_ProcessGuid lrp)"

definition TaskSchemaPath :: "string \<Rightarrow> string" where
  "TaskSchemaPath taskGuid = path_Join [TaskSchemaRoot, taskGuid]"

definition LockSchemaPath :: "string \<Rightarrow> string" where
  "LockSchemaPath lockName = path_Join [LockSchemaRoot, lockName]"

subsection \<open>The keys as paths\<close>

text \<open>Every root is a two-element path, and a key is its root followed by the identifiers.\<close>

abbreviation v1 :: "string \<Rightarrow> path" where "v1 r \<equiv> [''v1'', r]"

lemma roots_abs [simp]:
  "ExecutorSchemaRoot = abs_path (v1 ''executor'')"
  "FileServerSchemaRoot = abs_path (v1 ''file_server'')"
  "LRPStartAuctionSchemaRoot = abs_path (v1 ''start'')"
  "LRPStopAuctionSchemaRoot = abs_path (v1 ''stop'')"
  "StopLRPInstanceSchemaRoot = abs_path (v1 ''stop-instance'')"
  "ActualLRPSchemaRoot = abs_path (v1 ''actual'')"
  "DesiredLRPSchemaRoot = abs_path (v1 ''desired'')"
  "TaskSchemaRoot = abs_path (v1 ''task'')"
  "LockSchemaRoot = abs_path (v1 ''locks'')"
  by (simp_all add: ExecutorSchemaRoot_def FileServerSchemaRoot_def LRPStartAuctionSchemaRoot_def
      LRPStopAuctionSchemaRoot_def StopLRPInstanceSchemaRoot_def ActualLRPSchemaRoot_def
      DesiredLRPSchemaRoot_def TaskSchemaRoot_def LockSchemaRoot_def SchemaRoot_def abs_path_def)

definition root_names :: "string set" where
  "root_names = {''executor'', ''file_server'', ''start'', ''stop'', ''stop-instance'', ''actual'',
     ''desired'', ''task'', ''locks''}"

lemma simple_roots [simp]: "r \<in> root_names \<Longrightarrow> key_elem r"
  by (auto simp: root_names_def key_elem_def simple_elem_def)

lemma simple_v1 [simp]: "key_elem ''v1''"
  by (simp add: key_elem_def simple_elem_def)

lemma clean_v1 [simp]:
  "r \<in> root_names \<Longrightarrow> clean (v1 r)"
  "r \<in> root_names \<Longrightarrow> \<forall>e \<in> set es. key_elem e \<Longrightarrow> clean (''v1'' # r # es)"
  by (simp_all add: clean_def)

lemma in_root_names [simp]:
  "''executor'' \<in> root_names" "''file_server'' \<in> root_names" "''start'' \<in> root_names"
  "''stop'' \<in> root_names" "''stop-instance'' \<in> root_names" "''actual'' \<in> root_names"
  "''desired'' \<in> root_names" "''task'' \<in> root_names" "''locks'' \<in> root_names"
  by (simp_all add: root_names_def)

lemma join_root:
  assumes "r \<in> root_names" and "es \<noteq> []" and "\<forall>e \<in> set es. key_elem e"
  shows "path_Join (abs_path (v1 r) # es) = abs_path (''v1'' # r # es)"
  using path_Join_abs [of "v1 r" es] assms(1,2) key_elem_simples [OF assms(3)] key_elem_simple [OF simple_roots] key_elem_simple [OF simple_v1]
  by simp

lemma schema_paths:
  "key_elem x \<Longrightarrow> ExecutorSchemaPath x = abs_path [''v1'', ''executor'', x]"
  "xs \<noteq> [] \<Longrightarrow> \<forall>x \<in> set xs. key_elem x \<Longrightarrow> FileServerSchemaPath xs = abs_path (''v1'' # ''file_server'' # xs)"
  "key_elem (desired_ProcessGuid (sta_DesiredLRP sta)) \<Longrightarrow> LRPStartAuctionSchemaPath sta
     = abs_path [''v1'', ''start'', desired_ProcessGuid (sta_DesiredLRP sta), Itoa (sta_Index sta)]"
  "key_elem (spa_ProcessGuid spa) \<Longrightarrow> LRPStopAuctionSchemaPath spa
     = abs_path [''v1'', ''stop'', spa_ProcessGuid spa, Itoa (spa_Index spa)]"
  "key_elem (sli_InstanceGuid sli) \<Longrightarrow> StopLRPInstanceSchemaPath sli
     = abs_path [''v1'', ''stop-instance'', sli_InstanceGuid sli]"
  "key_elem p \<Longrightarrow> key_elem g \<Longrightarrow> ActualLRPSchemaPath p i g = abs_path [''v1'', ''actual'', p, Itoa i, g]"
  "key_elem p \<Longrightarrow> DesiredLRPSchemaPathByProcessGuid p = abs_path [''v1'', ''desired'', p]"
  "key_elem (desired_ProcessGuid d) \<Longrightarrow> DesiredLRPSchemaPath d = abs_path [''v1'', ''desired'', desired_ProcessGuid d]"
  "key_elem g \<Longrightarrow> TaskSchemaPath g = abs_path [''v1'', ''task'', g]"
  "key_elem l \<Longrightarrow> LockSchemaPath l = abs_path [''v1'', ''locks'', l]"
  by (simp_all add: ExecutorSchemaPath_def FileServerSchemaPath_def LRPStartAuctionSchemaPath_def
      LRPStopAuctionSchemaPath_def StopLRPInstanceSchemaPath_def ActualLRPSchemaPath_def
      DesiredLRPSchemaPath_def DesiredLRPSchemaPathByProcessGuid_def TaskSchemaPath_def
      LockSchemaPath_def join_root del: path_Join.simps)

lemma ActualLRPSchemaPathFromStop_eq:
  "ActualLRPSchemaPathFromStopLRPInstance s
     = ActualLRPSchemaPath (sli_ProcessGuid s) (sli_Index s) (sli_InstanceGuid s)"
  by (simp add: ActualLRPSchemaPathFromStopLRPInstance_def ActualLRPSchemaPath_def)

section \<open>RetryIndefinitelyOnStoreTimeout\<close>

text \<open>
  The callback is a closure: \<open>c\<close> holds the variables it captures and may assign. The one-second
  sleep between two calls leaves the state alone (what happens in the world meanwhile is part of
  what the next call may find).
\<close>

partial_function (option) RetryIndefinitelyOnStoreTimeout ::
  "('c \<Rightarrow> 's \<Rightarrow> (('c \<times> error option) run \<times> 's) option) \<Rightarrow> 'c \<Rightarrow> 's \<Rightarrow> (('c \<times> error option) run \<times> 's) option" where
  "RetryIndefinitelyOnStoreTimeout callback c s =
     (case callback c s of
        None \<Rightarrow> None
      | Some (r, s') \<Rightarrow>
          (case r of
             Panicked \<Rightarrow> Some (Panicked, s')
           | Done (c', err) \<Rightarrow>
               if err = Some ErrorTimeout then RetryIndefinitelyOnStoreTimeout callback c' s'
               else Some (Done (c', err), s')))"

text \<open>A callback that captures no variable it assigns.\<close>

definition Retry :: "('s, error option) go \<Rightarrow> ('s, error option) go" where
  "Retry m = go_bind (RetryIndefinitelyOnStoreTimeout (\<lambda>_. go_bind m (\<lambda>err. go_return ((), err))) ())
     (\<lambda>(_, err). go_return err)"

text \<open>
  The loop rule: \<open>slack\<close> bounds how many more timeouts the store can produce. It is a total
  correctness rule: the loop returns.
\<close>

lemma wp_RetryIndefinitely:
  fixes slack :: "'s \<Rightarrow> nat"
  assumes step: "\<And>c s. I c s \<Longrightarrow> wp (callback c) (\<lambda>(c', err) s'.
      if err = Some ErrorTimeout then I c' s' \<and> slack s' < slack s else Q (c', err) s') s"
    and "I c s"
  shows "wp (RetryIndefinitelyOnStoreTimeout callback c) Q s"
  using assms(2)
proof (induction "slack s" arbitrary: c s rule: less_induct)
  case less
  from step [OF less.prems] obtain c' err s' where
    run: "callback c s = Some (Done (c', err), s')" and
    res: "if err = Some ErrorTimeout then I c' s' \<and> slack s' < slack s else Q (c', err) s'"
    by (auto simp: wp_iff)
  show ?case
  proof (cases "err = Some ErrorTimeout")
    case True
    then have "wp (RetryIndefinitelyOnStoreTimeout callback c') Q s'" using res less.hyps by simp
    then show ?thesis using run True by (simp add: wp_def RetryIndefinitelyOnStoreTimeout.simps [of callback c s])
  next
    case False
    then show ?thesis using run res by (simp add: wp_def RetryIndefinitelyOnStoreTimeout.simps [of callback c s])
  qed
qed

lemma wp_Retry:
  fixes slack :: "'s \<Rightarrow> nat"
  assumes "\<And>s. I s \<Longrightarrow> wp m (\<lambda>err s'. if err = Some ErrorTimeout then I s' \<and> slack s' < slack s else Q err s') s"
    and "I s"
  shows "wp (Retry m) Q s"
  unfolding Retry_def wp_bind
  by (rule wp_RetryIndefinitely [where I = "\<lambda>_. I" and slack = slack])
    (use assms in \<open>auto intro!: wp_mono [OF assms(1)] split: if_splits\<close>)

text \<open>Whatever the callback does, the loop never hands a timeout to its caller.\<close>

lemma Retry_no_timeout_result:
  assumes "RetryIndefinitelyOnStoreTimeout callback c s = Some (Done (c', err), s')"
  shows "err \<noteq> Some ErrorTimeout"
proof -
  have "(\<forall>c' err s'. y = (Done (c', err), s') \<longrightarrow> err \<noteq> Some ErrorTimeout)"
    if "RetryIndefinitelyOnStoreTimeout callback c s = Some y" for y
    using _ that
  proof (rule RetryIndefinitelyOnStoreTimeout.raw_induct)
    fix f :: "('c \<Rightarrow> 's \<Rightarrow> (('c \<times> error option) run \<times> 's) option) \<Rightarrow> 'c \<Rightarrow> 's \<Rightarrow> (('c \<times> error option) run \<times> 's) option"
      and callback c s y
    assume IH: "\<And>callback c s y. f callback c s = Some y \<Longrightarrow> \<forall>c' err s'. y = (Done (c', err), s') \<longrightarrow> err \<noteq> Some ErrorTimeout"
      and eq: "(case callback c s of None \<Rightarrow> None
        | Some (Done (c', err), s') \<Rightarrow> if err = Some ErrorTimeout then f callback c' s' else Some (Done (c', err), s')
        | Some (Panicked, s') \<Rightarrow> Some (Panicked, s')) = Some y"
    then show "\<forall>c' err s'. y = (Done (c', err), s') \<longrightarrow> err \<noteq> Some ErrorTimeout"
      by (auto split: option.splits run.splits prod.splits if_splits)
  qed
  with assms show ?thesis by blast
qed

text \<open>A callback that only rewrites errors other than a timeout retries as often as it would without.\<close>

definition map_err :: "(error option \<Rightarrow> error option) \<Rightarrow> ('s, 'c \<times> error option) go \<Rightarrow> ('s, 'c \<times> error option) go" where
  "map_err h m = go_bind m (\<lambda>(c, err). go_return (c, h err))"

lemma Retry_map_err:
  assumes "RetryIndefinitelyOnStoreTimeout callback c s = Some y" and h: "\<And>e. h e = Some ErrorTimeout \<longleftrightarrow> e = Some ErrorTimeout"
  shows "RetryIndefinitelyOnStoreTimeout (\<lambda>c. map_err h (callback c)) c s = map_err h (\<lambda>_. Some y) s"
  using assms(1)
proof (rule RetryIndefinitelyOnStoreTimeout.raw_induct [rotated])
  fix f :: "('c \<Rightarrow> 's \<Rightarrow> (('c \<times> error option) run \<times> 's) option) \<Rightarrow> 'c \<Rightarrow> 's \<Rightarrow> (('c \<times> error option) run \<times> 's) option"
    and callback c s y
  assume IH: "\<And>callback c s y. f callback c s = Some y \<Longrightarrow>
      RetryIndefinitelyOnStoreTimeout (\<lambda>c. map_err h (callback c)) c s = map_err h (\<lambda>_. Some y) s"
    and eq: "(case callback c s of None \<Rightarrow> None
      | Some (Done (c', err), s') \<Rightarrow> if err = Some ErrorTimeout then f callback c' s' else Some (Done (c', err), s')
      | Some (Panicked, s') \<Rightarrow> Some (Panicked, s')) = Some y"
  then show "RetryIndefinitelyOnStoreTimeout (\<lambda>c. map_err h (callback c)) c s = map_err h (\<lambda>_. Some y) s"
    by (subst RetryIndefinitelyOnStoreTimeout.simps)
      (auto simp: map_err_def go_bind_def go_return_def h split: option.splits run.splits prod.splits if_splits)
qed

lemma wp_Retry_map:
  assumes "\<And>e. h e = Some ErrorTimeout \<longleftrightarrow> e = Some ErrorTimeout" and "wp (Retry m) (\<lambda>err. Q (h err)) s"
  shows "wp (Retry (go_bind m (\<lambda>err. go_return (h err)))) Q s"
proof -
  let ?cb = "\<lambda>_ :: unit. go_bind m (\<lambda>err. go_return ((), err))"
  obtain err s' where r: "RetryIndefinitelyOnStoreTimeout ?cb () s = Some (Done ((), err), s')" "Q (h err) s'"
    using assms(2) unfolding Retry_def wp_bind by (auto simp: wp_iff go_return_def)
  have "(\<lambda>c. map_err h (?cb c)) = (\<lambda>_. go_bind (go_bind m (\<lambda>err. go_return (h err))) (\<lambda>err. go_return ((), err)))"
    by (simp add: map_err_def go_bind_assoc)
  then have "RetryIndefinitelyOnStoreTimeout (\<lambda>_. go_bind (go_bind m (\<lambda>err. go_return (h err))) (\<lambda>err. go_return ((), err))) () s
      = Some (Done ((), h err), s')"
    using Retry_map_err [OF r(1) assms(1)] by (simp add: map_err_def go_bind_def go_return_def)
  then show ?thesis using r(2) unfolding Retry_def wp_bind by (auto simp: wp_iff go_return_def)
qed

section \<open>The components and their world\<close>

text \<open>\<open>Time.UnixNano\<close> is an \<open>int64\<close>.\<close>

definition UnixNano :: "gotime \<Rightarrow> int" where
  "UnixNano t = sint (word_of_int t :: 64 word)"

lemma UnixNano_ok [simp]: "int64_ok t \<Longrightarrow> UnixNano t = t"
  by (simp add: UnixNano_def int64_ok_def signed_take_bit_int_eq_self sint_sbintrunc')

lemma UnixNano_range [simp]: "int64_ok (UnixNano t)"
  using sint_ge [of "word_of_int t :: 64 word"] sint_lt [of "word_of_int t :: 64 word"]
  by (simp add: UnixNano_def int64_ok_def)

record 's bbs =
  bbs_store :: "'s store_adapter"
  bbs_clock :: "'s clock"

text \<open>The executors that maintain their presence.\<close>

definition alive :: "view \<Rightarrow> string \<Rightarrow> bool" where
  "alive f x \<longleftrightarrow> x \<noteq> [] \<and> f [''v1'', ''executor'', x] \<noteq> None"

text \<open>
  The convergence loops start one goroutine per entry to swap and wait for all of them; their errors
  are only logged. \<open>sched\<close> is the order in which the store serves them.
\<close>

definition swap_node :: "'s bbs \<Rightarrow> nat \<times> store_node \<Rightarrow> ('s, unit) go" where
  "swap_node bbs = (\<lambda>(oldIndex, newStoreNode).
     go_bind (sa_CompareAndSwapByIndex (bbs_store bbs) oldIndex newStoreNode) (\<lambda>_. go_return ()))"

type_synonym sched = "(nat \<times> store_node) list \<Rightarrow> (nat \<times> store_node) list"

definition batch_swap :: "sched \<Rightarrow> 's bbs \<Rightarrow> (nat \<times> store_node) list \<Rightarrow> ('s, unit) go" where
  "batch_swap sched bbs nodes = go_for (sched nodes) (swap_node bbs)"

text \<open>
  A world is a store that meets its contract and a clock that only tells the time. \<open>frozen_world\<close> is
  a world whose clock stands still, as the fake time provider does: there the time-dependent
  decisions of the convergence loops are a function of \<open>t0\<close>.
\<close>

locale kv_world = kv_store "bbs_store B" inv look slack
  for B :: "'s bbs" and inv :: "'s \<Rightarrow> bool" and look :: "'s \<Rightarrow> view" and slack :: "'s \<Rightarrow> nat" +
  assumes law_clock: "inv s \<Longrightarrow>
    wp (bbs_clock B) (\<lambda>t s'. inv s' \<and> look s' = look s \<and> slack s' \<le> slack s \<and> int64_ok t) s"
begin

lemma wp_clock:
  assumes "inv s" and "\<And>t s'. inv s' \<Longrightarrow> look s' = look s \<Longrightarrow> slack s' \<le> slack s \<Longrightarrow> int64_ok t \<Longrightarrow> Q t s'"
  shows "wp (bbs_clock B) Q s"
  using law_clock [OF assms(1)] by (rule wp_mono) (auto intro: assms(2))

text \<open>Listing a directory of a store that does not time out.\<close>

lemma wp_List_dir:
  assumes "inv s" and "clean es" and "look s es = Some DirE" and "slack s = 0"
    and "\<And>n s'. inv s' \<Longrightarrow> look s' = look s \<Longrightarrow> slack s' = 0 \<Longrightarrow> tree_of (look s) es n \<Longrightarrow> Q (n, None) s'"
  shows "wp (sa_ListRecursively (bbs_store B) (abs_path es)) Q s"
  using law_List [OF assms(1,2)] by (rule wp_mono) (use assms in \<open>auto split: if_splits\<close>)

lemma wp_List_none:
  assumes "inv s" and "clean es" and "look s es = None" and "no_leaf_above (look s) es" and "slack s = 0"
    and "\<And>s'. inv s' \<Longrightarrow> look s' = look s \<Longrightarrow> slack s' = 0 \<Longrightarrow> Q (zero_node, Some ErrorKeyNotFound) s'"
  shows "wp (sa_ListRecursively (bbs_store B) (abs_path es)) Q s"
  using law_List [OF assms(1,2)] by (rule wp_mono) (use assms in \<open>auto split: if_splits\<close>)

lemma clean_child: "inv s \<Longrightarrow> look s (es @ [e]) \<noteq> None \<Longrightarrow> clean (es @ [e])"
  using look_simple by (simp add: clean_def)

lemma tree_of_clean: "inv s \<Longrightarrow> clean es \<Longrightarrow> tree_of (look s) (es @ [e]) c \<Longrightarrow> clean (es @ [e])"
  using clean_child tree_of_exists by blast

text \<open>The children of a listed directory have distinct keys.\<close>

lemma distinct_child_keys:
  assumes "inv s" and "tree_of (look s) es n" and "look s es = Some DirE"
  shows "distinct (map sn_Key (sn_ChildNodes n))"
proof -
  obtain names where names: "distinct names" "set names = {e. look s (es @ [e]) \<noteq> None}"
    "list_all2 (\<lambda>e c. tree_of (look s) (es @ [e]) c) names (sn_ChildNodes n)"
    by (rule tree_of_names [OF assms(2,3)])
  have "map sn_Key (sn_ChildNodes n) = map (\<lambda>e. abs_path (es @ [e])) names"
    using names(3) by (auto simp: list_all2_conv_all_nth list_eq_iff_nth_eq tree_of_key)
  moreover have "inj_on (\<lambda>e. abs_path (es @ [e])) (set names)"
    using names(2) clean_child [OF assms(1)] by (auto simp: inj_on_def abs_path_eq)
  ultimately show ?thesis using names(1) by (simp add: distinct_map)
qed

text \<open>\<open>Lookup\<close> among the children of a listed directory.\<close>

lemma Lookup_tree:
  assumes "inv s" and "tree_of (look s) (v1 r) n" and "look s (v1 r) = Some DirE" and "r \<in> root_names" and "key_elem x"
  shows "Lookup n x \<noteq> None \<longleftrightarrow> look s [''v1'', r, x] \<noteq> None"
proof -
  have key: "path_Join [sn_Key n, x] = abs_path [''v1'', r, x]"
    using tree_of_key [OF assms(2)] join_root [of r "[x]"] assms(4,5) by simp
  have "(\<exists>c \<in> set (sn_ChildNodes n). sn_Key c = abs_path [''v1'', r, x]) \<longleftrightarrow> look s [''v1'', r, x] \<noteq> None" (is "?L \<longleftrightarrow> ?R")
  proof
    assume ?L
    then obtain c e where c: "sn_Key c = abs_path [''v1'', r, x]" "tree_of (look s) (v1 r @ [e]) c"
      using tree_of_child [OF assms(2)] by metis
    have "clean (v1 r @ [e])" using tree_of_clean [OF assms(1) _ c(2)] assms(4) by simp
    then have "e = x" using c assms(4,5) abs_path_eq [of "v1 r @ [e]" "[''v1'', r, x]"] tree_of_key [OF c(2)] by simp
    then show ?R using tree_of_exists [OF c(2)] by simp
  next
    assume ?R
    then obtain c where "c \<in> set (sn_ChildNodes n)" "tree_of (look s) (v1 r @ [x]) c"
      using tree_of_entry [OF assms(2,3), of x] by auto
    then show ?L using tree_of_key by fastforce
  qed
  then show ?thesis by (auto simp: Lookup_def key find_None_iff simp del: path_Join.simps)
qed

lemma Lookup_none:
  assumes "r \<in> root_names" and "tree_of (look s) (v1 r) n" and "inv s"
  shows "Lookup n [] = None"
proof -
  have "path_Clean (abs_path (v1 r) @ [slash]) = abs_path (v1 r)"
    using assms(1) by (auto simp: root_names_def abs_path_def path_Clean_def)
  then have key: "path_Join [sn_Key n, []] = abs_path (v1 r)"
    using tree_of_key [OF assms(2)] by (simp add: abs_path_def)
  have "sn_Key c \<noteq> abs_path (v1 r)" if c: "c \<in> set (sn_ChildNodes n)" for c
  proof -
    obtain e where e: "tree_of (look s) (v1 r @ [e]) c" using tree_of_child [OF assms(2) c] .
    have "clean (v1 r @ [e])" using tree_of_clean [OF assms(3) _ e] assms(1) by simp
    then show ?thesis using tree_of_key [OF e] abs_path_eq [of "v1 r @ [e]" "v1 r"] assms(1) by simp
  qed
  then show ?thesis by (auto simp: Lookup_def key find_None_iff simp del: path_Join.simps)
qed

text \<open>The listing of the executors, as the convergence loops use it.\<close>

lemma wp_list_executors:
  assumes "inv s" and "slack s = 0" and "\<not> is_leaf (look s (v1 ''executor''))"
    and above: "look s (v1 ''executor'') = None \<Longrightarrow> no_leaf_above (look s) (v1 ''executor'')"
    and Q: "\<And>n err s'. inv s' \<Longrightarrow> look s' = look s \<Longrightarrow> slack s' = 0 \<Longrightarrow> err = None \<or> err = Some ErrorKeyNotFound \<Longrightarrow>
      (\<And>x. x = [] \<or> key_elem x \<Longrightarrow>
         (Lookup (if err = Some ErrorKeyNotFound then zero_node else n) x \<noteq> None) = alive (look s) x) \<Longrightarrow> Q (n, err) s'"
  shows "wp (sa_ListRecursively (bbs_store B) ExecutorSchemaRoot) Q s"
proof (cases "look s (v1 ''executor'') = None")
  case True
  have none: "look s [''v1'', ''executor'', x] = None" for x
    using look_dir [OF assms(1), of "[''v1'', ''executor'', x]" "v1 ''executor''"] True by fastforce
  show ?thesis unfolding roots_abs
    by (rule wp_List_none [OF assms(1) _ True above [OF True] assms(2)])
      (auto intro!: Q simp: zero_node_def Lookup_def alive_def none)
next
  case False
  then have dir: "look s (v1 ''executor'') = Some DirE"
    using assms(3) by (cases "look s (v1 ''executor'')") (auto simp: is_leaf_def intro: entry.exhaust)
  show ?thesis unfolding roots_abs
  proof (rule wp_List_dir [OF assms(1) _ dir assms(2)], simp, goal_cases)
    case (1 n s')
    have "(Lookup n x \<noteq> None) = alive (look s) x" if "x = [] \<or> key_elem x" for x
      using that Lookup_tree [OF assms(1) 1(4) dir, of x] Lookup_none [OF _ 1(4) assms(1)]
      by (auto simp: alive_def key_elem_def simple_elem_def)
    then show ?case using 1 by (intro Q) auto
  qed
qed

text \<open>A read that is retried until the store answers.\<close>

lemma retry_Get:
  assumes "inv s" and "clean es"
    and "\<And>n err s'. inv s' \<Longrightarrow> look s' = look s \<Longrightarrow> slack s' \<le> slack s \<Longrightarrow> err \<noteq> Some ErrorTimeout \<Longrightarrow>
      (case look s es of
         Some (LeafE v i) \<Rightarrow> err = None \<and> sn_Key n = abs_path es \<and> sn_Value n = v \<and> sn_Index n = i
       | Some DirE \<Rightarrow> err = Some ErrorNodeIsDirectory
       | None \<Rightarrow> err \<noteq> None \<and> (no_leaf_above (look s) es \<longrightarrow> err = Some ErrorKeyNotFound)) \<Longrightarrow> Q (n, err) s'"
  shows "wp (RetryIndefinitelyOnStoreTimeout (\<lambda>_. sa_Get (bbs_store B) (abs_path es)) c) Q s"
proof (rule wp_RetryIndefinitely [where slack = slack and
      I = "\<lambda>_ s'. inv s' \<and> look s' = look s \<and> slack s' \<le> slack s"])
  fix c s1 assume I: "inv s1 \<and> look s1 = look s \<and> slack s1 \<le> slack s"
  show "wp (sa_Get (bbs_store B) (abs_path es)) (\<lambda>(c', err) s'. if err = Some ErrorTimeout
      then (inv s' \<and> look s' = look s \<and> slack s' \<le> slack s) \<and> slack s' < slack s1 else Q (c', err) s') s1"
    using law_Get [OF conjunct1 [OF I] assms(2), unfolded conjunct1 [OF conjunct2 [OF I]]] by (rule wp_mono) (use I in \<open>auto intro!: assms(3)\<close>)
qed (use assms in simp)

text \<open>A write that is retried until the store answers is applied.\<close>

lemma retry_Set_multi:
  assumes "inv s" and "\<forall>(es, v) \<in> set xs. clean es \<and> settable (look s) es" and "independent (fst ` set xs)"
  shows "wp (Retry (sa_SetMulti (bbs_store B) (map (\<lambda>(es, v). leaf_node (abs_path es) v ttl) xs)))
    (\<lambda>err s'. inv s' \<and> slack s' \<le> slack s \<and> err = None \<and> (\<exists>ys. set ys = set xs \<and> puts (look s) ys (look s'))) s"
proof (rule wp_Retry [where slack = slack and
      I = "\<lambda>s'. inv s' \<and> slack s' \<le> slack s \<and> (\<exists>ys. set ys \<subseteq> set xs \<and> puts (look s) ys (look s'))"])
  fix s1 assume I: "inv s1 \<and> slack s1 \<le> slack s \<and> (\<exists>ys. set ys \<subseteq> set xs \<and> puts (look s) ys (look s1))"
  then obtain ys where ys: "set ys \<subseteq> set xs" "puts (look s) ys (look s1)" by blast
  have ind: "independent (insert es (fst ` set ys))" if "es \<in> fst ` set xs" for es
    using assms(3) ys(1) that unfolding independent_def by blast
  have set: "\<forall>(es, v) \<in> set xs. clean es \<and> settable (look s1) es"
  proof safe
    fix es v assume m: "(es, v) \<in> set xs"
    then have "es \<in> fst ` set xs" by force
    then show "clean es" "settable (look s1) es" using settable_puts [OF ys(2) _ ind] m assms(2) by auto
  qed
  show "wp (sa_SetMulti (bbs_store B) (map (\<lambda>(es, v). leaf_node (abs_path es) v ttl) xs)) (\<lambda>err s'.
      if err = Some ErrorTimeout
      then (inv s' \<and> slack s' \<le> slack s \<and> (\<exists>ys. set ys \<subseteq> set xs \<and> puts (look s) ys (look s'))) \<and> slack s' < slack s1
      else inv s' \<and> slack s' \<le> slack s \<and> err = None \<and> (\<exists>ys. set ys = set xs \<and> puts (look s) ys (look s'))) s1"
    using law_Set_multi [OF conjunct1 [OF I] set assms(3), of ttl]
  proof (rule wp_mono)
    fix err s' assume r: "inv s' \<and> (if err = Some ErrorTimeout
        then slack s' < slack s1 \<and> (\<exists>ys. set ys \<subseteq> set xs \<and> puts (look s1) ys (look s'))
        else slack s' \<le> slack s1 \<and> err = None \<and> (\<exists>ys. set ys = set xs \<and> puts (look s1) ys (look s')))"
    have join: "puts (look s) (ys @ zs) (look s')" if "puts (look s1) zs (look s')" for zs
      using ys(2) that by (auto simp: puts_append)
    show "if err = Some ErrorTimeout
      then (inv s' \<and> slack s' \<le> slack s \<and> (\<exists>ys. set ys \<subseteq> set xs \<and> puts (look s) ys (look s'))) \<and> slack s' < slack s1
      else inv s' \<and> slack s' \<le> slack s \<and> err = None \<and> (\<exists>ys. set ys = set xs \<and> puts (look s) ys (look s'))"
    proof (cases "err = Some ErrorTimeout")
      case True
      then obtain zs where "set zs \<subseteq> set xs" "puts (look s1) zs (look s')" using r by auto
      then have "set (ys @ zs) \<subseteq> set xs \<and> puts (look s) (ys @ zs) (look s')" using ys(1) join by auto
      then have "\<exists>ys. set ys \<subseteq> set xs \<and> puts (look s) ys (look s')" by blast
      then show ?thesis using True r I by simp
    next
      case False
      then obtain zs where "set zs = set xs" "puts (look s1) zs (look s')" using r by auto
      then have "set (ys @ zs) = set xs \<and> puts (look s) (ys @ zs) (look s')" using ys(1) join by auto
      then show ?thesis using False r I by (metis (no_types, lifting) le_trans)
    qed
  qed
next
  show "inv s \<and> slack s \<le> slack s \<and> (\<exists>ys. set ys \<subseteq> set xs \<and> puts (look s) ys (look s))"
    using assms(1) by (auto intro: exI [of _ "[]"])
qed

lemma puts_single: "puts f ys g \<Longrightarrow> set ys = {(es, v)} \<Longrightarrow> \<exists>i. g = put_path f es v i"
proof (induction ys arbitrary: f)
  case (Cons y ys)
  then obtain i where i: "y = (es, v)" "puts (put_path f es v i) ys g" "set ys \<subseteq> {(es, v)}" by auto
  show ?case
  proof (cases ys)
    case Nil
    then show ?thesis using i by auto
  next
    case (Cons z zs)
    then have "set ys = {(es, v)}" using i(3) by auto
    then show ?thesis using Cons.IH [OF i(2)] by (auto simp: put_path_put)
  qed
qed simp

lemma retry_Set:
  assumes "inv s" and "clean es" and "settable (look s) es"
  shows "wp (Retry (sa_SetMulti (bbs_store B) [leaf_node (abs_path es) v ttl]))
    (\<lambda>err s'. inv s' \<and> slack s' \<le> slack s \<and> err = None \<and> (\<exists>i. look s' = put_path (look s) es v i)) s"
  using retry_Set_multi [of s "[(es, v)]" ttl, OF assms(1)] assms(2,3)
  by (auto simp: independent_def elim!: wp_mono dest: puts_single)

lemma retry_Delete:
  assumes "inv s" and "clean es" and "no_leaf_above (look s) es"
  shows "wp (Retry (sa_Delete (bbs_store B) [abs_path es]))
    (\<lambda>err s'. inv s' \<and> slack s' \<le> slack s \<and> (err = None \<or> err = Some ErrorKeyNotFound) \<and>
       (look s' = look s \<and> look s es = None \<or> look s' = del_path (look s) es) \<and>
       (err = None \<longrightarrow> look s es \<noteq> None) \<and> (slack s = 0 \<longrightarrow> (err = None \<longleftrightarrow> look s es \<noteq> None))) s"
proof -
  define P where "P s' \<longleftrightarrow> look s' = look s \<or> look s' = del_path (look s) es \<and> slack s > 0" for s'
  have above: "no_leaf_above (look s1) es" if "P s1" for s1
    using that assms(3) by (auto simp: P_def no_leaf_above_def del_path_def is_leaf_def split: if_splits)
  show ?thesis
  proof (rule wp_Retry [where slack = slack and I = "\<lambda>s'. inv s' \<and> slack s' \<le> slack s \<and> P s'"])
    fix s1 assume I: "inv s1 \<and> slack s1 \<le> slack s \<and> P s1"
    show "wp (sa_Delete (bbs_store B) [abs_path es]) (\<lambda>err s'.
      if err = Some ErrorTimeout then (inv s' \<and> slack s' \<le> slack s \<and> P s') \<and> slack s' < slack s1
      else inv s' \<and> slack s' \<le> slack s \<and> (err = None \<or> err = Some ErrorKeyNotFound) \<and>
       (look s' = look s \<and> look s es = None \<or> look s' = del_path (look s) es) \<and>
       (err = None \<longrightarrow> look s es \<noteq> None) \<and> (slack s = 0 \<longrightarrow> (err = None \<longleftrightarrow> look s es \<noteq> None))) s1"
      using law_Delete [OF conjunct1 [OF I] assms(2) above [OF conjunct2 [OF conjunct2 [OF I]]]]
      by (rule wp_mono) (use I in \<open>auto simp: P_def del_path_del del_path_def split: if_splits\<close>)
  qed (use assms in \<open>simp add: P_def\<close>)
qed

lemma retry_Create:
  assumes "inv s" and "clean es"
  shows "wp (Retry (sa_Create (bbs_store B) (leaf_node (abs_path es) v ttl)))
    (\<lambda>err s'. inv s' \<and> slack s' \<le> slack s \<and> err \<noteq> Some ErrorTimeout \<and>
       (if creatable (look s) es then \<exists>i. look s' = put_path (look s) es v i else look s' = look s) \<and>
       (err = None \<longrightarrow> creatable (look s) es) \<and>
       (is_leaf (look s es) \<longrightarrow> err = Some ErrorKeyExists) \<and>
       (slack s = 0 \<longrightarrow> (err = None \<longleftrightarrow> creatable (look s) es))) s"
proof -
  define P where "P s' \<longleftrightarrow> look s' = look s \<or>
    slack s > 0 \<and> creatable (look s) es \<and> (\<exists>i. look s' = put_path (look s) es v i)" for s'
  have put: "\<not> creatable (put_path f es v i) es" for f i by (simp add: creatable_def)
  show ?thesis
  proof (rule wp_Retry [where slack = slack and I = "\<lambda>s'. inv s' \<and> slack s' \<le> slack s \<and> P s'"])
    fix s1 assume I: "inv s1 \<and> slack s1 \<le> slack s \<and> P s1"
    show "wp (sa_Create (bbs_store B) (leaf_node (abs_path es) v ttl)) (\<lambda>err s'.
      if err = Some ErrorTimeout then (inv s' \<and> slack s' \<le> slack s \<and> P s') \<and> slack s' < slack s1
      else inv s' \<and> slack s' \<le> slack s \<and> err \<noteq> Some ErrorTimeout \<and>
       (if creatable (look s) es then \<exists>i. look s' = put_path (look s) es v i else look s' = look s) \<and>
       (err = None \<longrightarrow> creatable (look s) es) \<and>
       (is_leaf (look s es) \<longrightarrow> err = Some ErrorKeyExists) \<and>
       (slack s = 0 \<longrightarrow> (err = None \<longleftrightarrow> creatable (look s) es))) s1"
      using law_Create [OF conjunct1 [OF I] assms(2), of v ttl]
      by (rule wp_mono) (use I put in \<open>auto simp: P_def creatable_def is_leaf_def split: if_splits\<close>)
  qed (use assms in \<open>simp add: P_def\<close>)
qed

text \<open>The same with a value that every attempt computes anew from the time.\<close>

lemma retry_Create_timed:
  assumes "inv s" and "clean es" and val: "\<And>t. int64_ok t \<Longrightarrow> val t \<noteq> None"
  shows "wp (Retry (go_bind (bbs_clock B) (\<lambda>t. go_bind (go_must (val t))
      (\<lambda>v. sa_Create (bbs_store B) (leaf_node (abs_path es) v ttl)))))
    (\<lambda>err s'. inv s' \<and> slack s' \<le> slack s \<and> err \<noteq> Some ErrorTimeout \<and>
       (if creatable (look s) es then \<exists>t v i. int64_ok t \<and> val t = Some v \<and> look s' = put_path (look s) es v i
        else look s' = look s) \<and>
       (err = None \<longrightarrow> creatable (look s) es) \<and>
       (is_leaf (look s es) \<longrightarrow> err = Some ErrorKeyExists) \<and>
       (slack s = 0 \<longrightarrow> (err = None \<longleftrightarrow> creatable (look s) es))) s"
proof -
  define W where "W s' \<longleftrightarrow> (\<exists>t v i. int64_ok t \<and> val t = Some v \<and> look s' = put_path (look s) es v i)" for s'
  define P where "P s' \<longleftrightarrow> look s' = look s \<or> slack s > 0 \<and> creatable (look s) es \<and> W s'" for s'
  have put: "\<not> creatable (look s1) es" if "W s1" for s1 using that by (auto simp: W_def creatable_def)
  show ?thesis
  proof (rule wp_Retry [where slack = slack and I = "\<lambda>s'. inv s' \<and> slack s' \<le> slack s \<and> P s'"], unfold wp_bind wp_must,
      rule wp_clock, goal_cases)
    case (2 s1 t s2)
    obtain v where v: "val t = Some v" using val 2 by blast
    have I: "inv s2" "slack s2 \<le> slack s" "P s2" "slack s2 \<le> slack s1" using 2 by (auto simp: P_def W_def)
    show ?case
    proof (rule exI [of _ v], rule conjI [OF v], rule wp_mono [OF law_Create [OF I(1) assms(2), of v ttl]], goal_cases)
      case (1 err s')
      have W: "W s'" if "look s2 = look s" "look s' = put_path (look s2) es v i" for i
        using that v 2 by (auto simp: W_def)
      consider "look s2 = look s" | "slack s > 0" "creatable (look s) es" "W s2" "\<not> creatable (look s2) es" "look s2 \<noteq> look s"
        using I(3) put by (auto simp: P_def)
      then show ?case
      proof cases
        case same: 1
        then show ?thesis unfolding W_def [symmetric] using 1 I W by (auto simp: P_def creatable_def is_leaf_def split: if_splits)
      next
        case applied: 2
        then have "W s'" "look s' = look s2" using 1 by (auto simp: W_def split: if_splits)
        then show ?thesis unfolding W_def [symmetric] using applied 1 I
          by (auto simp: P_def creatable_def is_leaf_def split: if_splits)
      qed
    qed
  qed (use assms in \<open>simp_all add: P_def\<close>)
qed

text \<open>Deleting what is not there changes nothing.\<close>

lemma del_missing:
  assumes "inv s" and "look s es = None"
  shows "del_path (look s) es = look s"
proof
  fix p
  have "look s p = None" if "prefix es p"
    using that look_dir [OF assms(1), of p es] assms(2) by (metis option.distinct(1) strict_prefixI)
  then show "del_path (look s) es p = look s p" by (simp add: del_path_def)
qed

end

text \<open>
  A batch of swaps on distinct keys, each with the index its entry has: in any order, every entry
  ends up with its new value under a new index, or (if the store may time out) as it was; no other
  path changes.
\<close>

definition swap_ok :: "view \<Rightarrow> nat \<times> store_node \<Rightarrow> bool" where
  "swap_ok f = (\<lambda>(j, n). \<exists>es v old. clean es \<and> n = leaf_node (abs_path es) v 0 \<and> f es = Some (LeafE old j))"

definition swapped :: "view \<Rightarrow> nat \<Rightarrow> bool \<Rightarrow> (nat \<times> store_node) list \<Rightarrow> view \<Rightarrow> bool" where
  "swapped f t reliable zs f' \<longleftrightarrow>
     (\<forall>j n es. (j, n) \<in> set zs \<longrightarrow> clean es \<longrightarrow> sn_Key n = abs_path es \<longrightarrow>
        (\<exists>i > t. f' es = Some (LeafE (sn_Value n) i)) \<or> \<not> reliable \<and> f' es = f es) \<and>
     (\<forall>p. (\<forall>j n. (j, n) \<in> set zs \<longrightarrow> clean p \<longrightarrow> sn_Key n \<noteq> abs_path p) \<longrightarrow> f' p = f p)"

lemma swapped_keeps: "swapped f t r zs f' \<Longrightarrow> f p \<noteq> None \<Longrightarrow> f' p \<noteq> None"
  unfolding swapped_def by (metis option.distinct(1))

lemma distinct_map_mset: "mset xs = mset ys \<Longrightarrow> distinct (map f xs) \<longleftrightarrow> distinct (map f ys)"
  by (metis mset_map mset_eq_imp_distinct_iff)

lemma swapped_Cons:
  assumes sw: "swapped f1 t1 r1 zs f'" and es: "clean es" and other: "\<And>k n. (k, n) \<in> set zs \<Longrightarrow> sn_Key n \<noteq> abs_path es"
    and f1: "\<And>p. p \<noteq> es \<Longrightarrow> f1 p = f p"
    and head: "(\<exists>i > t. f1 es = Some (LeafE v i)) \<or> \<not> r \<and> f1 es = f es" and "t \<le> t1" and "r \<Longrightarrow> r1"
  shows "swapped f t r ((j, leaf_node (abs_path es) v 0) # zs) f'"
proof -
  have keys: "\<And>j n es. (j, n) \<in> set zs \<Longrightarrow> clean es \<Longrightarrow> sn_Key n = abs_path es \<Longrightarrow>
        (\<exists>i > t1. f' es = Some (LeafE (sn_Value n) i)) \<or> \<not> r1 \<and> f' es = f1 es"
    and rest: "\<And>p. (\<And>j n. (j, n) \<in> set zs \<Longrightarrow> clean p \<Longrightarrow> sn_Key n \<noteq> abs_path p) \<Longrightarrow> f' p = f1 p"
    using sw unfolding swapped_def by blast+
  have f'es: "f' es = f1 es" using rest other by blast
  show ?thesis
    unfolding swapped_def
  proof (intro conjI allI impI, goal_cases)
    case (1 j' n es')
    show ?case
    proof (cases "es' = es")
      case True
      then show ?thesis using 1 head f'es other by auto
    next
      case False
      then have n: "(j', n) \<in> set zs" using 1 es by (auto simp: abs_path_eq)
      show ?thesis using keys [OF n 1(2,3)] f1 [OF False] \<open>t \<le> t1\<close> \<open>r \<Longrightarrow> r1\<close> le_less_trans by auto
    qed
  next
    case (2 p)
    then have "p \<noteq> es" using es by auto
    then show ?case using 2 rest [of p] f1 by auto
  qed
qed

locale cas_world = kv_world B inv look slack + cas_store "bbs_store B" inv look slack tick
  for B :: "'s bbs" and inv :: "'s \<Rightarrow> bool" and look :: "'s \<Rightarrow> view" and slack :: "'s \<Rightarrow> nat"
    and tick :: "'s \<Rightarrow> nat" +
  assumes law_clock_tick: "inv s \<Longrightarrow> wp (bbs_clock B) (\<lambda>t s'. tick s' = tick s) s"
begin

lemma wp_clock_tick:
  assumes "inv s" and "\<And>t s'. inv s' \<Longrightarrow> look s' = look s \<Longrightarrow> slack s' \<le> slack s \<Longrightarrow> tick s' = tick s \<Longrightarrow>
    int64_ok t \<Longrightarrow> Q t s'"
  shows "wp (bbs_clock B) Q s"
  using wp_conj [OF law_clock [OF assms(1)] law_clock_tick [OF assms(1)]]
  by (rule wp_mono) (auto intro: assms(2))

text \<open>The store and its indices after a compare-and-swap whose errors are ignored.\<close>

lemma wp_swap_node:
  assumes "inv s" and "clean es" and "look s es = Some (LeafE old j)" and "0 < idx"
    and "\<And>s'. inv s' \<Longrightarrow> tick s \<le> tick s' \<Longrightarrow> slack s' \<le> slack s \<Longrightarrow>
      look s' = look s \<and> (slack s = 0 \<longrightarrow> j \<noteq> idx) \<or> j = idx \<and> (\<exists>i > tick s. look s' = put_path (look s) es v i) \<Longrightarrow> Q () s'"
  shows "wp (swap_node B (idx, leaf_node (abs_path es) v ttl)) Q s"
  using law_CAS_index [OF assms(1-4), of v ttl]
  by (auto simp: swap_node_def elim!: wp_mono intro!: assms(5) split: if_splits)

lemma wp_swaps:
  assumes "inv s" and "\<forall>z \<in> set zs. swap_ok (look s) z" and "distinct (map (\<lambda>(j, n). sn_Key n) zs)"
  shows "wp (go_for zs (swap_node B)) (\<lambda>_ s'. inv s' \<and> slack s' \<le> slack s \<and> tick s \<le> tick s' \<and>
    swapped (look s) (tick s) (slack s = 0) zs (look s')) s"
  using assms
proof (induction zs arbitrary: s)
  case Nil
  then show ?case by (simp add: swapped_def)
next
  case (Cons z zs)
  obtain es v old j where z: "z = (j, leaf_node (abs_path es) v 0)" "clean es" "look s es = Some (LeafE old j)"
    using Cons.prems(2) by (auto simp: swap_ok_def)
  have j: "0 < j" using tick_bound [OF Cons.prems(1) z(3)] by simp
  have other: "sn_Key n \<noteq> abs_path es" if "(k, n) \<in> set zs" for k n
    using Cons.prems(3) that z(1) by (force simp: image_iff)
  show ?case
    unfolding go_for.simps wp_bind z(1)
  proof (rule wp_swap_node [OF Cons.prems(1) z(2,3) j], goal_cases)
    case (1 s1)
    have look1: "look s1 p = look s p" if "p \<noteq> es" for p
      using 1(4) that put_existing [OF Cons.prems(1)] z(3) by auto
    have look_es: "(\<exists>i > tick s. look s1 es = Some (LeafE v i)) \<or> slack s \<noteq> 0 \<and> look s1 es = look s es"
      using 1(4) by auto
    have ok: "\<forall>z \<in> set zs. swap_ok (look s1) z"
    proof
      fix y assume y: "y \<in> set zs"
      then obtain es' v' old' j' where y': "y = (j', leaf_node (abs_path es') v' 0)" "clean es'"
        "look s es' = Some (LeafE old' j')" using Cons.prems(2) by (auto simp: swap_ok_def)
      then have "es' \<noteq> es" using other [of j' "leaf_node (abs_path es') v' 0"] y by auto
      then show "swap_ok (look s1) y" using y' look1 by (auto simp: swap_ok_def)
    qed
    have "wp (go_for zs (swap_node B)) (\<lambda>_ s'. inv s' \<and> slack s' \<le> slack s1 \<and> tick s1 \<le> tick s' \<and>
        swapped (look s1) (tick s1) (slack s1 = 0) zs (look s')) s1"
      using Cons.IH [OF 1(1) ok] Cons.prems(3) by simp
    then show ?case
    proof (rule wp_mono, goal_cases)
      case (1 u s')
      have "swapped (look s) (tick s) (slack s = 0) ((j, leaf_node (abs_path es) v 0) # zs) (look s')"
        by (rule swapped_Cons [where ?f1.0 = "look s1" and ?t1.0 = "tick s1" and ?r1.0 = "slack s1 = 0", OF _ z(2) other look1 look_es])
          (use 1 \<open>tick s \<le> tick s1\<close> \<open>slack s1 \<le> slack s\<close> in auto)
      then show ?case using 1 \<open>tick s \<le> tick s1\<close> \<open>slack s1 \<le> slack s\<close> by simp
    qed
  qed
qed

text \<open>
  A retried compare-and-swap that reports success was applied exactly when the index matched. One
  that reports a failed comparison either found another index, or an earlier attempt had been
  applied although the store timed out.
\<close>

lemma retry_CAS_index:
  assumes "inv s" and "clean es" and "look s es = Some (LeafE old j)" and "0 < idx"
  shows "wp (Retry (sa_CompareAndSwapByIndex (bbs_store B) idx (leaf_node (abs_path es) v ttl)))
    (\<lambda>err s'. inv s' \<and> slack s' \<le> slack s \<and> tick s \<le> tick s' \<and>
       (err = None \<or> err = Some ErrorKeyComparisonFailed) \<and>
       (look s' = look s \<or> j = idx \<and> (\<exists>i > tick s. look s' = put_path (look s) es v i)) \<and>
       (err = None \<longrightarrow> j = idx \<and> (\<exists>i > tick s. look s' = put_path (look s) es v i)) \<and>
       (slack s = 0 \<or> j \<noteq> idx \<longrightarrow> (err = None \<longleftrightarrow> j = idx)) \<and> (j \<noteq> idx \<longrightarrow> look s' = look s)) s"
proof -
  define P where "P s' \<longleftrightarrow> look s' = look s \<or>
    j = idx \<and> slack s > 0 \<and> (\<exists>i > tick s. look s' = put_path (look s) es v i)" for s'
  show ?thesis
  proof (rule wp_Retry [where slack = slack and I = "\<lambda>s'. inv s' \<and> slack s' \<le> slack s \<and> tick s \<le> tick s' \<and> P s'"])
    fix s1 assume I: "inv s1 \<and> slack s1 \<le> slack s \<and> tick s \<le> tick s1 \<and> P s1"
    obtain old1 j1 where l: "look s1 es = Some (LeafE old1 j1)"
      and j1: "look s1 = look s \<and> j1 = j \<or> j = idx \<and> slack s > 0 \<and> j1 > tick s \<and> look s1 = put_path (look s) es v j1"
      using I assms(3) by (auto simp: P_def)
    have jt: "j \<le> tick s" using tick_bound [OF assms(1) assms(3)] by simp
    have put: "look s1 = look s \<or> j1 \<noteq> idx" using j1 jt by auto
    show "wp (sa_CompareAndSwapByIndex (bbs_store B) idx (leaf_node (abs_path es) v ttl)) (\<lambda>err s'.
      if err = Some ErrorTimeout
      then (inv s' \<and> slack s' \<le> slack s \<and> tick s \<le> tick s' \<and> P s') \<and> slack s' < slack s1
      else inv s' \<and> slack s' \<le> slack s \<and> tick s \<le> tick s' \<and>
       (err = None \<or> err = Some ErrorKeyComparisonFailed) \<and>
       (look s' = look s \<or> j = idx \<and> (\<exists>i > tick s. look s' = put_path (look s) es v i)) \<and>
       (err = None \<longrightarrow> j = idx \<and> (\<exists>i > tick s. look s' = put_path (look s) es v i)) \<and>
       (slack s = 0 \<or> j \<noteq> idx \<longrightarrow> (err = None \<longleftrightarrow> j = idx)) \<and> (j \<noteq> idx \<longrightarrow> look s' = look s)) s1"
      using law_CAS_index [OF conjunct1 [OF I] assms(2) l assms(4), of v ttl]
    proof (rule wp_mono, goal_cases)
      case (1 err s')
      then show ?case
        using I j1 put jt
        by (cases "j1 = idx") (auto simp: P_def split: if_splits intro: le_less_trans)
    qed
  qed (use assms in \<open>simp add: P_def\<close>)
qed

text \<open>Writes that compare the value.\<close>

lemma retry_CAS_value:
  assumes "inv s" and "clean es" and "old \<noteq> []"
  shows "wp (Retry (sa_CompareAndSwap (bbs_store B) (leaf_node okey old ottl) (leaf_node (abs_path es) v ttl)))
    (\<lambda>err s'. inv s' \<and> slack s' \<le> slack s \<and> tick s \<le> tick s' \<and> err \<noteq> Some ErrorTimeout \<and>
       (if holds (look s) es old then \<exists>i > tick s. look s' = put_path (look s) es v i
        else look s' = look s \<and> compare_refused (look s) es err) \<and>
       (slack s = 0 \<longrightarrow> (err = None \<longleftrightarrow> holds (look s) es old))) s"
proof -
  define P where "P s' \<longleftrightarrow> look s' = look s \<or>
    slack s > 0 \<and> holds (look s) es old \<and> (\<exists>i > tick s. look s' = put_path (look s) es v i)" for s'
  show ?thesis
  proof (rule wp_Retry [where slack = slack and I = "\<lambda>s'. inv s' \<and> slack s' \<le> slack s \<and> tick s \<le> tick s' \<and> P s'"])
    fix s1 assume I: "inv s1 \<and> slack s1 \<le> slack s \<and> tick s \<le> tick s1 \<and> P s1"
    show "wp (sa_CompareAndSwap (bbs_store B) (leaf_node okey old ottl) (leaf_node (abs_path es) v ttl)) (\<lambda>err s'.
      if err = Some ErrorTimeout
      then (inv s' \<and> slack s' \<le> slack s \<and> tick s \<le> tick s' \<and> P s') \<and> slack s' < slack s1
      else inv s' \<and> slack s' \<le> slack s \<and> tick s \<le> tick s' \<and> err \<noteq> Some ErrorTimeout \<and>
       (if holds (look s) es old then \<exists>i > tick s. look s' = put_path (look s) es v i
        else look s' = look s \<and> compare_refused (look s) es err) \<and>
       (slack s = 0 \<longrightarrow> (err = None \<longleftrightarrow> holds (look s) es old))) s1"
      using law_CAS_value [OF conjunct1 [OF I] assms(2,3), of okey ottl v ttl]
    proof (rule wp_mono, goal_cases)
      case (1 err s')
      consider "look s1 = look s" | i where "slack s > 0" "holds (look s) es old" "i > tick s" "look s1 = put_path (look s) es v i"
        using I by (auto simp: P_def)
      then show ?case
        by cases (use 1 I in \<open>auto simp: P_def put_path_put compare_refused_def split: if_splits intro: le_less_trans\<close>)
    qed
  qed (use assms in \<open>simp add: P_def\<close>)
qed

lemma retry_CAD:
  assumes "inv s" and "clean es" and "old \<noteq> []"
  shows "wp (Retry (sa_CompareAndDelete (bbs_store B) (leaf_node (abs_path es) old ttl)))
    (\<lambda>err s'. inv s' \<and> slack s' \<le> slack s \<and> tick s \<le> tick s' \<and> err \<noteq> Some ErrorTimeout \<and>
       (if holds (look s) es old then look s' = del_path (look s) es
        else look s' = look s \<and> compare_refused (look s) es err) \<and>
       (slack s = 0 \<longrightarrow> (err = None \<longleftrightarrow> holds (look s) es old))) s"
proof -
  define P where "P s' \<longleftrightarrow> look s' = look s \<or> slack s > 0 \<and> holds (look s) es old \<and> look s' = del_path (look s) es" for s'
  show ?thesis
  proof (rule wp_Retry [where slack = slack and I = "\<lambda>s'. inv s' \<and> slack s' \<le> slack s \<and> tick s \<le> tick s' \<and> P s'"])
    fix s1 assume I: "inv s1 \<and> slack s1 \<le> slack s \<and> tick s \<le> tick s1 \<and> P s1"
    show "wp (sa_CompareAndDelete (bbs_store B) (leaf_node (abs_path es) old ttl)) (\<lambda>err s'.
      if err = Some ErrorTimeout
      then (inv s' \<and> slack s' \<le> slack s \<and> tick s \<le> tick s' \<and> P s') \<and> slack s' < slack s1
      else inv s' \<and> slack s' \<le> slack s \<and> tick s \<le> tick s' \<and> err \<noteq> Some ErrorTimeout \<and>
       (if holds (look s) es old then look s' = del_path (look s) es
        else look s' = look s \<and> compare_refused (look s) es err) \<and>
       (slack s = 0 \<longrightarrow> (err = None \<longleftrightarrow> holds (look s) es old))) s1"
      using law_CAD [OF conjunct1 [OF I] assms(2,3), of ttl]
    proof (rule wp_mono, goal_cases)
      case (1 err s')
      consider "look s1 = look s" | "slack s > 0" "holds (look s) es old" "look s1 = del_path (look s) es"
        using I by (auto simp: P_def)
      then show ?case
        by cases (use 1 I in \<open>auto simp: P_def del_path_del compare_refused_def split: if_splits\<close>)
    qed
  qed (use assms in \<open>simp add: P_def\<close>)
qed

end

locale frozen_world = cas_world B inv look slack tick
  for B :: "'s bbs" and inv :: "'s \<Rightarrow> bool" and look :: "'s \<Rightarrow> view" and slack :: "'s \<Rightarrow> nat"
    and tick :: "'s \<Rightarrow> nat" +
  fixes t0 :: gotime
  assumes law_frozen: "inv s \<Longrightarrow> bbs_clock B s = Some (Done t0, s)"
begin

lemma wp_frozen: "inv s \<Longrightarrow> wp (bbs_clock B) Q s = Q t0 s"
  by (simp add: wp_def law_frozen)

end

end
