(* ===== verification/LrpBbs.thy ===== *)
theory LrpBbs
  imports Shared DeltaForce "HOL-Library.AList"
begin

text \<open>
  runtime-schema/bbs/lrp_bbs: desired and actual LRPs (lrp_bbs.go, lrp_getters.go), the requests to
  stop an instance (stop_lrp_instance.go), the watch filters (lrp_watchers.go) and the convergence of
  LRPs (lrp_convergence.go).
\<close>

section \<open>Desired and actual LRPs\<close>

definition DesireLRP :: "'s bbs \<Rightarrow> desired_lrp \<Rightarrow> ('s, error option) go" where
  "DesireLRP bbs lrp =
     Retry (go_bind (go_must (DesiredLRP_ToJSON lrp))
       (\<lambda>value. sa_SetMulti (bbs_store bbs) [leaf_node (DesiredLRPSchemaPath lrp) value 0]))"

definition RemoveDesiredLRPByProcessGuid :: "'s bbs \<Rightarrow> string \<Rightarrow> ('s, error option) go" where
  "RemoveDesiredLRPByProcessGuid bbs processGuid =
     Retry (go_bind (sa_Delete (bbs_store bbs) [DesiredLRPSchemaPathByProcessGuid processGuid])
       (\<lambda>err. go_return (if err = Some ErrorKeyNotFound then None else err)))"

definition ChangeDesiredLRP :: "'s bbs \<Rightarrow> desired_lrp_change \<Rightarrow> ('s, error option) go" where
  "ChangeDesiredLRP bbs change =
     Retry (case (dchange_Before change, dchange_After change) of
         (Some before, Some after) \<Rightarrow>
           go_bind (go_must (DesiredLRP_ToJSON before)) (\<lambda>old.
             go_bind (go_must (DesiredLRP_ToJSON after)) (\<lambda>new.
               sa_CompareAndSwap (bbs_store bbs) (leaf_node (DesiredLRPSchemaPath before) old 0)
                 (leaf_node (DesiredLRPSchemaPath after) new 0)))
       | (Some before, None) \<Rightarrow>
           go_bind (go_must (DesiredLRP_ToJSON before)) (\<lambda>old.
             sa_CompareAndDelete (bbs_store bbs) (leaf_node (DesiredLRPSchemaPath before) old 0))
       | (None, Some after) \<Rightarrow>
           go_bind (go_must (DesiredLRP_ToJSON after)) (\<lambda>new.
             sa_Create (bbs_store bbs) (leaf_node (DesiredLRPSchemaPath after) new 0))
       | (None, None) \<Rightarrow> go_return None)"

definition RemoveActualLRPForIndex :: "'s bbs \<Rightarrow> string \<Rightarrow> int \<Rightarrow> string \<Rightarrow> ('s, error option) go" where
  "RemoveActualLRPForIndex bbs processGuid index instanceGuid =
     Retry (sa_Delete (bbs_store bbs) [ActualLRPSchemaPath processGuid index instanceGuid])"

definition RemoveActualLRP :: "'s bbs \<Rightarrow> actual_lrp \<Rightarrow> ('s, error option) go" where
  "RemoveActualLRP bbs lrp =
     RemoveActualLRPForIndex bbs (actual_ProcessGuid lrp) (actual_Index lrp) (actual_InstanceGuid lrp)"

definition report_actual :: "int \<Rightarrow> 's bbs \<Rightarrow> actual_lrp \<Rightarrow> string \<Rightarrow> ('s, error option) go" where
  "report_actual state bbs lrp executorID =
     go_bind (bbs_clock bbs) (\<lambda>t.
       let lrp = lrp\<lparr>actual_State := state, actual_Since := UnixNano t, actual_ExecutorID := executorID\<rparr> in
       Retry (go_bind (go_must (ActualLRP_ToJSON lrp)) (\<lambda>value.
         sa_SetMulti (bbs_store bbs)
           [leaf_node (ActualLRPSchemaPath (actual_ProcessGuid lrp) (actual_Index lrp) (actual_InstanceGuid lrp)) value 0])))"

definition ReportActualLRPAsStarting :: "'s bbs \<Rightarrow> actual_lrp \<Rightarrow> string \<Rightarrow> ('s, error option) go" where
  "ReportActualLRPAsStarting = report_actual ActualLRPStateStarting"

definition ReportActualLRPAsRunning :: "'s bbs \<Rightarrow> actual_lrp \<Rightarrow> string \<Rightarrow> ('s, error option) go" where
  "ReportActualLRPAsRunning = report_actual ActualLRPStateRunning"

section \<open>Getters\<close>

definition ErrNoDomain :: error where
  "ErrNoDomain = Errorf ''no domain given'' [] None"

text \<open>
  The loop of the getters: it appends to the result, and returns what it has with an error at the
  first entry that does not parse. \<open>None\<close> is the panic of a reader.
\<close>

fun parse_nodes :: "(bytes \<Rightarrow> 'a outcome) \<Rightarrow> ('a \<Rightarrow> bool) \<Rightarrow> store_node list \<Rightarrow> 'a list \<Rightarrow> ('a list \<times> error option) option" where
  "parse_nodes fromJSON keep [] lrps = Some (lrps, None)"
| "parse_nodes fromJSON keep (node # nodes) lrps =
     (case fromJSON (sn_Value node) of
        Ok lrp \<Rightarrow> parse_nodes fromJSON keep nodes (if keep lrp then lrps @ [lrp] else lrps)
      | Err err \<Rightarrow> Some (lrps, Some (Errorf ''cannot parse lrp JSON for key %s: %s'' [sn_Key node] (Some err)))
      | Panic \<Rightarrow> None)"

text \<open>The common start of the getters: an absent root is an empty result.\<close>

definition get_all :: "'s bbs \<Rightarrow> string \<Rightarrow> (store_node \<Rightarrow> ('a list \<times> error option) option) \<Rightarrow> ('s, 'a list \<times> error option) go" where
  "get_all bbs root loop =
     go_bind (sa_ListRecursively (bbs_store bbs) root) (\<lambda>(node, err).
       if err = Some ErrorKeyNotFound then go_return ([], None)
       else if err \<noteq> None then go_return ([], err)
       else go_must (loop node))"

definition GetAllDesiredLRPs :: "'s bbs \<Rightarrow> ('s, desired_lrp list \<times> error option) go" where
  "GetAllDesiredLRPs bbs =
     get_all bbs DesiredLRPSchemaRoot (\<lambda>node. parse_nodes NewDesiredLRPFromJSON (\<lambda>_. True) (sn_ChildNodes node) [])"

definition GetAllDesiredLRPsByDomain :: "'s bbs \<Rightarrow> string \<Rightarrow> ('s, desired_lrp list \<times> error option) go" where
  "GetAllDesiredLRPsByDomain bbs domain =
     (if domain = [] then go_return ([], Some ErrNoDomain)
      else get_all bbs DesiredLRPSchemaRoot (\<lambda>node.
        parse_nodes NewDesiredLRPFromJSON (\<lambda>lrp. desired_Domain lrp = domain) (sn_ChildNodes node) []))"

definition GetDesiredLRPByProcessGuid :: "'s bbs \<Rightarrow> string \<Rightarrow> ('s, desired_lrp \<times> error option) go" where
  "GetDesiredLRPByProcessGuid bbs processGuid =
     go_bind (sa_Get (bbs_store bbs) (DesiredLRPSchemaPath (zero_desired\<lparr>desired_ProcessGuid := processGuid\<rparr>)))
       (\<lambda>(node, err). if err \<noteq> None then go_return (zero_desired, err)
                       else go_outcome zero_desired (NewDesiredLRPFromJSON (sn_Value node)))"

text \<open>The nested loops visit the grandchildren (great-grandchildren) in order.\<close>

definition grand :: "store_node \<Rightarrow> store_node list" where
  "grand node = concat (map sn_ChildNodes (sn_ChildNodes node))"

definition GetAllActualLRPs :: "'s bbs \<Rightarrow> ('s, actual_lrp list \<times> error option) go" where
  "GetAllActualLRPs bbs =
     get_all bbs ActualLRPSchemaRoot (\<lambda>node.
       parse_nodes NewActualLRPFromJSON (\<lambda>_. True) (concat (map grand (sn_ChildNodes node))) [])"

fun filterActualLRPs :: "actual_lrp list \<Rightarrow> int \<Rightarrow> actual_lrp list" where
  "filterActualLRPs [] state = []"
| "filterActualLRPs (lrp # lrps) state =
     (if actual_State lrp = state then lrp # filterActualLRPs lrps state else filterActualLRPs lrps state)"

definition GetRunningActualLRPs :: "'s bbs \<Rightarrow> ('s, actual_lrp list \<times> error option) go" where
  "GetRunningActualLRPs bbs =
     go_bind (GetAllActualLRPs bbs) (\<lambda>(lrps, err).
       go_return (if err \<noteq> None then ([], err) else (filterActualLRPs lrps ActualLRPStateRunning, None)))"

definition GetActualLRPsByProcessGuid :: "'s bbs \<Rightarrow> string \<Rightarrow> ('s, actual_lrp list \<times> error option) go" where
  "GetActualLRPsByProcessGuid bbs processGuid =
     get_all bbs (path_Join [ActualLRPSchemaRoot, processGuid])
       (\<lambda>node. parse_nodes NewActualLRPFromJSON (\<lambda>_. True) (grand node) [])"

definition GetRunningActualLRPsByProcessGuid :: "'s bbs \<Rightarrow> string \<Rightarrow> ('s, actual_lrp list \<times> error option) go" where
  "GetRunningActualLRPsByProcessGuid bbs processGuid =
     go_bind (GetActualLRPsByProcessGuid bbs processGuid) (\<lambda>(lrps, err).
       go_return (if err \<noteq> None then ([], err) else (filterActualLRPs lrps ActualLRPStateRunning, None)))"

section \<open>Stop requests\<close>

definition stop_instance_node :: "stop_lrp_instance \<Rightarrow> store_node option" where
  "stop_instance_node stopInstance =
     map_option (\<lambda>value. leaf_node (StopLRPInstanceSchemaPath stopInstance) value 60) (StopLRPInstance_ToJSON stopInstance)"

definition RequestStopLRPInstances :: "'s bbs \<Rightarrow> stop_lrp_instance list \<Rightarrow> ('s, error option) go" where
  "RequestStopLRPInstances bbs stopInstances =
     Retry (go_bind (go_must (those (map stop_instance_node stopInstances))) (sa_SetMulti (bbs_store bbs)))"

definition RequestStopLRPInstance :: "'s bbs \<Rightarrow> stop_lrp_instance \<Rightarrow> ('s, error option) go" where
  "RequestStopLRPInstance bbs stopInstance =
     Retry (go_bind (go_must (stop_instance_node stopInstance)) (\<lambda>node. sa_SetMulti (bbs_store bbs) [node]))"

definition GetAllStopLRPInstances :: "'s bbs \<Rightarrow> ('s, stop_lrp_instance list \<times> error option) go" where
  "GetAllStopLRPInstances bbs =
     get_all bbs StopLRPInstanceSchemaRoot (\<lambda>node. parse_nodes NewStopLRPInstanceFromJSON (\<lambda>_. True) (sn_ChildNodes node) [])"

definition ResolveStopLRPInstance :: "'s bbs \<Rightarrow> stop_lrp_instance \<Rightarrow> ('s, error option) go" where
  "ResolveStopLRPInstance bbs stopInstance =
     Retry (go_bind (sa_Delete (bbs_store bbs) [StopLRPInstanceSchemaPath stopInstance])
       (\<lambda>err. go_return (if err = Some ErrorKeyNotFound then None else err)))"

section \<open>Watch filters\<close>

text \<open>The two halves of a change: an absent node is nil, one that does not parse drops the event.\<close>

definition change_part :: "(bytes \<Rightarrow> 'a outcome) \<Rightarrow> store_node option \<Rightarrow> ('a option \<times> bool) outcome" where
  "change_part fromJSON node =
     (case node of
        None \<Rightarrow> Ok (None, True)
      | Some n \<Rightarrow> (case fromJSON (sn_Value n) of Ok x \<Rightarrow> Ok (Some x, True) | Err _ \<Rightarrow> Ok (None, False) | Panic \<Rightarrow> Panic))"

definition filterDesiredLRPChanges :: "watch_event \<Rightarrow> (desired_lrp_change \<times> bool) outcome" where
  "filterDesiredLRPChanges event =
     outcome_bind (change_part NewDesiredLRPFromJSON (we_Node event)) (\<lambda>(after, ok).
       if \<not> ok then Ok (\<lparr>dchange_Before = None, dchange_After = None\<rparr>, False)
       else outcome_bind (change_part NewDesiredLRPFromJSON (we_PrevNode event)) (\<lambda>(before, ok).
         if \<not> ok then Ok (\<lparr>dchange_Before = None, dchange_After = None\<rparr>, False)
         else Ok (\<lparr>dchange_Before = before, dchange_After = after\<rparr>, True)))"

definition filterActualLRPChanges :: "watch_event \<Rightarrow> (actual_lrp_change \<times> bool) outcome" where
  "filterActualLRPChanges event =
     outcome_bind (change_part NewActualLRPFromJSON (we_Node event)) (\<lambda>(after, ok).
       if \<not> ok then Ok (\<lparr>achange_Before = None, achange_After = None\<rparr>, False)
       else outcome_bind (change_part NewActualLRPFromJSON (we_PrevNode event)) (\<lambda>(before, ok).
         if \<not> ok then Ok (\<lparr>achange_Before = None, achange_After = None\<rparr>, False)
         else Ok (\<lparr>achange_Before = before, achange_After = after\<rparr>, True)))"

text \<open>The filters by event type dereference \<open>event.Node\<close> of a create or update event.\<close>

definition written_filter :: "(bytes \<Rightarrow> 'a outcome) \<Rightarrow> 'a \<Rightarrow> ('a \<Rightarrow> bool) \<Rightarrow> watch_event \<Rightarrow> ('a \<times> bool) outcome" where
  "written_filter fromJSON zero keep event =
     (if we_Type event = CreateEvent \<or> we_Type event = UpdateEvent
      then (case we_Node event of
              None \<Rightarrow> Panic
            | Some node \<Rightarrow>
                (case fromJSON (sn_Value node) of
                   Ok x \<Rightarrow> Ok (if keep x then (x, True) else (zero, False))
                 | Err _ \<Rightarrow> Ok (zero, False)
                 | Panic \<Rightarrow> Panic))
      else Ok (zero, False))"

definition filterStopLRPInstance :: "watch_event \<Rightarrow> (stop_lrp_instance \<times> bool) outcome" where
  "filterStopLRPInstance = written_filter NewStopLRPInstanceFromJSON zero_stop_instance (\<lambda>_. True)"

section \<open>Convergence\<close>

record compareAndSwappableDesiredLRP =
  cd_OldIndex :: nat
  cd_NewDesiredLRP :: desired_lrp

text \<open>A Go map that is only appended to; the order of a range loop over it is the parameter \<open>order\<close>.\<close>

type_synonym actuals_map = "(string \<times> actual_lrp list) list"

definition actuals_at :: "actuals_map \<Rightarrow> string \<Rightarrow> actual_lrp list" where
  "actuals_at m g = (case map_of m g of None \<Rightarrow> [] | Some as \<Rightarrow> as)"

definition add_actual :: "actual_lrp \<Rightarrow> actuals_map \<Rightarrow> actuals_map" where
  "add_actual actual m = AList.update (actual_ProcessGuid actual) (actuals_at m (actual_ProcessGuid actual) @ [actual]) m"

fun prune_loop :: "store_node \<Rightarrow> actual_lrp list \<Rightarrow> string list \<times> actuals_map \<Rightarrow> string list \<times> actuals_map" where
  "prune_loop executorState [] acc = acc"
| "prune_loop executorState (actual # actuals) (keysToDelete, m) =
     prune_loop executorState actuals
       (if Lookup executorState (actual_ExecutorID actual) \<noteq> None then (keysToDelete, add_actual actual m)
        else (keysToDelete @
                [ActualLRPSchemaPath (actual_ProcessGuid actual) (actual_Index actual) (actual_InstanceGuid actual)], m))"

definition pruneActualsWithMissingExecutors :: "'s bbs \<Rightarrow> ('s, actuals_map \<times> error option) go" where
  "pruneActualsWithMissingExecutors bbs =
     go_bind (sa_ListRecursively (bbs_store bbs) ExecutorSchemaRoot) (\<lambda>(executorState, err).
       if err \<noteq> None \<and> err \<noteq> Some ErrorKeyNotFound then go_return ([], err)
       else go_bind (GetAllActualLRPs bbs) (\<lambda>(actuals, err').
         if err' \<noteq> None then go_return ([], err')
         else (let (keysToDelete, m) =
                 prune_loop (if err = Some ErrorKeyNotFound then zero_node else executorState) actuals ([], []) in
               go_bind (sa_Delete (bbs_store bbs) keysToDelete) (\<lambda>_. go_return (m, None)))))"

definition needsReconciliation :: "desired_lrp \<Rightarrow> actual_lrp list \<Rightarrow> bool" where
  "needsReconciliation desiredLRP actualLRPsForDesired \<longleftrightarrow>
     \<not> Empty (Reconcile (desired_Instances desiredLRP)
         (map (\<lambda>a. \<lparr>Index = actual_Index a, Guid = actual_InstanceGuid a\<rparr>) actualLRPsForDesired))"

definition instancesToStop :: "string set \<Rightarrow> actuals_map \<Rightarrow> stop_lrp_instance list" where
  "instancesToStop known m =
     concat (map (\<lambda>(processGuid, actuals).
       if processGuid \<notin> known
       then map (\<lambda>actual. \<lparr>sli_ProcessGuid = processGuid, sli_InstanceGuid = actual_InstanceGuid actual,
                            sli_Index = actual_Index actual\<rparr>) actuals
       else []) m)"

record converge_acc =
  ca_toCAS :: "compareAndSwappableDesiredLRP list"
  ca_toDelete :: "string list"
  ca_known :: "string set"

definition converge_desired_node :: "actuals_map \<Rightarrow> store_node \<Rightarrow> converge_acc \<Rightarrow> converge_acc option" where
  "converge_desired_node m node acc =
     (case NewDesiredLRPFromJSON (sn_Value node) of
        Panic \<Rightarrow> None
      | Err _ \<Rightarrow> Some (acc\<lparr>ca_toDelete := ca_toDelete acc @ [sn_Key node]\<rparr>)
      | Ok desiredLRP \<Rightarrow>
          Some (acc\<lparr>ca_known := insert (desired_ProcessGuid desiredLRP) (ca_known acc),
            ca_toCAS := ca_toCAS acc @
              (if needsReconciliation desiredLRP (actuals_at m (desired_ProcessGuid desiredLRP))
               then [\<lparr>cd_OldIndex = sn_Index node, cd_NewDesiredLRP = desiredLRP\<rparr>] else [])\<rparr>))"

fun converge_desired_loop :: "actuals_map \<Rightarrow> store_node list \<Rightarrow> converge_acc \<Rightarrow> converge_acc option" where
  "converge_desired_loop m [] acc = Some acc"
| "converge_desired_loop m (node # nodes) acc =
     (case converge_desired_node m node acc of None \<Rightarrow> None | Some acc' \<Rightarrow> converge_desired_loop m nodes acc')"

definition batchCompareAndSwapDesiredLRPs :: "sched \<Rightarrow> 's bbs \<Rightarrow> compareAndSwappableDesiredLRP list \<Rightarrow> ('s, unit) go" where
  "batchCompareAndSwapDesiredLRPs sched bbs desiredLRPsToCAS =
     go_bind (go_must (those (map (\<lambda>c. map_option (\<lambda>value. (cd_OldIndex c,
           leaf_node (DesiredLRPSchemaPath (cd_NewDesiredLRP c)) value 0)) (DesiredLRP_ToJSON (cd_NewDesiredLRP c)))
         desiredLRPsToCAS)))
       (batch_swap sched bbs)"

definition ConvergeLRPs :: "sched \<Rightarrow> (actuals_map \<Rightarrow> actuals_map) \<Rightarrow> 's bbs \<Rightarrow> ('s, unit) go" where
  "ConvergeLRPs sched order bbs =
     go_bind (pruneActualsWithMissingExecutors bbs) (\<lambda>(actualsByProcessGuid, err).
       if err \<noteq> None then go_return ()
       else go_bind (sa_ListRecursively (bbs_store bbs) DesiredLRPSchemaRoot) (\<lambda>(node, err).
         if err \<noteq> None \<and> err \<noteq> Some ErrorKeyNotFound then go_return ()
         else go_bind (go_must (converge_desired_loop actualsByProcessGuid (sn_ChildNodes node)
                  \<lparr>ca_toCAS = [], ca_toDelete = [], ca_known = {}\<rparr>)) (\<lambda>acc.
           let stopLRPInstances = instancesToStop (ca_known acc) (order actualsByProcessGuid) in
           go_bind (sa_Delete (bbs_store bbs) (ca_toDelete acc)) (\<lambda>_.
             go_bind (batchCompareAndSwapDesiredLRPs sched bbs (ca_toCAS acc)) (\<lambda>_.
               go_bind (RequestStopLRPInstances bbs stopLRPInstances) (\<lambda>_. go_return ()))))))"

end
