(* ===== verification/ServicesBbs.thy ===== *)
theory ServicesBbs
  imports LrpBbs Float64
begin

text \<open>
  runtime-schema/bbs/services_bbs and lock_bbs: the presence of executors and file servers, the
  services that are registered, and the locks. A presence and a lock are nodes that
  \<open>MaintainNode\<close> of the store keeps alive; \<open>maintain\<close> is that operation, which answers with an error
  or with the release channel of the maintaining goroutine (\<open>'r\<close>).
\<close>

section \<open>Presence\<close>

record 'r presence =
  pr_key :: string
  pr_value :: bytes
  pr_release :: "'r option"

definition NewPresence :: "string \<Rightarrow> bytes \<Rightarrow> 'r presence" where
  "NewPresence key value = \<lparr>pr_key = key, pr_value = value, pr_release = None\<rparr>"

text \<open>
  \<open>uint64(interval.Seconds())\<close>: \<open>float64(sec) + float64(nsec) * 1e-9\<close> in double precision, truncated. The
  model is for non-negative intervals (a natural number of nanoseconds).
\<close>

definition f64_of_nat :: "nat \<Rightarrow> float64" where
  "f64_of_nat n = the (round_f64 False n 1)"

definition f64_mul :: "float64 \<Rightarrow> float64 \<Rightarrow> float64" where
  "f64_mul x y = (let (a, b) = f64_fraction x; (c, d) = f64_fraction y in the (round_f64 False (a * c) (b * d)))"

definition f64_add :: "float64 \<Rightarrow> float64 \<Rightarrow> float64" where
  "f64_add x y = (let (a, b) = f64_fraction x; (c, d) = f64_fraction y in the (round_f64 False (a * d + c * b) (b * d)))"

definition f64_trunc :: "float64 \<Rightarrow> nat" where
  "f64_trunc x = (let (a, b) = f64_fraction x in a div b)"

definition nano_f64 :: float64 where
  "nano_f64 = the (round_f64 False 1 1000000000)"

definition Seconds :: "nat \<Rightarrow> float64" where
  "Seconds d = f64_add (f64_of_nat (d div 1000000000)) (f64_mul (f64_of_nat (d mod 1000000000)) nano_f64)"

definition ttl_of :: "nat \<Rightarrow> nat" where
  "ttl_of interval = f64_trunc (Seconds interval)"

definition Maintain :: "(store_node \<Rightarrow> error + 'r) \<Rightarrow> nat \<Rightarrow> 'r presence \<Rightarrow> error option \<times> 'r presence" where
  "Maintain maintain interval p =
     (if pr_release p \<noteq> None then (Some (Errorf ''Already maintaining a presence'' [] None), p)
      else case maintain (leaf_node (pr_key p) (pr_value p) (ttl_of interval)) of
        Inl err \<Rightarrow> (Some err, p)
      | Inr release \<Rightarrow> (None, p\<lparr>pr_release := Some release\<rparr>))"

text \<open>The channel that is asked to release, if any, and the presence afterwards.\<close>

definition Remove :: "'r presence \<Rightarrow> 'r option \<times> 'r presence" where
  "Remove p = (pr_release p, p\<lparr>pr_release := None\<rparr>)"

definition MaintainExecutorPresence ::
  "(store_node \<Rightarrow> error + 'r) \<Rightarrow> nat \<Rightarrow> executor_presence \<Rightarrow> (error option \<times> 'r presence) option" where
  "MaintainExecutorPresence maintain heartbeatInterval executorPresence =
     map_option (\<lambda>value. Maintain maintain heartbeatInterval
         (NewPresence (ExecutorSchemaPath (ep_ExecutorID executorPresence)) value))
       (ExecutorPresence_ToJSON executorPresence)"

definition MaintainFileServerPresence ::
  "(store_node \<Rightarrow> error + 'r) \<Rightarrow> nat \<Rightarrow> string \<Rightarrow> string \<Rightarrow> error option \<times> 'r presence" where
  "MaintainFileServerPresence maintain heartbeatInterval fileServerURL fileServerId =
     Maintain maintain heartbeatInterval (NewPresence (FileServerSchemaPath [fileServerId]) fileServerURL)"

section \<open>Locks\<close>

definition MaintainAuctioneerLock :: "(store_node \<Rightarrow> error + 'r) \<Rightarrow> nat \<Rightarrow> string \<Rightarrow> error + 'r" where
  "MaintainAuctioneerLock maintain interval auctioneerID =
     maintain (leaf_node (LockSchemaPath ''auctioneer_lock'') auctioneerID (ttl_of interval))"

definition MaintainConvergeLock :: "(store_node \<Rightarrow> error + 'r) \<Rightarrow> nat \<Rightarrow> string \<Rightarrow> error + 'r" where
  "MaintainConvergeLock maintain interval convergerID =
     maintain (leaf_node (LockSchemaPath ''converge_lock'') convergerID (ttl_of interval))"

section \<open>Who is present\<close>

text \<open>A presence that does not parse is logged and skipped.\<close>

fun parse_presences :: "store_node list \<Rightarrow> executor_presence list option" where
  "parse_presences [] = Some []"
| "parse_presences (node # nodes) =
     (case NewExecutorPresenceFromJSON (sn_Value node) of
        Ok p \<Rightarrow> map_option ((#) p) (parse_presences nodes)
      | Err _ \<Rightarrow> parse_presences nodes
      | Panic \<Rightarrow> None)"

definition GetAllExecutors :: "'s bbs \<Rightarrow> ('s, executor_presence list \<times> error option) go" where
  "GetAllExecutors bbs =
     get_all bbs ExecutorSchemaRoot (\<lambda>node. map_option (\<lambda>ps. (ps, None)) (parse_presences (sn_ChildNodes node)))"

text \<open>\<open>rand.Intn n\<close> is the argument \<open>intn\<close>, a number below \<open>n\<close>.\<close>

definition GetAvailableFileServer :: "(nat \<Rightarrow> nat) \<Rightarrow> 's bbs \<Rightarrow> ('s, string \<times> error option) go" where
  "GetAvailableFileServer intn bbs =
     go_bind (sa_ListRecursively (bbs_store bbs) FileServerSchemaRoot) (\<lambda>(node, err).
       if err \<noteq> None then go_return ([], err)
       else if sn_ChildNodes node = []
       then go_return ([], Some (Errorf ''No file servers are currently available'' [] None))
       else go_return (sn_Value (sn_ChildNodes node ! intn (length (sn_ChildNodes node))), None))"

definition GetAllFileServers :: "'s bbs \<Rightarrow> ('s, string list \<times> error option) go" where
  "GetAllFileServers bbs = get_all bbs FileServerSchemaRoot (\<lambda>node. Some (map sn_Value (sn_ChildNodes node), None))"

definition serviceSchemas :: "(string \<times> string) list" where
  "serviceSchemas = [(ExecutorServiceName, ExecutorSchemaRoot), (FileServerServiceName, FileServerSchemaRoot)]"

definition registrationsForServiceName :: "'s bbs \<Rightarrow> string \<Rightarrow> ('s, service_registration list \<times> error option) go" where
  "registrationsForServiceName bbs name =
     get_all bbs (case map_of serviceSchemas name of Some root \<Rightarrow> root | None \<Rightarrow> [])
       (\<lambda>node. Some (map (\<lambda>n. \<lparr>reg_Name = name, reg_Id = path_Base (sn_Key n)\<rparr>) (sn_ChildNodes node), None))"

text \<open>The range over the map \<open>serviceSchemas\<close> takes its keys in some order.\<close>

fun registrations_loop :: "'s bbs \<Rightarrow> string list \<Rightarrow> service_registration list \<Rightarrow> ('s, service_registration list \<times> error option) go" where
  "registrations_loop bbs [] acc = go_return (acc, None)"
| "registrations_loop bbs (serviceName # names) acc =
     go_bind (registrationsForServiceName bbs serviceName) (\<lambda>(regs, err).
       if err \<noteq> None then go_return ([], err) else registrations_loop bbs names (acc @ regs))"

definition GetServiceRegistrations :: "string list \<Rightarrow> 's bbs \<Rightarrow> ('s, service_registration list \<times> error option) go" where
  "GetServiceRegistrations order bbs = registrations_loop bbs order []"

end
