(* ===== verification/FakeStore.thy ===== *)
theory FakeStore
  imports Shared "HOL-Library.AList"
begin

text \<open>
  storeadapter/fakestoreadapter: the in-memory store. The tree of containers is a datatype with the
  struct's three fields (a Go map is an association list; its iteration order, which Go leaves
  open, is the order of the list and no theorem depends on it), an error injector a predicate on
  keys with the error to return, the event channel the list of the events that were sent to it.
  The last section interprets the store contract on it: everything the components prove about a
  store holds for this one.
\<close>

section \<open>State\<close>

datatype container_node =
  ContainerNode (cn_dir: bool) (cn_nodes: "(string \<times> container_node) list") (cn_storeNode: store_node)

abbreviation new_dir :: container_node where "new_dir \<equiv> ContainerNode True [] zero_node"
abbreviation new_leaf :: "store_node \<Rightarrow> container_node" where "new_leaf n \<equiv> ContainerNode False [] n"

definition with_nodes :: "container_node \<Rightarrow> (string \<times> container_node) list \<Rightarrow> container_node" where
  "with_nodes c ns = ContainerNode (cn_dir c) ns (cn_storeNode c)"

record error_injector =
  inj_KeyRegexp :: "string \<Rightarrow> bool"
  inj_Error :: "error option"

record fake_store =
  fs_DidConnect :: bool
  fs_DidDisconnect :: bool
  fs_ConnectErr :: "error option"
  fs_DisconnectErr :: "error option"
  fs_SetErrInjector :: "error_injector option"
  fs_GetErrInjector :: "error_injector option"
  fs_ListErrInjector :: "error_injector option"
  fs_DeleteErrInjector :: "error_injector option"
  fs_CreateErrInjector :: "error_injector option"
  fs_rootNode :: container_node
  fs_MaintainedNodeName :: string
  fs_MaintainedNodeValue :: bytes
  fs_MaintainNodeError :: "error option"
  fs_eventChannel :: "watch_event list"
  fs_sendEvents :: bool

definition fake_Reset :: "fake_store \<Rightarrow> fake_store" where
  "fake_Reset s = s\<lparr>fs_DidConnect := False, fs_DidDisconnect := False, fs_ConnectErr := None,
     fs_DisconnectErr := None, fs_SetErrInjector := None, fs_GetErrInjector := None,
     fs_ListErrInjector := None, fs_DeleteErrInjector := None, fs_CreateErrInjector := None,
     fs_rootNode := new_dir, fs_sendEvents := False, fs_eventChannel := []\<rparr>"

definition fake_New :: fake_store where
  "fake_New = fake_Reset \<lparr>fs_DidConnect = False, fs_DidDisconnect = False, fs_ConnectErr = None,
     fs_DisconnectErr = None, fs_SetErrInjector = None, fs_GetErrInjector = None,
     fs_ListErrInjector = None, fs_DeleteErrInjector = None, fs_CreateErrInjector = None,
     fs_rootNode = new_dir, fs_MaintainedNodeName = [], fs_MaintainedNodeValue = [],
     fs_MaintainNodeError = None, fs_eventChannel = [], fs_sendEvents = False\<rparr>"

section \<open>Operations\<close>

definition fake_Connect :: "(fake_store, error option) go" where
  "fake_Connect s = Some (Done (fs_ConnectErr s), s\<lparr>fs_DidConnect := True\<rparr>)"

definition fake_Disconnect :: "(fake_store, error option) go" where
  "fake_Disconnect s = Some (Done (fs_DisconnectErr s), s\<lparr>fs_DidDisconnect := True\<rparr>)"

definition keyComponents :: "string \<Rightarrow> string list" where
  "keyComponents key = filter (\<lambda>s. s \<noteq> []) (strings_Split slash key)"

definition sendEvent :: "store_node option \<Rightarrow> store_node option \<Rightarrow> event_type \<Rightarrow> fake_store \<Rightarrow> fake_store" where
  "sendEvent prevNode node ty s =
     (if fs_sendEvents s
      then s\<lparr>fs_eventChannel := fs_eventChannel s @ [\<lparr>we_Type = ty, we_Node = node, we_PrevNode = prevNode\<rparr>]\<rparr>
      else s)"

definition injects :: "error_injector option \<Rightarrow> string \<Rightarrow> error option option" where
  "injects injector key =
     (case injector of None \<Rightarrow> None | Some i \<Rightarrow> if inj_KeyRegexp i key then Some (inj_Error i) else None)"

text \<open>The walk down the containers that \<open>get\<close>, \<open>ListRecursively\<close> and \<open>Delete\<close> share.\<close>

fun walk :: "string list \<Rightarrow> container_node \<Rightarrow> container_node option" where
  "walk [] container = Some container"
| "walk (component # components) container =
     (case map_of (cn_nodes container) component of
        None \<Rightarrow> None
      | Some container' \<Rightarrow> walk components container')"

definition fake_get :: "string \<Rightarrow> fake_store \<Rightarrow> store_node \<times> error option" where
  "fake_get key s =
     (case injects (fs_GetErrInjector s) key of
        Some err \<Rightarrow> (zero_node, err)
      | None \<Rightarrow>
          (case walk (keyComponents key) (fs_rootNode s) of
             None \<Rightarrow> (zero_node, Some ErrorKeyNotFound)
           | Some container \<Rightarrow>
               if cn_dir container then (zero_node, Some ErrorNodeIsDirectory)
               else (cn_storeNode container, None)))"

text \<open>The descent of \<open>setMulti\<close>, creating the missing containers on the way.\<close>

fun set_components :: "string list \<Rightarrow> store_node \<Rightarrow> container_node \<Rightarrow> error option \<times> container_node" where
  "set_components [] node container = (None, container)"
| "set_components [component] node container =
     (case map_of (cn_nodes container) component of
        Some existingNode \<Rightarrow>
          if cn_dir existingNode then (Some ErrorNodeIsDirectory, container)
          else (None, with_nodes container (AList.update component (new_leaf node) (cn_nodes container)))
      | None \<Rightarrow> (None, with_nodes container (AList.update component (new_leaf node) (cn_nodes container))))"
| "set_components (component # next # rest) node container =
     (case map_of (cn_nodes container) component of
        Some existingNode \<Rightarrow>
          if \<not> cn_dir existingNode then (Some ErrorNodeIsNotDirectory, container)
          else (let (err, existingNode') = set_components (next # rest) node existingNode
                in (err, with_nodes container (AList.update component existingNode' (cn_nodes container))))
      | None \<Rightarrow>
          (let (err, newContainer) = set_components (next # rest) node new_dir
           in (err, with_nodes container (AList.update component newContainer (cn_nodes container)))))"

text \<open>\<open>eventType\<close> is declared outside the loop of \<open>setMulti\<close>: it keeps its value between nodes.\<close>

fun fake_setMulti_loop :: "event_type \<Rightarrow> store_node list \<Rightarrow> fake_store \<Rightarrow> error option \<times> fake_store" where
  "fake_setMulti_loop eventType [] s = (None, s)"
| "fake_setMulti_loop eventType (node # nodes) s =
     (let (prevNode, err) = fake_get (sn_Key node) s;
          eventType = (if err = None then UpdateEvent else eventType)
      in case injects (fs_SetErrInjector s) (sn_Key node) of
           Some e \<Rightarrow> (e, s)
         | None \<Rightarrow>
             (let (err, root) = set_components (keyComponents (sn_Key node)) node (fs_rootNode s);
                  s = s\<lparr>fs_rootNode := root\<rparr>
              in if err \<noteq> None then (err, s)
                 else fake_setMulti_loop eventType nodes (sendEvent (Some prevNode) (Some node) eventType s)))"

definition fake_setMulti :: "store_node list \<Rightarrow> fake_store \<Rightarrow> error option \<times> fake_store" where
  "fake_setMulti nodes s = fake_setMulti_loop CreateEvent nodes s"

definition fake_SetMulti :: "store_node list \<Rightarrow> (fake_store, error option) go" where
  "fake_SetMulti nodes s = (let (err, s') = fake_setMulti nodes s in Some (Done err, s'))"

definition fake_Create :: "store_node \<Rightarrow> (fake_store, error option) go" where
  "fake_Create node s =
     (case injects (fs_CreateErrInjector s) (sn_Key node) of
        Some err \<Rightarrow> Some (Done err, s)
      | None \<Rightarrow>
          (if snd (fake_get (sn_Key node) s) = None then Some (Done (Some ErrorKeyExists), s)
           else fake_SetMulti [node] s))"

definition fake_Get :: "string \<Rightarrow> (fake_store, store_node \<times> error option) go" where
  "fake_Get key s = Some (Done (fake_get key s), s)"

definition child_key :: "string \<Rightarrow> string \<Rightarrow> string" where
  "child_key key nodeKey = (if key = [slash] then slash # nodeKey else key @ slash # nodeKey)"

lemma size_child [termination_simp]: "(k, n) \<in> set ns \<Longrightarrow> size n < Suc (size_list (size_prod (\<lambda>_. 0) size) ns)"
  by (induction ns) auto

fun listContainerNode :: "string \<Rightarrow> container_node \<Rightarrow> store_node" where
  "listContainerNode key (ContainerNode d ns n) =
     StoreNode key [] True 0
       (map (\<lambda>(nodeKey, node). if cn_dir node then listContainerNode (child_key key nodeKey) node else cn_storeNode node) ns) 0"

definition fake_ListRecursively :: "string \<Rightarrow> (fake_store, store_node \<times> error option) go" where
  "fake_ListRecursively key s = Some (Done
     (case injects (fs_ListErrInjector s) key of
        Some err \<Rightarrow> (zero_node, err)
      | None \<Rightarrow>
          (case walk (keyComponents key) (fs_rootNode s) of
             None \<Rightarrow> (zero_node, Some ErrorKeyNotFound)
           | Some container \<Rightarrow>
               if \<not> cn_dir container then (zero_node, Some ErrorNodeIsNotDirectory)
               else (listContainerNode key container, None))), s)"

fun delete_components :: "string list \<Rightarrow> container_node \<Rightarrow> container_node" where
  "delete_components [] container = container"
| "delete_components [component] container = with_nodes container (AList.delete component (cn_nodes container))"
| "delete_components (component # next # rest) container =
     (case map_of (cn_nodes container) component of
        None \<Rightarrow> container
      | Some node \<Rightarrow> with_nodes container
          (AList.update component (delete_components (next # rest) node) (cn_nodes container)))"

text \<open>With no components the code indexes the empty slice at \<open>-1\<close>: it panics.\<close>

fun fake_Delete :: "string list \<Rightarrow> (fake_store, error option) go" where
  "fake_Delete [] s = Some (Done None, s)"
| "fake_Delete (key # keys) s =
     (let node = fst (fake_get key s); components = keyComponents key
      in case injects (fs_DeleteErrInjector s) key of
           Some err \<Rightarrow> Some (Done err, s)
         | None \<Rightarrow>
             (case walk components (fs_rootNode s) of
                None \<Rightarrow> Some (Done (Some ErrorKeyNotFound), s)
              | Some container \<Rightarrow>
                  if components = [] then Some (Panicked, s)
                  else fake_Delete keys (sendEvent (Some node) None DeleteEvent
                         (s\<lparr>fs_rootNode := delete_components components (fs_rootNode s)\<rparr>))))"

text \<open>The operations whose body is \<open>panic("not implemented")\<close>.\<close>

definition fake_not_implemented :: "(fake_store, error option) go" where
  "fake_not_implemented = go_panic"

definition fake_Watch :: "fake_store \<Rightarrow> fake_store" where
  "fake_Watch s = s\<lparr>fs_sendEvents := True\<rparr>"

definition fake_MaintainNode :: "store_node \<Rightarrow> (fake_store, error option) go" where
  "fake_MaintainNode storeNode s =
     Some (Done (fs_MaintainNodeError s),
       s\<lparr>fs_MaintainedNodeName := sn_Key storeNode, fs_MaintainedNodeValue := sn_Value storeNode\<rparr>)"

definition fake_adapter :: "fake_store store_adapter" where
  "fake_adapter = \<lparr>sa_Create = fake_Create, sa_Update = (\<lambda>_. fake_not_implemented),
     sa_CompareAndSwap = (\<lambda>_ _. fake_not_implemented), sa_CompareAndSwapByIndex = (\<lambda>_ _. fake_not_implemented),
     sa_SetMulti = fake_SetMulti, sa_Get = fake_Get, sa_ListRecursively = fake_ListRecursively,
     sa_Delete = fake_Delete, sa_CompareAndDelete = (\<lambda>_. fake_not_implemented),
     sa_UpdateDirTTL = (\<lambda>_ _. fake_not_implemented)\<rparr>"

section \<open>The view\<close>

definition entry_of :: "container_node \<Rightarrow> entry" where
  "entry_of c = (if cn_dir c then DirE else LeafE (sn_Value (cn_storeNode c)) (sn_Index (cn_storeNode c)))"

definition cview :: "container_node \<Rightarrow> view" where
  "cview c p = map_option entry_of (walk p c)"

definition fake_look :: "fake_store \<Rightarrow> view" where
  "fake_look s = cview (fs_rootNode s)"

text \<open>Well-formed containers: distinct simple names, and a leaf holds a node whose key is its path.\<close>

fun wf_container :: "path \<Rightarrow> container_node \<Rightarrow> bool" where
  "wf_container es (ContainerNode d ns n) =
     (if d then distinct (map fst ns) \<and> (\<forall>(k, c) \<in> set ns. key_elem k \<and> wf_container (es @ [k]) c)
      else ns = [] \<and> sn_Key n = abs_path es \<and> \<not> sn_Dir n \<and> sn_ChildNodes n = [])"

definition fake_inv :: "fake_store \<Rightarrow> bool" where
  "fake_inv s \<longleftrightarrow> cn_dir (fs_rootNode s) \<and> wf_container [] (fs_rootNode s) \<and>
     fs_SetErrInjector s = None \<and> fs_GetErrInjector s = None \<and> fs_ListErrInjector s = None \<and>
     fs_DeleteErrInjector s = None \<and> fs_CreateErrInjector s = None"

lemma keyComponents_abs: "clean es \<Longrightarrow> keyComponents (abs_path es) = es"
proof -
  assume "clean es"
  then have "strings_Split slash (abs_path es) = [] # es"
    using strings_Split_Join [of es slash] by (simp add: clean_def abs_path_def key_elem_def simple_elem_def)
  then show ?thesis using \<open>clean es\<close> by (simp add: keyComponents_def clean_def key_elem_def simple_elem_def)
qed

lemma cview_simps [simp]:
  "cview c [] = Some (entry_of c)"
  "cview c (k # p) = (case map_of (cn_nodes c) k of None \<Rightarrow> None | Some e \<Rightarrow> cview e p)"
  by (simp_all add: cview_def split: option.splits)

lemma entry_of_simps [simp]:
  "entry_of c = DirE \<longleftrightarrow> cn_dir c"
  "\<not> cn_dir c \<Longrightarrow> entry_of c = LeafE (sn_Value (cn_storeNode c)) (sn_Index (cn_storeNode c))"
  "is_leaf (Some (entry_of c)) \<longleftrightarrow> \<not> cn_dir c"
  by (auto simp: entry_of_def is_leaf_def)

lemma with_nodes_simps [simp]:
  "cn_dir (with_nodes c ns) = cn_dir c" "cn_nodes (with_nodes c ns) = ns"
  "entry_of (with_nodes c ns) = entry_of c"
  by (simp_all add: with_nodes_def entry_of_def)

text \<open>How the view of a container restricts to that of a child.\<close>

lemma no_leaf_above_Nil [simp]: "no_leaf_above f []"
  by (simp add: no_leaf_above_def)

lemma no_leaf_above_Cons:
  "no_leaf_above f (k # ks) \<longleftrightarrow> \<not> is_leaf (f []) \<and> no_leaf_above (\<lambda>p. f (k # p)) ks"
proof -
  have "strict_prefix p (k # ks) \<longleftrightarrow> p = [] \<or> (\<exists>q. p = k # q \<and> strict_prefix q ks)" for p
    by (cases p) auto
  then show ?thesis by (auto simp: no_leaf_above_def)
qed

lemma put_path_Nil: "put_path f (k # ks) v i [] = Some DirE"
  by (simp add: put_path_def)

lemma put_path_Cons: "put_path f (k # ks) v i (k # p) = put_path (\<lambda>p. f (k # p)) ks v i p"
  by (simp add: put_path_def)

lemma put_path_Cons_other: "k' \<noteq> k \<Longrightarrow> put_path f (k # ks) v i (k' # p) = f (k' # p)"
  by (simp add: put_path_def)

subsection \<open>Writing\<close>

lemma cview_new_dir: "cview new_dir = (\<lambda>p. if p = [] then Some DirE else None)"
proof
  show "cview new_dir p = (if p = [] then Some DirE else None)" for p by (cases p) (simp_all add: entry_of_def)
qed

lemma settable_child:
  assumes "cn_dir c" and "settable (cview c) (k # ks)" and "map_of (cn_nodes c) k = Some e"
  shows "settable (cview e) ks"
  using assms by (simp add: settable_def no_leaf_above_Cons)

lemma settable_new_dir: "ks \<noteq> [] \<Longrightarrow> settable (cview new_dir) ks"
  by (auto simp: settable_def no_leaf_above_def cview_new_dir is_leaf_def)

lemma cview_update:
  assumes "cn_dir c" and "cview e' = put_path f ks v i" and "\<And>p. f p = cview c (k # p) \<or> (cview c (k # p) = None \<and> ks \<noteq> [] \<and> p = [])"
  shows "cview (with_nodes c (AList.update k e' (cn_nodes c))) = put_path (cview c) (k # ks) v i"
proof
  fix p
  have strict: "ks \<noteq> [] \<Longrightarrow> strict_prefix [] ks" by (cases ks) simp_all
  show "cview (with_nodes c (AList.update k e' (cn_nodes c))) p = put_path (cview c) (k # ks) v i p"
  proof (cases p)
    case Nil
    then show ?thesis using assms(1) by (simp add: put_path_Nil)
  next
    case (Cons k' q)
    then show ?thesis
    proof (cases "k' = k")
      case True
      have "put_path f ks v i q = put_path (\<lambda>p. cview c (k # p)) ks v i q"
        using assms(3) [of q] strict by (auto simp: put_path_def)
      then show ?thesis using Cons True assms(2) by (simp add: update_conv' put_path_Cons)
    next
      case False
      then show ?thesis using Cons by (simp add: update_conv' put_path_Cons_other)
    qed
  qed
qed

definition node_at :: "path \<Rightarrow> store_node \<Rightarrow> bool" where
  "node_at es n \<longleftrightarrow> sn_Key n = abs_path es \<and> \<not> sn_Dir n \<and> sn_ChildNodes n = []"

lemma cview_leaf:
  "wf_container es c \<Longrightarrow> \<not> cn_dir c \<Longrightarrow> cview c p = (if p = [] then Some (entry_of c) else None)"
  by (cases c; cases p) auto

lemma cview_new_leaf:
  "cview (new_leaf n) = (\<lambda>p. if p = [] then Some (LeafE (sn_Value n) (sn_Index n)) else None)"
proof
  show "cview (new_leaf n) p = (if p = [] then Some (LeafE (sn_Value n) (sn_Index n)) else None)" for p
    by (cases p) simp_all
qed

lemma wf_child: "wf_container es c \<Longrightarrow> cn_dir c \<Longrightarrow> map_of (cn_nodes c) k = Some e \<Longrightarrow> key_elem k \<and> wf_container (es @ [k]) e"
  by (cases c) (auto dest!: map_of_SomeD)

lemma set_AList_update: "distinct (map fst ns) \<Longrightarrow> (a, b) \<in> set (AList.update k e ns) \<longleftrightarrow>
    (a, b) = (k, e) \<or> a \<noteq> k \<and> (a, b) \<in> set ns"
  by (metis distinct_update fun_upd_other fun_upd_same map_of_eq_Some_iff option.inject update_conv prod.inject)

lemma wf_update:
  assumes "wf_container es c" and "cn_dir c" and "key_elem k" and "wf_container (es @ [k]) e"
  shows "wf_container es (with_nodes c (AList.update k e (cn_nodes c)))"
  using assms by (cases c) (auto simp: with_nodes_def distinct_update set_AList_update)

lemma put_leaf: "(\<And>p. p \<noteq> [] \<Longrightarrow> f p = None) \<Longrightarrow> cview (new_leaf n) = put_path f [] (sn_Value n) (sn_Index n)"
  by (auto simp: put_path_def cview_new_leaf)

lemma set_components_view:
  assumes "wf_container es c" and "cn_dir c" and "ks \<noteq> []" and "settable (cview c) ks"
    and "\<forall>k \<in> set ks. key_elem k" and "node_at (es @ ks) node"
  shows "\<exists>c'. set_components ks node c = (None, c') \<and> cn_dir c' \<and> wf_container es c' \<and>
    cview c' = put_path (cview c) ks (sn_Value node) (sn_Index node)"
  using assms
proof (induction ks node c arbitrary: es rule: set_components.induct)
  case (1 node container)
  then show ?case by simp
next
  case (2 k node c)
  have wf: "wf_container (es @ [k]) (new_leaf node)" using 2 by (simp add: node_at_def)
  have notdir: "\<not> cn_dir e" if "map_of (cn_nodes c) k = Some e" for e
    using 2 that by (auto simp: settable_def)
  then have set: "set_components [k] node c = (None, with_nodes c (AList.update k (new_leaf node) (cn_nodes c)))"
    by (auto split: option.splits)
  have none: "cview c (k # p) = None" if "p \<noteq> []" for p
  proof (cases "map_of (cn_nodes c) k")
    case (Some e)
    then have "wf_container (es @ [k]) e" using wf_child [OF 2(1,2)] by blast
    then show ?thesis using Some that notdir [OF Some] by (simp add: cview_leaf)
  qed simp
  have "cview (with_nodes c (AList.update k (new_leaf node) (cn_nodes c)))
      = put_path (cview c) [k] (sn_Value node) (sn_Index node)"
    using cview_update [OF 2(2) put_leaf, of "\<lambda>p. cview c (k # p)"] none by simp
  then show ?case unfolding set using 2 wf by (simp add: wf_update)
next
  case (3 k nxt rest node c)
  define e where "e = (case map_of (cn_nodes c) k of None \<Rightarrow> new_dir | Some e \<Rightarrow> e)"
  have dir: "cn_dir e'" if "map_of (cn_nodes c) k = Some e'" for e'
    using "3.prems" that by (auto simp: settable_def no_leaf_above_Cons)
  have e: "wf_container (es @ [k]) e" "cn_dir e" "settable (cview e) (nxt # rest)"
    using wf_child [OF "3.prems"(1,2)] settable_child [OF "3.prems"(2,4)] settable_new_dir dir
    by (auto simp: e_def split: option.splits)
  have prems: "nxt # rest \<noteq> []" "\<forall>k \<in> set (nxt # rest). key_elem k" "node_at ((es @ [k]) @ nxt # rest) node"
    using "3.prems" by simp_all
  obtain e' where e': "set_components (nxt # rest) node e = (None, e')" "wf_container (es @ [k]) e'"
    "cview e' = put_path (cview e) (nxt # rest) (sn_Value node) (sn_Index node)"
  proof (cases "map_of (cn_nodes c) k")
    case None
    then show ?thesis using "3.IH"(1) [OF None, of "es @ [k]"] e prems that by (auto simp: e_def)
  next
    case (Some x)
    then show ?thesis using "3.IH"(2) [OF Some, of "es @ [k]"] e prems that dir [OF Some] by (auto simp: e_def)
  qed
  have set: "set_components (k # nxt # rest) node c = (None, with_nodes c (AList.update k e' (cn_nodes c)))"
    using e'(1) dir by (auto simp: e_def split: option.splits)
  have "cview (with_nodes c (AList.update k e' (cn_nodes c)))
      = put_path (cview c) (k # nxt # rest) (sn_Value node) (sn_Index node)"
    by (rule cview_update [OF "3.prems"(2) e'(3)]) (auto simp: e_def cview_new_dir split: option.splits)
  then show ?case unfolding set using "3.prems" e' by (simp add: wf_update)
qed

lemma update_same: "map_of ns k = Some e \<Longrightarrow> AList.update k e ns = ns"
  by (induction ns) (auto split: if_splits)

lemma with_nodes_same [simp]: "with_nodes c (cn_nodes c) = c"
  by (simp add: with_nodes_def)

lemma set_components_err:
  assumes "cn_dir c" and "ks \<noteq> []" and "\<not> settable (cview c) ks"
  shows "\<exists>err. set_components ks node c = (Some err, c)"
  using assms
proof (induction ks node c rule: set_components.induct)
  case (1 node container)
  then show ?case by simp
next
  case (2 k node c)
  then show ?case by (auto simp: settable_def no_leaf_above_Cons split: option.splits)
next
  case (3 k nxt rest node c)
  show ?case
  proof (cases "map_of (cn_nodes c) k")
    case None
    have "no_leaf_above (cview c) (k # nxt # rest)"
      using "3.prems"(1) None by (simp add: no_leaf_above_Cons) (simp add: no_leaf_above_def is_leaf_def)
    then show ?thesis using "3.prems" None by (simp add: settable_def)
  next
    case (Some e)
    show ?thesis
    proof (cases "cn_dir e")
      case True
      then have "\<not> settable (cview e) (nxt # rest)"
        using "3.prems" Some by (auto simp: settable_def no_leaf_above_Cons)
      then show ?thesis using "3.IH"(2) [OF Some _ True] Some True by (auto simp: update_same)
    qed (use Some in simp)
  qed
qed

subsection \<open>Deleting\<close>

lemma AList_delete_subset: "set (AList.delete k ns) \<subseteq> set ns"
  by (induction ns) auto

lemma cview_None_below: "cview c p = None \<Longrightarrow> cview c (p @ q) = None"
  by (induction p arbitrary: c) (auto split: option.splits)

lemma del_path_absent: "cview c es = None \<Longrightarrow> del_path (cview c) es = cview c"
  by (auto simp: del_path_def prefix_def cview_None_below fun_eq_iff)

lemma del_path_Cons:
  "del_path f (k # ks) [] = f []"
  "del_path f (k # ks) (k # p) = del_path (\<lambda>p. f (k # p)) ks p"
  "k' \<noteq> k \<Longrightarrow> del_path f (k # ks) (k' # p) = f (k' # p)"
  by (simp_all add: del_path_def)

lemma wf_delete: "wf_container es c \<Longrightarrow> wf_container es (with_nodes c (AList.delete k (cn_nodes c)))"
  by (cases c) (auto simp: with_nodes_def distinct_delete dest!: set_mp [OF AList_delete_subset])

lemma delete_components_view:
  assumes "wf_container es c" and "cn_dir c" and "ks \<noteq> []"
  shows "cn_dir (delete_components ks c) \<and> wf_container es (delete_components ks c) \<and>
    cview (delete_components ks c) = del_path (cview c) ks"
  using assms
proof (induction ks c arbitrary: es rule: delete_components.induct)
  case (1 c)
  then show ?case by simp
next
  case (2 k c)
  have "cview (delete_components [k] c) p = del_path (cview c) [k] p" for p
    by (cases p) (auto simp: del_path_def delete_conv')
  then show ?case using 2 by (auto simp: wf_delete)
next
  case (3 k nxt rest c)
  show ?case
  proof (cases "map_of (cn_nodes c) k")
    case None
    then show ?thesis using "3.prems" by (simp add: del_path_absent)
  next
    case (Some e)
    then have e: "key_elem k" "wf_container (es @ [k]) e" using wf_child "3.prems" by blast+
    have e': "wf_container (es @ [k]) (delete_components (nxt # rest) e) \<and>
      cview (delete_components (nxt # rest) e) = del_path (cview e) (nxt # rest)"
    proof (cases "cn_dir e")
      case True
      then show ?thesis using "3.IH" [OF Some e(2)] by simp
    next
      case False
      then have "delete_components (nxt # rest) e = e"
        using e(2) by (cases e; cases rest) (auto simp: with_nodes_def)
      moreover have "cview e (nxt # rest) = None" using False e(2) by (simp add: cview_leaf del: cview_simps)
      ultimately show ?thesis using e by (simp add: del_path_absent del: cview_simps)
    qed
    have "cview (delete_components (k # nxt # rest) c) p = del_path (cview c) (k # nxt # rest) p" for p
    proof (cases p)
      case (Cons k' q)
      then show ?thesis using Some e' by (cases "k' = k") (simp_all add: update_conv' del_path_Cons)
    qed (use Some in \<open>simp add: del_path_Cons\<close>)
    then show ?thesis using "3.prems" Some e e' by (auto simp: wf_update)
  qed
qed

subsection \<open>Listing\<close>

lemma child_key_abs:
  assumes "es \<noteq> []" and "[] \<notin> set es"
  shows "child_key (abs_path es) k = abs_path (es @ [k])"
proof -
  have "strings_Join [slash] es \<noteq> []" using assms by (cases es rule: remdups_adj.cases) auto
  then show ?thesis using strings_Join_append [of es "[k]" "[slash]"] assms(1)
    by (simp add: child_key_def abs_path_def)
qed

lemma list_tree:
  assumes "wf_container es c" and "cn_dir c" and "clean es" and "\<And>p. f (es @ p) = cview c p"
  shows "tree_of f es (listContainerNode (abs_path es) c)"
  using assms
proof (induction c arbitrary: es)
  case (ContainerNode d ns n)
  let ?c = "ContainerNode d ns n"
  let ?child = "\<lambda>(k, e). if cn_dir e then listContainerNode (child_key (abs_path es) k) e else cn_storeNode e"
  have names: "distinct (map fst ns)" using ContainerNode.prems by simp
  have f: "f (es @ k # p) = (case map_of ns k of None \<Rightarrow> None | Some e \<Rightarrow> cview e p)" for k p
    using ContainerNode.prems(4) [of "k # p"] by simp
  have child: "tree_of f (es @ [k]) (?child (k, e))" if ke: "(k, e) \<in> set ns" for k e
  proof -
    have k: "map_of ns k = Some e" using ke names by simp
    have wf: "key_elem k" "wf_container (es @ [k]) e" using wf_child [OF ContainerNode.prems(1,2)] k by (metis container_node.sel(2))+
    have clean: "clean (es @ [k])" using ContainerNode.prems(3) wf by (auto simp: clean_def)
    have fe: "f ((es @ [k]) @ p) = cview e p" for p using f [of k p] k by simp
    have key: "child_key (abs_path es) k = abs_path (es @ [k])"
      by (rule child_key_abs) (use ContainerNode.prems(3) in \<open>auto simp: clean_def key_elem_def simple_elem_def\<close>)
    show ?thesis
    proof (cases "cn_dir e")
      case True
      have "e \<in> Basic_BNFs.snds (k, e)" by simp
      then have "tree_of f (es @ [k]) (listContainerNode (abs_path (es @ [k])) e)"
        using ContainerNode.IH ke wf True clean fe by blast
      then show ?thesis
        using True key by simp
    next
      case False
      then obtain v ttl i where n: "cn_storeNode e = StoreNode (abs_path (es @ [k])) v False ttl [] i"
        using wf(2) by (cases e; cases "cn_storeNode e") auto
      then have "f (es @ [k]) = Some (LeafE v i)" using fe [of "[]"] False by (simp add: entry_of_def)
      then show ?thesis using False n by (simp add: tree_of.tree_leaf)
    qed
  qed
  have "tree_of f es (StoreNode (abs_path es) [] True 0 (map ?child ns) 0)"
  proof (rule tree_of.tree_dir [where names = "map fst ns"])
    show "f es = Some DirE" using ContainerNode.prems(2) ContainerNode.prems(4) [of "[]"] by (simp add: entry_of_def)
    show "set (map fst ns) = {e. f (es @ [e]) \<noteq> None}"
      using f [of _ "[]"] by (auto simp: map_of_eq_None_iff split: option.splits)
    show "list_all2 (\<lambda>e c. tree_of f (es @ [e]) c) (map fst ns) (map ?child ns)"
    proof -
      have "tree_of f (es @ [fst x]) (?child x)" if "x \<in> set ns" for x
        using child [of "fst x" "snd x"] that by simp
      then show ?thesis by (simp add: list_all2_conv_all_nth)
    qed
  qed (rule names)
  then show ?case by simp
qed

section \<open>The contract\<close>

text \<open>Reading, listing, and the effect of one write, at a well-formed state without error injection.\<close>

lemma fake_inv_simps:
  assumes "fake_inv s"
  shows "injects (fs_SetErrInjector s) k = None" "injects (fs_GetErrInjector s) k = None"
    "injects (fs_ListErrInjector s) k = None" "injects (fs_DeleteErrInjector s) k = None"
    "injects (fs_CreateErrInjector s) k = None" "cn_dir (fs_rootNode s)" "wf_container [] (fs_rootNode s)"
  using assms by (simp_all add: fake_inv_def injects_def)

lemma sendEvent_same [simp]:
  "fake_inv (sendEvent p n t s) = fake_inv s" "fs_rootNode (sendEvent p n t s) = fs_rootNode s"
  "fake_look (sendEvent p n t s) = fake_look s"
  by (simp_all add: sendEvent_def fake_inv_def fake_look_def)

lemma walk_wf: "walk ks c = Some e \<Longrightarrow> wf_container es c \<Longrightarrow> wf_container (es @ ks) e"
proof (induction ks c arbitrary: es rule: walk.induct)
  case (2 k ks c)
  then obtain x where x: "map_of (cn_nodes c) k = Some x" "walk ks x = Some e" by (auto split: option.splits)
  have "cn_dir c" using x 2 by (cases c) (auto split: if_splits)
  then show ?case using 2(1) [OF x, of "es @ [k]"] wf_child [OF 2(3) _ x(1)] by simp
qed simp

lemma fake_get_look:
  assumes "fake_inv s" and "clean es"
  shows "case fake_look s es of
     Some (LeafE v i) \<Rightarrow> snd (fake_get (abs_path es) s) = None \<and> sn_Key (fst (fake_get (abs_path es) s)) = abs_path es
       \<and> sn_Value (fst (fake_get (abs_path es) s)) = v \<and> sn_Index (fst (fake_get (abs_path es) s)) = i
   | Some DirE \<Rightarrow> snd (fake_get (abs_path es) s) = Some ErrorNodeIsDirectory
   | None \<Rightarrow> snd (fake_get (abs_path es) s) = Some ErrorKeyNotFound"
proof (cases "walk es (fs_rootNode s)")
  case None
  then show ?thesis using assms
    by (simp add: fake_get_def fake_inv_simps keyComponents_abs fake_look_def cview_def)
next
  case (Some e)
  then have "wf_container es e" using walk_wf [OF Some, of "[]"] assms by (simp add: fake_inv_simps)
  then show ?thesis using assms Some
    by (cases e) (simp add: fake_get_def fake_inv_simps keyComponents_abs fake_look_def cview_def entry_of_def)
qed

lemma fake_set_step:
  assumes "fake_inv s" and "clean es" and "settable (fake_look s) es" and "node_at es node"
  shows "\<exists>s' ev'. fake_setMulti_loop ev (node # nodes) s = fake_setMulti_loop ev' nodes s' \<and> fake_inv s' \<and>
    fake_look s' = put_path (fake_look s) es (sn_Value node) (sn_Index node)"
proof -
  obtain c' where c': "set_components es node (fs_rootNode s) = (None, c')" "cn_dir c'" "wf_container [] c'"
    "cview c' = put_path (cview (fs_rootNode s)) es (sn_Value node) (sn_Index node)"
    using set_components_view [of "[]" "fs_rootNode s" es node] assms
    by (auto simp: fake_inv_simps clean_def fake_look_def)
  have key: "keyComponents (sn_Key node) = es" using assms by (simp add: node_at_def keyComponents_abs)
  have inv: "fake_inv (s\<lparr>fs_rootNode := c'\<rparr>)" using assms(1) c' by (simp add: fake_inv_def)
  have look: "fake_look (s\<lparr>fs_rootNode := c'\<rparr>) = put_path (fake_look s) es (sn_Value node) (sn_Index node)"
    using c' by (simp add: fake_look_def)
  show ?thesis
    using inv look key c'(1) assms(1)
    by (auto simp: fake_inv_simps Let_def split: prod.splits)
qed

lemma fake_set_look:
  assumes "fake_inv s" and "clean es" and "settable (fake_look s) es" and "node_at es node"
  shows "\<exists>s'. fake_setMulti [node] s = (None, s') \<and> fake_inv s' \<and>
    fake_look s' = put_path (fake_look s) es (sn_Value node) (sn_Index node)"
  using fake_set_step [OF assms, of CreateEvent "[]"] by (auto simp: fake_setMulti_def)

lemma fake_set_many:
  assumes "fake_inv s" and "\<forall>(es, v) \<in> set xs. clean es \<and> settable (fake_look s) es" and "independent (fst ` set xs)"
  shows "\<exists>s'. fake_setMulti_loop ev (map (\<lambda>(es, v). leaf_node (abs_path es) v ttl) xs) s = (None, s') \<and>
    fake_inv s' \<and> puts (fake_look s) xs (fake_look s')"
  using assms
proof (induction xs arbitrary: s ev)
  case (Cons x xs)
  obtain es v where x: "x = (es, v)" by (cases x)
  let ?n = "leaf_node (abs_path es) v ttl"
  obtain s1 ev' where s1: "fake_setMulti_loop ev (?n # map (\<lambda>(es, v). leaf_node (abs_path es) v ttl) xs) s
      = fake_setMulti_loop ev' (map (\<lambda>(es, v). leaf_node (abs_path es) v ttl) xs) s1"
    "fake_inv s1" "fake_look s1 = put_path (fake_look s) es v 0"
    using fake_set_step [of s es ?n ev "map (\<lambda>(es, v). leaf_node (abs_path es) v ttl) xs"] Cons.prems x
    by (auto simp: node_at_def simp del: fake_setMulti_loop.simps)
  have "\<forall>(es', v) \<in> set xs. clean es' \<and> settable (fake_look s1) es'"
  proof safe
    fix es' v' assume m: "(es', v') \<in> set xs"
    then have "es' \<in> fst ` set (x # xs)" "es \<in> fst ` set (x # xs)" using x by force+
    then have "\<not> strict_prefix es' es" "\<not> strict_prefix es es'"
      using Cons.prems(3) unfolding independent_def by blast+
    then show "clean es'" "settable (fake_look s1) es'"
      using m Cons.prems(2) s1(3) by (auto intro!: settable_put_other)
  qed
  then obtain s' where "fake_setMulti_loop ev' (map (\<lambda>(es, v). leaf_node (abs_path es) v ttl) xs) s1 = (None, s')"
    "fake_inv s'" "puts (fake_look s1) xs (fake_look s')"
    using Cons.IH [OF s1(2), of ev'] Cons.prems(3) by (auto simp: independent_def)
  then show ?case using s1 x by auto
qed simp

lemma fake_set_err:
  assumes "fake_inv s" and "clean es" and "\<not> settable (fake_look s) es" and "sn_Key node = abs_path es"
  shows "\<exists>err. fake_setMulti [node] s = (Some err, s)"
proof -
  obtain err where "set_components es node (fs_rootNode s) = (Some err, fs_rootNode s)"
    using set_components_err [of "fs_rootNode s" es node] assms by (auto simp: fake_inv_simps clean_def fake_look_def)
  then show ?thesis using assms
    by (simp add: fake_setMulti_def fake_inv_simps keyComponents_abs Let_def split: prod.splits)
qed

lemma set_components_no_timeout: "set_components ks node c = (err, c') \<Longrightarrow> err \<noteq> Some ErrorTimeout"
  by (induction ks node c arbitrary: err c' rule: set_components.induct)
    (auto split: option.splits if_splits prod.splits)

lemma fake_setMulti_no_timeout: "fake_inv s \<Longrightarrow> fst (fake_setMulti [node] s) \<noteq> Some ErrorTimeout"
  by (auto simp: fake_setMulti_def fake_inv_simps Let_def split: prod.splits dest: set_components_no_timeout)

lemma fake_delete_step:
  assumes "fake_inv s" and "clean es"
  shows "\<exists>s'. fake_Delete (abs_path es # keys) s =
      (if fake_look s es = None then Some (Done (Some ErrorKeyNotFound), s) else fake_Delete keys s')
    \<and> fake_inv s' \<and> fake_look s' = del_path (fake_look s) es"
proof -
  have ne: "es \<noteq> []" using assms by (simp add: clean_def)
  have d: "cn_dir (delete_components es (fs_rootNode s)) \<and> wf_container [] (delete_components es (fs_rootNode s)) \<and>
    cview (delete_components es (fs_rootNode s)) = del_path (cview (fs_rootNode s)) es"
    using delete_components_view [of "[]" "fs_rootNode s" es] ne assms by (simp add: fake_inv_simps)
  let ?s = "s\<lparr>fs_rootNode := delete_components es (fs_rootNode s)\<rparr>"
  have inv: "fake_inv ?s" "fake_look ?s = del_path (fake_look s) es"
    using assms(1) d by (simp_all add: fake_inv_def fake_look_def)
  show ?thesis
  proof (cases "walk es (fs_rootNode s)")
    case None
    then have "fake_look s es = None" by (simp add: fake_look_def cview_def)
    then show ?thesis using None assms inv
      by (intro exI [of _ ?s]) (simp add: fake_inv_simps keyComponents_abs)
  next
    case (Some c)
    then have "fake_look s es \<noteq> None" by (simp add: fake_look_def cview_def)
    then show ?thesis using Some assms ne inv
      by (intro exI [of _ "sendEvent (Some (fst (fake_get (abs_path es) s))) None DeleteEvent ?s"])
        (auto simp add: fake_inv_simps keyComponents_abs Let_def)
  qed
qed

lemma fake_delete_look:
  assumes "fake_inv s" and "clean es"
  shows "\<exists>s'. fake_Delete [abs_path es] s = Some (Done (if fake_look s es = None then Some ErrorKeyNotFound else None), s')
    \<and> fake_inv s' \<and> fake_look s' = (if fake_look s es = None then fake_look s else del_path (fake_look s) es)"
  using fake_delete_step [OF assms, of "[]"] assms(1) by auto

lemma fake_delete_many:
  assumes "fake_inv s" and "\<forall>es \<in> set ess. clean es \<and> no_leaf_above (fake_look s) es"
  shows "\<exists>s' err. fake_Delete (map abs_path ess) s = Some (Done err, s') \<and> fake_inv s' \<and>
    (\<exists>ds. set ds \<subseteq> set ess \<and> fake_look s' = del_paths (fake_look s) ds) \<and>
    (err = None \<longrightarrow> fake_look s' = del_paths (fake_look s) ess) \<and>
    (distinct ess \<and> independent (set ess) \<and> (\<forall>es \<in> set ess. fake_look s es \<noteq> None) \<longrightarrow> err = None)"
  using assms
proof (induction ess arbitrary: s)
  case Nil
  then show ?case by auto
next
  case (Cons es ess)
  have es: "clean es" using Cons.prems by simp
  obtain s1 where s1: "fake_Delete (abs_path es # map abs_path ess) s =
      (if fake_look s es = None then Some (Done (Some ErrorKeyNotFound), s) else fake_Delete (map abs_path ess) s1)"
    "fake_inv s1" "fake_look s1 = del_path (fake_look s) es"
    using fake_delete_step [OF Cons.prems(1) es] by blast
  show ?case
  proof (cases "fake_look s es = None")
    case True
    then show ?thesis using s1 Cons.prems(1) by (auto simp: is_leaf_def intro!: exI [of _ "[]"])
  next
    case False
    have "\<forall>es' \<in> set ess. clean es' \<and> no_leaf_above (fake_look s1) es'"
      using Cons.prems(2) s1(3) by (auto simp: no_leaf_above_def del_path_def is_leaf_def split: if_splits)
    then obtain s' err ds where r: "fake_Delete (map abs_path ess) s1 = Some (Done err, s')" "fake_inv s'"
      "set ds \<subseteq> set ess" "fake_look s' = del_paths (fake_look s1) ds"
      "err = None \<longrightarrow> fake_look s' = del_paths (fake_look s1) ess"
      "distinct ess \<and> independent (set ess) \<and> (\<forall>es \<in> set ess. fake_look s1 es \<noteq> None) \<longrightarrow> err = None"
      using Cons.IH [OF s1(2)] by blast
    have keep: "fake_look s1 es' \<noteq> None"
      if "es' \<in> set ess" "es \<notin> set ess" "independent (set (es # ess))" "\<forall>e \<in> set (es # ess). fake_look s e \<noteq> None" for es'
    proof -
      have "\<not> prefix es es'"
        using that by (auto simp: independent_def strict_prefix_def)
      then show ?thesis using that s1(3) by (simp add: del_path_def)
    qed
    have ind: "independent (set (es # ess)) \<Longrightarrow> independent (set ess)" by (auto simp: independent_def)
    show ?thesis
    proof (intro exI conjI)
      show "fake_Delete (map abs_path (es # ess)) s = Some (Done err, s')" using s1(1) False r(1) by simp
      show "set (es # ds) \<subseteq> set (es # ess)" using r(3) by auto
      show "distinct (es # ess) \<and> independent (set (es # ess)) \<and> (\<forall>es \<in> set (es # ess). fake_look s es \<noteq> None) \<longrightarrow> err = None"
        using r(6) keep ind by (metis distinct.simps(2))
    qed (use r s1 in auto)
  qed
qed

lemma fake_list_look:
  assumes "fake_inv s" and "clean es"
  shows "fake_ListRecursively (abs_path es) s = Some (Done
    (case fake_look s es of
       Some DirE \<Rightarrow> (listContainerNode (abs_path es) (the (walk es (fs_rootNode s))), None)
     | Some (LeafE v i) \<Rightarrow> (zero_node, Some ErrorNodeIsNotDirectory)
     | None \<Rightarrow> (zero_node, Some ErrorKeyNotFound)), s)"
  using assms
  by (cases "walk es (fs_rootNode s)")
    (simp_all add: fake_ListRecursively_def fake_inv_simps keyComponents_abs fake_look_def cview_def entry_of_def)

lemma cview_append: "walk es c = Some e \<Longrightarrow> cview c (es @ p) = cview e p"
  by (induction es arbitrary: c) (auto split: option.splits)

lemma fake_list_tree:
  assumes "fake_inv s" and "clean es" and "fake_look s es = Some DirE"
  shows "tree_of (fake_look s) es (listContainerNode (abs_path es) (the (walk es (fs_rootNode s))))"
proof -
  obtain e where e: "walk es (fs_rootNode s) = Some e" "cn_dir e"
    using assms(3) by (auto simp: fake_look_def cview_def)
  have "wf_container es e" using walk_wf [OF e(1), of "[]"] assms(1) by (simp add: fake_inv_simps)
  then show ?thesis using list_tree [of es e "fake_look s"] e assms(2) by (simp add: fake_look_def cview_append)
qed

lemma fake_Create_eq:
  assumes "fake_inv s" and "clean es"
  shows "fake_Create (leaf_node (abs_path es) v ttl) s =
    (if is_leaf (fake_look s es) then Some (Done (Some ErrorKeyExists), s)
     else fake_SetMulti [leaf_node (abs_path es) v ttl] s)"
  using fake_get_look [OF assms] assms(1)
  by (auto simp: fake_Create_def fake_inv_simps is_leaf_def split: option.splits entry.splits)

lemma node_at_leaf [simp]: "node_at es (leaf_node (abs_path es) v ttl)"
  by (simp add: node_at_def)

lemma view_dir: "wf_container es c \<Longrightarrow> cview c p \<noteq> None \<Longrightarrow> strict_prefix q p \<Longrightarrow> cview c q = Some DirE"
proof (induction p arbitrary: es c q)
  case (Cons k p)
  then obtain e where e: "map_of (cn_nodes c) k = Some e" "cview e p \<noteq> None" by (auto split: option.splits)
  moreover have dir: "cn_dir c" using e Cons.prems(1) by (cases c) (auto split: if_splits)
  moreover have "wf_container (es @ [k]) e" using wf_child Cons.prems(1) calculation by blast
  ultimately show ?case using Cons.IH Cons.prems(3) by (cases q) auto
qed simp

lemma view_simple: "wf_container es c \<Longrightarrow> cview c p \<noteq> None \<Longrightarrow> \<forall>e \<in> set p. key_elem e"
proof (induction p arbitrary: es c)
  case (Cons k p)
  then obtain e where e: "map_of (cn_nodes c) k = Some e" "cview e p \<noteq> None" by (auto split: option.splits)
  moreover have "cn_dir c" using e Cons.prems(1) by (cases c) (auto split: if_splits)
  moreover have "key_elem k \<and> wf_container (es @ [k]) e" using wf_child Cons.prems(1) calculation by blast
  ultimately show ?case using Cons.IH by auto
qed simp

interpretation fake: kv_store fake_adapter fake_inv fake_look "\<lambda>_. 0"
proof (unfold_locales, goal_cases)
  case (1 s p q)
  then show ?case using view_dir [of "[]" "fs_rootNode s" p] by (simp add: fake_look_def fake_inv_simps)
next
  case (2 s p)
  then show ?case using view_simple [of "[]" "fs_rootNode s" p] by (simp add: fake_look_def fake_inv_simps)
next
  case (3 s es)
  then show ?case using fake_get_look [OF 3]
    by (auto simp: fake_adapter_def wp_def fake_Get_def split: prod.splits option.splits entry.splits)
next
  case (4 s es v ttl)
  let ?n = "leaf_node (abs_path es) v ttl"
  show ?case
  proof (cases "settable (fake_look s) es")
    case True
    obtain s' where "fake_setMulti [?n] s = (None, s')" "fake_inv s'" "fake_look s' = put_path (fake_look s) es v 0"
      using fake_set_look [OF 4 True, of ?n] by auto
    then show ?thesis using 4 True
      by (cases "fake_look s es"; cases "the (fake_look s es)")
        (auto simp: fake_adapter_def wp_def fake_Create_eq fake_SetMulti_def creatable_def settable_def is_leaf_def)
  next
    case False
    obtain err where "fake_setMulti [?n] s = (Some err, s)" using fake_set_err [OF 4 False, of ?n] by auto
    moreover have "err \<noteq> ErrorTimeout" using fake_setMulti_no_timeout [of s ?n] 4 calculation by auto
    moreover have "\<not> creatable (fake_look s) es" using False creatable_settable by blast
    ultimately show ?thesis using 4 by (simp add: fake_adapter_def wp_def fake_Create_eq fake_SetMulti_def)
  qed
next
  case (5 s xs ttl)
  then show ?case using fake_set_many [OF 5, of CreateEvent ttl]
    by (auto simp: fake_adapter_def wp_def fake_SetMulti_def fake_setMulti_def)
next
  case (6 s es)
  then show ?case using fake_delete_look [OF 6(1,2)] by (auto simp: fake_adapter_def wp_def)
next
  case (7 s ess)
  obtain s' err where "fake_Delete (map abs_path ess) s = Some (Done err, s')" "fake_inv s'"
    "\<exists>ds. set ds \<subseteq> set ess \<and> fake_look s' = del_paths (fake_look s) ds"
    "err = None \<longrightarrow> fake_look s' = del_paths (fake_look s) ess"
    "distinct ess \<and> independent (set ess) \<and> (\<forall>es \<in> set ess. fake_look s es \<noteq> None) \<longrightarrow> err = None"
    using fake_delete_many [OF 7] by blast
  then show ?case by (simp add: fake_adapter_def wp_def)
next
  case (8 s es)
  then show ?case using fake_list_tree [OF 8]
    by (auto simp: fake_adapter_def wp_def fake_list_look split: prod.splits option.splits entry.splits)
qed

lemma fake_inv_New [simp]: "fake_inv fake_New" "fake_look fake_New [] = Some DirE"
  by (simp_all add: fake_New_def fake_Reset_def fake_inv_def fake_look_def)

end
