(* ===== verification/FakeWorld.thy ===== *)
theory FakeWorld
  imports FakeStore
begin

text \<open>
  gunk/timeprovider/faketimeprovider: the settable clock, and the world of the in-memory store and
  this clock together. The interpretation at the end gives every store-level theorem of the
  components for the fake store.
\<close>

section \<open>FakeTimeProvider\<close>

text \<open>
  A \<open>time.Time\<close> is its distance from the Unix epoch in nanoseconds; a channel is a number, and
  \<open>next\<close> the number the next \<open>make\<close> returns.
\<close>

record fake_time =
  ftp_TimeToProvide :: gotime
  ftp_ProvideFakeChannels :: bool
  ftp_RequestedTickerDurations :: "string \<rightharpoonup> duration"
  ftp_TickerChannels :: "string \<rightharpoonup> nat"
  ftp_next :: nat

definition ftp_New :: "gotime \<Rightarrow> fake_time" where
  "ftp_New t = \<lparr>ftp_TimeToProvide = t, ftp_ProvideFakeChannels = False,
     ftp_RequestedTickerDurations = Map.empty, ftp_TickerChannels = Map.empty, ftp_next = 0\<rparr>"

definition ftp_Time :: "fake_time clock" where
  "ftp_Time p = Some (Done (ftp_TimeToProvide p), p)"

text \<open>\<open>time.Unix(t.Unix() + int64(seconds), 0)\<close>: whole seconds, with the addition in \<open>int64\<close>.\<close>

definition ftp_IncrementBySeconds :: "uint64 \<Rightarrow> fake_time \<Rightarrow> fake_time" where
  "ftp_IncrementBySeconds seconds p =
     p\<lparr>ftp_TimeToProvide := sint (word_of_int (ftp_TimeToProvide p div 1000000000) + seconds) * 1000000000\<rparr>"

definition ftp_Increment :: "duration \<Rightarrow> fake_time \<Rightarrow> fake_time" where
  "ftp_Increment d p = p\<lparr>ftp_TimeToProvide := ftp_TimeToProvide p + d\<rparr>"

definition ftp_NewTickerChannel :: "string \<Rightarrow> duration \<Rightarrow> fake_time \<Rightarrow> nat \<times> fake_time" where
  "ftp_NewTickerChannel name d p =
     (if \<not> ftp_ProvideFakeChannels p then (ftp_next p, p\<lparr>ftp_next := Suc (ftp_next p)\<rparr>)
      else (ftp_next p, p\<lparr>ftp_RequestedTickerDurations := (ftp_RequestedTickerDurations p)(name \<mapsto> d),
              ftp_TickerChannels := (ftp_TickerChannels p)(name \<mapsto> ftp_next p),
              ftp_next := Suc (ftp_next p)\<rparr>))"

definition ftp_TickerChannelFor :: "string \<Rightarrow> fake_time \<Rightarrow> nat option" where
  "ftp_TickerChannelFor name p = ftp_TickerChannels p name"

definition ftp_TickerDurationFor :: "string \<Rightarrow> fake_time \<Rightarrow> duration" where
  "ftp_TickerDurationFor name p = (case ftp_RequestedTickerDurations p name of None \<Rightarrow> 0 | Some d \<Rightarrow> d)"

text \<open>Advancing by whole seconds truncates a time with a sub-second part.\<close>

lemma ftp_IncrementBySeconds_time:
  assumes "int64_ok (ftp_TimeToProvide p div 1000000000 + int n)" and "n < 2 ^ 63"
  shows "ftp_TimeToProvide (ftp_IncrementBySeconds (word_of_nat n) p)
    = ftp_TimeToProvide p - ftp_TimeToProvide p mod 1000000000 + int n * 1000000000"
proof -
  let ?q = "ftp_TimeToProvide p div 1000000000"
  have "word_of_int ?q + word_of_nat n = (word_of_int (?q + int n) :: 64 word)" by simp
  then have "sint (word_of_int ?q + word_of_nat n :: 64 word) = ?q + int n"
    using UnixNano_ok [OF assms(1)] by (simp only: UnixNano_def)
  moreover have "?q * 1000000000 = ftp_TimeToProvide p - ftp_TimeToProvide p mod 1000000000"
    by (metis minus_mod_eq_div_mult)
  ultimately show ?thesis by (simp add: ftp_IncrementBySeconds_def distrib_right)
qed

lemma ftp_ticker:
  assumes "ftp_ProvideFakeChannels p"
  shows "ftp_TickerDurationFor name (snd (ftp_NewTickerChannel name d p)) = d"
    and "ftp_TickerChannelFor name (snd (ftp_NewTickerChannel name d p)) = Some (fst (ftp_NewTickerChannel name d p))"
  using assms by (simp_all add: ftp_TickerDurationFor_def ftp_TickerChannelFor_def ftp_NewTickerChannel_def)

section \<open>The world of the fakes\<close>

type_synonym fake_world = "fake_store \<times> fake_time"

text \<open>An operation of one half of a world, as an operation of the world.\<close>

definition on_fst :: "('s, 'a) go \<Rightarrow> ('s \<times> 't, 'a) go" where
  "on_fst m w = map_option (\<lambda>(r, s). (r, (s, snd w))) (m (fst w))"

definition on_snd :: "('t, 'a) go \<Rightarrow> ('s \<times> 't, 'a) go" where
  "on_snd m w = map_option (\<lambda>(r, t). (r, (fst w, t))) (m (snd w))"

definition store_on_fst :: "'s store_adapter \<Rightarrow> ('s \<times> 't) store_adapter" where
  "store_on_fst a = \<lparr>sa_Create = (\<lambda>n. on_fst (sa_Create a n)), sa_Update = (\<lambda>n. on_fst (sa_Update a n)),
     sa_CompareAndSwap = (\<lambda>old n. on_fst (sa_CompareAndSwap a old n)),
     sa_CompareAndSwapByIndex = (\<lambda>i n. on_fst (sa_CompareAndSwapByIndex a i n)),
     sa_SetMulti = (\<lambda>ns. on_fst (sa_SetMulti a ns)), sa_Get = (\<lambda>k. on_fst (sa_Get a k)),
     sa_ListRecursively = (\<lambda>k. on_fst (sa_ListRecursively a k)), sa_Delete = (\<lambda>ks. on_fst (sa_Delete a ks)),
     sa_CompareAndDelete = (\<lambda>n. on_fst (sa_CompareAndDelete a n)),
     sa_UpdateDirTTL = (\<lambda>k t. on_fst (sa_UpdateDirTTL a k t))\<rparr>"

lemma wp_on_fst: "wp (on_fst m) Q w \<longleftrightarrow> wp m (\<lambda>r s. Q r (s, snd w)) (fst w)"
  by (auto simp: wp_def on_fst_def split: option.splits run.splits)

lemma wp_on_snd: "wp (on_snd m) Q w \<longleftrightarrow> wp m (\<lambda>r t. Q r (fst w, t)) (snd w)"
  by (auto simp: wp_def on_snd_def split: option.splits run.splits)

text \<open>Laws of the store half are laws of the world, with any invariant of the clock half.\<close>

lemma kv_store_on_fst:
  assumes "kv_store a I look slack"
  shows "kv_store (store_on_fst a) (\<lambda>(s, t). I s \<and> J t) (\<lambda>(s, t). look s) (\<lambda>(s, t). slack s)"
proof (unfold_locales, goal_cases)
  case (1 s p q)
  then show ?case using kv_store.look_dir [OF assms] by (auto simp: split_beta)
next
  case (2 s p)
  then show ?case using kv_store.look_simple [OF assms] by (auto simp: split_beta)
next
  case (3 s es)
  then show ?case
    by (cases s) (auto simp: store_on_fst_def wp_on_fst split_beta
        intro!: wp_mono [OF kv_store.law_Get [OF assms]] split: if_splits prod.splits option.splits entry.splits)
next
  case (4 s es v ttl)
  then show ?case
    by (cases s) (auto simp: store_on_fst_def wp_on_fst split_beta
        intro!: wp_mono [OF kv_store.law_Create [OF assms]] split: if_splits prod.splits option.splits entry.splits)
next
  case (5 s xs ttl)
  then show ?case
    by (cases s) (auto simp: store_on_fst_def wp_on_fst split_beta
        intro!: wp_mono [OF kv_store.law_Set_multi [OF assms]] split: if_splits prod.splits option.splits entry.splits)
next
  case (6 s es)
  then show ?case
    by (cases s) (auto simp: store_on_fst_def wp_on_fst split_beta
        intro!: wp_mono [OF kv_store.law_Delete [OF assms]] split: if_splits prod.splits option.splits entry.splits)
next
  case (7 s ess)
  then show ?case
    by (cases s) (auto simp: store_on_fst_def wp_on_fst split_beta
        intro!: wp_mono [OF kv_store.law_Delete_multi [OF assms]] split: if_splits prod.splits option.splits entry.splits)
next
  case (8 s es)
  then show ?case
    by (cases s) (auto simp: store_on_fst_def wp_on_fst split_beta
        intro!: wp_mono [OF kv_store.law_List [OF assms]] split: if_splits prod.splits option.splits entry.splits)
qed

definition fake_bbs :: "fake_world bbs" where
  "fake_bbs = \<lparr>bbs_store = store_on_fst fake_adapter, bbs_clock = on_snd ftp_Time\<rparr>"

text \<open>The store is well formed and the clock shows \<open>t0\<close>.\<close>

definition fake_world_inv :: "gotime \<Rightarrow> fake_world \<Rightarrow> bool" where
  "fake_world_inv t0 = (\<lambda>(s, t). fake_inv s \<and> (ftp_TimeToProvide t = t0 \<and> int64_ok t0))"

definition fake_world_look :: "fake_world \<Rightarrow> view" where
  "fake_world_look = (\<lambda>(s, t). fake_look s)"

interpretation fake_world: kv_world fake_bbs "fake_world_inv t0" fake_world_look "\<lambda>_. 0" for t0
proof (rule kv_world.intro)
  show "kv_store (bbs_store fake_bbs) (fake_world_inv t0) fake_world_look (\<lambda>_. 0)"
    using kv_store_on_fst [OF fake.kv_store_axioms, of "\<lambda>t. ftp_TimeToProvide t = t0 \<and> int64_ok t0"]
    by (simp add: fake_bbs_def fake_world_inv_def fake_world_look_def case_prod_unfold)
  show "kv_world_axioms fake_bbs (fake_world_inv t0) fake_world_look (\<lambda>_. 0)"
    by unfold_locales
      (auto simp: fake_bbs_def wp_on_snd fake_world_inv_def fake_world_look_def wp_def ftp_Time_def on_snd_def)
qed

end
