(* ===== verification/TaskBbs.thy ===== *)
theory TaskBbs
  imports Shared "HOL-Library.Multiset"
begin

text \<open>
  runtime-schema/bbs/task_bbs: the life cycle of tasks (task_lifecycle.go), the getters
  (task_getters.go), the watch filters (task_watchers.go) and the convergence loop (convergence.go).
  A task is one leaf below the task root; every transition reads it with its index and writes it
  back with a compare-and-swap on that index.
\<close>

section \<open>Life cycle\<close>

definition task_node :: "string \<Rightarrow> bytes \<Rightarrow> store_node" where
  "task_node guid value = leaf_node (TaskSchemaPath guid) value 0"

definition getTask :: "'s bbs \<Rightarrow> string \<Rightarrow> ('s, task \<times> nat \<times> error option) go" where
  "getTask bbs taskGuid =
     go_bind (RetryIndefinitelyOnStoreTimeout (\<lambda>_. sa_Get (bbs_store bbs) (TaskSchemaPath taskGuid)) zero_node)
       (\<lambda>(node, err).
          if err \<noteq> None then go_return (zero_task, 0, err)
          else go_bind (go_outcome zero_task (NewTaskFromJSON (sn_Value node)))
                 (\<lambda>(task, err). go_return (task, sn_Index node, err)))"

text \<open>
  The callback of \<open>DesireTask\<close>. The variable \<open>task\<close> is captured and assigned: the creation time it
  gets at the first attempt is kept by the later ones.
\<close>

definition DesireTask_attempt :: "'s bbs \<Rightarrow> task \<Rightarrow> ('s, task \<times> error option) go" where
  "DesireTask_attempt s task =
     go_bind (if task_CreatedAt task = 0
              then go_bind (bbs_clock s) (\<lambda>t. go_return (task\<lparr>task_CreatedAt := UnixNano t\<rparr>))
              else go_return task)
       (\<lambda>task. go_bind (bbs_clock s)
         (\<lambda>t. let task = task\<lparr>task_UpdatedAt := UnixNano t, task_State := TaskStatePending\<rparr> in
            go_bind (go_must (Task_ToJSON task))
              (\<lambda>value. go_bind (sa_Create (bbs_store s) (task_node (task_Guid task) value))
                (\<lambda>err. go_return (task, err)))))"

definition DesireTask :: "'s bbs \<Rightarrow> task \<Rightarrow> ('s, error option) go" where
  "DesireTask s task =
     go_bind (RetryIndefinitelyOnStoreTimeout (DesireTask_attempt s) task) (\<lambda>(_, err). go_return err)"

text \<open>The retried compare-and-swap that ends every transition.\<close>

definition cas_task :: "'s bbs \<Rightarrow> nat \<Rightarrow> string \<Rightarrow> task \<Rightarrow> ('s, error option) go" where
  "cas_task bbs index taskGuid task =
     Retry (go_bind (go_must (Task_ToJSON task))
       (\<lambda>value. sa_CompareAndSwapByIndex (bbs_store bbs) index (task_node taskGuid value)))"

text \<open>\<open>ClaimTask\<close> from the point where it has read the task: what other processes can get in between.\<close>

definition ClaimTask_read :: "'s bbs \<Rightarrow> string \<Rightarrow> string \<Rightarrow> task \<times> nat \<times> error option \<Rightarrow> ('s, error option) go" where
  "ClaimTask_read bbs taskGuid executorID = (\<lambda>(task, index, err).
     if err \<noteq> None then go_return (Some (Errorf ''cannot claim non-existing task: %s'' [] err))
     else if task_State task \<noteq> TaskStatePending
     then go_return (Some (Errorf ''cannot claim task in non-pending state'' [] None))
     else go_bind (bbs_clock bbs) (\<lambda>t. cas_task bbs index taskGuid
       (task\<lparr>task_UpdatedAt := UnixNano t, task_State := TaskStateClaimed, task_ExecutorID := executorID\<rparr>)))"

definition ClaimTask :: "'s bbs \<Rightarrow> string \<Rightarrow> string \<Rightarrow> ('s, error option) go" where
  "ClaimTask bbs taskGuid executorID =
     go_bind (getTask bbs taskGuid) (ClaimTask_read bbs taskGuid executorID)"

definition StartTask :: "'s bbs \<Rightarrow> string \<Rightarrow> string \<Rightarrow> string \<Rightarrow> ('s, error option) go" where
  "StartTask bbs taskGuid executorID containerHandle =
     go_bind (getTask bbs taskGuid) (\<lambda>(task, index, err).
     if err \<noteq> None then go_return (Some (Errorf ''cannot start non-existing task: %s'' [] err))
     else if task_State task \<noteq> TaskStateClaimed
     then go_return (Some (Errorf ''cannot start task in non-claimed state'' [] None))
     else if task_ExecutorID task \<noteq> executorID
     then go_return (Some (Errorf ''cannot start task claimed by another executor'' [] None))
     else go_bind (bbs_clock bbs) (\<lambda>t. cas_task bbs index taskGuid
       (task\<lparr>task_UpdatedAt := UnixNano t, task_State := TaskStateRunning,
             task_ContainerHandle := containerHandle\<rparr>)))"

definition CompleteTask :: "'s bbs \<Rightarrow> string \<Rightarrow> bool \<Rightarrow> string \<Rightarrow> string \<Rightarrow> ('s, error option) go" where
  "CompleteTask bbs taskGuid failed failureReason result =
     go_bind (getTask bbs taskGuid) (\<lambda>(task, index, err).
     if err \<noteq> None then go_return (Some (Errorf ''cannot complete non-existing task: %s'' [] err))
     else if task_State task \<noteq> TaskStateRunning
     then go_return (Some (Errorf ''cannot complete task in non-running state'' [] None))
     else go_bind (bbs_clock bbs) (\<lambda>t. cas_task bbs index taskGuid
       (task\<lparr>task_UpdatedAt := UnixNano t, task_State := TaskStateCompleted, task_Failed := failed,
             task_FailureReason := failureReason, task_Result := result\<rparr>)))"

definition ResolvingTask :: "'s bbs \<Rightarrow> string \<Rightarrow> ('s, error option) go" where
  "ResolvingTask bbs taskGuid =
     go_bind (getTask bbs taskGuid) (\<lambda>(task, index, err).
     if err \<noteq> None then go_return (Some (Errorf ''cannot start resolving non-existing task: %s'' [] err))
     else if task_State task \<noteq> TaskStateCompleted
     then go_return (Some (Errorf ''cannot start resolving task in non-completed state'' [] None))
     else go_bind (bbs_clock bbs) (\<lambda>t. cas_task bbs index taskGuid
       (task\<lparr>task_UpdatedAt := UnixNano t, task_State := TaskStateResolving\<rparr>)))"

definition ResolveTask :: "'s bbs \<Rightarrow> string \<Rightarrow> ('s, error option) go" where
  "ResolveTask bbs taskGuid =
     go_bind (getTask bbs taskGuid) (\<lambda>(task, index, err).
     if err \<noteq> None then go_return (Some (Errorf ''cannot resolve non-existing task: %s'' [] err))
     else if task_State task \<noteq> TaskStateResolving
     then go_return (Some (Errorf ''cannot resolve task in non-resolving state'' [] None))
     else Retry (sa_Delete (bbs_store bbs) [TaskSchemaPath taskGuid]))"

section \<open>Getters\<close>

text \<open>Entries that do not parse are logged and skipped; an entry whose parse panics takes the caller down.\<close>

fun parse_tasks :: "store_node list \<Rightarrow> task list option" where
  "parse_tasks [] = Some []"
| "parse_tasks (node # nodes) =
     (case NewTaskFromJSON (sn_Value node) of
        Ok task \<Rightarrow> map_option ((#) task) (parse_tasks nodes)
      | Err _ \<Rightarrow> parse_tasks nodes
      | Panic \<Rightarrow> None)"

definition GetAllTasks :: "'s bbs \<Rightarrow> ('s, task list \<times> error option) go" where
  "GetAllTasks bbs =
     go_bind (sa_ListRecursively (bbs_store bbs) TaskSchemaRoot) (\<lambda>(node, err).
       if err = Some ErrorKeyNotFound then go_return ([], None)
       else if err \<noteq> None then go_return ([], err)
       else go_bind (go_must (parse_tasks (sn_ChildNodes node))) (\<lambda>tasks. go_return (tasks, None)))"

fun filterTasks :: "task list \<Rightarrow> int \<Rightarrow> task list" where
  "filterTasks [] state = []"
| "filterTasks (model # tasks) state =
     (if task_State model = state then model # filterTasks tasks state else filterTasks tasks state)"

definition GetAllTasksIn :: "int \<Rightarrow> 's bbs \<Rightarrow> ('s, task list \<times> error option) go" where
  "GetAllTasksIn state bbs = go_bind (GetAllTasks bbs) (\<lambda>(all, err). go_return (filterTasks all state, err))"

definition GetAllPendingTasks :: "'s bbs \<Rightarrow> ('s, task list \<times> error option) go" where
  "GetAllPendingTasks = GetAllTasksIn TaskStatePending"

definition GetAllClaimedTasks :: "'s bbs \<Rightarrow> ('s, task list \<times> error option) go" where
  "GetAllClaimedTasks = GetAllTasksIn TaskStateClaimed"

definition GetAllRunningTasks :: "'s bbs \<Rightarrow> ('s, task list \<times> error option) go" where
  "GetAllRunningTasks = GetAllTasksIn TaskStateRunning"

definition GetAllCompletedTasks :: "'s bbs \<Rightarrow> ('s, task list \<times> error option) go" where
  "GetAllCompletedTasks = GetAllTasksIn TaskStateCompleted"

definition GetAllResolvingTasks :: "'s bbs \<Rightarrow> ('s, task list \<times> error option) go" where
  "GetAllResolvingTasks = GetAllTasksIn TaskStateResolving"

section \<open>Watch filter\<close>

text \<open>A dereference of a nil \<open>event.Node\<close> is a panic.\<close>

definition taskFilterByState :: "int \<Rightarrow> watch_event \<Rightarrow> (task \<times> bool) outcome" where
  "taskFilterByState state event =
     (if we_Type event = CreateEvent \<or> we_Type event = UpdateEvent
      then (case we_Node event of
              None \<Rightarrow> Panic
            | Some node \<Rightarrow>
                (case NewTaskFromJSON (sn_Value node) of
                   Err _ \<Rightarrow> Ok (zero_task, False)
                 | Panic \<Rightarrow> Panic
                 | Ok task \<Rightarrow> Ok (if task_State task = state then (task, True) else (zero_task, False))))
      else Ok (zero_task, False))"

section \<open>Convergence\<close>

record compareAndSwappableTask =
  ct_OldIndex :: nat
  ct_NewTask :: task

definition durationSinceTaskCreated :: "'s bbs \<Rightarrow> task \<Rightarrow> ('s, duration) go" where
  "durationSinceTaskCreated bbs task =
     go_bind (bbs_clock bbs) (\<lambda>t. go_return (time_Sub t (task_CreatedAt task)))"

definition durationSinceTaskUpdated :: "'s bbs \<Rightarrow> task \<Rightarrow> ('s, duration) go" where
  "durationSinceTaskUpdated bbs task =
     go_bind (bbs_clock bbs) (\<lambda>t. go_return (time_Sub t (task_UpdatedAt task)))"

definition markTaskFailed :: "task \<Rightarrow> string \<Rightarrow> task" where
  "markTaskFailed task reason =
     task\<lparr>task_State := TaskStateCompleted, task_Failed := True, task_FailureReason := reason\<rparr>"

definition demoteToPending :: "task \<Rightarrow> task" where
  "demoteToPending task =
     task\<lparr>task_State := TaskStatePending, task_ExecutorID := [], task_ContainerHandle := []\<rparr>"

definition demoteToCompleted :: "task \<Rightarrow> task" where
  "demoteToCompleted task = task\<lparr>task_State := TaskStateCompleted\<rparr>"

text \<open>The switch of the loop body: what to write back for a task, \<open>None\<close> when it is left alone.\<close>

definition converge_switch :: "'s bbs \<Rightarrow> duration \<Rightarrow> store_node \<Rightarrow> bool \<Rightarrow> task \<Rightarrow> ('s, task option) go" where
  "converge_switch bbs timeToClaim executorState shouldKickTask task =
     (let executorIsAlive = Lookup executorState (task_ExecutorID task) \<noteq> None in
      if task_State task = TaskStatePending then
        go_bind (durationSinceTaskCreated bbs task) (\<lambda>d.
          go_return (if d \<ge> timeToClaim then Some (markTaskFailed task ''not claimed within time limit'')
                     else if shouldKickTask then Some task else None))
      else if task_State task = TaskStateClaimed then
        go_return (if \<not> executorIsAlive
                   then Some (markTaskFailed task ''executor disappeared before completion'')
                   else if shouldKickTask then Some (demoteToPending task) else None)
      else if task_State task = TaskStateRunning then
        go_return (if \<not> executorIsAlive
                   then Some (markTaskFailed task ''executor disappeared before completion'') else None)
      else if task_State task = TaskStateCompleted then
        go_return (if shouldKickTask then Some task else None)
      else if task_State task = TaskStateResolving then
        go_return (if shouldKickTask then Some (demoteToCompleted task) else None)
      else go_return None)"

text \<open>One iteration: the keys to delete and the tasks to swap so far.\<close>

definition converge_node ::
  "'s bbs \<Rightarrow> duration \<Rightarrow> duration \<Rightarrow> store_node \<Rightarrow> store_node
   \<Rightarrow> string list \<times> compareAndSwappableTask list \<Rightarrow> ('s, string list \<times> compareAndSwappableTask list) go" where
  "converge_node bbs timeToClaim convergenceInterval executorState node = (\<lambda>(keysToDelete, tasksToCAS).
     (case NewTaskFromJSON (sn_Value node) of
        Panic \<Rightarrow> go_panic
      | Err _ \<Rightarrow> go_return (keysToDelete @ [sn_Key node], tasksToCAS)
      | Ok task \<Rightarrow>
          go_bind (durationSinceTaskUpdated bbs task) (\<lambda>d.
            go_bind (converge_switch bbs timeToClaim executorState (d \<ge> convergenceInterval) task) (\<lambda>new.
              go_return (keysToDelete,
                case new of None \<Rightarrow> tasksToCAS
                | Some newTask \<Rightarrow> tasksToCAS @ [\<lparr>ct_OldIndex = sn_Index node, ct_NewTask = newTask\<rparr>])))))"

text \<open>
  \<open>batchCompareAndSwapTasks\<close> starts one goroutine per task and waits for all of them.
\<close>

definition task_swap_node :: "'s bbs \<Rightarrow> compareAndSwappableTask \<Rightarrow> ('s, nat \<times> store_node) go" where
  "task_swap_node bbs taskToCAS =
     go_bind (bbs_clock bbs) (\<lambda>t.
       let task = (ct_NewTask taskToCAS)\<lparr>task_UpdatedAt := UnixNano t\<rparr> in
       go_bind (go_must (Task_ToJSON task))
         (\<lambda>value. go_return (ct_OldIndex taskToCAS, task_node (task_Guid task) value)))"

definition batchCompareAndSwapTasks ::
  "sched \<Rightarrow> 's bbs \<Rightarrow> compareAndSwappableTask list \<Rightarrow> ('s, unit) go" where
  "batchCompareAndSwapTasks sched bbs tasksToCAS =
     go_bind (go_fold (\<lambda>taskToCAS nodes. go_bind (task_swap_node bbs taskToCAS) (\<lambda>n. go_return (nodes @ [n])))
       tasksToCAS [])
     (batch_swap sched bbs)"

definition ConvergeTask ::
  "sched \<Rightarrow> 's bbs \<Rightarrow> duration \<Rightarrow> duration \<Rightarrow> ('s, unit) go" where
  "ConvergeTask sched bbs timeToClaim convergenceInterval =
     go_bind (sa_ListRecursively (bbs_store bbs) TaskSchemaRoot) (\<lambda>(taskState, err).
       if err \<noteq> None then go_return ()
       else go_bind (sa_ListRecursively (bbs_store bbs) ExecutorSchemaRoot) (\<lambda>(executorState, err).
         if err \<noteq> None \<and> err \<noteq> Some ErrorKeyNotFound then go_return ()
         else go_bind (go_fold
                  (converge_node bbs timeToClaim convergenceInterval
                    (if err = Some ErrorKeyNotFound then zero_node else executorState))
                  (sn_ChildNodes taskState) ([], []))
                (\<lambda>(keysToDelete, tasksToCAS).
                   go_bind (batchCompareAndSwapTasks sched bbs tasksToCAS) (\<lambda>_.
                     go_bind (sa_Delete (bbs_store bbs) keysToDelete) (\<lambda>_. go_return ())))))"

end
