(* ===== verification/TaskProofs.thy ===== *)
theory TaskProofs
  imports TaskBbs
begin

text \<open>
  What the task life cycle does to the store: the contract of each operation in any world whose
  store meets its contract, the transitions a stored task can make, and the race of two executors
  for one task.
\<close>

section \<open>Tasks in the view\<close>

abbreviation task_path :: "string \<Rightarrow> path" where "task_path g \<equiv> [''v1'', ''task'', g]"

definition task_entry :: "view \<Rightarrow> string \<Rightarrow> task \<Rightarrow> nat \<Rightarrow> bool" where
  "task_entry f g t i \<longleftrightarrow> (\<exists>v. f (task_path g) = Some (LeafE v i) \<and> NewTaskFromJSON v = Ok t)"

text \<open>\<open>g'\<close> is \<open>f\<close> with the task \<open>t\<close> written at \<open>g\<close>, under an index above \<open>j\<close>.\<close>

definition task_put :: "view \<Rightarrow> string \<Rightarrow> task \<Rightarrow> view \<Rightarrow> bool" where
  "task_put f g t f' \<longleftrightarrow> (\<exists>v i. NewTaskFromJSON v = Ok t \<and> f' = put_path f (task_path g) v i)"

definition task_written :: "view \<Rightarrow> string \<Rightarrow> nat \<Rightarrow> task \<Rightarrow> view \<Rightarrow> bool" where
  "task_written f g j t f' \<longleftrightarrow> (\<exists>v i. i > j \<and> NewTaskFromJSON v = Ok t \<and> f' = put_path f (task_path g) v i)"

text \<open>Every task entry parses, to a task within the ranges the wire format keeps.\<close>

definition tasks_ok :: "view \<Rightarrow> bool" where
  "tasks_ok f \<longleftrightarrow> (\<forall>g v i. f (task_path g) = Some (LeafE v i) \<longrightarrow> (\<exists>t. NewTaskFromJSON v = Ok t \<and> task_ok t))"

lemma task_entry_fun: "task_entry f g t i \<Longrightarrow> task_entry f g t' i' \<Longrightarrow> t' = t \<and> i' = i"
  by (auto simp: task_entry_def)

lemma task_written_entry: "task_written f g j t f' \<Longrightarrow> \<exists>i > j. task_entry f' g t i"
  by (auto simp: task_written_def task_entry_def)

lemma task_written_other: "task_written f g j t f' \<Longrightarrow> g' \<noteq> g \<Longrightarrow> f' (task_path g') = f (task_path g')"
  by (auto simp: task_written_def put_path_def)

lemma task_ToJSON: "task_ok t \<Longrightarrow> \<exists>v. Task_ToJSON t = Some v \<and> NewTaskFromJSON v = Ok t"
  by (rule task_roundtrip)

lemma clean_task_path [simp]: "key_elem g \<Longrightarrow> clean (task_path g)"
  by simp

lemma task_node_path: "key_elem g \<Longrightarrow> task_node g v = leaf_node (abs_path (task_path g)) v 0"
  by (simp add: task_node_def schema_paths)

text \<open>What an attempt to desire \<open>t\<close> writes.\<close>

definition as_pending :: "int \<Rightarrow> int \<Rightarrow> task \<Rightarrow> task" where
  "as_pending c u t = t\<lparr>task_CreatedAt := c, task_UpdatedAt := u, task_State := TaskStatePending\<rparr>"

definition desired_from :: "task \<Rightarrow> task \<Rightarrow> bool" where
  "desired_from t y \<longleftrightarrow> (\<exists>c u. y = as_pending c u t \<and> (task_CreatedAt t \<noteq> 0 \<longrightarrow> c = task_CreatedAt t) \<and>
     int64_ok c \<and> int64_ok u)"

lemma as_pending_simps [simp]:
  "as_pending c u (as_pending c' u' t) = as_pending c u t"
  "task_CreatedAt (as_pending c u t) = c" "task_UpdatedAt (as_pending c u t) = u"
  "task_State (as_pending c u t) = TaskStatePending" "task_Guid (as_pending c u t) = task_Guid t"
  by (simp_all add: as_pending_def)

lemma as_pending_ok: "task_ok t \<Longrightarrow> int64_ok c \<Longrightarrow> int64_ok u \<Longrightarrow> task_ok (as_pending c u t)"
  by (simp add: task_ok_def as_pending_def int64_ok_def)

lemma desired_from_trans: "desired_from x y \<Longrightarrow> desired_from y z \<Longrightarrow> desired_from x z"
  unfolding desired_from_def by (elim exE conjE) (simp, blast)

lemma desired_from_ok: "task_ok t \<Longrightarrow> desired_from t y \<Longrightarrow> task_ok y \<and> task_Guid y = task_Guid t"
  unfolding desired_from_def by (elim exE conjE) (simp add: as_pending_ok)

lemma desired_from_new:
  "int64_ok c \<Longrightarrow> int64_ok u \<Longrightarrow> task_CreatedAt x = 0 \<Longrightarrow>
     desired_from x (x\<lparr>task_CreatedAt := c, task_UpdatedAt := u, task_State := TaskStatePending\<rparr>)"
  by (simp add: desired_from_def flip: as_pending_def) blast

lemma desired_from_again:
  assumes "int64_ok (task_CreatedAt x)" and "int64_ok u"
  shows "desired_from x (x\<lparr>task_UpdatedAt := u, task_State := TaskStatePending\<rparr>)"
proof -
  have "x\<lparr>task_UpdatedAt := u, task_State := TaskStatePending\<rparr> = as_pending (task_CreatedAt x) u x"
    by (simp add: as_pending_def)
  then show ?thesis using assms by (simp add: desired_from_def) blast
qed

section \<open>The operations\<close>

context kv_world
begin

lemma wp_getTask:
  assumes "inv s" and "key_elem g" and "task_entry (look s) g t i"
    and "\<And>s'. inv s' \<Longrightarrow> look s' = look s \<Longrightarrow> slack s' \<le> slack s \<Longrightarrow> Q (t, i, None) s'"
  shows "wp (getTask B g) Q s"
  using assms
  by (auto simp: getTask_def schema_paths task_entry_def intro!: retry_Get)

lemma wp_getTask_missing:
  assumes "inv s" and "key_elem g" and "look s (task_path g) = None \<or> look s (task_path g) = Some DirE"
    and "\<And>e s'. inv s' \<Longrightarrow> look s' = look s \<Longrightarrow> slack s' \<le> slack s \<Longrightarrow> Q (zero_task, 0, Some e) s'"
  shows "wp (getTask B g) Q s"
  using assms
  by (auto simp: getTask_def schema_paths intro!: retry_Get split: option.splits)

text \<open>One attempt of \<open>DesireTask\<close>: what it makes of the captured task, and what the store does.\<close>

lemma wp_DesireTask_attempt:
  assumes "inv s" and "key_elem (task_Guid x)" and "task_ok x"
    and Q: "\<And>y v err s1 s'. desired_from x y \<Longrightarrow> NewTaskFromJSON v = Ok y \<Longrightarrow> look s1 = look s \<Longrightarrow> slack s1 \<le> slack s \<Longrightarrow>
      inv s' \<and>
       (if err = Some ErrorTimeout
        then slack s' < slack s1 \<and>
          (look s' = look s1 \<or> creatable (look s1) (task_path (task_Guid x)) \<and>
             (\<exists>i. look s' = put_path (look s1) (task_path (task_Guid x)) v i))
        else slack s' \<le> slack s1 \<and>
          (if creatable (look s1) (task_path (task_Guid x))
           then err = None \<and> (\<exists>i. look s' = put_path (look s1) (task_path (task_Guid x)) v i)
           else look s' = look s1 \<and> err \<noteq> None \<and>
             (is_leaf (look s1 (task_path (task_Guid x))) \<longrightarrow> err = Some ErrorKeyExists))) \<Longrightarrow> Q (y, err) s'"
  shows "wp (DesireTask_attempt B x) Q s"
proof -
  have create: "wp (go_bind (go_must (Task_ToJSON y))
      (\<lambda>value. go_bind (sa_Create (bbs_store B) (task_node (task_Guid y) value)) (\<lambda>err. go_return (y, err)))) Q s1"
    if s1: "inv s1" "look s1 = look s" "slack s1 \<le> slack s" and y: "desired_from x y" for y s1
  proof -
    have yok: "task_ok y" "task_Guid y = task_Guid x"
      using desired_from_ok [OF assms(3) y] by simp_all
    obtain v where v: "Task_ToJSON y = Some v" "NewTaskFromJSON v = Ok y" using task_ToJSON [OF yok(1)] by blast
    show ?thesis
      unfolding v(1) go_must_simps go_return_bind yok(2) task_node_path [OF assms(2)] wp_bind wp_return
      using law_Create [OF s1(1) clean_task_path [OF assms(2)], of v 0]
      by (rule wp_mono) (rule Q [OF y v(2) s1(2,3)])
  qed
  have x: "int64_ok (task_CreatedAt x)" using assms(3) by (simp add: task_ok_def)
  have rest: "wp (go_bind (bbs_clock B) (\<lambda>t. let task = z\<lparr>task_UpdatedAt := UnixNano t, task_State := TaskStatePending\<rparr> in
      go_bind (go_must (Task_ToJSON task))
        (\<lambda>value. go_bind (sa_Create (bbs_store B) (task_node (task_Guid task) value)) (\<lambda>err. go_return (task, err))))) Q s1"
    if s1: "inv s1" "look s1 = look s" "slack s1 \<le> slack s"
      and z: "\<And>u. int64_ok u \<Longrightarrow> desired_from x (z\<lparr>task_UpdatedAt := u, task_State := TaskStatePending\<rparr>)" for z s1
    unfolding wp_bind [of "bbs_clock B"] Let_def
    by (rule wp_clock [OF s1(1)], rule create) (use s1 z in auto)
  show ?thesis
  proof (cases "task_CreatedAt x = 0")
    case True
    show ?thesis
      unfolding DesireTask_attempt_def if_P [OF True] go_bind_assoc go_return_bind wp_bind [of "bbs_clock B"]
    proof (rule wp_clock [OF assms(1)], goal_cases)
      case (1 t s1)
      show ?case
        by (rule rest [of s1 "x\<lparr>task_CreatedAt := UnixNano t\<rparr>", unfolded wp_bind [of "bbs_clock B"]])
          (use 1 in \<open>simp_all add: desired_from_new True\<close>)
    qed
  next
    case False
    show ?thesis
      unfolding DesireTask_attempt_def if_not_P [OF False] go_return_bind
      by (rule rest [of s x]) (simp_all add: desired_from_again x assms(1))
  qed
qed

lemma task_put_again: "task_put f g t f' \<Longrightarrow> put_path f' (task_path g) v i = put_path f (task_path g) v i"
  by (auto simp: task_put_def put_path_put)

lemma task_put_exists: "task_put f g t f' \<Longrightarrow> \<not> creatable f' (task_path g) \<and> is_leaf (f' (task_path g))"
  by (auto simp: task_put_def creatable_def is_leaf_def)

lemma wp_DesireTask:
  assumes inv: "inv s" and g: "key_elem (task_Guid t)" and ok: "task_ok t"
  defines "p \<equiv> task_path (task_Guid t)"
  shows "wp (DesireTask B t) (\<lambda>err s'. inv s' \<and> slack s' \<le> slack s \<and>
    (let created = creatable (look s) p \<and> (\<exists>y. desired_from t y \<and> task_put (look s) (task_Guid t) y (look s'))
     in (look s' = look s \<or> created) \<and> (err = None \<longrightarrow> created) \<and>
        (is_leaf (look s p) \<longrightarrow> err = Some ErrorKeyExists) \<and>
        (slack s = 0 \<and> creatable (look s) p \<longrightarrow> err = None))) s"
proof -
  define W where "W s' \<longleftrightarrow> creatable (look s) p \<and> (\<exists>y. desired_from t y \<and> task_put (look s) (task_Guid t) y (look s'))" for s'
  have C: "task_ok x \<and> task_Guid x = task_Guid t" if "x = t \<or> desired_from t x" for x
    using ok that desired_from_ok by blast
  have "wp (DesireTask B t) (\<lambda>err s'. inv s' \<and> slack s' \<le> slack s \<and> (look s' = look s \<or> W s') \<and>
     (err = None \<longrightarrow> W s') \<and> (is_leaf (look s p) \<longrightarrow> err = Some ErrorKeyExists) \<and>
     (slack s = 0 \<and> creatable (look s) p \<longrightarrow> err = None)) s"
    unfolding DesireTask_def wp_bind
  proof (rule wp_RetryIndefinitely [where slack = slack and
        I = "\<lambda>x s'. (x = t \<or> desired_from t x) \<and> inv s' \<and> slack s' \<le> slack s \<and> (look s' = look s \<or> slack s > 0 \<and> W s')"])
    fix x s1 assume I: "(x = t \<or> desired_from t x) \<and> inv s1 \<and> slack s1 \<le> slack s \<and> (look s1 = look s \<or> slack s > 0 \<and> W s1)"
    have x: "task_ok x" "task_Guid x = task_Guid t" using C [OF conjunct1 [OF I]] by simp_all
    show "wp (DesireTask_attempt B x) (\<lambda>(c', err) s'. if err = Some ErrorTimeout
        then ((c' = t \<or> desired_from t c') \<and> inv s' \<and> slack s' \<le> slack s \<and> (look s' = look s \<or> slack s > 0 \<and> W s')) \<and> slack s' < slack s1
        else wp (case (c', err) of (_, err) \<Rightarrow> go_return err) (\<lambda>err s'. inv s' \<and> slack s' \<le> slack s \<and> (look s' = look s \<or> W s') \<and>
     (err = None \<longrightarrow> W s') \<and> (is_leaf (look s p) \<longrightarrow> err = Some ErrorKeyExists) \<and>
     (slack s = 0 \<and> creatable (look s) p \<longrightarrow> err = None)) s') s1"
    proof (rule wp_DesireTask_attempt, goal_cases)
      case (4 y v err s2 s')
      have y: "desired_from t y" using I 4(1) desired_from_trans by blast
      have l1: "look s2 = look s1" "slack s2 \<le> slack s1" using 4 by auto
      have p: "task_path (task_Guid x) = p" using x p_def by simp
      show ?case
      proof (cases "look s1 = look s")
        case True
        have "W s'" if "creatable (look s) p" "look s' = put_path (look s) p v i" for i
          using that y 4(2) by (auto simp: W_def task_put_def p_def)
        then show ?thesis using 4(5) y I l1 True unfolding p
          by (cases "err = Some ErrorTimeout") (auto split: if_splits simp: creatable_def is_leaf_def)
      next
        case False
        then have w: "W s1" "slack s > 0" using I by auto
        then have "\<not> creatable (look s1) p" "is_leaf (look s1 p)" "creatable (look s) p"
          using task_put_exists by (auto simp: W_def p_def)
        moreover have "W s'" if "look s' = look s1" using that w by (simp add: W_def)
        ultimately show ?thesis using 4(5) y I l1 w unfolding p
          by (cases "err = Some ErrorTimeout") (auto simp: creatable_def is_leaf_def)
      qed
    qed (use I x g in auto)
  qed (use inv in simp)
  then show ?thesis unfolding Let_def W_def .
qed

end

section \<open>Transitions\<close>

text \<open>The transitions of a stored task, with the operation that makes them.\<close>

datatype task_op =
    OpDesire task
  | OpClaim string string
  | OpStart string string string
  | OpComplete string bool string string
  | OpResolving string
  | OpResolve string

fun op_guid :: "task_op \<Rightarrow> string" where
  "op_guid (OpDesire t) = task_Guid t"
| "op_guid (OpClaim g e) = g"
| "op_guid (OpStart g e h) = g"
| "op_guid (OpComplete g b r x) = g"
| "op_guid (OpResolving g) = g"
| "op_guid (OpResolve g) = g"

text \<open>The arguments the wire format keeps.\<close>

fun op_ok :: "task_op \<Rightarrow> bool" where
  "op_ok (OpDesire t) = task_ok t"
| "op_ok (OpClaim g e) = ascii e"
| "op_ok (OpStart g e h) = ascii h"
| "op_ok (OpComplete g b r x) = (ascii r \<and> ascii x)"
| "op_ok (OpResolving g) = True"
| "op_ok (OpResolve g) = True"

fun run_task_op :: "'s bbs \<Rightarrow> task_op \<Rightarrow> ('s, error option) go" where
  "run_task_op B (OpDesire t) = DesireTask B t"
| "run_task_op B (OpClaim g e) = ClaimTask B g e"
| "run_task_op B (OpStart g e h) = StartTask B g e h"
| "run_task_op B (OpComplete g b r x) = CompleteTask B g b r x"
| "run_task_op B (OpResolving g) = ResolvingTask B g"
| "run_task_op B (OpResolve g) = ResolveTask B g"

inductive task_step :: "task_op \<Rightarrow> task \<Rightarrow> task \<Rightarrow> bool" where
  step_claim: "task_State t = TaskStatePending \<Longrightarrow> int64_ok u \<Longrightarrow>
    task_step (OpClaim g e) t (t\<lparr>task_UpdatedAt := u, task_State := TaskStateClaimed, task_ExecutorID := e\<rparr>)"
| step_start: "task_State t = TaskStateClaimed \<Longrightarrow> task_ExecutorID t = e \<Longrightarrow> int64_ok u \<Longrightarrow>
    task_step (OpStart g e h) t (t\<lparr>task_UpdatedAt := u, task_State := TaskStateRunning, task_ContainerHandle := h\<rparr>)"
| step_complete: "task_State t = TaskStateRunning \<Longrightarrow> int64_ok u \<Longrightarrow>
    task_step (OpComplete g b r x) t (t\<lparr>task_UpdatedAt := u, task_State := TaskStateCompleted, task_Failed := b,
      task_FailureReason := r, task_Result := x\<rparr>)"
| step_resolving: "task_State t = TaskStateCompleted \<Longrightarrow> int64_ok u \<Longrightarrow>
    task_step (OpResolving g) t (t\<lparr>task_UpdatedAt := u, task_State := TaskStateResolving\<rparr>)"

inductive_cases task_step_cases: "task_step op t t'"
inductive_simps task_step_simps:
  "task_step (OpClaim g e) t t'" "task_step (OpStart g e h) t t'" "task_step (OpComplete g b r x) t t'"
  "task_step (OpResolving g) t t'" "task_step (OpDesire d) t t'" "task_step (OpResolve g) t t'"

lemma task_step_ok: "task_step op t t' \<Longrightarrow> task_ok t \<Longrightarrow> op_ok op \<Longrightarrow> task_ok t' \<and> task_Guid t' = task_Guid t"
  by (induction rule: task_step.induct) (simp_all add: task_ok_def int64_ok_def)

text \<open>How a compare-and-swap transition may end. \<open>reliable\<close>: the store does not time out.\<close>

definition task_moved :: "view \<Rightarrow> string \<Rightarrow> nat \<Rightarrow> (task \<Rightarrow> bool) \<Rightarrow> bool \<Rightarrow> error option \<Rightarrow> view \<Rightarrow> bool" where
  "task_moved f g j P reliable err f' \<longleftrightarrow>
     (err = None \<or> err = Some ErrorKeyComparisonFailed) \<and>
     (f' = f \<or> (\<exists>t'. P t' \<and> task_written f g j t' f')) \<and>
     (err = None \<longrightarrow> (\<exists>t'. P t' \<and> task_written f g j t' f')) \<and> (reliable \<longrightarrow> err = None)"

text \<open>The stored task is \<open>t\<close> claimed by \<open>e\<close>.\<close>

definition claimed_by :: "view \<Rightarrow> string \<Rightarrow> string \<Rightarrow> task \<Rightarrow> bool" where
  "claimed_by f g e t \<longleftrightarrow> (\<exists>t' i. task_entry f g t' i \<and> task_step (OpClaim g e) t t')"

lemma task_moved_mono:
  "task_moved f g j P r err f' \<Longrightarrow> (\<And>t. P t \<Longrightarrow> P' t) \<Longrightarrow> (r' \<Longrightarrow> r) \<Longrightarrow> task_moved f g j P' r' err f'"
  unfolding task_moved_def by blast

context cas_world
begin

lemma wp_cas_task:
  assumes "inv s" and "key_elem g" and "look s (task_path g) = Some (LeafE old j)" and "0 < idx" and "task_ok t"
  shows "wp (cas_task B idx g t) (\<lambda>err s'. inv s' \<and> slack s' \<le> slack s \<and>
    (if j = idx then task_moved (look s) g j ((=) t) (slack s = 0) err (look s')
     else look s' = look s \<and> err = Some ErrorKeyComparisonFailed)) s"
proof -
  obtain v where v: "Task_ToJSON t = Some v" "NewTaskFromJSON v = Ok t" using task_ToJSON [OF assms(5)] by blast
  have j: "j \<le> tick s" using tick_bound [OF assms(1,3)] by simp
  show ?thesis
    unfolding cas_task_def v(1) go_must_simps go_return_bind task_node_path [OF assms(2)]
    using retry_CAS_index [OF assms(1) clean_task_path [OF assms(2)] assms(3,4), of v 0]
  proof (rule wp_mono, goal_cases)
    case (1 err s')
    have "task_written (look s) g j t (look s')" if "\<exists>i > tick s. look s' = put_path (look s) (task_path g) v i"
      using that v(2) j by (auto simp: task_written_def intro: le_less_trans)
    then show ?case using 1 by (auto simp: task_moved_def)
  qed
qed

lemma wp_transition:
  assumes "inv s" and "key_elem g" and "task_entry (look s) g t j" and "\<And>u. int64_ok u \<Longrightarrow> task_ok (F u)"
  shows "wp (go_bind (bbs_clock B) (\<lambda>t. cas_task B j g (F (UnixNano t)))) (\<lambda>err s'. inv s' \<and> slack s' \<le> slack s \<and>
    task_moved (look s) g j (\<lambda>t'. \<exists>u. int64_ok u \<and> t' = F u) (slack s = 0) err (look s')) s"
  unfolding wp_bind
proof (rule wp_clock [OF assms(1)])
  fix t s1 assume s1: "inv s1" "look s1 = look s" "slack s1 \<le> slack s"
  obtain old where old: "look s (task_path g) = Some (LeafE old j)" using assms(3) by (auto simp: task_entry_def)
  have "0 < j" using tick_bound [OF assms(1) old] by simp
  then show "wp (cas_task B j g (F (UnixNano t))) (\<lambda>err s'. inv s' \<and> slack s' \<le> slack s \<and>
    task_moved (look s) g j (\<lambda>t'. \<exists>u. int64_ok u \<and> t' = F u) (slack s = 0) err (look s')) s1"
    using wp_cas_task [OF s1(1) assms(2) old [folded s1(2)] _ assms(4) [OF UnixNano_range [of t]], of j] s1
    by (auto elim!: wp_mono task_moved_mono) (use UnixNano_range in blast)
qed

text \<open>The four compare-and-swap operations: the guard, and the transition when it holds.\<close>

lemma wp_swap_op:
  assumes "inv s" and "key_elem g" and "task_entry (look s) g t j" and "task_ok t" and "op_ok op"
    and run: "run_task_op B op = go_bind (getTask B g) (\<lambda>(task, index, err).
      if err \<noteq> None then go_return (Some (E err))
      else if \<not> guard task then go_return (Some (G task))
      else go_bind (bbs_clock B) (\<lambda>t. cas_task B index g (F task (UnixNano t))))"
    and step: "\<And>u. guard t \<Longrightarrow> int64_ok u \<Longrightarrow> task_step op t (F t u)"
  shows "wp (run_task_op B op) (\<lambda>err s'. inv s' \<and> slack s' \<le> slack s \<and>
    (if guard t then task_moved (look s) g j (task_step op t) (slack s = 0) err (look s')
     else err = Some (G t) \<and> look s' = look s)) s"
  unfolding run wp_bind [of "getTask B g"]
proof (rule wp_getTask [OF assms(1-3)], goal_cases)
  case (1 s1)
  have ok: "guard t \<Longrightarrow> int64_ok u \<Longrightarrow> task_ok (F t u)" for u
    using step task_step_ok assms(4,5) by blast
  show ?case
  proof (cases "guard t")
    case True
    have "wp (go_bind (bbs_clock B) (\<lambda>ta. cas_task B j g (F t (UnixNano ta)))) (\<lambda>err s'. inv s' \<and> slack s' \<le> slack s \<and>
        task_moved (look s) g j (task_step op t) (slack s = 0) err (look s')) s1"
      using wp_transition [where F = "F t", OF 1(1) assms(2) assms(3) [folded 1(2)] ok [OF True]]
      by (rule wp_mono) (use 1(2,3) step [OF True] in \<open>auto elim!: task_moved_mono\<close>)
    then show ?thesis using True by simp
  qed (use 1 in simp)
qed

lemma run_swap_ops:
  "run_task_op B (OpClaim g e) = go_bind (getTask B g) (\<lambda>(task, index, err).
     if err \<noteq> None then go_return (Some (Errorf ''cannot claim non-existing task: %s'' [] err))
     else if \<not> task_State task = TaskStatePending
     then go_return (Some (Errorf ''cannot claim task in non-pending state'' [] None))
     else go_bind (bbs_clock B) (\<lambda>t. cas_task B index g
       (task\<lparr>task_UpdatedAt := UnixNano t, task_State := TaskStateClaimed, task_ExecutorID := e\<rparr>)))"
  "run_task_op B (OpStart g e h) = go_bind (getTask B g) (\<lambda>(task, index, err).
     if err \<noteq> None then go_return (Some (Errorf ''cannot start non-existing task: %s'' [] err))
     else if \<not> (task_State task = TaskStateClaimed \<and> task_ExecutorID task = e)
     then go_return (Some (if task_State task \<noteq> TaskStateClaimed
       then Errorf ''cannot start task in non-claimed state'' [] None
       else Errorf ''cannot start task claimed by another executor'' [] None))
     else go_bind (bbs_clock B) (\<lambda>t. cas_task B index g
       (task\<lparr>task_UpdatedAt := UnixNano t, task_State := TaskStateRunning, task_ContainerHandle := h\<rparr>)))"
  "run_task_op B (OpComplete g b r x) = go_bind (getTask B g) (\<lambda>(task, index, err).
     if err \<noteq> None then go_return (Some (Errorf ''cannot complete non-existing task: %s'' [] err))
     else if \<not> task_State task = TaskStateRunning
     then go_return (Some (Errorf ''cannot complete task in non-running state'' [] None))
     else go_bind (bbs_clock B) (\<lambda>t. cas_task B index g
       (task\<lparr>task_UpdatedAt := UnixNano t, task_State := TaskStateCompleted, task_Failed := b,
             task_FailureReason := r, task_Result := x\<rparr>)))"
  "run_task_op B (OpResolving g) = go_bind (getTask B g) (\<lambda>(task, index, err).
     if err \<noteq> None then go_return (Some (Errorf ''cannot start resolving non-existing task: %s'' [] err))
     else if \<not> task_State task = TaskStateCompleted
     then go_return (Some (Errorf ''cannot start resolving task in non-completed state'' [] None))
     else go_bind (bbs_clock B) (\<lambda>t. cas_task B index g
       (task\<lparr>task_UpdatedAt := UnixNano t, task_State := TaskStateResolving\<rparr>)))"
proof -
  have if_guard: "(if \<not> (P \<and> Q) then X (if \<not> P then a else b) else Y) = (if \<not> P then X a else if \<not> Q then X b else Y)"
    for P Q and a b :: 'x and X and Y :: 'y by simp
  show "run_task_op B (OpStart g e h) = go_bind (getTask B g) (\<lambda>(task, index, err).
     if err \<noteq> None then go_return (Some (Errorf ''cannot start non-existing task: %s'' [] err))
     else if \<not> (task_State task = TaskStateClaimed \<and> task_ExecutorID task = e)
     then go_return (Some (if task_State task \<noteq> TaskStateClaimed
       then Errorf ''cannot start task in non-claimed state'' [] None
       else Errorf ''cannot start task claimed by another executor'' [] None))
     else go_bind (bbs_clock B) (\<lambda>t. cas_task B index g
       (task\<lparr>task_UpdatedAt := UnixNano t, task_State := TaskStateRunning, task_ContainerHandle := h\<rparr>)))"
    unfolding run_task_op.simps StartTask_def
    by (rule arg_cong [where f = "go_bind _"]) (auto simp: fun_eq_iff)
qed (simp_all add: ClaimTask_def ClaimTask_read_def CompleteTask_def ResolvingTask_def)

lemma wp_ClaimTask:
  assumes "inv s" and "key_elem g" and "task_entry (look s) g t j" and "task_ok t" and "ascii e"
  shows "wp (ClaimTask B g e) (\<lambda>err s'. inv s' \<and> slack s' \<le> slack s \<and>
    (if task_State t = TaskStatePending
     then task_moved (look s) g j (task_step (OpClaim g e) t) (slack s = 0) err (look s')
     else err = Some (Errorf ''cannot claim task in non-pending state'' [] None) \<and> look s' = look s)) s"
  using wp_swap_op [OF assms(1-4) _ run_swap_ops(1), of e] step_claim [of t _ g e] assms(5) by simp

lemma wp_StartTask:
  assumes "inv s" and "key_elem g" and "task_entry (look s) g t j" and "task_ok t" and "ascii h"
  shows "wp (StartTask B g e h) (\<lambda>err s'. inv s' \<and> slack s' \<le> slack s \<and>
    (if task_State t = TaskStateClaimed \<and> task_ExecutorID t = e
     then task_moved (look s) g j (task_step (OpStart g e h) t) (slack s = 0) err (look s')
     else err = Some (if task_State t \<noteq> TaskStateClaimed
        then Errorf ''cannot start task in non-claimed state'' [] None
        else Errorf ''cannot start task claimed by another executor'' [] None) \<and> look s' = look s)) s"
  using wp_swap_op [OF assms(1-4) _ run_swap_ops(2)] step_start [of t e] assms(5) by simp

lemma wp_CompleteTask:
  assumes "inv s" and "key_elem g" and "task_entry (look s) g t j" and "task_ok t" and "ascii r" and "ascii x"
  shows "wp (CompleteTask B g b r x) (\<lambda>err s'. inv s' \<and> slack s' \<le> slack s \<and>
    (if task_State t = TaskStateRunning
     then task_moved (look s) g j (task_step (OpComplete g b r x) t) (slack s = 0) err (look s')
     else err = Some (Errorf ''cannot complete task in non-running state'' [] None) \<and> look s' = look s)) s"
  using wp_swap_op [OF assms(1-4) _ run_swap_ops(3) [where b = b and r = r and x = x]] step_complete [of t] assms(5,6) by simp

lemma wp_ResolvingTask:
  assumes "inv s" and "key_elem g" and "task_entry (look s) g t j" and "task_ok t"
  shows "wp (ResolvingTask B g) (\<lambda>err s'. inv s' \<and> slack s' \<le> slack s \<and>
    (if task_State t = TaskStateCompleted
     then task_moved (look s) g j (task_step (OpResolving g) t) (slack s = 0) err (look s')
     else err = Some (Errorf ''cannot start resolving task in non-completed state'' [] None) \<and> look s' = look s)) s"
  using wp_swap_op [OF assms(1-4) _ run_swap_ops(4)] step_resolving [of t _ g] by simp

lemma wp_ResolveTask:
  assumes "inv s" and "key_elem g" and "task_entry (look s) g t j"
  shows "wp (ResolveTask B g) (\<lambda>err s'. inv s' \<and> slack s' \<le> slack s \<and>
    (if task_State t = TaskStateResolving
     then (err = None \<or> err = Some ErrorKeyNotFound) \<and> look s' = del_path (look s) (task_path g) \<and> (slack s = 0 \<longrightarrow> err = None)
     else err = Some (Errorf ''cannot resolve task in non-resolving state'' [] None) \<and> look s' = look s)) s"
  unfolding ResolveTask_def wp_bind [of "getTask B g"]
proof (rule wp_getTask [OF assms], goal_cases)
  case (1 s1)
  have some: "look s1 (task_path g) \<noteq> None" using assms(3) 1(2) by (auto simp: task_entry_def)
  show ?case
  proof (cases "task_State t = TaskStateResolving")
    case True
    have "wp (Retry (sa_Delete (bbs_store B) [TaskSchemaPath g])) (\<lambda>err s'. inv s' \<and> slack s' \<le> slack s \<and>
        (err = None \<or> err = Some ErrorKeyNotFound) \<and> look s' = del_path (look s) (task_path g) \<and> (slack s = 0 \<longrightarrow> err = None)) s1"
      unfolding schema_paths(9) [OF assms(2)]
      by (rule wp_mono [OF retry_Delete [OF 1(1) clean_task_path [OF assms(2)] look_above [OF 1(1) some]]])
        (use some 1 in auto)
    then show ?thesis using True by simp
  qed (use 1 in simp)
qed

text \<open>An operation on a task that is not there fails and writes nothing.\<close>

lemma wp_missing:
  assumes "inv s" and "key_elem g" and "look s (task_path g) = None \<or> look s (task_path g) = Some DirE"
    and "op_guid op = g" and "\<And>t. op \<noteq> OpDesire t"
  shows "wp (run_task_op B op) (\<lambda>err s'. inv s' \<and> slack s' \<le> slack s \<and> err \<noteq> None \<and> look s' = look s) s"
proof (cases op)
  case (OpResolve g')
  then show ?thesis using assms
    by (auto simp del: wp_bind simp: ResolveTask_def wp_bind [of "getTask B _"] intro!: wp_getTask_missing)
qed (use assms in \<open>auto simp del: wp_bind run_task_op.simps simp: run_swap_ops wp_bind [of "getTask B _"]
  intro!: wp_getTask_missing\<close>)

text \<open>A compare-and-swap on an index that is no longer current.\<close>

lemma wp_stale:
  assumes "inv s" and "key_elem g" and "look s (task_path g) = Some (LeafE old i)" and "i \<noteq> j" and "0 < j"
    and "\<And>u. int64_ok u \<Longrightarrow> task_ok (F u)"
  shows "wp (go_bind (bbs_clock B) (\<lambda>t. cas_task B j g (F (UnixNano t)))) (\<lambda>err s'. inv s' \<and>
    look s' = look s \<and> err = Some ErrorKeyComparisonFailed) s"
  unfolding wp_bind
proof (rule wp_clock [OF assms(1)])
  fix t s1 assume s1: "inv s1" "look s1 = look s" "slack s1 \<le> slack s"
  show "wp (cas_task B j g (F (UnixNano t))) (\<lambda>err s'. inv s' \<and> look s' = look s \<and> err = Some ErrorKeyComparisonFailed) s1"
    using wp_cas_task [OF s1(1) assms(2) assms(3) [folded s1(2)] assms(5) assms(6) [OF UnixNano_range [of t]]] s1 assms(4)
    by (auto elim!: wp_mono)
qed

text \<open>Two executors that both read the task while it was pending: at most one of them claims it.\<close>

lemma wp_claim_race:
  assumes "inv s" and "key_elem g" and "task_entry (look s) g t j" and "task_ok t" and "task_State t = TaskStatePending"
    and "ascii eA" and "ascii eB"
  shows "wp (go_bind (getTask B g) (\<lambda>rA. go_bind (getTask B g) (\<lambda>rB.
      go_bind (ClaimTask_read B g eA rA) (\<lambda>xA. go_bind (ClaimTask_read B g eB rB) (\<lambda>xB. go_return (xA, xB))))))
    (\<lambda>(xA, xB) s'. inv s' \<and> (xA \<noteq> None \<or> xB \<noteq> None) \<and>
       (xA = None \<longrightarrow> claimed_by (look s') g eA t) \<and>
       (xB = None \<longrightarrow> claimed_by (look s') g eB t) \<and>
       (slack s = 0 \<longrightarrow> xA = None \<and> xB = Some ErrorKeyComparisonFailed)) s"
proof -
  define F where "F e u = t\<lparr>task_UpdatedAt := u, task_State := TaskStateClaimed, task_ExecutorID := e\<rparr>" for e u
  have claim: "ClaimTask_read B g e (t, j, None) = go_bind (bbs_clock B) (\<lambda>ta. cas_task B j g (F e (UnixNano ta)))" for e
    using assms(5) by (simp add: ClaimTask_read_def F_def)
  have step: "task_step (OpClaim g e) t (F e u)" if "int64_ok u" for e u
    unfolding F_def by (rule step_claim [OF assms(5) that])
  have ok: "task_ok (F e u)" if "int64_ok u" "ascii e" for e u
    using task_step_ok [OF step [OF that(1)] assms(4)] that(2) by simp
  obtain old where old: "look s (task_path g) = Some (LeafE old j)" using assms(3) by (auto simp: task_entry_def)
  have j: "0 < j" using tick_bound [OF assms(1) old] by simp
  have second: "wp (ClaimTask_read B g eB (t, j, None)) (\<lambda>xB s'. inv s' \<and> (xA \<noteq> None \<or> xB \<noteq> None) \<and>
       (xA = None \<longrightarrow> claimed_by (look s') g eA t) \<and>
       (xB = None \<longrightarrow> claimed_by (look s') g eB t) \<and>
       (slack s = 0 \<longrightarrow> xA = None \<and> xB = Some ErrorKeyComparisonFailed)) s3"
    if s3: "inv s3" "slack s3 \<le> slack s" "task_moved (look s) g j (task_step (OpClaim g eA) t) (slack s = 0) xA (look s3)"
    for xA s3
  proof (cases "\<exists>t'. task_step (OpClaim g eA) t t' \<and> task_written (look s) g j t' (look s3)")
    case True
    then obtain t' v i where t': "task_step (OpClaim g eA) t t'" "NewTaskFromJSON v = Ok t'" "i > j"
      "look s3 (task_path g) = Some (LeafE v i)" by (auto simp: task_written_def)
    have "claimed_by (look s3) g eA t" using t' by (auto simp: task_entry_def claimed_by_def)
    moreover have "slack s = 0 \<longrightarrow> xA = None" using s3(3) by (simp add: task_moved_def)
    moreover have "wp (ClaimTask_read B g eB (t, j, None))
        (\<lambda>err s'. inv s' \<and> look s' = look s3 \<and> err = Some ErrorKeyComparisonFailed) s3"
      unfolding claim by (rule wp_stale [OF s3(1) assms(2) t'(4) _ j ok [OF _ assms(7)]]) (use t'(3) in auto)
    ultimately show ?thesis by (auto elim!: wp_mono)
  next
    case False
    then have same: "look s3 = look s" "xA \<noteq> None" "slack s \<noteq> 0" using s3(3) by (auto simp: task_moved_def)
    show ?thesis
      unfolding claim
      using wp_transition [where F = "F eB", OF s3(1) assms(2) assms(3) [folded same(1)] ok [OF _ assms(7)]]
      by (rule wp_mono) (use same step in \<open>auto simp: task_moved_def claimed_by_def dest!: task_written_entry\<close>)
  qed
  show ?thesis
    unfolding wp_bind [of "getTask B g"]
  proof (rule wp_getTask [OF assms(1-3)], goal_cases)
    case (1 s1)
    note s1 = 1
    show ?case
    proof (rule wp_getTask [OF s1(1) assms(2) assms(3) [folded s1(2)]], goal_cases)
      case (1 s2)
      have s2: "look s2 = look s" "slack s2 \<le> slack s" using 1 s1 by simp_all
      have "wp (ClaimTask_read B g eA (t, j, None)) (\<lambda>xA s'. inv s' \<and> slack s' \<le> slack s \<and>
          task_moved (look s) g j (task_step (OpClaim g eA) t) (slack s = 0) xA (look s')) s2"
        unfolding claim
        using wp_transition [where F = "F eA", OF 1(1) assms(2) assms(3) [folded s2(1)] ok [OF _ assms(6)]]
        by (rule wp_mono) (use s2 step in \<open>auto elim!: task_moved_mono\<close>)
      then show ?case unfolding wp_bind by (rule wp_mono) (auto dest!: second)
    qed
  qed
qed

end

section \<open>The life cycle as a whole\<close>

text \<open>
  What one operation may do to the tasks of the store: nothing to any task but its own; to its own,
  either nothing, or the transition of that operation under a larger index, or its removal when it
  is resolved; and only \<open>DesireTask\<close> makes a task appear.
\<close>

definition lifecycle_post :: "task_op \<Rightarrow> view \<Rightarrow> view \<Rightarrow> bool" where
  "lifecycle_post op f f' \<longleftrightarrow> (let g = op_guid op; p = task_path g in
     tasks_ok f' \<and> (\<forall>g'. g' \<noteq> g \<longrightarrow> f' (task_path g') = f (task_path g')) \<and>
     (f' p = f p \<or>
      (\<exists>t i t' i'. task_entry f g t i \<and> task_entry f' g t' i' \<and> i < i' \<and> task_step op t t') \<or>
      (\<exists>t i. task_entry f g t i \<and> op = OpResolve g \<and> task_State t = TaskStateResolving \<and> f' p = None) \<or>
      (\<exists>t t' i'. f p = None \<and> op = OpDesire t \<and> desired_from t t' \<and> task_entry f' g t' i')))"

lemma lifecycle_same: "tasks_ok f \<Longrightarrow> lifecycle_post op f f"
  by (simp add: lifecycle_post_def)

lemma tasks_ok_put:
  assumes "tasks_ok f" and "NewTaskFromJSON v = Ok t" and "task_ok t"
  shows "tasks_ok (put_path f (task_path g) v i)"
  using assms by (auto simp: tasks_ok_def put_path_def)

lemma lifecycle_moved:
  assumes "task_moved f g j (task_step op t) r err f'" and "task_entry f g t j" and "tasks_ok f" and "task_ok t"
    and "op_ok op" and "op_guid op = g"
  shows "lifecycle_post op f f'"
proof (cases "f' = f")
  case False
  then obtain t' v i where t': "task_step op t t'" "NewTaskFromJSON v = Ok t'" "j < i" "f' = put_path f (task_path g) v i"
    using assms(1) by (auto simp: task_moved_def task_written_def)
  then have "task_entry f' g t' i" "tasks_ok f'"
    using task_step_ok [OF t'(1) assms(4,5)] assms(3) by (auto simp: task_entry_def intro: tasks_ok_put)
  moreover have "f' (task_path g') = f (task_path g')" if "g' \<noteq> g" for g' using that t'(4) by (simp add: put_path_def)
  ultimately show ?thesis using t' assms(2,6) unfolding lifecycle_post_def Let_def by blast
qed (use assms lifecycle_same in simp)

lemma lifecycle_removed:
  assumes "task_entry f g t j" and "tasks_ok f" and "task_State t = TaskStateResolving"
  shows "lifecycle_post (OpResolve g) f (del_path f (task_path g))"
proof -
  have "del_path f (task_path g) (task_path g') = (if g' = g then None else f (task_path g'))" for g'
    by (simp add: del_path_def prefix_def)
  then show ?thesis using assms by (auto simp: lifecycle_post_def Let_def tasks_ok_def)
qed

lemma lifecycle_created:
  assumes "creatable f (task_path (task_Guid t))" and "desired_from t y" and "task_put f (task_Guid t) y f'"
    and "tasks_ok f" and "task_ok t"
  shows "lifecycle_post (OpDesire t) f f'"
proof -
  obtain v i where v: "NewTaskFromJSON v = Ok y" "f' = put_path f (task_path (task_Guid t)) v i"
    using assms(3) by (auto simp: task_put_def)
  then have "task_entry f' (task_Guid t) y i" "tasks_ok f'"
    using desired_from_ok [OF assms(5,2)] assms(4) by (auto simp: task_entry_def intro: tasks_ok_put)
  moreover have "f' (task_path g') = f (task_path g')" if "g' \<noteq> task_Guid t" for g'
    using that v(2) by (simp add: put_path_def)
  moreover have "f (task_path (task_Guid t)) = None" using assms(1) by (simp add: creatable_def)
  ultimately show ?thesis using assms(2) unfolding lifecycle_post_def Let_def op_guid.simps by blast
qed

context cas_world
begin

lemma wp_task_op:
  assumes "inv s" and g: "key_elem (op_guid op)" and ok: "op_ok op" and tok: "tasks_ok (look s)"
  shows "wp (run_task_op B op) (\<lambda>err s'. inv s' \<and> lifecycle_post op (look s) (look s')) s"
proof (cases "\<exists>t. op = OpDesire t")
  case True
  then obtain t where t: "op = OpDesire t" ..
  show ?thesis
    unfolding t run_task_op.simps
    by (rule wp_mono [OF wp_DesireTask [OF assms(1)]])
      (use t g ok tok in \<open>auto simp: Let_def lifecycle_same intro: lifecycle_created\<close>)
next
  case False
  show ?thesis
  proof (cases "look s (task_path (op_guid op)) = None \<or> look s (task_path (op_guid op)) = Some DirE")
    case True
    show ?thesis
      by (rule wp_mono [OF wp_missing [OF assms(1) g True refl]]) (use False tok in \<open>auto intro: lifecycle_same\<close>)
  next
    case there: False
    then obtain v j where v: "look s (task_path (op_guid op)) = Some (LeafE v j)"
      by (metis entry.exhaust option.exhaust)
    then obtain t where t: "task_entry (look s) (op_guid op) t j" "task_ok t"
      using tok by (auto simp: tasks_ok_def task_entry_def)
    note moved = lifecycle_moved [OF _ t(1) tok t(2) ok refl] and same = lifecycle_same [OF tok]
    show ?thesis
    proof (cases op)
      case (OpClaim g' e)
      show ?thesis unfolding OpClaim run_task_op.simps
        by (rule wp_mono [OF wp_ClaimTask [OF assms(1) _ _ t(2)]])
          (use OpClaim g t ok moved same in \<open>auto split: if_splits\<close>)
    next
      case (OpStart g' e h)
      show ?thesis unfolding OpStart run_task_op.simps
        by (rule wp_mono [OF wp_StartTask [OF assms(1) _ _ t(2)]])
          (use OpStart g t ok moved same in \<open>auto split: if_splits\<close>)
    next
      case (OpComplete g' b r x)
      show ?thesis unfolding OpComplete run_task_op.simps
        by (rule wp_mono [OF wp_CompleteTask [OF assms(1) _ _ t(2)]])
          (use OpComplete g t ok moved same in \<open>auto split: if_splits\<close>)
    next
      case (OpResolving g')
      show ?thesis unfolding OpResolving run_task_op.simps
        by (rule wp_mono [OF wp_ResolvingTask [OF assms(1) _ _ t(2)]])
          (use OpResolving g t ok moved same in \<open>auto split: if_splits\<close>)
    next
      case (OpResolve g')
      show ?thesis unfolding OpResolve run_task_op.simps
        by (rule wp_mono [OF wp_ResolveTask [OF assms(1)]])
          (use OpResolve g t tok same in \<open>auto split: if_splits intro: lifecycle_removed\<close>)
    qed (use False in blast)
  qed
qed

end

end
