(* ===== verification/TaskConvergence.thy ===== *)
theory TaskConvergence
  imports TaskProofs
begin

text \<open>
  What \<open>ConvergeTask\<close> does in a world whose clock stands at \<open>t0\<close> and whose store answers: every task
  entry ends up exactly as the specification \<open>converge_spec\<close> says, whatever the order in which the
  goroutines of the batch are served.
\<close>

section \<open>Specification\<close>

text \<open>
  The value a task is replaced by, or \<open>None\<close> when it is left as it is: \<open>ttc\<close> is the time a task may
  stay pending, \<open>ci\<close> the convergence interval, \<open>al\<close> the executors that maintain their presence.
\<close>

definition converge_spec :: "gotime \<Rightarrow> duration \<Rightarrow> duration \<Rightarrow> (string \<Rightarrow> bool) \<Rightarrow> task \<Rightarrow> task option" where
  "converge_spec t0 ttc ci al t =
     (let kick = time_Sub t0 (task_UpdatedAt t) \<ge> ci;
          dead = markTaskFailed t ''executor disappeared before completion''
      in if task_State t = TaskStatePending then
           (if time_Sub t0 (task_CreatedAt t) \<ge> ttc then Some (markTaskFailed t ''not claimed within time limit'')
            else if kick then Some t else None)
         else if task_State t = TaskStateClaimed then
           (if \<not> al (task_ExecutorID t) then Some dead else if kick then Some (demoteToPending t) else None)
         else if task_State t = TaskStateRunning then
           (if \<not> al (task_ExecutorID t) then Some dead else None)
         else if task_State t = TaskStateCompleted then (if kick then Some t else None)
         else if task_State t = TaskStateResolving then (if kick then Some (demoteToCompleted t) else None)
         else None)"

lemma converged_task_ok:
  assumes "task_ok t" and "int64_ok u"
  shows "ascii r \<Longrightarrow> task_ok ((markTaskFailed t r)\<lparr>task_UpdatedAt := u\<rparr>)"
    and "task_ok ((demoteToPending t)\<lparr>task_UpdatedAt := u\<rparr>)"
    and "task_ok ((demoteToCompleted t)\<lparr>task_UpdatedAt := u\<rparr>)"
    and "task_ok (t\<lparr>task_UpdatedAt := u\<rparr>)"
  using assms by (simp_all add: task_ok_def markTaskFailed_def demoteToPending_def demoteToCompleted_def int64_ok_def)

lemma converge_spec_cases:
  assumes "converge_spec t0 ttc ci al t = Some t'"
  shows "t' = markTaskFailed t ''not claimed within time limit'' \<or>
    t' = markTaskFailed t ''executor disappeared before completion'' \<or> t' = t \<or> t' = demoteToPending t \<or>
    t' = demoteToCompleted t"
  using assms by (auto simp: converge_spec_def Let_def split: if_splits)

lemma converge_spec_ok:
  assumes "converge_spec t0 ttc ci al t = Some t'" and "task_ok t" and "int64_ok u"
  shows "task_ok (t'\<lparr>task_UpdatedAt := u\<rparr>) \<and> task_Guid t' = task_Guid t"
proof -
  have "ascii ''not claimed within time limit''" "ascii ''executor disappeared before completion''"
    by (simp_all add: ascii_def)
  then have "task_ok (t'\<lparr>task_UpdatedAt := u\<rparr>)"
    using converge_spec_cases [OF assms(1)] converged_task_ok [OF assms(2,3)] by (elim disjE) simp_all
  moreover have "task_Guid t' = task_Guid t"
    using converge_spec_cases [OF assms(1)]
    by (elim disjE) (simp_all add: markTaskFailed_def demoteToPending_def demoteToCompleted_def)
  ultimately show ?thesis ..
qed

text \<open>The entry a task is left with.\<close>

definition converged :: "gotime \<Rightarrow> duration \<Rightarrow> duration \<Rightarrow> (string \<Rightarrow> bool) \<Rightarrow> view \<Rightarrow> view \<Rightarrow> string \<Rightarrow> bool" where
  "converged t0 ttc ci al f f' g \<longleftrightarrow>
     (case f (task_path g) of
        None \<Rightarrow> f' (task_path g) = None
      | Some DirE \<Rightarrow> f' (task_path g) = None
      | Some (LeafE v i) \<Rightarrow>
          (case NewTaskFromJSON v of
             Ok t \<Rightarrow>
               (case converge_spec t0 ttc ci al t of
                  None \<Rightarrow> f' (task_path g) = f (task_path g)
                | Some t' \<Rightarrow> \<exists>i' > i. task_entry f' g (t'\<lparr>task_UpdatedAt := t0\<rparr>) i')
           | _ \<Rightarrow> f' (task_path g) = None))"

section \<open>The loop\<close>

abbreviation parse :: "store_node \<Rightarrow> task outcome" where "parse n \<equiv> NewTaskFromJSON (sn_Value n)"

definition conv_keys :: "store_node list \<Rightarrow> string list" where
  "conv_keys nodes = map sn_Key (filter (\<lambda>n. \<exists>e. parse n = Err e) nodes)"

definition conv_cas :: "(task \<Rightarrow> task option) \<Rightarrow> store_node list \<Rightarrow> compareAndSwappableTask list" where
  "conv_cas spec nodes = List.map_filter (\<lambda>n. case parse n of
     Ok t \<Rightarrow> map_option (\<lambda>t'. \<lparr>ct_OldIndex = sn_Index n, ct_NewTask = t'\<rparr>) (spec t) | _ \<Rightarrow> None) nodes"

lemma conv_simps [simp]:
  "conv_keys [] = []" "conv_keys (n # ns) = (case parse n of Err e \<Rightarrow> sn_Key n # conv_keys ns | _ \<Rightarrow> conv_keys ns)"
  "conv_cas spec [] = []"
  "conv_cas spec (n # ns) = (case parse n of
     Ok t \<Rightarrow> (case spec t of None \<Rightarrow> conv_cas spec ns
       | Some t' \<Rightarrow> \<lparr>ct_OldIndex = sn_Index n, ct_NewTask = t'\<rparr> # conv_cas spec ns)
   | _ \<Rightarrow> conv_cas spec ns)"
  by (simp_all add: conv_keys_def conv_cas_def List.map_filter_simps split: outcome.splits option.splits)

text \<open>The node a swap writes.\<close>

definition swap_of :: "gotime \<Rightarrow> compareAndSwappableTask \<Rightarrow> nat \<times> store_node" where
  "swap_of t0 ct = (let t = (ct_NewTask ct)\<lparr>task_UpdatedAt := t0\<rparr>
     in (ct_OldIndex ct, task_node (task_Guid t) (the (Task_ToJSON t))))"

subsection \<open>The nodes of the listing\<close>

text \<open>What the loop relies on: directories at the roots, and entries whose task carries its own key.\<close>

definition conv_ok :: "view \<Rightarrow> bool" where
  "conv_ok f \<longleftrightarrow> f (v1 ''task'') = Some DirE \<and> (f (v1 ''executor'') = Some DirE \<or> f (v1 ''executor'') = None) \<and>
     (\<forall>g v i. f (task_path g) = Some (LeafE v i) \<longrightarrow> NewTaskFromJSON v \<noteq> Panic \<and>
        (\<forall>t. NewTaskFromJSON v = Ok t \<longrightarrow> task_ok t \<and> task_Guid t = g \<and>
           (task_ExecutorID t = [] \<or> key_elem (task_ExecutorID t))))"

definition listed :: "view \<Rightarrow> string \<Rightarrow> store_node \<Rightarrow> bool" where
  "listed f g n \<longleftrightarrow> key_elem g \<and> sn_Key n = abs_path (task_path g) \<and>
     (case f (task_path g) of
        None \<Rightarrow> False
      | Some DirE \<Rightarrow> sn_Value n = []
      | Some (LeafE v i) \<Rightarrow> sn_Value n = v \<and> sn_Index n = i)"

lemma parse_empty: "NewTaskFromJSON [] = Err JSONSyntaxError"
  by code_simp

lemma converge_spec_cong:
  "a (task_ExecutorID t) = b (task_ExecutorID t) \<Longrightarrow> converge_spec t0 ttc ci a t = converge_spec t0 ttc ci b t"
  by (simp add: converge_spec_def Let_def)

lemma conv_cas_mem:
  "ct \<in> set (conv_cas spec nodes) \<longleftrightarrow>
     (\<exists>n \<in> set nodes. \<exists>t t'. parse n = Ok t \<and> spec t = Some t' \<and> ct = \<lparr>ct_OldIndex = sn_Index n, ct_NewTask = t'\<rparr>)"
  by (induction nodes) (auto split: outcome.splits option.splits)

lemma conv_keys_mem: "k \<in> set (conv_keys nodes) \<longleftrightarrow> (\<exists>n \<in> set nodes. (\<exists>e. parse n = Err e) \<and> k = sn_Key n)"
  by (auto simp: conv_keys_def)

text \<open>Each swap writes the key of the node it comes from.\<close>

lemma swap_of_node:
  assumes "conv_ok f" and "listed f g n" and "parse n = Ok t" and "converge_spec t0 ttc ci al t = Some t'" and "int64_ok t0"
  shows "\<exists>v. f (task_path g) = Some (LeafE (sn_Value n) (sn_Index n)) \<and>
    swap_of t0 \<lparr>ct_OldIndex = sn_Index n, ct_NewTask = t'\<rparr> = (sn_Index n, leaf_node (abs_path (task_path g)) v 0) \<and>
    NewTaskFromJSON v = Ok (t'\<lparr>task_UpdatedAt := t0\<rparr>) \<and> task_ok (t'\<lparr>task_UpdatedAt := t0\<rparr>)"
proof -
  have leaf: "f (task_path g) = Some (LeafE (sn_Value n) (sn_Index n))"
    using assms(2,3) parse_empty by (auto simp: listed_def split: option.splits entry.splits)
  then have t: "task_ok t" "task_Guid t = g" using assms(1,3) by (auto simp: conv_ok_def)
  have t': "task_ok (t'\<lparr>task_UpdatedAt := t0\<rparr>)" "task_Guid t' = g"
    using converge_spec_ok [OF assms(4) t(1) assms(5)] t(2) by simp_all
  obtain v where "Task_ToJSON (t'\<lparr>task_UpdatedAt := t0\<rparr>) = Some v" "NewTaskFromJSON v = Ok (t'\<lparr>task_UpdatedAt := t0\<rparr>)"
    using task_ToJSON [OF t'(1)] by blast
  then show ?thesis
    using leaf t' assms(2) by (auto simp: swap_of_def task_node_path listed_def)
qed

lemma swaps_distinct:
  assumes "conv_ok f" and "\<forall>n \<in> set nodes. \<exists>g. listed f g n" and "int64_ok t0" and "distinct (map sn_Key nodes)"
  shows "distinct (map (\<lambda>(j, n). sn_Key n) (map (swap_of t0) (conv_cas (converge_spec t0 ttc ci al) nodes))) \<and>
    set (map (\<lambda>(j, n). sn_Key n) (map (swap_of t0) (conv_cas (converge_spec t0 ttc ci al) nodes))) \<subseteq> sn_Key ` set nodes"
  using assms(2,4)
proof (induction nodes)
  case (Cons n ns)
  have IH: "distinct (map (\<lambda>(j, n). sn_Key n) (map (swap_of t0) (conv_cas (converge_spec t0 ttc ci al) ns))) \<and>
    set (map (\<lambda>(j, n). sn_Key n) (map (swap_of t0) (conv_cas (converge_spec t0 ttc ci al) ns))) \<subseteq> sn_Key ` set ns"
    using Cons.IH Cons.prems by simp
  have new: "sn_Key n \<notin> sn_Key ` set ns" using Cons.prems by simp
  show ?case
  proof (cases "\<exists>t t'. parse n = Ok t \<and> converge_spec t0 ttc ci al t = Some t'")
    case True
    then obtain t t' g where t: "parse n = Ok t" "converge_spec t0 ttc ci al t = Some t'" "listed f g n"
      using Cons.prems by auto
    have "sn_Key (snd (swap_of t0 \<lparr>ct_OldIndex = sn_Index n, ct_NewTask = t'\<rparr>)) = sn_Key n"
      using swap_of_node [OF assms(1) t(3,1,2) assms(3)] t(3) by (auto simp: listed_def)
    then show ?thesis using IH new t by (auto simp: split_beta comp_def)
  next
    case False
    then have "conv_cas (converge_spec t0 ttc ci al) (n # ns) = conv_cas (converge_spec t0 ttc ci al) ns"
      by (auto split: outcome.splits option.splits)
    then show ?thesis using IH by auto
  qed
qed simp

lemma swaps_ok:
  assumes "conv_ok f" and "\<forall>n \<in> set nodes. \<exists>g. listed f g n" and "int64_ok t0"
    and "z \<in> set (map (swap_of t0) (conv_cas (converge_spec t0 ttc ci al) nodes))"
  shows "swap_ok f z"
proof -
  obtain n t t' where n: "n \<in> set nodes" "parse n = Ok t" "converge_spec t0 ttc ci al t = Some t'"
    "z = swap_of t0 \<lparr>ct_OldIndex = sn_Index n, ct_NewTask = t'\<rparr>"
    using assms(4) by (auto simp: conv_cas_mem)
  then obtain g where g: "listed f g n" using assms(2) by blast
  have "clean (task_path g)" using g by (simp add: listed_def)
  then show ?thesis
    using swap_of_node [OF assms(1) g n(2,3) assms(3)] n(4) unfolding swap_ok_def by fastforce
qed

text \<open>The node that lists a task, by its key.\<close>

lemma listed_key:
  assumes "\<forall>n \<in> set nodes. \<exists>g. listed f g n" and "n \<in> set nodes" and "sn_Key n = abs_path (task_path h)" and "key_elem h"
  shows "listed f h n"
proof -
  obtain h' where h': "listed f h' n" using assms(1,2) by blast
  then have "abs_path (task_path h') = abs_path (task_path h)" "clean (task_path h')"
    using assms(3) by (simp_all add: listed_def)
  with h' show ?thesis using abs_path_eq assms(4) by fastforce
qed

lemma listed_same:
  assumes "\<forall>n \<in> set nodes. \<exists>g. listed f g n" and "n' \<in> set nodes" and "listed f g n" and "sn_Key n' = sn_Key n"
  shows "sn_Value n' = sn_Value n"
proof -
  have "sn_Key n' = abs_path (task_path g)" "key_elem g" using assms(3,4) by (auto simp: listed_def)
  then have "listed f g n'" using listed_key [OF assms(1,2)] by simp
  with assms(3) show ?thesis by (auto simp: listed_def split: option.splits entry.splits)
qed

text \<open>Every swap has the key of a node whose task the pass changes.\<close>

lemma swap_key:
  assumes "conv_ok f" and "\<forall>n \<in> set nodes. \<exists>g. listed f g n" and "int64_ok t0"
    and "(j, n) \<in> set (map (swap_of t0) (conv_cas (converge_spec t0 ttc ci al) nodes))"
  shows "\<exists>n' \<in> set nodes. sn_Key n' = sn_Key n \<and> (\<exists>t t'. parse n' = Ok t \<and> converge_spec t0 ttc ci al t = Some t')"
proof -
  obtain n' t t' where n': "n' \<in> set nodes" "parse n' = Ok t" "converge_spec t0 ttc ci al t = Some t'"
    "(j, n) = swap_of t0 \<lparr>ct_OldIndex = sn_Index n', ct_NewTask = t'\<rparr>"
    using assms(4) by (auto simp: conv_cas_mem)
  then obtain g' where "listed f g' n'" using assms(2) by blast
  then have "sn_Key n = sn_Key n'"
    using swap_of_node [OF assms(1) _ n'(2,3) assms(3)] n'(4) by (fastforce simp: listed_def)
  then show ?thesis using n' by auto
qed

text \<open>What is deleted: the keys of the entries that do not parse, and nothing above another task.\<close>

lemma deleted_iff:
  assumes nodes: "\<forall>n \<in> set nodes. \<exists>g. listed f g n" and ess: "map abs_path ess = conv_keys nodes" "\<forall>es \<in> set ess. clean es"
    and n: "n \<in> set nodes" "listed f g n"
  shows "task_path g \<in> set ess \<longleftrightarrow> (\<exists>e. parse n = Err e)"
proof -
  have "task_path g \<in> set ess \<longleftrightarrow> abs_path (task_path g) \<in> abs_path ` set ess"
    using ess(2) n(2) abs_path_eq by (auto simp: listed_def)
  also have "abs_path ` set ess = set (conv_keys nodes)" using ess(1) by (metis list.set_map)
  also have "abs_path (task_path g) \<in> set (conv_keys nodes) \<longleftrightarrow> (\<exists>e. parse n = Err e)"
  proof
    assume "abs_path (task_path g) \<in> set (conv_keys nodes)"
    then obtain n' e where n': "n' \<in> set nodes" "parse n' = Err e" "sn_Key n' = abs_path (task_path g)"
      by (auto simp: conv_keys_mem)
    then have "sn_Value n' = sn_Value n" using listed_same [OF nodes n'(1) n(2)] n(2) by (simp add: listed_def)
    with n'(2) show "\<exists>e. parse n = Err e" by auto
  next
    assume "\<exists>e. parse n = Err e"
    moreover have "sn_Key n = abs_path (task_path g)" using n(2) by (simp add: listed_def)
    ultimately show "abs_path (task_path g) \<in> set (conv_keys nodes)" using n(1) unfolding conv_keys_mem by metis
  qed
  finally show ?thesis .
qed

lemma deleted_only:
  assumes nodes: "\<forall>n \<in> set nodes. \<exists>g. listed f g n" and ess: "map abs_path ess = conv_keys nodes" "\<forall>es \<in> set ess. clean es"
  shows "del_paths f1 ess (task_path g) = (if task_path g \<in> set ess then None else f1 (task_path g))"
proof -
  have "es = task_path g" if es: "es \<in> set ess" "prefix es (task_path g)" for es
  proof -
    have "abs_path es \<in> set (conv_keys nodes)" using es(1) ess(1) by (metis image_eqI list.set_map)
    then obtain n where n: "n \<in> set nodes" "sn_Key n = abs_path es" by (auto simp: conv_keys_mem)
    then obtain h where "listed f h n" using nodes by blast
    then have "es = task_path h" using n es(1) ess(2) abs_path_eq [of es "task_path h"] by (simp add: listed_def)
    then show ?thesis using es(2) by simp
  qed
  then show ?thesis by (auto simp: del_paths_def)
qed

lemma swapped_other:
  assumes "swapped f t b zs f1" and "\<And>j n. (j, n) \<in> set zs \<Longrightarrow> clean p \<Longrightarrow> sn_Key n \<noteq> abs_path p"
  shows "f1 p = f p"
  using assms unfolding swapped_def by blast

text \<open>The entry of a listed task after the swaps.\<close>

lemma swapped_listed:
  assumes ok: "conv_ok f" and nodes: "\<forall>n \<in> set nodes. \<exists>g. listed f g n" and t0: "int64_ok t0"
    and sw: "swapped f t True zs f1" and zs: "set zs = set (map (swap_of t0) (conv_cas (converge_spec t0 ttc ci al) nodes))"
    and n: "n \<in> set nodes" "listed f g n" "parse n = Ok x"
  shows "case converge_spec t0 ttc ci al x of
      None \<Rightarrow> f1 (task_path g) = f (task_path g)
    | Some t' \<Rightarrow> \<exists>v i. i > t \<and> f1 (task_path g) = Some (LeafE v i) \<and> NewTaskFromJSON v = Ok (t'\<lparr>task_UpdatedAt := t0\<rparr>)"
proof (cases "converge_spec t0 ttc ci al x")
  case None
  have "sn_Key m \<noteq> abs_path (task_path g)" if z: "(j, m) \<in> set zs" for j m
  proof -
    obtain n' y y' where n': "n' \<in> set nodes" "sn_Key n' = sn_Key m" "parse n' = Ok y" "converge_spec t0 ttc ci al y = Some y'"
      using swap_key [OF ok nodes t0 z [unfolded zs]] by blast
    have "y = x" if "sn_Key m = abs_path (task_path g)"
      using listed_same [OF nodes n'(1) n(2)] n'(2,3) n(2,3) that by (simp add: listed_def)
    then show ?thesis using n'(4) None by auto
  qed
  then have "f1 (task_path g) = f (task_path g)" using swapped_other [OF sw] by simp
  with None show ?thesis by simp
next
  case (Some t')
  obtain v where v: "swap_of t0 \<lparr>ct_OldIndex = sn_Index n, ct_NewTask = t'\<rparr> = (sn_Index n, leaf_node (abs_path (task_path g)) v 0)"
    "NewTaskFromJSON v = Ok (t'\<lparr>task_UpdatedAt := t0\<rparr>)"
    using swap_of_node [OF ok n(2,3) Some t0] by blast
  have "swap_of t0 \<lparr>ct_OldIndex = sn_Index n, ct_NewTask = t'\<rparr> \<in> set zs"
    unfolding zs set_map by (rule imageI) (use n(1,3) Some in \<open>auto simp: conv_cas_mem\<close>)
  then have "(sn_Index n, leaf_node (abs_path (task_path g)) v 0) \<in> set zs" using v(1) by simp
  moreover have cl: "clean (task_path g)" using n(2) by (simp add: listed_def)
  ultimately have "\<exists>i > t. f1 (task_path g) = Some (LeafE v i)"
    using sw cl unfolding swapped_def by fastforce
  with v(2) Some show ?thesis by auto
qed

text \<open>The final view: swaps, then deletions.\<close>

lemma converged_final:
  assumes ok: "conv_ok f" and nodes: "\<forall>n \<in> set nodes. \<exists>g. listed f g n"
    and all: "\<And>g. f (task_path g) \<noteq> None \<Longrightarrow> \<exists>n \<in> set nodes. listed f g n"
    and t0: "int64_ok t0" and al: "\<And>x. x = [] \<or> key_elem x \<Longrightarrow> al x = alive f x"
    and sw: "swapped f t True zs f1" and zs: "set zs = set (map (swap_of t0) (conv_cas (converge_spec t0 ttc ci al) nodes))"
    and t: "\<And>p v i. f p = Some (LeafE v i) \<Longrightarrow> i \<le> t"
    and ess: "map abs_path ess = conv_keys nodes" "\<forall>es \<in> set ess. clean es"
  shows "converged t0 ttc ci (alive f) f (del_paths f1 ess) g"
proof (cases "f (task_path g)")
  case None
  have "sn_Key n \<noteq> abs_path (task_path g)" if z: "(j, n) \<in> set zs" and c: "clean (task_path g)" for j n
  proof
    assume "sn_Key n = abs_path (task_path g)"
    then obtain n' where "n' \<in> set nodes" "sn_Key n' = abs_path (task_path g)"
      using swap_key [OF ok nodes t0 z [unfolded zs]] by auto
    with listed_key [OF nodes, of n' g] c None show False by (auto simp: listed_def clean_def)
  qed
  then have "f1 (task_path g) = None" using swapped_other [OF sw, of "task_path g"] None by simp
  then show ?thesis by (simp add: converged_def None deleted_only [OF nodes ess])
next
  case (Some en)
  then obtain n where n: "n \<in> set nodes" "listed f g n" using all [of g] by auto
  note del = deleted_only [OF nodes ess, of f1 g] and mem = deleted_iff [OF nodes ess n]
  show ?thesis
  proof (cases en)
    case DirE
    then show ?thesis using n(2) Some mem by (simp add: converged_def del listed_def parse_empty)
  next
    case (LeafE v i)
    have v: "sn_Value n = v" "i \<le> t" using n(2) Some LeafE t by (auto simp: listed_def)
    have t_ok: "NewTaskFromJSON v \<noteq> Panic" "\<And>t. NewTaskFromJSON v = Ok t \<Longrightarrow> task_ExecutorID t = [] \<or> key_elem (task_ExecutorID t)"
      using ok Some LeafE by (auto simp: conv_ok_def)
    show ?thesis
    proof (cases "NewTaskFromJSON v")
      case (Ok x)
      have spec: "converge_spec t0 ttc ci (alive f) x = converge_spec t0 ttc ci al x"
        by (rule converge_spec_cong) (use al t_ok(2) [OF Ok] in simp)
      have "del_paths f1 ess (task_path g) = f1 (task_path g)" using mem v Ok by (simp add: del)
      with swapped_listed [OF ok nodes t0 sw zs n, of x] v Ok show ?thesis
        by (auto simp: converged_def Some LeafE spec task_entry_def intro: le_less_trans split: option.splits)
    next
      case (Err e)
      then show ?thesis using mem v by (simp add: converged_def Some LeafE del)
    qed (use t_ok in simp)
  qed
qed

context frozen_world
begin

lemma t0_ok: "inv s \<Longrightarrow> int64_ok t0"
  using law_clock [of s] by (simp add: wp_frozen)

lemma wp_converge_switch:
  assumes "inv s"
  shows "wp (converge_switch B ttc ex (time_Sub t0 (task_UpdatedAt t) \<ge> ci) t) Q s
    = Q (converge_spec t0 ttc ci (\<lambda>x. Lookup ex x \<noteq> None) t) s"
  using assms by (simp add: converge_switch_def converge_spec_def durationSinceTaskCreated_def wp_frozen Let_def)

lemma wp_converge_loop:
  assumes "inv s" and "\<forall>n \<in> set nodes. parse n \<noteq> Panic"
    and "Q (ks @ conv_keys nodes, cs @ conv_cas (converge_spec t0 ttc ci (\<lambda>x. Lookup ex x \<noteq> None)) nodes) s"
  shows "wp (go_fold (converge_node B ttc ci ex) nodes (ks, cs)) Q s"
  using assms(2,3)
proof (induction nodes arbitrary: ks cs)
  case (Cons n ns)
  show ?case
  proof (cases "parse n")
    case (Ok t)
    then show ?thesis
      using Cons.IH [of ks cs] Cons.IH [of ks "cs @ [_]"] Cons.prems assms(1)
      by (auto simp: converge_node_def durationSinceTaskUpdated_def wp_frozen wp_converge_switch split: option.splits)
  next
    case (Err e)
    then show ?thesis using Cons.IH [of "ks @ [sn_Key n]" cs] Cons.prems by (simp add: converge_node_def)
  qed (use Cons.prems in simp)
qed simp

lemma wp_swap_nodes:
  assumes "inv s" and "\<forall>ct \<in> set cts. task_ok ((ct_NewTask ct)\<lparr>task_UpdatedAt := t0\<rparr>)"
    and "Q (ns @ map (swap_of t0) cts) s"
  shows "wp (go_fold (\<lambda>ct nodes. go_bind (task_swap_node B ct) (\<lambda>n. go_return (nodes @ [n]))) cts ns) Q s"
  using assms(2,3)
proof (induction cts arbitrary: ns)
  case (Cons ct cts)
  obtain v where v: "Task_ToJSON ((ct_NewTask ct)\<lparr>task_UpdatedAt := t0\<rparr>) = Some v"
    using task_ToJSON Cons.prems(1) by (metis list.set_intros(1))
  have "task_swap_node B ct s = Some (Done (swap_of t0 ct), s)"
    using v assms(1) t0_ok [OF assms(1)]
    by (simp add: task_swap_node_def swap_of_def go_bind_run law_frozen Let_def go_return_run)
  then have "wp (task_swap_node B ct) R s = R (swap_of t0 ct) s" for R by (simp add: wp_def)
  then show ?case using Cons.IH [of "ns @ [swap_of t0 ct]"] Cons.prems by simp
qed simp

text \<open>The listing of the executors, as the loop uses it.\<close>

lemma wp_executors:
  assumes "inv s" and "slack s = 0" and ok: "conv_ok (look s)"
    and "\<And>n err s'. inv s' \<Longrightarrow> look s' = look s \<Longrightarrow> slack s' = 0 \<Longrightarrow> err = None \<or> err = Some ErrorKeyNotFound \<Longrightarrow>
      (\<And>x. x = [] \<or> key_elem x \<Longrightarrow>
         (Lookup (if err = Some ErrorKeyNotFound then zero_node else n) x \<noteq> None) = alive (look s) x) \<Longrightarrow> Q (n, err) s'"
  shows "wp (sa_ListRecursively (bbs_store B) ExecutorSchemaRoot) Q s"
proof (rule wp_list_executors [OF assms(1,2)])
  show "no_leaf_above (look s) (v1 ''executor'')" if "look s (v1 ''executor'') = None"
    using ok look_dir [OF assms(1), of "v1 ''task''"]
    by (auto simp: no_leaf_above_def conv_ok_def is_leaf_def strict_prefix_def prefix_Cons)
qed (use ok assms(4) in \<open>auto simp: conv_ok_def is_leaf_def\<close>)

lemma tick_above: "inv s \<Longrightarrow> look s p = Some (LeafE v i) \<Longrightarrow> i \<le> tick s"
  using tick_bound by blast

text \<open>Everything after the listing of the tasks.\<close>

lemma wp_converge_rest:
  assumes "inv s" and "slack s = 0" and ok: "conv_ok (look s)" and sched: "\<And>zs. mset (sched zs) = mset zs"
    and nodes: "\<forall>n \<in> set nodes. \<exists>g. listed (look s) g n"
    and all: "\<And>g. look s (task_path g) \<noteq> None \<Longrightarrow> \<exists>n \<in> set nodes. listed (look s) g n"
    and dist: "distinct (map sn_Key nodes)"
  shows "wp (go_bind (sa_ListRecursively (bbs_store B) ExecutorSchemaRoot) (\<lambda>(executorState, err).
         if err \<noteq> None \<and> err \<noteq> Some ErrorKeyNotFound then go_return ()
         else go_bind (go_fold
                  (converge_node B ttc ci (if err = Some ErrorKeyNotFound then zero_node else executorState))
                  nodes ([], []))
                (\<lambda>(keysToDelete, tasksToCAS).
                   go_bind (batchCompareAndSwapTasks sched B tasksToCAS) (\<lambda>_.
                     go_bind (sa_Delete (bbs_store B) keysToDelete) (\<lambda>_. go_return ())))))
    (\<lambda>_ s'. inv s' \<and> (\<forall>g. converged t0 ttc ci (alive (look s)) (look s) (look s') g)) s"
  unfolding wp_bind [of "sa_ListRecursively _ _"]
proof (rule wp_executors [OF assms(1-3)], goal_cases)
  case (1 n err s1)
  define ex where "ex = (if err = Some ErrorKeyNotFound then zero_node else n)"
  define al where "al x = (Lookup ex x \<noteq> None)" for x
  define cts where "cts = conv_cas (converge_spec t0 ttc ci al) nodes"
  define zs where "zs = map (swap_of t0) cts"
  define errs where "errs = filter (\<lambda>n. \<exists>e. parse n = Err e) nodes"
  define ess where "ess = map KeyComponents errs"
  have al: "al x = alive (look s) x" if "x = [] \<or> key_elem x" for x using 1(5) [OF that] by (simp add: al_def ex_def)
  have t0: "int64_ok t0" by (rule t0_ok [OF assms(1)])
  have panic: "\<forall>c \<in> set nodes. parse c \<noteq> Panic"
    using nodes ok parse_empty by (fastforce simp: listed_def conv_ok_def split: option.splits entry.splits)
  have ctok: "\<forall>ct \<in> set cts. task_ok ((ct_NewTask ct)\<lparr>task_UpdatedAt := t0\<rparr>)"
    using swap_of_node [OF ok _ _ _ t0] nodes by (fastforce simp: cts_def conv_cas_mem)
  have zok: "\<forall>z \<in> set (sched zs). swap_ok (look s1) z"
    using swaps_ok [OF ok nodes t0] 1(2) mset_eq_setD [OF sched [of zs]] unfolding zs_def cts_def by metis
  have zdist: "distinct (map (\<lambda>(j, n). sn_Key n) (sched zs))"
    unfolding distinct_map_mset [OF sched [of zs]] unfolding zs_def cts_def
    using swaps_distinct [OF ok nodes t0 dist] by blast
  have ess: "map abs_path ess = conv_keys nodes" "\<forall>es \<in> set ess. \<exists>g. es = task_path g \<and> clean es \<and> look s es \<noteq> None" "distinct ess"
  proof -
    have comp: "\<exists>g. KeyComponents c = task_path g \<and> clean (task_path g) \<and> look s (task_path g) \<noteq> None \<and> abs_path (KeyComponents c) = sn_Key c"
      if c: "c \<in> set errs" for c
    proof -
      obtain g where g: "listed (look s) g c" using nodes c by (auto simp: errs_def)
      then have "KeyComponents c = task_path g" by (intro KeyComponents_abs) (simp_all add: listed_def)
      then show ?thesis using g by (auto simp: listed_def split: option.splits)
    qed
    show "\<forall>es \<in> set ess. \<exists>g. es = task_path g \<and> clean es \<and> look s es \<noteq> None"
      using comp by (fastforce simp: ess_def)
    show ess: "map abs_path ess = conv_keys nodes" using comp by (auto simp add: ess_def conv_keys_def simp flip: errs_def)
    have "distinct (map abs_path ess)" unfolding ess using dist by (simp add: conv_keys_def distinct_map_filter)
    then show "distinct ess" by (simp add: distinct_map)
  qed
  have "wp (go_bind (go_fold (converge_node B ttc ci ex) nodes ([], [])) (\<lambda>(keysToDelete, tasksToCAS).
      go_bind (batchCompareAndSwapTasks sched B tasksToCAS) (\<lambda>_.
        go_bind (sa_Delete (bbs_store B) keysToDelete) (\<lambda>_. go_return ()))))
    (\<lambda>_ s'. inv s' \<and> (\<forall>g. converged t0 ttc ci (alive (look s)) (look s) (look s') g)) s1"
    unfolding wp_bind [of "go_fold _ _ _"]
  proof (rule wp_converge_loop [OF 1(1) panic], unfold append.simps prod.case batchCompareAndSwapTasks_def wp_bind
      al_def [symmetric] cts_def [symmetric] ess(1) [symmetric], rule wp_swap_nodes [OF 1(1) ctok],
      unfold append.simps zs_def [symmetric] batch_swap_def, rule wp_mono [OF wp_swaps [OF 1(1) zok zdist]], goal_cases)
    case (1 u s2)
    have look2: "look s2 es \<noteq> None" if "es \<in> set ess" for es
      using swapped_keeps 1 ess(2) that \<open>look s1 = look s\<close> by metis
    have del: "\<forall>es \<in> set ess. clean es \<and> no_leaf_above (look s2) es"
      using ess(2) look2 look_above 1 by metis
    have "length es = 3" if "es \<in> set ess" for es using ess(2) that by fastforce
    then have ind: "independent (set ess)" by (fastforce simp: independent_def dest!: prefix_length_less)
    have sw: "swapped (look s) (tick s1) True (sched zs) (look s2)" "slack s2 = 0" "inv s2"
      using 1 \<open>look s1 = look s\<close> \<open>slack s1 = 0\<close> by auto
    show ?case
    proof (rule wp_mono [OF law_Delete_multi [OF sw(3) del]], goal_cases)
      case (1 err s')
      then have final: "look s' = del_paths (look s2) ess" using ess(3) ind look2 sw(2) by simp
      have "converged t0 ttc ci (alive (look s)) (look s) (del_paths (look s2) ess) g" for g
        by (rule converged_final [OF ok nodes all t0 al sw(1) _ _ ess(1)])
          (use ess(2) mset_eq_setD [OF sched [of zs]] tick_above [OF \<open>inv s1\<close>] \<open>look s1 = look s\<close> in
            \<open>auto simp: zs_def cts_def\<close>)
      then show ?case using 1 final by auto
    qed
  qed
  moreover have "\<not> (err \<noteq> None \<and> err \<noteq> Some ErrorKeyNotFound)" using 1(4) by auto
  ultimately show ?case by (auto simp add: ex_def simp del: wp_bind)
qed

lemma wp_ConvergeTask:
  assumes "inv s" and "slack s = 0" and ok: "conv_ok (look s)" and sched: "\<And>zs. mset (sched zs) = mset zs"
  shows "wp (ConvergeTask sched B ttc ci)
    (\<lambda>_ s'. inv s' \<and> (\<forall>g. converged t0 ttc ci (alive (look s)) (look s) (look s') g)) s"
  unfolding ConvergeTask_def wp_bind [of "sa_ListRecursively _ TaskSchemaRoot"]
  unfolding roots_abs(8)
proof (rule wp_List_dir [OF assms(1) _ _ assms(2)], simp, use ok in \<open>simp add: conv_ok_def\<close>, goal_cases)
  case (1 n s1)
  let ?nodes = "sn_ChildNodes n"
  have dir: "look s (v1 ''task'') = Some DirE" using ok by (simp add: conv_ok_def)
  have listed: "listed (look s) e c" if "tree_of (look s) (v1 ''task'' @ [e]) c" for e c
    using that tree_of_clean [OF assms(1) _ that] by (auto simp: listed_def clean_def elim: tree_of_cases)
  have nodes: "\<forall>c \<in> set ?nodes. \<exists>g. listed (look s) g c"
    using listed tree_of_child [OF 1(4)] by metis
  have all: "\<exists>c \<in> set ?nodes. listed (look s) g c" if "look s (task_path g) \<noteq> None" for g
    using listed tree_of_entry [OF 1(4) dir, of g] that by (metis append_Cons append_Nil)
  have dist: "distinct (map sn_Key ?nodes)" by (rule distinct_child_keys [OF assms(1) 1(4) dir])
  have s1: "inv s1" "slack s1 = 0" "conv_ok (look s1)" using 1 ok by simp_all
  show ?case
    using wp_converge_rest [where nodes = ?nodes and sched = sched, OF s1 sched] nodes all dist 1(2)
    by (simp del: wp_bind roots_abs)
qed

end

end
