(* ===== verification/Schema.thy ===== *)
theory Schema
  imports Shared
begin

text \<open>
  The shape of what the components keep below \<open>/v1\<close>: how deep the entries of a root are, and that
  every entry is the printed form of a valid value that carries its own key. Every write of the
  components keeps this shape (\<open>schema_wf\<close>); what the store holds is then one partial function per
  kind of value (\<open>entry_at\<close>).
\<close>

section \<open>Entries\<close>

definition schema_depth :: "string \<Rightarrow> nat option" where
  "schema_depth = map_of [(''desired'', 1), (''actual'', 3), (''start'', 2), (''stop'', 2), (''stop-instance'', 1),
     (''executor'', 1)]"

text \<open>The printed form of a value that satisfies \<open>P\<close>.\<close>

definition canonical :: "(bytes \<Rightarrow> 'a outcome) \<Rightarrow> ('a \<Rightarrow> bytes option) \<Rightarrow> ('a \<Rightarrow> bool) \<Rightarrow> bytes \<Rightarrow> bool" where
  "canonical fromJSON toJSON P v \<longleftrightarrow> (case fromJSON v of Ok x \<Rightarrow> toJSON x = Some v \<and> P x | _ \<Rightarrow> False)"

definition entry_ok :: "string \<Rightarrow> string list \<Rightarrow> bytes \<Rightarrow> bool" where
  "entry_ok r es v \<longleftrightarrow>
     (if r = ''desired'' then canonical NewDesiredLRPFromJSON DesiredLRP_ToJSON
        (\<lambda>d. desired_ok d \<and> es = [desired_ProcessGuid d]) v
      else if r = ''actual'' then canonical NewActualLRPFromJSON ActualLRP_ToJSON
        (\<lambda>a. actual_ok a \<and> key_elem (actual_ExecutorID a) \<and>
             es = [actual_ProcessGuid a, Itoa (actual_Index a), actual_InstanceGuid a]) v
      else if r = ''start'' then canonical NewLRPStartAuctionFromJSON LRPStartAuction_ToJSON
        (\<lambda>a. start_auction_ok a \<and> es = [desired_ProcessGuid (sta_DesiredLRP a), Itoa (sta_Index a)]) v
      else if r = ''stop'' then canonical NewLRPStopAuctionFromJSON LRPStopAuction_ToJSON
        (\<lambda>a. stop_auction_ok a \<and> es = [spa_ProcessGuid a, Itoa (spa_Index a)]) v
      else if r = ''stop-instance'' then canonical NewStopLRPInstanceFromJSON StopLRPInstance_ToJSON
        (\<lambda>i. stop_instance_ok i \<and> es = [sli_InstanceGuid i]) v
      else True)"

definition schema_wf :: "view \<Rightarrow> bool" where
  "schema_wf f \<longleftrightarrow> \<not> is_leaf (f []) \<and> \<not> is_leaf (f [''v1'']) \<and>
     (\<forall>r k es. schema_depth r = Some k \<longrightarrow>
        (length es < k \<longrightarrow> \<not> is_leaf (f (''v1'' # r # es))) \<and>
        (length es = k \<longrightarrow> (case f (''v1'' # r # es) of
            None \<Rightarrow> True | Some DirE \<Rightarrow> False | Some (LeafE v i) \<Rightarrow> entry_ok r es v)))"

lemma schema_depth_simps [simp]:
  "schema_depth ''desired'' = Some 1" "schema_depth ''actual'' = Some 3" "schema_depth ''start'' = Some 2"
  "schema_depth ''stop'' = Some 2" "schema_depth ''stop-instance'' = Some 1" "schema_depth ''executor'' = Some 1"
  by (simp_all add: schema_depth_def)

lemma schema_wfD:
  assumes "schema_wf f" and "schema_depth r = Some k"
  shows "length es < k \<Longrightarrow> \<not> is_leaf (f (''v1'' # r # es))"
    and "length es = k \<Longrightarrow> f (''v1'' # r # es) \<noteq> Some DirE"
    and "length es = k \<Longrightarrow> f (''v1'' # r # es) = Some (LeafE v i) \<Longrightarrow> entry_ok r es v"
  using assms unfolding schema_wf_def by (fastforce split: option.splits entry.splits)+

lemma schema_above:
  assumes "schema_wf f" and "schema_depth r = Some k" and "length es \<le> k"
  shows "no_leaf_above f (''v1'' # r # es)"
proof -
  have "\<not> is_leaf (f p)" if p: "strict_prefix p (''v1'' # r # es)" for p
  proof -
    consider "p = []" | "p = [''v1'']" | es' where "p = ''v1'' # r # es'" "strict_prefix es' es"
      using p by (cases p rule: remdups_adj.cases) auto
    then show ?thesis
      using assms(1) schema_wfD(1) [OF assms(1,2)] assms(3)
      by cases (auto simp: schema_wf_def dest!: prefix_length_less)
  qed
  then show ?thesis by (simp add: no_leaf_above_def)
qed

text \<open>An entry can be written at any time, and created if and only if it is not there.\<close>

lemma schema_writable:
  assumes "schema_wf f" and "schema_depth r = Some (length es)"
  shows "settable f (''v1'' # r # es)" and "creatable f (''v1'' # r # es) \<longleftrightarrow> f (''v1'' # r # es) = None"
  using schema_above [OF assms, of es] schema_wfD(2) [OF assms, of es]
  by (simp_all add: settable_def creatable_def)

lemma schema_entry_cases:
  assumes "schema_wf f" and "schema_depth r = Some (length es)"
  obtains "f (''v1'' # r # es) = None"
    | v i where "f (''v1'' # r # es) = Some (LeafE v i)" and "entry_ok r es v"
  using schema_wfD(2,3) [OF assms] by (metis entry.exhaust option.exhaust)

text \<open>The writes that keep the shape.\<close>

lemma schema_put:
  assumes "schema_wf f" and "schema_depth r = Some (length es)" and "entry_ok r es v"
  shows "schema_wf (put_path f (''v1'' # r # es) v i)"
  using assms unfolding schema_wf_def
  by (auto simp: put_path_def is_leaf_def strict_prefix_def prefix_def split: option.splits entry.splits)

lemma schema_del: "schema_wf f \<Longrightarrow> schema_wf (del_path f es)"
  unfolding schema_wf_def del_path_def is_leaf_def by (auto split: option.splits entry.splits)

lemma schema_dels: "schema_wf f \<Longrightarrow> schema_wf (del_paths f ess)"
  by (induction ess arbitrary: f) (simp_all add: schema_del)

lemma schema_puts:
  assumes "puts f xs g" and "schema_wf f"
    and "\<And>p v. (p, v) \<in> set xs \<Longrightarrow> \<exists>r es. p = ''v1'' # r # es \<and> schema_depth r = Some (length es) \<and> entry_ok r es v"
  shows "schema_wf g"
  using assms
proof (induction)
  case (puts_Cons f p v i xs g)
  then show ?case using schema_put by (metis list.set_intros(1) list.set_intros(2))
qed simp

section \<open>The entries of a kind\<close>

definition entry_at :: "(bytes \<Rightarrow> 'a outcome) \<Rightarrow> view \<Rightarrow> path \<Rightarrow> 'a option" where
  "entry_at fromJSON f p =
     (case f p of Some (LeafE v i) \<Rightarrow> (case fromJSON v of Ok x \<Rightarrow> Some x | _ \<Rightarrow> None) | _ \<Rightarrow> None)"

lemma entry_at_iff: "entry_at P f p = Some x \<longleftrightarrow> (\<exists>v i. f p = Some (LeafE v i) \<and> P v = Ok x)"
  by (auto simp: entry_at_def split: option.splits entry.splits outcome.splits)

text \<open>What is stored, by kind: desired LRPs by process, actual LRPs by process, index and instance, and so on.\<close>

definition desired_at :: "view \<Rightarrow> string \<Rightarrow> desired_lrp option" where
  "desired_at f g = entry_at NewDesiredLRPFromJSON f [''v1'', ''desired'', g]"

definition actual_at :: "view \<Rightarrow> string \<Rightarrow> int \<Rightarrow> string \<Rightarrow> actual_lrp option" where
  "actual_at f g i x = entry_at NewActualLRPFromJSON f [''v1'', ''actual'', g, Itoa i, x]"

definition start_at :: "view \<Rightarrow> string \<Rightarrow> int \<Rightarrow> lrp_start_auction option" where
  "start_at f g i = entry_at NewLRPStartAuctionFromJSON f [''v1'', ''start'', g, Itoa i]"

definition stop_at :: "view \<Rightarrow> string \<Rightarrow> int \<Rightarrow> lrp_stop_auction option" where
  "stop_at f g i = entry_at NewLRPStopAuctionFromJSON f [''v1'', ''stop'', g, Itoa i]"

definition stop_instance_at :: "view \<Rightarrow> string \<Rightarrow> stop_lrp_instance option" where
  "stop_instance_at f x = entry_at NewStopLRPInstanceFromJSON f [''v1'', ''stop-instance'', x]"

lemmas at_defs = desired_at_def actual_at_def start_at_def stop_at_def stop_instance_at_def

lemma canonical_Some: "canonical F T P v \<Longrightarrow> \<exists>x. F v = Ok x \<and> T x = Some v \<and> P x"
  by (auto simp: canonical_def split: outcome.splits)

lemma entry_okD:
  "entry_ok ''desired'' es v \<Longrightarrow> \<exists>d. NewDesiredLRPFromJSON v = Ok d \<and> DesiredLRP_ToJSON d = Some v \<and> desired_ok d \<and>
     es = [desired_ProcessGuid d]"
  "entry_ok ''actual'' es v \<Longrightarrow> \<exists>a. NewActualLRPFromJSON v = Ok a \<and> ActualLRP_ToJSON a = Some v \<and> actual_ok a \<and>
     key_elem (actual_ExecutorID a) \<and> es = [actual_ProcessGuid a, Itoa (actual_Index a), actual_InstanceGuid a]"
  "entry_ok ''start'' es v \<Longrightarrow> \<exists>a. NewLRPStartAuctionFromJSON v = Ok a \<and> LRPStartAuction_ToJSON a = Some v \<and>
     start_auction_ok a \<and> es = [desired_ProcessGuid (sta_DesiredLRP a), Itoa (sta_Index a)]"
  "entry_ok ''stop'' es v \<Longrightarrow> \<exists>a. NewLRPStopAuctionFromJSON v = Ok a \<and> LRPStopAuction_ToJSON a = Some v \<and>
     stop_auction_ok a \<and> es = [spa_ProcessGuid a, Itoa (spa_Index a)]"
  "entry_ok ''stop-instance'' es v \<Longrightarrow> \<exists>i. NewStopLRPInstanceFromJSON v = Ok i \<and> StopLRPInstance_ToJSON i = Some v \<and>
     stop_instance_ok i \<and> es = [sli_InstanceGuid i]"
  by (auto simp: entry_ok_def dest!: canonical_Some)

text \<open>What a component prints is such an entry.\<close>

lemma entry_okI:
  "desired_ok d \<Longrightarrow> DesiredLRP_ToJSON d = Some v \<Longrightarrow> entry_ok ''desired'' [desired_ProcessGuid d] v"
  "actual_ok a \<Longrightarrow> key_elem (actual_ExecutorID a) \<Longrightarrow> ActualLRP_ToJSON a = Some v \<Longrightarrow>
     entry_ok ''actual'' [actual_ProcessGuid a, Itoa (actual_Index a), actual_InstanceGuid a] v"
  "start_auction_ok sa \<Longrightarrow> LRPStartAuction_ToJSON sa = Some v \<Longrightarrow>
     entry_ok ''start'' [desired_ProcessGuid (sta_DesiredLRP sa), Itoa (sta_Index sa)] v"
  "stop_auction_ok pa \<Longrightarrow> LRPStopAuction_ToJSON pa = Some v \<Longrightarrow> entry_ok ''stop'' [spa_ProcessGuid pa, Itoa (spa_Index pa)] v"
  "stop_instance_ok i \<Longrightarrow> StopLRPInstance_ToJSON i = Some v \<Longrightarrow> entry_ok ''stop-instance'' [sli_InstanceGuid i] v"
  by (simp_all add: entry_ok_def canonical_def FromJSON_ToJSON)

section \<open>The effect of a write on the entries\<close>

lemma Itoa_eq [simp]: "Itoa m = Itoa n \<longleftrightarrow> m = n"
  by (auto dest: Itoa_inj)

lemma entry_at_put:
  assumes "schema_depth r = Some (length es)" and "schema_depth r' = Some (length es')"
  shows "entry_at F (put_path f (''v1'' # r # es) v i) (''v1'' # r' # es') =
    (if r' = r \<and> es' = es then (case F v of Ok x \<Rightarrow> Some x | _ \<Rightarrow> None) else entry_at F f (''v1'' # r' # es'))"
proof -
  have "\<not> strict_prefix (''v1'' # r' # es') (''v1'' # r # es)"
    using assms by (auto dest!: prefix_length_less)
  then show ?thesis by (auto simp: entry_at_def put_path_def)
qed

lemma entry_at_del:
  assumes "schema_depth r = Some (length es)" and "schema_depth r' = Some (length es')"
  shows "entry_at F (del_path f (''v1'' # r # es)) (''v1'' # r' # es') =
    (if r' = r \<and> es' = es then None else entry_at F f (''v1'' # r' # es'))"
proof -
  have "prefix (''v1'' # r # es) (''v1'' # r' # es') \<longleftrightarrow> r' = r \<and> es' = es"
    using assms by (auto dest: prefix_length_le simp: prefix_def)
  then show ?thesis by (auto simp: entry_at_def del_path_def)
qed

text \<open>What is outside the roots of LRPs and auctions.\<close>

definition lrp_roots :: "string set" where
  "lrp_roots = {''desired'', ''actual'', ''start'', ''stop'', ''stop-instance''}"

definition same_elsewhere :: "view \<Rightarrow> view \<Rightarrow> bool" where
  "same_elsewhere f f' \<longleftrightarrow> (\<forall>a r es. \<not> (a = ''v1'' \<and> r \<in> lrp_roots) \<longrightarrow> f' (a # r # es) = f (a # r # es))"

lemma same_elsewhere_refl [simp]: "same_elsewhere f f"
  by (simp add: same_elsewhere_def)

lemma same_elsewhere_trans: "same_elsewhere f g \<Longrightarrow> same_elsewhere g h \<Longrightarrow> same_elsewhere f h"
  by (simp add: same_elsewhere_def)

lemma same_elsewhere_put: "r \<in> lrp_roots \<Longrightarrow> same_elsewhere f (put_path f (''v1'' # r # es) v i)"
  by (auto simp: same_elsewhere_def put_path_def)

lemma same_elsewhere_del: "r \<in> lrp_roots \<Longrightarrow> same_elsewhere f (del_path f (''v1'' # r # es))"
  by (auto simp: same_elsewhere_def del_path_def)

text \<open>The entries together: the state of LRPs and auctions, free of paths, bytes and indices.\<close>

record lrp_state =
  ls_desired :: "string \<rightharpoonup> desired_lrp"
  ls_actual :: "string \<times> int \<times> string \<rightharpoonup> actual_lrp"
  ls_start :: "string \<times> int \<rightharpoonup> lrp_start_auction"
  ls_stop :: "string \<times> int \<rightharpoonup> lrp_stop_auction"
  ls_stop_instance :: "string \<rightharpoonup> stop_lrp_instance"

definition abs_lrps :: "view \<Rightarrow> lrp_state" where
  "abs_lrps f = \<lparr>ls_desired = desired_at f, ls_actual = (\<lambda>(g, i, x). actual_at f g i x),
     ls_start = (\<lambda>(g, i). start_at f g i), ls_stop = (\<lambda>(g, i). stop_at f g i), ls_stop_instance = stop_instance_at f\<rparr>"

lemma abs_lrps_sel [simp]:
  "ls_desired (abs_lrps f) = desired_at f" "ls_actual (abs_lrps f) (g, i, x) = actual_at f g i x"
  "ls_start (abs_lrps f) (g, i) = start_at f g i" "ls_stop (abs_lrps f) (g, i) = stop_at f g i"
  "ls_stop_instance (abs_lrps f) = stop_instance_at f"
  by (simp_all add: abs_lrps_def)

lemma abs_lrps_put:
  "NewDesiredLRPFromJSON v = Ok d \<Longrightarrow>
     abs_lrps (put_path f [''v1'', ''desired'', g] v j) = (abs_lrps f)\<lparr>ls_desired := (ls_desired (abs_lrps f))(g \<mapsto> d)\<rparr>"
  "NewActualLRPFromJSON v = Ok a \<Longrightarrow>
     abs_lrps (put_path f [''v1'', ''actual'', g, Itoa i, x] v j)
       = (abs_lrps f)\<lparr>ls_actual := (ls_actual (abs_lrps f))((g, i, x) \<mapsto> a)\<rparr>"
  "NewLRPStartAuctionFromJSON v = Ok sa \<Longrightarrow>
     abs_lrps (put_path f [''v1'', ''start'', g, Itoa i] v j)
       = (abs_lrps f)\<lparr>ls_start := (ls_start (abs_lrps f))((g, i) \<mapsto> sa)\<rparr>"
  "NewLRPStopAuctionFromJSON v = Ok pa \<Longrightarrow>
     abs_lrps (put_path f [''v1'', ''stop'', g, Itoa i] v j)
       = (abs_lrps f)\<lparr>ls_stop := (ls_stop (abs_lrps f))((g, i) \<mapsto> pa)\<rparr>"
  "NewStopLRPInstanceFromJSON v = Ok si \<Longrightarrow>
     abs_lrps (put_path f [''v1'', ''stop-instance'', x] v j)
       = (abs_lrps f)\<lparr>ls_stop_instance := (ls_stop_instance (abs_lrps f))(x \<mapsto> si)\<rparr>"
  by (simp_all add: abs_lrps_def at_defs fun_eq_iff entry_at_put)

lemma abs_lrps_del:
  "abs_lrps (del_path f [''v1'', ''desired'', g]) = (abs_lrps f)\<lparr>ls_desired := (ls_desired (abs_lrps f))(g := None)\<rparr>"
  "abs_lrps (del_path f [''v1'', ''actual'', g, Itoa i, x])
     = (abs_lrps f)\<lparr>ls_actual := (ls_actual (abs_lrps f))((g, i, x) := None)\<rparr>"
  "abs_lrps (del_path f [''v1'', ''start'', g, Itoa i])
     = (abs_lrps f)\<lparr>ls_start := (ls_start (abs_lrps f))((g, i) := None)\<rparr>"
  "abs_lrps (del_path f [''v1'', ''stop'', g, Itoa i])
     = (abs_lrps f)\<lparr>ls_stop := (ls_stop (abs_lrps f))((g, i) := None)\<rparr>"
  "abs_lrps (del_path f [''v1'', ''stop-instance'', x])
     = (abs_lrps f)\<lparr>ls_stop_instance := (ls_stop_instance (abs_lrps f))(x := None)\<rparr>"
  by (simp_all add: abs_lrps_def at_defs fun_eq_iff entry_at_del)

end
