(* ===== verification/LrpProofs.thy ===== *)
theory LrpProofs
  imports LrpBbs Schema
begin

text \<open>
  What the operations of lrp_bbs do to the stored LRPs, on any store that meets its contract: the
  writes as updates of the abstract state, and the getters as listings of it.
\<close>

section \<open>Writing entries\<close>

lemma independent_length: "(\<And>p. p \<in> P \<Longrightarrow> length p = n) \<Longrightarrow> independent P"
  unfolding independent_def by (metis less_irrefl prefix_length_less)

context kv_world
begin

lemma entry_clean: "r \<in> lrp_roots \<Longrightarrow> \<forall>e \<in> set es. key_elem e \<Longrightarrow> clean (''v1'' # r # es)"
  by (rule clean_v1) (auto simp: lrp_roots_def)

text \<open>The three writes, on an entry of the schema.\<close>

lemma wp_set_entry:
  assumes "inv s" and "schema_wf (look s)" and "r \<in> lrp_roots" and "schema_depth r = Some (length es)"
    and "\<forall>e \<in> set es. key_elem e" and "entry_ok r es v"
    and "\<And>s' i. inv s' \<Longrightarrow> slack s' \<le> slack s \<Longrightarrow> schema_wf (look s') \<Longrightarrow>
      look s' = put_path (look s) (''v1'' # r # es) v i \<Longrightarrow> Q None s'"
  shows "wp (Retry (sa_SetMulti (bbs_store B) [leaf_node (abs_path (''v1'' # r # es)) v ttl])) Q s"
  using retry_Set [OF assms(1) entry_clean [OF assms(3,5)] schema_writable(1) [OF assms(2,4)], of v ttl]
proof (rule wp_mono, elim conjE exE)
  fix err :: "error option" and s' i
  assume "inv s'" "slack s' \<le> slack s" "err = None" "look s' = put_path (look s) (''v1'' # r # es) v i"
  then show "Q err s'" using assms(7) schema_put [OF assms(2,4,6), of i] by simp
qed

lemma wp_delete_entry:
  assumes "inv s" and "schema_wf (look s)" and "r \<in> lrp_roots" and "schema_depth r = Some (length es)"
    and "\<forall>e \<in> set es. key_elem e"
    and "\<And>err s'. inv s' \<Longrightarrow> slack s' \<le> slack s \<Longrightarrow> schema_wf (look s') \<Longrightarrow>
      look s' = del_path (look s) (''v1'' # r # es) \<Longrightarrow> err = None \<or> err = Some ErrorKeyNotFound \<Longrightarrow>
      (slack s = 0 \<longrightarrow> (err = None \<longleftrightarrow> look s (''v1'' # r # es) \<noteq> None)) \<Longrightarrow> Q err s'"
  shows "wp (Retry (sa_Delete (bbs_store B) [abs_path (''v1'' # r # es)])) Q s"
  using retry_Delete [OF assms(1) entry_clean [OF assms(3,5)] schema_above [OF assms(2,4) order_refl]]
proof (rule wp_mono, goal_cases)
  case (1 err s')
  then have "look s' = del_path (look s) (''v1'' # r # es)"
    using del_missing [OF assms(1), of "''v1'' # r # es"] by auto
  then show ?case using 1 schema_del [OF assms(2)] by (intro assms(6)) simp_all
qed

lemma wp_create_entry:
  assumes "inv s" and "schema_wf (look s)" and "r \<in> lrp_roots" and "schema_depth r = Some (length es)"
    and "\<forall>e \<in> set es. key_elem e" and "entry_ok r es v"
    and "\<And>err s'. inv s' \<Longrightarrow> slack s' \<le> slack s \<Longrightarrow> schema_wf (look s') \<Longrightarrow> err \<noteq> Some ErrorTimeout \<Longrightarrow>
      (if look s (''v1'' # r # es) = None then \<exists>i. look s' = put_path (look s) (''v1'' # r # es) v i
       else look s' = look s \<and> err = Some ErrorKeyExists) \<Longrightarrow>
      (slack s = 0 \<longrightarrow> (err = None \<longleftrightarrow> look s (''v1'' # r # es) = None)) \<Longrightarrow> Q err s'"
  shows "wp (Retry (sa_Create (bbs_store B) (leaf_node (abs_path (''v1'' # r # es)) v ttl))) Q s"
  using retry_Create [OF assms(1) entry_clean [OF assms(3,5)], of v ttl]
proof (rule wp_mono, goal_cases)
  case (1 err s')
  have leaf: "is_leaf (look s (''v1'' # r # es)) \<longleftrightarrow> look s (''v1'' # r # es) \<noteq> None"
    by (rule schema_entry_cases [OF assms(2,4)]) (auto simp: is_leaf_def)
  note c = 1 [unfolded schema_writable(2) [OF assms(2,4)] leaf]
  have e: "if look s (''v1'' # r # es) = None then \<exists>i. look s' = put_path (look s) (''v1'' # r # es) v i
       else look s' = look s \<and> err = Some ErrorKeyExists"
    using c by (cases "look s (''v1'' # r # es)") simp_all
  have wf: "schema_wf (look s')" using e assms(2) schema_put [OF assms(2,4,6)] by (metis (full_types))
  show ?case by (rule assms(7) [OF _ _ wf _ e]) (use c in blast)+
qed

end

context cas_world
begin

lemma wp_swap_entry:
  assumes "inv s" and "schema_wf (look s)" and "r \<in> lrp_roots" and "schema_depth r = Some (length es)"
    and "\<forall>e \<in> set es. key_elem e" and "entry_ok r es v" and "old \<noteq> []"
    and "\<And>err s'. inv s' \<Longrightarrow> slack s' \<le> slack s \<Longrightarrow> schema_wf (look s') \<Longrightarrow> err \<noteq> Some ErrorTimeout \<Longrightarrow>
      (if holds (look s) (''v1'' # r # es) old then \<exists>i > tick s. look s' = put_path (look s) (''v1'' # r # es) v i
       else look s' = look s \<and> compare_refused (look s) (''v1'' # r # es) err) \<Longrightarrow>
      (slack s = 0 \<longrightarrow> (err = None \<longleftrightarrow> holds (look s) (''v1'' # r # es) old)) \<Longrightarrow> Q err s'"
  shows "wp (Retry (sa_CompareAndSwap (bbs_store B) (leaf_node okey old ottl) (leaf_node (abs_path (''v1'' # r # es)) v ttl))) Q s"
  using retry_CAS_value [OF assms(1) entry_clean [OF assms(3,5)] assms(7), of okey ottl v ttl]
proof (rule wp_mono, goal_cases)
  case (1 err s')
  then have "schema_wf (look s')" using assms(2) schema_put [OF assms(2,4,6)] by (metis (full_types))
  then show ?case using 1 by (intro assms(8)) simp_all
qed

lemma wp_cad_entry:
  assumes "inv s" and "schema_wf (look s)" and "r \<in> lrp_roots" and "\<forall>e \<in> set es. key_elem e" and "old \<noteq> []"
    and "\<And>err s'. inv s' \<Longrightarrow> slack s' \<le> slack s \<Longrightarrow> schema_wf (look s') \<Longrightarrow> err \<noteq> Some ErrorTimeout \<Longrightarrow>
      (if holds (look s) (''v1'' # r # es) old then look s' = del_path (look s) (''v1'' # r # es)
       else look s' = look s \<and> compare_refused (look s) (''v1'' # r # es) err) \<Longrightarrow>
      (slack s = 0 \<longrightarrow> (err = None \<longleftrightarrow> holds (look s) (''v1'' # r # es) old)) \<Longrightarrow> Q err s'"
  shows "wp (Retry (sa_CompareAndDelete (bbs_store B) (leaf_node (abs_path (''v1'' # r # es)) old ttl))) Q s"
  using retry_CAD [OF assms(1) entry_clean [OF assms(3,4)] assms(5), of ttl]
proof (rule wp_mono, goal_cases)
  case (1 err s')
  then have "schema_wf (look s')" using assms(2) schema_del [OF assms(2)] by (metis (full_types))
  then show ?case using 1 by (intro assms(6)) simp_all
qed

end

section \<open>What is stored and what the store holds\<close>

lemma holds_iff:
  assumes "schema_wf f" and "schema_depth r = Some (length es)" and "\<And>v. entry_ok r es v \<Longrightarrow> \<exists>x. F v = Ok x \<and> T x = Some v"
    and "T b = Some v" and "F v = Ok b"
  shows "holds f (''v1'' # r # es) v \<longleftrightarrow> entry_at F f (''v1'' # r # es) = Some b"
proof
  assume "holds f (''v1'' # r # es) v"
  then show "entry_at F f (''v1'' # r # es) = Some b" using assms(5) by (auto simp: holds_def entry_at_def)
next
  assume "entry_at F f (''v1'' # r # es) = Some b"
  then obtain w i where w: "f (''v1'' # r # es) = Some (LeafE w i)" "F w = Ok b" by (auto simp: entry_at_iff)
  then have "T b = Some w" using assms(3) [OF schema_wfD(3) [OF assms(1,2) refl w(1)]] by auto
  then show "holds f (''v1'' # r # es) v" using w(1) assms(4) by (simp add: holds_def)
qed

lemma missing_iff:
  assumes "schema_wf f" and "schema_depth r = Some (length es)" and "\<And>v. entry_ok r es v \<Longrightarrow> \<exists>x. F v = Ok x"
  shows "f (''v1'' # r # es) = None \<longleftrightarrow> entry_at F f (''v1'' # r # es) = None"
  by (rule schema_entry_cases [OF assms(1,2)]) (use assms(3) in \<open>force simp: entry_at_def\<close>)+

lemma desired_facts:
  assumes "schema_wf f"
  shows "desired_ok b \<Longrightarrow> DesiredLRP_ToJSON b = Some v \<Longrightarrow> holds f [''v1'', ''desired'', g] v \<longleftrightarrow> desired_at f g = Some b"
    and "f [''v1'', ''desired'', g] = None \<longleftrightarrow> desired_at f g = None"
    and "actual_at f g i x = None \<longleftrightarrow> f [''v1'', ''actual'', g, Itoa i, x] = None"
    and "stop_instance_at f x = None \<longleftrightarrow> f [''v1'', ''stop-instance'', x] = None"
proof -
  show "desired_ok b \<Longrightarrow> DesiredLRP_ToJSON b = Some v \<Longrightarrow> holds f [''v1'', ''desired'', g] v \<longleftrightarrow> desired_at f g = Some b"
    unfolding desired_at_def by (rule holds_iff [where T = DesiredLRP_ToJSON, OF assms]) (auto dest: entry_okD FromJSON_ToJSON)
  show "f [''v1'', ''desired'', g] = None \<longleftrightarrow> desired_at f g = None"
    unfolding desired_at_def by (rule missing_iff [OF assms]) (auto dest: entry_okD)
  show "actual_at f g i x = None \<longleftrightarrow> f [''v1'', ''actual'', g, Itoa i, x] = None"
    unfolding actual_at_def by (rule missing_iff [symmetric, OF assms]) (auto dest: entry_okD)
  show "stop_instance_at f x = None \<longleftrightarrow> f [''v1'', ''stop-instance'', x] = None"
    unfolding stop_instance_at_def by (rule missing_iff [symmetric, OF assms]) (auto dest: entry_okD)
qed

lemma read_empty: "NewDesiredLRPFromJSON [] = Err JSONSyntaxError"
  by code_simp

lemma desired_printed: "desired_ok d \<Longrightarrow> DesiredLRP_ToJSON d = Some v \<Longrightarrow> v \<noteq> []"
  using FromJSON_ToJSON(1) [of d v] read_empty by auto

text \<open>The entry of a kind that a valid state holds carries its key.\<close>

lemma desired_at_key: "schema_wf f \<Longrightarrow> desired_at f g = Some d \<Longrightarrow> desired_ok d \<and> desired_ProcessGuid d = g"
  using schema_wfD(3) [of f "''desired''" 1 "[g]"] by (auto simp: desired_at_def entry_at_iff dest!: entry_okD)

lemma actual_at_key:
  "schema_wf f \<Longrightarrow> actual_at f g i x = Some a \<Longrightarrow> actual_ok a \<and> key_elem (actual_ExecutorID a) \<and>
     actual_ProcessGuid a = g \<and> actual_Index a = i \<and> actual_InstanceGuid a = x"
  using schema_wfD(3) [of f "''actual''" 3 "[g, Itoa i, x]"]
  by (auto simp: actual_at_def entry_at_iff dest!: entry_okD)

text \<open>A step of the abstract state that keeps the schema and everything that is not an LRP.\<close>

definition moved :: "(lrp_state \<Rightarrow> lrp_state) \<Rightarrow> view \<Rightarrow> view \<Rightarrow> bool" where
  "moved eff f f' \<longleftrightarrow> schema_wf f' \<and> abs_lrps f' = eff (abs_lrps f) \<and> same_elsewhere f f'"

lemma moved_same: "schema_wf f \<Longrightarrow> eff (abs_lrps f) = abs_lrps f \<Longrightarrow> moved eff f f"
  by (simp add: moved_def)

lemma in_lrp_roots [simp]:
  "''desired'' \<in> lrp_roots" "''actual'' \<in> lrp_roots" "''start'' \<in> lrp_roots" "''stop'' \<in> lrp_roots"
  "''stop-instance'' \<in> lrp_roots"
  by (simp_all add: lrp_roots_def)

section \<open>Reports\<close>

text \<open>A report stamps the LRP with its state, the time and the executor.\<close>

definition reported :: "int \<Rightarrow> int \<Rightarrow> string \<Rightarrow> actual_lrp \<Rightarrow> actual_lrp" where
  "reported state t e a = a\<lparr>actual_State := state, actual_Since := t, actual_ExecutorID := e\<rparr>"

lemma reported_key [simp]:
  "actual_ProcessGuid (reported st t e a) = actual_ProcessGuid a" "actual_Index (reported st t e a) = actual_Index a"
  "actual_InstanceGuid (reported st t e a) = actual_InstanceGuid a" "actual_ExecutorID (reported st t e a) = e"
  by (simp_all add: reported_def)

lemma reported_ok:
  "actual_ok (a\<lparr>actual_ExecutorID := e\<rparr>) \<Longrightarrow> int64_ok st \<Longrightarrow> int64_ok t \<Longrightarrow> actual_ok (reported st t e a)"
  by (simp add: reported_def actual_ok_def)

section \<open>Several stop requests\<close>

text \<open>Several requests at once: each instance ends up with one of the requests made for it.\<close>

definition stops_for :: "stop_lrp_instance list \<Rightarrow> (string \<rightharpoonup> stop_lrp_instance) \<Rightarrow> bool" where
  "stops_for is m \<longleftrightarrow> dom m = sli_InstanceGuid ` set is \<and> (\<forall>x i. m x = Some i \<longrightarrow> i \<in> set is \<and> sli_InstanceGuid i = x)"

lemma stops_for_distinct:
  assumes "stops_for is m" and "distinct (map sli_InstanceGuid is)"
  shows "m = map_of (map (\<lambda>i. (sli_InstanceGuid i, i)) is)"
proof
  fix x
  show "m x = map_of (map (\<lambda>i. (sli_InstanceGuid i, i)) is) x"
  proof (cases "m x")
    case None
    then have "x \<notin> sli_InstanceGuid ` set is" using assms(1) by (auto simp: stops_for_def)
    then have "map_of (map (\<lambda>i. (sli_InstanceGuid i, i)) is) x = None" by (simp add: map_of_eq_None_iff image_image)
    then show ?thesis using None by simp
  next
    case (Some i)
    then have "i \<in> set is" "sli_InstanceGuid i = x" using assms(1) by (auto simp: stops_for_def)
    then have "map_of (map (\<lambda>i. (sli_InstanceGuid i, i)) is) x = Some i"
      using assms(2) by (intro map_of_is_SomeI) (auto simp: comp_def)
    then show ?thesis using Some by simp
  qed
qed

lemma puts_stops:
  assumes "puts f ys g"
    and "\<forall>(p, v) \<in> set ys. \<exists>i \<in> set is. p = [''v1'', ''stop-instance'', sli_InstanceGuid i] \<and>
      NewStopLRPInstanceFromJSON v = Ok i \<and> entry_ok ''stop-instance'' [sli_InstanceGuid i] v"
    and "schema_wf f"
  shows "schema_wf g \<and> same_elsewhere f g \<and> (\<forall>r es. r \<noteq> ''stop-instance'' \<longrightarrow> g (''v1'' # r # es) = f (''v1'' # r # es)) \<and>
    (\<exists>m. abs_lrps g = (abs_lrps f)\<lparr>ls_stop_instance := stop_instance_at f ++ m\<rparr> \<and>
     (\<forall>x. x \<in> dom m \<longleftrightarrow> [''v1'', ''stop-instance'', x] \<in> fst ` set ys) \<and>
     (\<forall>x i. m x = Some i \<longrightarrow> i \<in> set is \<and> sli_InstanceGuid i = x))"
  using assms
proof (induction)
  case (puts_Nil f)
  then show ?case by (auto intro!: exI [of _ Map.empty])
next
  case (puts_Cons f p v j xs g)
  then obtain i where i: "i \<in> set is" "p = [''v1'', ''stop-instance'', sli_InstanceGuid i]"
    "NewStopLRPInstanceFromJSON v = Ok i" "entry_ok ''stop-instance'' [sli_InstanceGuid i] v" by auto
  let ?f = "put_path f p v j"
  have f: "schema_wf ?f" "same_elsewhere f ?f"
    unfolding i(2) using schema_put [OF puts_Cons.prems(2) _ i(4)] same_elsewhere_put by auto
  obtain m where m: "abs_lrps g = (abs_lrps ?f)\<lparr>ls_stop_instance := stop_instance_at ?f ++ m\<rparr>"
    "\<forall>x. x \<in> dom m \<longleftrightarrow> [''v1'', ''stop-instance'', x] \<in> fst ` set xs"
    "\<forall>x i. m x = Some i \<longrightarrow> i \<in> set is \<and> sli_InstanceGuid i = x"
    and g: "schema_wf g" "same_elsewhere ?f g" "\<forall>r es. r \<noteq> ''stop-instance'' \<longrightarrow> g (''v1'' # r # es) = ?f (''v1'' # r # es)"
    using puts_Cons.IH [OF _ f(1)] puts_Cons.prems(1) by auto
  have put: "abs_lrps ?f = (abs_lrps f)\<lparr>ls_stop_instance := (stop_instance_at f)(sli_InstanceGuid i \<mapsto> i)\<rparr>"
    using abs_lrps_put(5) [OF i(3), of f "sli_InstanceGuid i" j] by (simp add: i(2))
  then have at: "stop_instance_at ?f = (stop_instance_at f)(sli_InstanceGuid i \<mapsto> i)"
    by (metis abs_lrps_sel(5) lrp_state.select_convs(5) lrp_state.surjective lrp_state.update_convs(5))
  have "abs_lrps g = (abs_lrps f)\<lparr>ls_stop_instance := stop_instance_at f ++ ([sli_InstanceGuid i \<mapsto> i] ++ m)\<rparr>"
    using m(1) unfolding put at by simp
  moreover have "\<forall>x. x \<in> dom ([sli_InstanceGuid i \<mapsto> i] ++ m) \<longleftrightarrow> [''v1'', ''stop-instance'', x] \<in> fst ` set ((p, v) # xs)"
    using m(2) i(2) by auto
  moreover have "\<forall>x k. ([sli_InstanceGuid i \<mapsto> i] ++ m) x = Some k \<longrightarrow> k \<in> set is \<and> sli_InstanceGuid k = x"
    using m(3) i(1) by (auto simp: map_add_Some_iff split: if_splits)
  moreover have "\<forall>r es. r \<noteq> ''stop-instance'' \<longrightarrow> g (''v1'' # r # es) = f (''v1'' # r # es)"
    using g(3) i(2) by (simp add: put_path_def)
  ultimately show ?case using g(1) same_elsewhere_trans [OF f(2) g(2)] by blast
qed

section \<open>Desired LRPs\<close>

context kv_world
begin

lemma wp_DesireLRP:
  assumes "inv s" and "schema_wf (look s)" and "desired_ok d" and "key_elem (desired_ProcessGuid d)"
  shows "wp (DesireLRP B d) (\<lambda>err s'. inv s' \<and> slack s' \<le> slack s \<and> err = None \<and>
    moved (\<lambda>\<sigma>. \<sigma>\<lparr>ls_desired := (ls_desired \<sigma>)(desired_ProcessGuid d \<mapsto> d)\<rparr>) (look s) (look s')) s"
proof -
  obtain v where v: "DesiredLRP_ToJSON d = Some v" using desired_roundtrip [OF assms(3)] by blast
  show ?thesis
    unfolding DesireLRP_def v go_must_simps go_return_bind schema_paths(8) [OF assms(4)]
    by (rule wp_set_entry [OF assms(1,2) _ _ _ entry_okI(1) [OF assms(3) v]])
      (use assms(4) FromJSON_ToJSON(1) [OF assms(3) v] in
        \<open>simp_all add: moved_def abs_lrps_put same_elsewhere_put\<close>)
qed

lemma wp_RemoveDesired:
  assumes "inv s" and "schema_wf (look s)" and "key_elem g"
  shows "wp (RemoveDesiredLRPByProcessGuid B g) (\<lambda>err s'. inv s' \<and> slack s' \<le> slack s \<and> err = None \<and>
    moved (\<lambda>\<sigma>. \<sigma>\<lparr>ls_desired := (ls_desired \<sigma>)(g := None)\<rparr>) (look s) (look s')) s"
  unfolding RemoveDesiredLRPByProcessGuid_def schema_paths(7) [OF assms(3)]
proof (rule wp_Retry_map, simp, rule wp_delete_entry [OF assms(1,2)], goal_cases)
  case (4 err s')
  then show ?case by (auto simp: moved_def abs_lrps_del same_elsewhere_del)
qed (use assms in simp_all)

lemma wp_RemoveActual:
  assumes "inv s" and "schema_wf (look s)" and "key_elem g" and "key_elem x"
  shows "wp (RemoveActualLRPForIndex B g i x) (\<lambda>err s'. inv s' \<and> slack s' \<le> slack s \<and> err \<noteq> Some ErrorTimeout \<and>
    (slack s = 0 \<longrightarrow> err = (if actual_at (look s) g i x = None then Some ErrorKeyNotFound else None)) \<and>
    moved (\<lambda>\<sigma>. \<sigma>\<lparr>ls_actual := (ls_actual \<sigma>)((g, i, x) := None)\<rparr>) (look s) (look s')) s"
  unfolding RemoveActualLRPForIndex_def schema_paths(6) [OF assms(3,4)] desired_facts(3) [OF assms(2)]
  by (rule wp_delete_entry [OF assms(1,2)])
    (use assms in \<open>auto simp: moved_def abs_lrps_del same_elsewhere_del\<close>)

lemma wp_report_actual:
  assumes "inv s" and "schema_wf (look s)" and "actual_ok (a\<lparr>actual_ExecutorID := e\<rparr>)" and "int64_ok st"
    and "key_elem (actual_ProcessGuid a)" and "key_elem (actual_InstanceGuid a)" and "key_elem e"
  shows "wp (report_actual st B a e) (\<lambda>err s'. inv s' \<and> slack s' \<le> slack s \<and> err = None \<and>
    (\<exists>t. int64_ok t \<and> moved (\<lambda>\<sigma>. \<sigma>\<lparr>ls_actual := (ls_actual \<sigma>)
       ((actual_ProcessGuid a, actual_Index a, actual_InstanceGuid a) \<mapsto> reported st t e a)\<rparr>) (look s) (look s'))) s"
  unfolding report_actual_def wp_bind Let_def reported_def [symmetric] reported_key schema_paths(6) [OF assms(5,6)]
proof (rule wp_clock [OF assms(1)], goal_cases)
  case (1 t s1)
  then have ok: "actual_ok (reported st (UnixNano t) e a)" by (intro reported_ok assms(3,4)) simp
  obtain v where v: "ActualLRP_ToJSON (reported st (UnixNano t) e a) = Some v" using actual_roundtrip [OF ok] by blast
  have e: "entry_ok ''actual'' [actual_ProcessGuid a, Itoa (actual_Index a), actual_InstanceGuid a] v"
    using entry_okI(2) [OF ok _ v] assms(7) by simp
  show ?case
    unfolding v go_must_simps go_return_bind
    by (rule wp_set_entry [OF 1(1) _ _ _ _ e], goal_cases)
      (use 1 assms FromJSON_ToJSON(2) [OF ok v] in
        \<open>auto simp: moved_def abs_lrps_put same_elsewhere_put intro!: exI [of _ "UnixNano t"]\<close>)
qed

section \<open>Stop requests\<close>

lemma wp_RequestStopLRPInstance:
  assumes "inv s" and "schema_wf (look s)" and "stop_instance_ok i" and "key_elem (sli_InstanceGuid i)"
  shows "wp (RequestStopLRPInstance B i) (\<lambda>err s'. inv s' \<and> slack s' \<le> slack s \<and> err = None \<and>
    moved (\<lambda>\<sigma>. \<sigma>\<lparr>ls_stop_instance := (ls_stop_instance \<sigma>)(sli_InstanceGuid i \<mapsto> i)\<rparr>) (look s) (look s')) s"
proof -
  obtain v where v: "StopLRPInstance_ToJSON i = Some v" using stop_instance_roundtrip [OF assms(3)] by blast
  have n: "stop_instance_node i = Some (leaf_node (abs_path [''v1'', ''stop-instance'', sli_InstanceGuid i]) v 60)"
    by (simp add: stop_instance_node_def v schema_paths(5) [OF assms(4)])
  show ?thesis
    unfolding RequestStopLRPInstance_def n go_must_simps go_return_bind
    by (rule wp_set_entry [OF assms(1,2) _ _ _ entry_okI(5) [OF assms(3) v]])
      (use assms(4) FromJSON_ToJSON(5) [OF assms(3) v] in \<open>simp_all add: moved_def abs_lrps_put same_elsewhere_put\<close>)
qed

lemma wp_ResolveStopLRPInstance:
  assumes "inv s" and "schema_wf (look s)" and "key_elem (sli_InstanceGuid i)"
  shows "wp (ResolveStopLRPInstance B i) (\<lambda>err s'. inv s' \<and> slack s' \<le> slack s \<and> err = None \<and>
    moved (\<lambda>\<sigma>. \<sigma>\<lparr>ls_stop_instance := (ls_stop_instance \<sigma>)(sli_InstanceGuid i := None)\<rparr>) (look s) (look s')) s"
  unfolding ResolveStopLRPInstance_def schema_paths(5) [OF assms(3)]
proof (rule wp_Retry_map, simp, rule wp_delete_entry [OF assms(1,2)], goal_cases)
  case (4 err s')
  then show ?case by (auto simp: moved_def abs_lrps_del same_elsewhere_del)
qed (use assms in simp_all)

lemma wp_RequestStopLRPInstances:
  assumes "inv s" and "schema_wf (look s)" and "\<forall>i \<in> set is. stop_instance_ok i \<and> key_elem (sli_InstanceGuid i)"
  shows "wp (RequestStopLRPInstances B is) (\<lambda>err s'. inv s' \<and> slack s' \<le> slack s \<and> err = None \<and>
    (\<forall>r es. r \<noteq> ''stop-instance'' \<longrightarrow> look s' (''v1'' # r # es) = look s (''v1'' # r # es)) \<and>
    (\<exists>m. stops_for is m \<and> moved (\<lambda>\<sigma>. \<sigma>\<lparr>ls_stop_instance := ls_stop_instance \<sigma> ++ m\<rparr>) (look s) (look s'))) s"
proof -
  define val where "val i = the (StopLRPInstance_ToJSON i)" for i
  define xs where "xs = map (\<lambda>i. ([''v1'', ''stop-instance'', sli_InstanceGuid i], val i)) is"
  have val: "StopLRPInstance_ToJSON i = Some (val i)" "NewStopLRPInstanceFromJSON (val i) = Ok i" if "i \<in> set is" for i
    using stop_instance_roundtrip [of i] assms(3) that by (auto simp: val_def)
  have "those (map stop_instance_node js) = Some (map (\<lambda>i. leaf_node (abs_path [''v1'', ''stop-instance'', sli_InstanceGuid i]) (val i) 60) js)"
    if "set js \<subseteq> set is" for js
    using that by (induction js) (use val assms(3) in \<open>auto simp: stop_instance_node_def schema_paths\<close>)
  then have nodes: "those (map stop_instance_node is) = Some (map (\<lambda>(es, v). leaf_node (abs_path es) v 60) xs)"
    by (simp add: xs_def comp_def)
  have ok: "\<forall>(es, v) \<in> set xs. clean es \<and> settable (look s) es"
    using assms(2,3) entry_clean [of "''stop-instance''"] schema_writable(1) [of "look s" "''stop-instance''"]
    by (auto simp: xs_def)
  have ind: "independent (fst ` set xs)" by (rule independent_length [of _ 3]) (auto simp: xs_def)
  have stops: "\<forall>(p, v) \<in> set xs. \<exists>i \<in> set is. p = [''v1'', ''stop-instance'', sli_InstanceGuid i] \<and>
      NewStopLRPInstanceFromJSON v = Ok i \<and> entry_ok ''stop-instance'' [sli_InstanceGuid i] v"
  proof safe
    fix p v assume "(p, v) \<in> set xs"
    then obtain i where i: "i \<in> set is" "p = [''v1'', ''stop-instance'', sli_InstanceGuid i]" "v = val i"
      by (auto simp: xs_def)
    then show "\<exists>i \<in> set is. p = [''v1'', ''stop-instance'', sli_InstanceGuid i] \<and>
      NewStopLRPInstanceFromJSON v = Ok i \<and> entry_ok ''stop-instance'' [sli_InstanceGuid i] v"
      using val [OF i(1)] entry_okI(5) [OF _ val(1) [OF i(1)]] assms(3) by blast
  qed
  show ?thesis
    unfolding RequestStopLRPInstances_def nodes go_must_simps go_return_bind
    using retry_Set_multi [OF assms(1) ok ind, of 60]
  proof (rule wp_mono, elim conjE exE)
    fix err :: "error option" and s' ys
    assume r: "inv s'" "slack s' \<le> slack s" "err = None" "set ys = set xs" "puts (look s) ys (look s')"
    obtain m where m: "schema_wf (look s')" "same_elsewhere (look s) (look s')"
      and other: "\<forall>r es. r \<noteq> ''stop-instance'' \<longrightarrow> look s' (''v1'' # r # es) = look s (''v1'' # r # es)"
      and m': "abs_lrps (look s') = (abs_lrps (look s))\<lparr>ls_stop_instance := stop_instance_at (look s) ++ m\<rparr>"
      "\<forall>x. x \<in> dom m \<longleftrightarrow> [''v1'', ''stop-instance'', x] \<in> fst ` set ys"
      "\<forall>x i. m x = Some i \<longrightarrow> i \<in> set is \<and> sli_InstanceGuid i = x"
      using puts_stops [OF r(5) stops [folded r(4)] assms(2)] by (elim conjE exE) (rule that, assumption+)
    have "stops_for is m" unfolding stops_for_def using m'(2,3) r(4) by (auto simp: xs_def image_image)
    then show "inv s' \<and> slack s' \<le> slack s \<and> err = None \<and>
      (\<forall>r es. r \<noteq> ''stop-instance'' \<longrightarrow> look s' (''v1'' # r # es) = look s (''v1'' # r # es)) \<and>
      (\<exists>m. stops_for is m \<and> moved (\<lambda>\<sigma>. \<sigma>\<lparr>ls_stop_instance := ls_stop_instance \<sigma> ++ m\<rparr>) (look s) (look s'))"
      using r m m'(1) other by (auto simp: moved_def)
  qed
qed

end

section \<open>Changing a desired LRP\<close>

text \<open>A change is applied if the LRP still is what the caller takes it to be.\<close>

definition change_effect :: "desired_lrp_change \<Rightarrow> (string \<rightharpoonup> desired_lrp) \<Rightarrow> (string \<rightharpoonup> desired_lrp)" where
  "change_effect c m =
     (case (dchange_Before c, dchange_After c) of
        (Some b, Some a) \<Rightarrow> if m (desired_ProcessGuid a) = Some b then m(desired_ProcessGuid a \<mapsto> a) else m
      | (Some b, None) \<Rightarrow> if m (desired_ProcessGuid b) = Some b then m(desired_ProcessGuid b := None) else m
      | (None, Some a) \<Rightarrow> if m (desired_ProcessGuid a) = None then m(desired_ProcessGuid a \<mapsto> a) else m
      | (None, None) \<Rightarrow> m)"

definition change_result :: "desired_lrp_change \<Rightarrow> (string \<rightharpoonup> desired_lrp) \<Rightarrow> error option" where
  "change_result c m =
     (let refused = (\<lambda>g b. if m g = Some b then None else if m g = None then Some ErrorKeyNotFound
                           else Some ErrorKeyComparisonFailed) in
      case (dchange_Before c, dchange_After c) of
        (Some b, Some a) \<Rightarrow> refused (desired_ProcessGuid a) b
      | (Some b, None) \<Rightarrow> refused (desired_ProcessGuid b) b
      | (None, Some a) \<Rightarrow> if m (desired_ProcessGuid a) = None then None else Some ErrorKeyExists
      | (None, None) \<Rightarrow> None)"

definition change_ok :: "desired_lrp_change \<Rightarrow> bool" where
  "change_ok c \<longleftrightarrow> (\<forall>d \<in> set_option (dchange_Before c) \<union> set_option (dchange_After c).
     desired_ok d \<and> key_elem (desired_ProcessGuid d))"

lemma compare_refused_result:
  assumes "schema_wf f" and "compare_refused f [''v1'', ''desired'', g] err" and "desired_at f g \<noteq> Some b"
  shows "err = (if desired_at f g = None then Some ErrorKeyNotFound else Some ErrorKeyComparisonFailed)"
proof -
  have "is_leaf (f [''v1'', ''desired'', g]) \<longleftrightarrow> f [''v1'', ''desired'', g] \<noteq> None"
    using schema_wfD(2) [OF assms(1), of "''desired''" 1 "[g]"] by (cases "f [''v1'', ''desired'', g]") (auto simp: is_leaf_def intro: entry.exhaust)
  moreover have "no_leaf_above f [''v1'', ''desired'', g]" using schema_above [OF assms(1), of "''desired''" 1 "[g]"] by simp
  ultimately show ?thesis using assms(2) by (auto simp: compare_refused_def desired_facts(2) [OF assms(1)])
qed

lemma retry_return: "wp (Retry (go_return e)) Q s \<longleftrightarrow> Q e s" if "e \<noteq> Some ErrorTimeout"
  using that unfolding Retry_def wp_bind
  by (simp add: wp_def RetryIndefinitelyOnStoreTimeout.simps go_return_def)

context cas_world
begin

lemma wp_ChangeDesiredLRP:
  assumes "inv s" and wf: "schema_wf (look s)" and "change_ok c"
  shows "wp (ChangeDesiredLRP B c) (\<lambda>err s'. inv s' \<and> slack s' \<le> slack s \<and> err \<noteq> Some ErrorTimeout \<and>
    (slack s = 0 \<longrightarrow> err = change_result c (desired_at (look s))) \<and>
    moved (\<lambda>\<sigma>. \<sigma>\<lparr>ls_desired := change_effect c (ls_desired \<sigma>)\<rparr>) (look s) (look s')) s"
proof -
  have printed: "\<exists>v. DesiredLRP_ToJSON d = Some v" if "desired_ok d" for d using desired_roundtrip [OF that] by blast
  note simps = change_effect_def change_result_def Let_def moved_def abs_lrps_put abs_lrps_del same_elsewhere_put same_elsewhere_del
  show ?thesis
  proof (cases "dchange_Before c")
    case None
    show ?thesis
    proof (cases "dchange_After c")
      case None
      then show ?thesis
        using \<open>dchange_Before c = None\<close> assms by (simp add: ChangeDesiredLRP_def retry_return simps)
    next
      case (Some a)
      have a: "desired_ok a" "key_elem (desired_ProcessGuid a)" using assms(3) Some by (auto simp: change_ok_def)
      obtain v where v: "DesiredLRP_ToJSON a = Some v" using printed a by blast
      note facts = desired_facts(2) [OF wf] FromJSON_ToJSON(1) [OF a(1) v]
      show ?thesis
        unfolding ChangeDesiredLRP_def \<open>dchange_Before c = None\<close> Some prod.case option.case v go_must_simps
          go_return_bind schema_paths(8) [OF a(2)]
        by (rule wp_create_entry [OF assms(1,2) _ _ _ entry_okI(1) [OF a(1) v]])
          (use a facts \<open>dchange_Before c = None\<close> Some in \<open>auto simp: simps split: if_splits\<close>)
    qed
  next
    case (Some b)
    have b: "desired_ok b" "key_elem (desired_ProcessGuid b)" using assms(3) Some by (auto simp: change_ok_def)
    obtain w where w: "DesiredLRP_ToJSON b = Some w" using printed b by blast
    note holds = desired_facts(1) [OF wf b(1) w] desired_printed [OF b(1) w]
    show ?thesis
    proof (cases "dchange_After c")
      case None
      show ?thesis
        unfolding ChangeDesiredLRP_def None Some prod.case option.case w go_must_simps go_return_bind schema_paths(8) [OF b(2)]
        by (rule wp_cad_entry [OF assms(1,2)])
          (use b holds None Some compare_refused_result [OF wf, of "desired_ProcessGuid b" _ b] in \<open>auto simp: simps split: if_splits\<close>)
    next
      case a': (Some a)
      have a: "desired_ok a" "key_elem (desired_ProcessGuid a)" using assms(3) a' by (auto simp: change_ok_def)
      obtain v where v: "DesiredLRP_ToJSON a = Some v" using printed a by blast
      show ?thesis
        unfolding ChangeDesiredLRP_def a' Some prod.case option.case v w go_must_simps go_return_bind schema_paths(8) [OF a(2)]
        by (rule wp_swap_entry [OF assms(1,2) _ _ _ entry_okI(1) [OF a(1) v] holds(2)])
          (use a a' holds Some FromJSON_ToJSON(1) [OF a(1) v] compare_refused_result [OF wf, of "desired_ProcessGuid a" _ b]
            in \<open>auto simp: simps split: if_splits\<close>)
    qed
  qed
qed

end

end
