(* ===== verification/Listing.thy ===== *)
theory Listing
  imports LrpProofs
begin

text \<open>
  The getters of lrp_bbs: on a store that answers, each returns exactly the stored values of its kind,
  every one once; on a store that times out, the timeout.
\<close>

section \<open>The descendants of a listed node\<close>

fun descend :: "nat \<Rightarrow> store_node \<Rightarrow> store_node list" where
  "descend 0 n = [n]"
| "descend (Suc k) n = concat (map (descend k) (sn_ChildNodes n))"

lemma descend_loops:
  "sn_ChildNodes n = descend 1 n" "grand n = descend 2 n" "concat (map grand (sn_ChildNodes n)) = descend 3 n"
proof -
  have "concat (map (descend 0) ms) = ms" for ms by (induction ms) simp_all
  then have one: "descend (Suc 0) = sn_ChildNodes" by (intro ext) simp
  have two: "descend (Suc (Suc 0)) = grand" by (rule ext) (simp only: descend.simps(2) one grand_def)
  show "sn_ChildNodes n = descend 1 n" "grand n = descend 2 n"
    by (simp_all only: one two numeral_2_eq_2 One_nat_def)
  show "concat (map grand (sn_ChildNodes n)) = descend 3 n"
    by (simp only: numeral_3_eq_3 descend.simps(2) [of "Suc (Suc 0)"] two)
qed

text \<open>All paths of a given length below a node, each once.\<close>

lemma descend_tree:
  assumes closed: "\<And>p q. f p \<noteq> None \<Longrightarrow> strict_prefix q p \<Longrightarrow> f q = Some DirE" and "tree_of f es n"
  shows "\<exists>ps. distinct ps \<and> set ps = {p. prefix es p \<and> length p = length es + k \<and> f p \<noteq> None} \<and>
    list_all2 (\<lambda>p c. tree_of f p c) ps (descend k n)"
  using assms(2)
proof (induction k arbitrary: es n)
  case 0
  have "{p. prefix es p \<and> length p = length es + 0 \<and> f p \<noteq> None} = {es}"
    using tree_of_exists [OF 0] by (auto simp: prefix_def)
  then show ?case using 0 by (intro exI [of _ "[es]"]) simp
next
  case (Suc k)
  show ?case
  proof (cases "f es = Some DirE")
    case True
    obtain names where names: "distinct names" "set names = {e. f (es @ [e]) \<noteq> None}"
      "list_all2 (\<lambda>e c. tree_of f (es @ [e]) c) names (sn_ChildNodes n)"
      by (rule tree_of_names [OF Suc.prems True])
    define below where "below e = {p. prefix (es @ [e]) p \<and> length p = length es + Suc k \<and> f p \<noteq> None}" for e
    have "distinct es' \<longrightarrow> (\<exists>ps. distinct ps \<and> set ps = (\<Union>e \<in> set es'. below e) \<and>
        list_all2 (\<lambda>p c. tree_of f p c) ps (concat (map (descend k) cs)))"
      if "list_all2 (\<lambda>e c. tree_of f (es @ [e]) c) es' cs" for es' cs
      using that
    proof (induction rule: list_all2_induct)
      case (Cons e es' c cs)
      obtain ps where ps: "distinct ps" "set ps = below e" "list_all2 (\<lambda>p c. tree_of f p c) ps (descend k c)"
        using Suc.IH [OF Cons(1)] by (auto simp: below_def)
      show ?case
      proof
        assume dist: "distinct (e # es')"
        then obtain qs where qs: "distinct qs" "set qs = (\<Union>e \<in> set es'. below e)"
          "list_all2 (\<lambda>p c. tree_of f p c) qs (concat (map (descend k) cs))" using Cons.IH by auto
        have "below e \<inter> below e' = {}" if "e' \<in> set es'" for e'
          using dist that by (auto simp: below_def prefix_def)
        then show "\<exists>ps. distinct ps \<and> set ps = (\<Union>e \<in> set (e # es'). below e) \<and>
            list_all2 (\<lambda>p c. tree_of f p c) ps (concat (map (descend k) (c # cs)))"
          using ps qs by (intro exI [of _ "ps @ qs"]) (auto intro: list_all2_appendI)
      qed
    qed simp
    from mp [OF this [OF names(3)] names(1)] obtain ps where ps: "distinct ps" "set ps = (\<Union>e \<in> set names. below e)"
      "list_all2 (\<lambda>p c. tree_of f p c) ps (descend (Suc k) n)" by auto
    have "(\<Union>e \<in> set names. below e) = {p. prefix es p \<and> length p = length es + Suc k \<and> f p \<noteq> None}" (is "_ = ?R")
    proof (intro equalityI subsetI)
      fix p assume "p \<in> ?R"
      then obtain zs where zs: "p = es @ zs" "length zs = Suc k" "f p \<noteq> None" by (auto simp: prefix_def)
      then obtain e zs' where p: "p = es @ e # zs'" "length p = length es + Suc k" "f p \<noteq> None"
        by (cases zs) auto
      have "f (es @ [e]) \<noteq> None"
        using closed [OF p(3), of "es @ [e]"] p by (cases "zs' = []") (auto simp: strict_prefix_def)
      then show "p \<in> (\<Union>e \<in> set names. below e)" using p names(2) by (auto simp: below_def)
    qed (auto simp: below_def prefix_def)
    then show ?thesis using ps by auto
  next
    case False
    have "sn_ChildNodes n = []" using Suc.prems False by (auto elim: tree_of_cases)
    moreover have "{p. prefix es p \<and> length p = length es + Suc k \<and> f p \<noteq> None} = {}"
      using closed [of _ es] False by (fastforce simp: strict_prefix_def)
    ultimately show ?thesis by (intro exI [of _ "[]"]) simp
  qed
qed

section \<open>Reading a listing\<close>

lemma parse_nodes_entries:
  assumes "list_all2 (\<lambda>p c. tree_of f p c) ps nodes" and "\<forall>p \<in> set ps. \<exists>x. entry_at F f p = Some x"
  shows "parse_nodes F keep nodes acc = Some (acc @ filter keep (map (\<lambda>p. the (entry_at F f p)) ps), None)"
  using assms
proof (induction arbitrary: acc rule: list_all2_induct)
  case (Cons p ps n ns)
  then obtain x v i where x: "entry_at F f p = Some x" "f p = Some (LeafE v i)" "F v = Ok x" by (auto simp: entry_at_iff)
  have "sn_Value n = v" using tree_of_leaf [OF Cons(1) x(2)] by simp
  then show ?case using Cons x by simp
qed simp

definition lists_exactly :: "'a list \<Rightarrow> 'a set \<Rightarrow> bool" where
  "lists_exactly xs S \<longleftrightarrow> distinct xs \<and> set xs = S"

lemma lists_exactly_filter: "lists_exactly xs S \<Longrightarrow> lists_exactly (filter P xs) {x \<in> S. P x}"
  by (auto simp: lists_exactly_def)

text \<open>
  A getter's result \<open>r\<close> in the state \<open>s'\<close>: the values of \<open>S\<close>, each once, or a timeout, of which at
  most \<open>slack\<close> can still come.
\<close>

definition got :: "'a set \<Rightarrow> nat \<Rightarrow> 'a list \<times> error option \<Rightarrow> bool" where
  "got S slack = (\<lambda>(xs, err).
     if err = None then lists_exactly xs S else err = Some ErrorTimeout \<and> xs = [] \<and> 0 < slack)"

context kv_world
begin

lemma wp_get_all:
  assumes "inv s" and wf: "schema_wf (look s)" and r: "r \<in> root_names" "schema_depth r = Some (length es + k)" "0 < k"
    and es: "\<forall>e \<in> set es. key_elem e"
    and F: "\<And>es' v. entry_ok r es' v \<Longrightarrow> \<exists>x. F v = Ok x \<and> es' = key x"
  shows "wp (get_all B (abs_path (''v1'' # r # es)) (\<lambda>node. parse_nodes F keep (descend k node) []))
    (\<lambda>res s'. inv s' \<and> look s' = look s \<and> slack s' \<le> slack s \<and>
       got {x. keep x \<and> (\<exists>es'. length es' = k \<and> entry_at F (look s) (''v1'' # r # es @ es') = Some x)} (slack s) res) s"
proof -
  let ?root = "''v1'' # r # es"
  let ?S = "{x. keep x \<and> (\<exists>es'. length es' = k \<and> entry_at F (look s) (?root @ es') = Some x)}"
  have clean: "clean ?root" using r(1) es by simp
  have above: "no_leaf_above (look s) ?root" using schema_above [OF wf r(2)] by simp
  have dir: "look s ?root \<noteq> None \<Longrightarrow> look s ?root = Some DirE"
    using schema_wfD(1) [OF wf r(2), of es] r(3) by (cases "look s ?root") (auto simp: is_leaf_def intro: entry.exhaust)
  have step: "go_must (parse_nodes F keep (descend k n) []) s' = Some (Done (xs, None), s') \<and> lists_exactly xs ?S"
    if n: "tree_of (look s) ?root n" and xs: "xs = fst (the (parse_nodes F keep (descend k n) []))" for n xs s'
  proof -
    have closed: "look s q = Some DirE" if "look s p \<noteq> None" "strict_prefix q p" for p q
      using look_dir [OF assms(1) that] .
    obtain ps where ps: "distinct ps" "set ps = {p. prefix ?root p \<and> length p = length ?root + k \<and> look s p \<noteq> None}"
      "list_all2 (\<lambda>p c. tree_of (look s) p c) ps (descend k n)"
      using descend_tree [where k = k, OF _ n] closed by blast
    have entry: "\<exists>es' x. p = ?root @ es' \<and> length es' = k \<and> entry_at F (look s) p = Some x \<and> es @ es' = key x"
      if p: "p \<in> set ps" for p
    proof -
      obtain es' where es': "p = ?root @ es'" "length es' = k" "look s p \<noteq> None" using p ps(2) by (auto simp: prefix_def)
      have d: "schema_depth r = Some (length (es @ es'))" using r(2) es' by simp
      obtain v i where v: "look s p = Some (LeafE v i)" "entry_ok r (es @ es') v"
        by (rule schema_entry_cases [OF wf d]) (use es' in auto)
      then show ?thesis using F [OF v(2)] es' by (auto simp: entry_at_iff)
    qed
    have res: "parse_nodes F keep (descend k n) [] = Some (filter keep (map (\<lambda>p. the (entry_at F (look s) p)) ps), None)"
      using parse_nodes_entries [OF ps(3), of F keep "[]"] entry by (metis append_Nil)
    have "inj_on (\<lambda>p. the (entry_at F (look s) p)) (set ps)"
    proof (rule inj_onI)
      fix p q assume "p \<in> set ps" "q \<in> set ps" "the (entry_at F (look s) p) = the (entry_at F (look s) q)"
      then show "p = q" using entry [of p] entry [of q] by (metis append_Cons option.sel)
    qed
    then have "distinct (map (\<lambda>p. the (entry_at F (look s) p)) ps)" using ps(1) by (simp add: distinct_map)
    moreover have "set (filter keep (map (\<lambda>p. the (entry_at F (look s) p)) ps)) = ?S"
    proof (intro equalityI subsetI)
      fix x assume "x \<in> set (filter keep (map (\<lambda>p. the (entry_at F (look s) p)) ps))"
      then obtain p where p: "p \<in> set ps" "x = the (entry_at F (look s) p)" "keep x" by auto
      then show "x \<in> ?S" using entry [OF p(1)] by auto
    next
      fix x assume "x \<in> ?S"
      then obtain es' where x: "keep x" "length es' = k" "entry_at F (look s) (?root @ es') = Some x" by auto
      then have "?root @ es' \<in> set ps" unfolding ps(2) by (auto simp: entry_at_iff)
      then have "the (entry_at F (look s) (?root @ es')) \<in> (\<lambda>p. the (entry_at F (look s) p)) ` set ps" by (rule imageI)
      then show "x \<in> set (filter keep (map (\<lambda>p. the (entry_at F (look s) p)) ps))" using x by simp
    qed
    ultimately show ?thesis unfolding res xs option.sel fst_conv by (simp add: lists_exactly_def go_return_run)
  qed
  have none: "?S = {}" if "look s ?root = None"
  proof -
    have "look s (?root @ es') = None" if "length es' = k" for es'
    proof -
      have "strict_prefix ?root (?root @ es')" using that r(3) by (auto simp: strict_prefix_def)
      then show ?thesis using look_dir [OF assms(1), of "?root @ es'" ?root] \<open>look s ?root = None\<close>
        by (metis option.distinct(1))
    qed
    then show ?thesis by (auto simp: entry_at_def)
  qed
  show ?thesis
    unfolding get_all_def wp_bind append_Cons [symmetric]
    using law_List [OF assms(1) clean]
  proof (rule wp_mono, goal_cases)
    case (1 res s')
    obtain n err where res: "res = (n, err)" by force
    show ?case
    proof (cases "look s ?root = None")
      case True
      have e: "got ?S (slack s) ([], None)" unfolding none [OF True] by (simp add: got_def lists_exactly_def)
      show ?thesis
        using 1 True above e unfolding res by (auto simp: got_def split: if_splits)
    next
      case False
      note d = dir [OF False]
      show ?thesis
      proof (cases "err = None")
        case True
        then have t: "tree_of (look s) ?root n" using 1 d unfolding res by simp
        show ?thesis
          using step [OF t refl, of s'] 1 unfolding res True by (simp add: wp_def got_def)
      next
        case False
        then show ?thesis using 1 d unfolding res by (auto simp: got_def split: if_splits)
      qed
    qed
  qed
qed

end

section \<open>The getters\<close>

definition actuals_of :: "view \<Rightarrow> string \<Rightarrow> actual_lrp set" where
  "actuals_of f g = {a. \<exists>i x. actual_at f g i x = Some a}"

definition all_actuals :: "view \<Rightarrow> actual_lrp set" where
  "all_actuals f = (\<Union>g. actuals_of f g)"

lemma length_1_2_3:
  "length xs = 1 \<longleftrightarrow> (\<exists>a. xs = [a])" "length xs = 2 \<longleftrightarrow> (\<exists>a b. xs = [a, b])" "length xs = 3 \<longleftrightarrow> (\<exists>a b c. xs = [a, b, c])"
  by (auto simp: numeral_2_eq_2 numeral_3_eq_3 length_Suc_conv)

lemma desired_entries: "{d. keep d \<and> (\<exists>es'. length es' = 1 \<and> entry_at NewDesiredLRPFromJSON f (''v1'' # ''desired'' # [] @ es') = Some d)}
    = {d \<in> ran (desired_at f). keep d}"
  unfolding length_1_2_3 by (auto simp: ran_def desired_at_def)

lemma stop_instance_entries:
  "{d. keep d \<and> (\<exists>es'. length es' = 1 \<and> entry_at NewStopLRPInstanceFromJSON f (''v1'' # ''stop-instance'' # [] @ es') = Some d)}
    = {d \<in> ran (stop_instance_at f). keep d}"
  unfolding length_1_2_3 by (auto simp: ran_def stop_instance_at_def)

lemma actual_entry:
  assumes "schema_wf f" and "entry_at NewActualLRPFromJSON f [''v1'', ''actual'', g, y, x] = Some a"
  shows "actual_at f g (actual_Index a) x = Some a"
proof -
  obtain v i where v: "f [''v1'', ''actual'', g, y, x] = Some (LeafE v i)" "NewActualLRPFromJSON v = Ok a"
    using assms(2) by (auto simp: entry_at_iff)
  then have "entry_ok ''actual'' [g, y, x] v" using schema_wfD(3) [OF assms(1), of "''actual''" 3 "[g, y, x]"] by simp
  then have "y = Itoa (actual_Index a)" using v(2) by (auto dest!: entry_okD)
  then show ?thesis using assms(2) by (simp add: actual_at_def)
qed

lemma actual_entries_of:
  assumes "schema_wf f"
  shows "{a. keep a \<and> (\<exists>es'. length es' = 2 \<and> entry_at NewActualLRPFromJSON f (''v1'' # ''actual'' # [g] @ es') = Some a)}
    = {a \<in> actuals_of f g. keep a}"
proof (intro equalityI subsetI)
  fix a assume "a \<in> {a. keep a \<and> (\<exists>es'. length es' = 2 \<and> entry_at NewActualLRPFromJSON f (''v1'' # ''actual'' # [g] @ es') = Some a)}"
  then obtain y x where "keep a" "entry_at NewActualLRPFromJSON f [''v1'', ''actual'', g, y, x] = Some a"
    unfolding length_1_2_3 by auto
  then show "a \<in> {a \<in> actuals_of f g. keep a}" using actual_entry [OF assms] unfolding actuals_of_def by blast
next
  fix a assume "a \<in> {a \<in> actuals_of f g. keep a}"
  then obtain i x where "keep a" "entry_at NewActualLRPFromJSON f (''v1'' # ''actual'' # [g] @ [Itoa i, x]) = Some a"
    by (auto simp: actuals_of_def actual_at_def)
  moreover have "length [Itoa i, x] = 2" by simp
  ultimately show "a \<in> {a. keep a \<and> (\<exists>es'. length es' = 2 \<and> entry_at NewActualLRPFromJSON f (''v1'' # ''actual'' # [g] @ es') = Some a)}"
    by blast
qed

lemma actual_entries:
  assumes "schema_wf f"
  shows "{a. keep a \<and> (\<exists>es'. length es' = 3 \<and> entry_at NewActualLRPFromJSON f (''v1'' # ''actual'' # [] @ es') = Some a)}
    = {a \<in> all_actuals f. keep a}"
proof (intro equalityI subsetI)
  fix a assume "a \<in> {a. keep a \<and> (\<exists>es'. length es' = 3 \<and> entry_at NewActualLRPFromJSON f (''v1'' # ''actual'' # [] @ es') = Some a)}"
  then obtain g y x where "keep a" "entry_at NewActualLRPFromJSON f [''v1'', ''actual'', g, y, x] = Some a"
    unfolding length_1_2_3 by auto
  then have "a \<in> actuals_of f g" "keep a" using actual_entry [OF assms] unfolding actuals_of_def by blast+
  then show "a \<in> {a \<in> all_actuals f. keep a}" by (auto simp: all_actuals_def)
next
  fix a assume "a \<in> {a \<in> all_actuals f. keep a}"
  then obtain g i x where "keep a" "entry_at NewActualLRPFromJSON f (''v1'' # ''actual'' # [] @ [g, Itoa i, x]) = Some a"
    by (auto simp: all_actuals_def actuals_of_def actual_at_def)
  moreover have "length [g, Itoa i, x] = 3" by simp
  ultimately show "a \<in> {a. keep a \<and> (\<exists>es'. length es' = 3 \<and> entry_at NewActualLRPFromJSON f (''v1'' # ''actual'' # [] @ es') = Some a)}"
    by blast
qed

lemma filterActualLRPs_eq: "filterActualLRPs xs st = filter (\<lambda>a. actual_State a = st) xs"
  by (induction xs) auto

context kv_world
begin

abbreviation reads :: "'a set \<Rightarrow> 's \<Rightarrow> 'a list \<times> error option \<Rightarrow> 's \<Rightarrow> bool" where
  "reads S s \<equiv> \<lambda>res s'. inv s' \<and> look s' = look s \<and> slack s' \<le> slack s \<and> got S (slack s) res"

lemma wp_GetAllDesiredLRPs:
  assumes "inv s" and "schema_wf (look s)"
  shows "wp (GetAllDesiredLRPs B) (reads (ran (desired_at (look s))) s) s"
  unfolding GetAllDesiredLRPs_def roots_abs descend_loops(1)
  using wp_get_all [OF assms, of "''desired''" "[]" 1 NewDesiredLRPFromJSON "\<lambda>d. [desired_ProcessGuid d]" "\<lambda>_. True", unfolded desired_entries]
  by (auto dest!: entry_okD)

lemma wp_GetAllDesiredLRPsByDomain:
  assumes "inv s" and "schema_wf (look s)" and "domain \<noteq> []"
  shows "wp (GetAllDesiredLRPsByDomain B domain) (reads {d \<in> ran (desired_at (look s)). desired_Domain d = domain} s) s"
  unfolding GetAllDesiredLRPsByDomain_def roots_abs descend_loops(1) if_not_P [OF assms(3)]
  using wp_get_all [OF assms(1,2), of "''desired''" "[]" 1 NewDesiredLRPFromJSON "\<lambda>d. [desired_ProcessGuid d]" "\<lambda>d. desired_Domain d = domain", unfolded desired_entries]
  by (auto dest!: entry_okD)

lemma wp_GetAllStopLRPInstances:
  assumes "inv s" and "schema_wf (look s)"
  shows "wp (GetAllStopLRPInstances B) (reads (ran (stop_instance_at (look s))) s) s"
  unfolding GetAllStopLRPInstances_def roots_abs descend_loops(1)
  using wp_get_all [OF assms, of "''stop-instance''" "[]" 1 NewStopLRPInstanceFromJSON "\<lambda>i. [sli_InstanceGuid i]" "\<lambda>_. True", unfolded stop_instance_entries]
  by (auto dest!: entry_okD)

lemma wp_GetAllActualLRPs:
  assumes "inv s" and "schema_wf (look s)"
  shows "wp (GetAllActualLRPs B) (reads (all_actuals (look s)) s) s"
  unfolding GetAllActualLRPs_def roots_abs descend_loops(3)
  using wp_get_all [OF assms, of "''actual''" "[]" 3 NewActualLRPFromJSON
    "\<lambda>a. [actual_ProcessGuid a, Itoa (actual_Index a), actual_InstanceGuid a]" "\<lambda>_. True", unfolded actual_entries [OF assms(2)]]
  by (auto dest!: entry_okD)

lemma wp_GetActualLRPsByProcessGuid:
  assumes "inv s" and "schema_wf (look s)" and "key_elem g"
  shows "wp (GetActualLRPsByProcessGuid B g) (reads (actuals_of (look s) g) s) s"
proof -
  have root: "path_Join [ActualLRPSchemaRoot, g] = abs_path [''v1'', ''actual'', g]"
    unfolding roots_abs by (rule join_root) (use assms(3) in simp_all)
  show ?thesis
    unfolding GetActualLRPsByProcessGuid_def root descend_loops(2)
    using wp_get_all [OF assms(1,2), of "''actual''" "[g]" 2 NewActualLRPFromJSON
      "\<lambda>a. [actual_ProcessGuid a, Itoa (actual_Index a), actual_InstanceGuid a]" "\<lambda>_. True", unfolded actual_entries_of [OF assms(2)]]
      assms(3) by (auto dest!: entry_okD)
qed

lemma wp_GetRunningActualLRPs:
  assumes "inv s" and "schema_wf (look s)"
  shows "wp (GetRunningActualLRPs B) (reads {a \<in> all_actuals (look s). actual_State a = ActualLRPStateRunning} s) s"
  unfolding GetRunningActualLRPs_def wp_bind
  using wp_GetAllActualLRPs [OF assms]
  by (rule wp_mono) (auto simp: got_def filterActualLRPs_eq lists_exactly_filter split: if_splits)

lemma wp_GetRunningActualLRPsByProcessGuid:
  assumes "inv s" and "schema_wf (look s)" and "key_elem g"
  shows "wp (GetRunningActualLRPsByProcessGuid B g) (reads {a \<in> actuals_of (look s) g. actual_State a = ActualLRPStateRunning} s) s"
  unfolding GetRunningActualLRPsByProcessGuid_def wp_bind
  using wp_GetActualLRPsByProcessGuid [OF assms]
  by (rule wp_mono) (auto simp: got_def filterActualLRPs_eq lists_exactly_filter split: if_splits)

text \<open>One desired LRP.\<close>

lemma wp_GetDesiredLRPByProcessGuid:
  assumes "inv s" and wf: "schema_wf (look s)" and "key_elem g"
  shows "wp (GetDesiredLRPByProcessGuid B g) (\<lambda>(d, err) s'. inv s' \<and> look s' = look s \<and> slack s' \<le> slack s \<and>
    (if err = Some ErrorTimeout then 0 < slack s
     else case desired_at (look s) g of Some x \<Rightarrow> d = x \<and> err = None | None \<Rightarrow> err = Some ErrorKeyNotFound)) s"
proof -
  have k: "DesiredLRPSchemaPath (zero_desired\<lparr>desired_ProcessGuid := g\<rparr>) = abs_path [''v1'', ''desired'', g]"
    using schema_paths(8) [of "zero_desired\<lparr>desired_ProcessGuid := g\<rparr>"] assms(3) by simp
  have clean: "clean [''v1'', ''desired'', g]" using assms(3) by simp
  have above: "no_leaf_above (look s) [''v1'', ''desired'', g]" using schema_above [OF wf, of "''desired''" 1 "[g]"] by simp
  have d: "schema_depth ''desired'' = Some (length [g])" by simp
  show ?thesis
    unfolding GetDesiredLRPByProcessGuid_def k wp_bind
    using law_Get [OF assms(1) clean]
  proof (rule wp_mono, goal_cases)
    case (1 res s')
    obtain n err where res: "res = (n, err)" by force
    show ?case
    proof (rule schema_entry_cases [OF wf d], goal_cases)
      case n: 1
      then show ?case using 1 above unfolding res by (auto simp: desired_at_def entry_at_def split: if_splits)
    next
      case n: (2 v i)
      obtain x where "NewDesiredLRPFromJSON v = Ok x" using entry_okD(1) [OF n(2)] by blast
      then show ?case using 1 n unfolding res by (auto simp: desired_at_def entry_at_def split: if_splits)
    qed
  qed
qed

end

end
