(* ===== verification/Auction.thy ===== *)
theory Auction
  imports TaskConvergence Listing
begin

text \<open>
  Start auctions and stop auctions have the same life cycle. This theory has it once, over the
  operations the two kinds supply (\<open>auction\<close>), with the lemmas about it; the theories of the two
  kinds show that their operations are instances.
\<close>

section \<open>The shared life cycle\<close>

record 'a auction =
  au_root :: string
  au_fromJSON :: "bytes \<Rightarrow> 'a outcome"
  au_toJSON :: "'a \<Rightarrow> bytes option"
  au_path :: "'a \<Rightarrow> string"
  au_State :: "'a \<Rightarrow> int"
  au_UpdatedAt :: "'a \<Rightarrow> int"
  au_stamp :: "int \<Rightarrow> int \<Rightarrow> 'a \<Rightarrow> 'a"

definition request_auction :: "'a auction \<Rightarrow> 's bbs \<Rightarrow> 'a \<Rightarrow> ('s, error option) go" where
  "request_auction A bbs lrp =
     Retry (go_bind (bbs_clock bbs) (\<lambda>t. go_bind (go_must (au_toJSON A (au_stamp A 1 (UnixNano t) lrp)))
       (\<lambda>value. sa_Create (bbs_store bbs) (leaf_node (au_path A (au_stamp A 1 (UnixNano t) lrp)) value 0))))"

definition claim_auction :: "'a auction \<Rightarrow> 's bbs \<Rightarrow> 'a \<Rightarrow> ('s, error option) go" where
  "claim_auction A bbs lrp =
     go_bind (go_must (au_toJSON A lrp)) (\<lambda>original. go_bind (bbs_clock bbs) (\<lambda>t.
       go_bind (go_must (au_toJSON A (au_stamp A 2 (UnixNano t) lrp))) (\<lambda>changed.
         Retry (sa_CompareAndSwap (bbs_store bbs) (leaf_node (au_path A (au_stamp A 2 (UnixNano t) lrp)) original 0)
           (leaf_node (au_path A (au_stamp A 2 (UnixNano t) lrp)) changed 0)))))"

definition resolve_auction :: "'a auction \<Rightarrow> 's bbs \<Rightarrow> 'a \<Rightarrow> ('s, error option) go" where
  "resolve_auction A bbs lrp = Retry (sa_Delete (bbs_store bbs) [au_path A lrp])"

section \<open>What an auction kind supplies\<close>

lemma int64_ok_states [simp]: "int64_ok 1" "int64_ok 2"
  by (simp_all add: int64_ok_def)

text \<open>
  \<open>r\<close>: the root of its entries; \<open>key\<close>: the identifiers in its key; \<open>ok\<close>: the values its JSON keeps.
\<close>

locale auction_laws =
  fixes A :: "'a auction" and r :: string and key :: "'a \<Rightarrow> string list" and ok :: "'a \<Rightarrow> bool"
  assumes in_roots: "r \<in> lrp_roots" and depth: "schema_depth r = Some 2" and root: "au_root A = abs_path (v1 r)"
    and key_length: "length (key a) = 2"
    and path: "\<forall>e \<in> set (key a). key_elem e \<Longrightarrow> au_path A a = abs_path (''v1'' # r # key a)"
    and print: "ok a \<Longrightarrow> \<exists>v. au_toJSON A a = Some v \<and> au_fromJSON A v = Ok a \<and> v \<noteq> []"
    and entry: "entry_ok r es v \<longleftrightarrow> canonical (au_fromJSON A) (au_toJSON A) (\<lambda>a. ok a \<and> es = key a) v"
    and stamp_ok: "ok a \<Longrightarrow> int64_ok st \<Longrightarrow> int64_ok t \<Longrightarrow> ok (au_stamp A st t a)"
    and stamp_key: "key (au_stamp A st t a) = key a"
    and stamp_state: "au_State A (au_stamp A st t a) = st"
begin

abbreviation auction_at :: "view \<Rightarrow> string list \<Rightarrow> 'a option" where
  "auction_at f es \<equiv> entry_at (au_fromJSON A) f (''v1'' # r # es)"

abbreviation apath :: "'a \<Rightarrow> path" where
  "apath a \<equiv> ''v1'' # r # key a"

lemma depth_key: "schema_depth r = Some (length (key a))"
  by (simp add: depth key_length)

lemma entry_Ok: "entry_ok r es v \<Longrightarrow> \<exists>a. au_fromJSON A v = Ok a \<and> au_toJSON A a = Some v \<and> ok a \<and> es = key a"
  unfolding entry by (drule canonical_Some) blast

lemma stamp_path: "\<forall>e \<in> set (key a). key_elem e \<Longrightarrow> au_path A (au_stamp A st t a) = abs_path (apath a)"
  using path [of "au_stamp A st t a"] by (simp add: stamp_key)

lemma holds_auction:
  assumes "schema_wf f" and "ok a" and "au_toJSON A a = Some v"
  shows "holds f (apath a) v \<longleftrightarrow> auction_at f (key a) = Some a"
proof (rule holds_iff [where T = "au_toJSON A" and b = a, OF assms(1) depth_key])
  show "\<exists>x. au_fromJSON A v = Ok x \<and> au_toJSON A x = Some v" if "entry_ok r (key a) v" for v
    using entry_Ok [OF that] by blast
  show "au_fromJSON A v = Ok a" using print [OF assms(2)] assms(3) by auto
qed (rule assms(3))

lemma missing_auction: "schema_wf f \<Longrightarrow> f (apath a) = None \<longleftrightarrow> auction_at f (key a) = None"
  by (rule missing_iff [OF _ depth_key]) (auto dest: entry_Ok)

lemma auction_at_key:
  assumes "schema_wf f" and "length es = 2" and "auction_at f es = Some a"
  shows "ok a \<and> key a = es"
proof -
  obtain v i where v: "f (''v1'' # r # es) = Some (LeafE v i)" "au_fromJSON A v = Ok a" using assms(3) by (auto simp: entry_at_iff)
  have "entry_ok r es v" using schema_wfD(3) [OF assms(1) depth assms(2) v(1)] .
  then show ?thesis using entry_Ok v(2) by fastforce
qed

text \<open>The stamped auction, printed.\<close>

lemma print_stamped:
  assumes "ok a" and "int64_ok st" and "int64_ok t"
  shows "\<exists>v. au_toJSON A (au_stamp A st t a) = Some v \<and> au_fromJSON A v = Ok (au_stamp A st t a) \<and> v \<noteq> [] \<and>
    entry_ok r (key a) v"
proof -
  have ok: "ok (au_stamp A st t a)" by (rule stamp_ok [OF assms])
  then obtain v where "au_toJSON A (au_stamp A st t a) = Some v" "au_fromJSON A v = Ok (au_stamp A st t a)" "v \<noteq> []"
    using print by blast
  then show ?thesis using ok by (simp add: entry canonical_def stamp_key)
qed

text \<open>The entry of \<open>a\<close> is written with the state \<open>st\<close>.\<close>

definition stamped_in :: "int \<Rightarrow> 'a \<Rightarrow> view \<Rightarrow> view \<Rightarrow> bool" where
  "stamped_in st a f f' \<longleftrightarrow> (\<exists>t v i. int64_ok t \<and> au_fromJSON A v = Ok (au_stamp A st t a) \<and> f' = put_path f (apath a) v i)"

end

locale auction_world = auction_laws A r key ok + cas_world B inv look slack tick
  for A :: "'a auction" and r :: string and key :: "'a \<Rightarrow> string list" and ok :: "'a \<Rightarrow> bool"
    and B :: "'s bbs" and inv :: "'s \<Rightarrow> bool" and look :: "'s \<Rightarrow> view" and slack :: "'s \<Rightarrow> nat" and tick :: "'s \<Rightarrow> nat"
begin

text \<open>What an operation on an auction leaves: the store well-formed and everything else as it was.\<close>

definition leaves :: "'s \<Rightarrow> 's \<Rightarrow> bool" where
  "leaves s s' \<longleftrightarrow> inv s' \<and> slack s' \<le> slack s \<and> schema_wf (look s') \<and> same_elsewhere (look s) (look s')"

lemma clean_apath: "\<forall>e \<in> set (key a). key_elem e \<Longrightarrow> clean (apath a)"
  by (rule entry_clean [OF in_roots])

lemma wp_request:
  assumes "inv s" and wf: "schema_wf (look s)" and "ok a" and key: "\<forall>e \<in> set (key a). key_elem e"
  shows "wp (request_auction A B a) (\<lambda>err s'. leaves s s' \<and> err \<noteq> Some ErrorTimeout \<and>
    (if auction_at (look s) (key a) = None then stamped_in 1 a (look s) (look s') else look s' = look s) \<and>
    (slack s = 0 \<longrightarrow> err = (if auction_at (look s) (key a) = None then None else Some ErrorKeyExists))) s"
  unfolding request_auction_def stamp_path [OF key]
proof (rule wp_mono [OF retry_Create_timed [OF assms(1) clean_apath [OF key]]], goal_cases)
  case (1 t)
  then show ?case using print_stamped [OF assms(3), of 1 "UnixNano t"] by auto
next
  case (2 err s')
  have pr: "\<exists>v'. au_toJSON A (au_stamp A 1 (UnixNano t) a) = Some v' \<and> au_fromJSON A v' = Ok (au_stamp A 1 (UnixNano t) a) \<and>
      entry_ok r (key a) v'" for t
    using print_stamped [OF assms(3), of 1 "UnixNano t"] by auto
  have leaf: "is_leaf (look s (apath a)) \<longleftrightarrow> look s (apath a) \<noteq> None"
    by (rule schema_entry_cases [OF wf depth_key]) (auto simp: is_leaf_def)
  note c = 2 [unfolded schema_writable(2) [OF wf depth_key] leaf missing_auction [OF wf]]
  have st: "if auction_at (look s) (key a) = None
    then stamped_in 1 a (look s) (look s') \<and> schema_wf (look s') \<and> same_elsewhere (look s) (look s') else look s' = look s"
  proof (cases "auction_at (look s) (key a) = None")
    case True
    then obtain t v i where v: "au_toJSON A (au_stamp A 1 (UnixNano t) a) = Some v" "look s' = put_path (look s) (apath a) v i"
      using c by auto
    then have "au_fromJSON A v = Ok (au_stamp A 1 (UnixNano t) a)" "entry_ok r (key a) v" using pr [of t] by auto
    then show ?thesis
      using True v(2) schema_put [OF wf depth_key] same_elsewhere_put [OF in_roots]
      by (auto simp: stamped_in_def intro!: exI [of _ "UnixNano t"])
  next
    case False
    then show ?thesis using c by (simp split: if_splits)
  qed
  then have "leaves s s'" using c wf by (cases "auction_at (look s) (key a) = None") (simp_all add: leaves_def)
  then show ?case using st c by (cases "auction_at (look s) (key a)") simp_all
qed

lemma wp_claim:
  assumes "inv s" and wf: "schema_wf (look s)" and "ok a" and key: "\<forall>e \<in> set (key a). key_elem e"
  shows "wp (claim_auction A B a) (\<lambda>err s'. leaves s s' \<and> err \<noteq> Some ErrorTimeout \<and>
    (if auction_at (look s) (key a) = Some a then stamped_in 2 a (look s) (look s') else look s' = look s \<and> err \<noteq> None) \<and>
    (slack s = 0 \<or> auction_at (look s) (key a) \<noteq> Some a \<longrightarrow>
      err = (if auction_at (look s) (key a) = Some a then None
             else if auction_at (look s) (key a) = None then Some ErrorKeyNotFound else Some ErrorKeyComparisonFailed))) s"
proof -
  obtain old where old: "au_toJSON A a = Some old" "old \<noteq> []" using print [OF assms(3)] by auto
  show ?thesis
    unfolding claim_auction_def old(1) go_must_simps go_return_bind wp_bind stamp_path [OF key]
  proof (rule wp_clock [OF assms(1)], goal_cases)
    case (1 t s1)
    obtain v where v: "au_toJSON A (au_stamp A 2 (UnixNano t) a) = Some v"
      "au_fromJSON A v = Ok (au_stamp A 2 (UnixNano t) a)" "entry_ok r (key a) v"
      using print_stamped [OF assms(3), of 2 "UnixNano t"] by auto
    have wf1: "schema_wf (look s1)" using wf 1 by simp
    note h = holds_auction [OF wf1 assms(3) old(1)]
    have refused: "compare_refused (look s1) (apath a) err \<Longrightarrow> auction_at (look s1) (key a) \<noteq> Some a \<Longrightarrow>
      err = (if auction_at (look s1) (key a) = None then Some ErrorKeyNotFound else Some ErrorKeyComparisonFailed)" for err
    proof -
      have "is_leaf (look s1 (apath a)) \<longleftrightarrow> look s1 (apath a) \<noteq> None"
        by (rule schema_entry_cases [OF wf1 depth_key]) (auto simp: is_leaf_def)
      moreover have "no_leaf_above (look s1) (apath a)" by (rule schema_above [OF wf1 depth_key [of a]]) simp
      ultimately show "compare_refused (look s1) (apath a) err \<Longrightarrow> auction_at (look s1) (key a) \<noteq> Some a \<Longrightarrow>
        err = (if auction_at (look s1) (key a) = None then Some ErrorKeyNotFound else Some ErrorKeyComparisonFailed)"
        by (auto simp: compare_refused_def missing_auction [OF wf1])
    qed
    show ?case
      unfolding v(1) go_must_simps wp_return
    proof (rule wp_swap_entry [OF 1(1) wf1 in_roots depth_key key v(3) old(2)], goal_cases)
      case (1 err s')
      have "same_elsewhere (look s1) (look s')"
        using 1(5) same_elsewhere_put [OF in_roots, of "look s1" "key a" v] by (auto split: if_splits)
      then have "leaves s s'" using 1 \<open>look s1 = look s\<close> \<open>slack s1 \<le> slack s\<close> by (simp add: leaves_def)
      then show ?case
        using 1 \<open>look s1 = look s\<close> \<open>slack s1 \<le> slack s\<close> v(2) h refused [of err]
        by (cases "auction_at (look s) (key a) = Some a")
          (auto simp: stamped_in_def compare_refused_def intro!: exI [of _ "UnixNano t"] exI [of _ v])
    qed
  qed
qed

lemma wp_resolve:
  assumes "inv s" and wf: "schema_wf (look s)" and key: "\<forall>e \<in> set (key a). key_elem e"
  shows "wp (resolve_auction A B a) (\<lambda>err s'. leaves s s' \<and> look s' = del_path (look s) (apath a) \<and>
    (err = None \<or> err = Some ErrorKeyNotFound) \<and> (slack s = 0 \<longrightarrow> (err = None \<longleftrightarrow> auction_at (look s) (key a) \<noteq> None))) s"
  unfolding resolve_auction_def path [OF key]
  by (rule wp_delete_entry [OF assms(1,2) in_roots depth_key key])
    (use same_elsewhere_del [OF in_roots, of "look s" "key a"] missing_auction [OF wf, of a] in \<open>simp add: leaves_def\<close>)

text \<open>The getter of a kind.\<close>

lemma wp_get_auctions:
  assumes "inv s" and wf: "schema_wf (look s)"
  shows "wp (get_all B (au_root A) (\<lambda>node. parse_nodes (au_fromJSON A) (\<lambda>_. True) (grand node) []))
    (reads {a. auction_at (look s) (key a) = Some a} s) s"
proof -
  have roots: "r \<in> root_names" using in_roots by (auto simp: lrp_roots_def)
  have "{a. True \<and> (\<exists>es'. length es' = 2 \<and> entry_at (au_fromJSON A) (look s) (''v1'' # r # [] @ es') = Some a)}
      = {a. auction_at (look s) (key a) = Some a}"
  proof (intro equalityI subsetI)
    fix a assume "a \<in> {a. True \<and> (\<exists>es'. length es' = 2 \<and> entry_at (au_fromJSON A) (look s) (''v1'' # r # [] @ es') = Some a)}"
    then show "a \<in> {a. auction_at (look s) (key a) = Some a}" using auction_at_key [OF wf] by auto
  qed (use key_length in auto)
  moreover have "\<exists>x. au_fromJSON A v = Ok x \<and> es = key x" if "entry_ok r es v" for es v using entry_Ok [OF that] by blast
  ultimately show ?thesis
    unfolding root descend_loops(2)
    using wp_get_all [OF assms roots, of "[]" 2 "au_fromJSON A" key "\<lambda>_. True"] depth by simp
qed

text \<open>Two auctioneers that both read the pending auction: at most one of them claims it.\<close>

lemma wp_claim_race:
  assumes "inv s" and wf: "schema_wf (look s)" and "ok a" and key: "\<forall>e \<in> set (key a). key_elem e"
    and "auction_at (look s) (key a) = Some a" and "au_State A a = 1"
  shows "wp (go_bind (claim_auction A B a) (\<lambda>x. go_bind (claim_auction A B a) (\<lambda>y. go_return (x, y))))
    (\<lambda>(x, y) s'. leaves s s' \<and> y = Some ErrorKeyComparisonFailed \<and> stamped_in 2 a (look s) (look s') \<and>
       (slack s = 0 \<longrightarrow> x = None)) s"
  unfolding wp_bind wp_return_fun
proof (rule wp_mono [OF wp_claim [OF assms(1-4)]], goal_cases)
  case (1 x s1)
  then have st: "stamped_in 2 a (look s) (look s1)" and l: "leaves s s1" and x: "slack s = 0 \<longrightarrow> x = None"
    using assms(5) by simp_all
  then obtain t where t: "auction_at (look s1) (key a) = Some (au_stamp A 2 t a)" by (auto simp: stamped_in_def entry_at_def)
  moreover have "au_stamp A 2 t a \<noteq> a" using stamp_state [of 2 t a] assms(6) by auto
  ultimately have other: "auction_at (look s1) (key a) \<noteq> Some a" by simp
  have s1: "inv s1" "schema_wf (look s1)" using l by (simp_all add: leaves_def)
  show ?case
  proof (rule wp_mono [OF wp_claim [OF s1 assms(3,4)]], goal_cases)
    case (1 y s')
    then have s': "look s' = look s1" "y = Some ErrorKeyComparisonFailed" using other t by simp_all
    moreover have "leaves s s'" using 1 l by (auto simp: leaves_def dest: same_elsewhere_trans)
    ultimately show ?case using st x by simp
  qed
qed

end

section \<open>Convergence\<close>

text \<open>One pass over the auctions, over the operations of the kind.\<close>

definition converge_auction ::
  "'a auction \<Rightarrow> 's bbs \<Rightarrow> duration \<Rightarrow> duration \<Rightarrow> store_node \<Rightarrow> string list \<times> (nat \<times> 'a) list \<Rightarrow> ('s, string list \<times> (nat \<times> 'a) list) go" where
  "converge_auction A bbs kick expire node = (\<lambda>(keys, cas).
     (case au_fromJSON A (sn_Value node) of
        Panic \<Rightarrow> go_panic
      | Err _ \<Rightarrow> go_return (keys @ [sn_Key node], cas)
      | Ok a \<Rightarrow>
          if au_State A a = 1 then
            go_bind (bbs_clock bbs) (\<lambda>t. go_return (keys,
              if time_Sub t (au_UpdatedAt A a) > kick then cas @ [(sn_Index node, a)] else cas))
          else if au_State A a = 2 then
            go_bind (bbs_clock bbs) (\<lambda>t. go_return (
              if time_Sub t (au_UpdatedAt A a) > expire then keys @ [sn_Key node] else keys, cas))
          else go_return (keys, cas)))"

definition converge_auctions :: "'a auction \<Rightarrow> sched \<Rightarrow> 's bbs \<Rightarrow> duration \<Rightarrow> duration \<Rightarrow> ('s, unit) go" where
  "converge_auctions A sched bbs kick expire =
     go_bind (sa_ListRecursively (bbs_store bbs) (au_root A)) (\<lambda>(node, err).
       if err \<noteq> None \<and> err \<noteq> Some ErrorKeyNotFound then go_return ()
       else go_bind (go_fold (converge_auction A bbs kick expire) (grand node) ([], []))
         (\<lambda>(keys, cas). go_bind (sa_Delete (bbs_store bbs) keys) (\<lambda>_.
            go_bind (go_must (those (map (\<lambda>(j, a). map_option (\<lambda>value. (j, leaf_node (au_path A a) value 0)) (au_toJSON A a)) cas)))
              (batch_swap sched bbs))))"

text \<open>
  What becomes of an auction: a pending one that is older than \<open>kick\<close> is written again as it is, so
  that its watchers see it; a claimed one that is older than \<open>expire\<close> is deleted.
\<close>

datatype auction_fate = Kept | Kicked | Expired

definition fate_of :: "'a auction \<Rightarrow> duration \<Rightarrow> duration \<Rightarrow> gotime \<Rightarrow> 'a \<Rightarrow> auction_fate" where
  "fate_of A kick expire t0 a =
     (if au_State A a = 1 then if time_Sub t0 (au_UpdatedAt A a) > kick then Kicked else Kept
      else if au_State A a = 2 then if time_Sub t0 (au_UpdatedAt A a) > expire then Expired else Kept
      else Kept)"

definition auctions_converged :: "'a auction \<Rightarrow> string \<Rightarrow> gotime \<Rightarrow> duration \<Rightarrow> duration \<Rightarrow> view \<Rightarrow> view \<Rightarrow> bool" where
  "auctions_converged A r t0 kick expire f f' \<longleftrightarrow>
     (\<forall>es v j a. length es = 2 \<longrightarrow> f (''v1'' # r # es) = Some (LeafE v j) \<longrightarrow> au_fromJSON A v = Ok a \<longrightarrow>
        (case fate_of A kick expire t0 a of
           Kept \<Rightarrow> f' (''v1'' # r # es) = Some (LeafE v j)
         | Kicked \<Rightarrow> \<exists>i > j. f' (''v1'' # r # es) = Some (LeafE v i)
         | Expired \<Rightarrow> f' (''v1'' # r # es) = None)) \<and>
     (\<forall>p. (\<nexists>es v j. p = ''v1'' # r # es \<and> length es = 2 \<and> f p = Some (LeafE v j)) \<longrightarrow> f' p = f p)"

text \<open>A loop whose accumulator is another one seen through \<open>g\<close>.\<close>

lemma go_fold_map:
  assumes "\<And>x acc. body x (g acc) = go_bind (body' x acc) (\<lambda>acc. go_return (g acc))"
  shows "go_fold body xs (g acc) = go_bind (go_fold body' xs acc) (\<lambda>acc. go_return (g acc))"
  by (induction xs arbitrary: acc) (simp_all add: assms go_bind_assoc)

locale auction_frozen = auction_world A r key ok B inv look slack tick + frozen_world B inv look slack tick t0
  for A :: "'a auction" and r :: string and key :: "'a \<Rightarrow> string list" and ok :: "'a \<Rightarrow> bool"
    and B :: "'s bbs" and inv :: "'s \<Rightarrow> bool" and look :: "'s \<Rightarrow> view" and slack :: "'s \<Rightarrow> nat" and tick :: "'s \<Rightarrow> nat"
    and t0 :: gotime
begin

text \<open>The entries of a listing, as the loop reads them.\<close>

lemma wp_auction_loop:
  assumes "inv s" and "list_all2 (\<lambda>p n. sn_Key n = abs_path p \<and> sn_Index n = idx p \<and> au_fromJSON A (sn_Value n) = Ok (au p)) ps nodes"
    and "Q (ks @ map abs_path (filter (\<lambda>p. fate_of A kick expire t0 (au p) = Expired) ps),
            cs @ map (\<lambda>p. (idx p, au p)) (filter (\<lambda>p. fate_of A kick expire t0 (au p) = Kicked) ps)) s"
  shows "wp (go_fold (converge_auction A B kick expire) nodes (ks, cs)) Q s"
  using assms(2,3)
proof (induction arbitrary: ks cs rule: list_all2_induct)
  case (Cons p ps n ns)
  have step: "wp (converge_auction A B kick expire n (ks, cs)) R s =
      R (case fate_of A kick expire t0 (au p) of Kept \<Rightarrow> (ks, cs) | Kicked \<Rightarrow> (ks, cs @ [(idx p, au p)])
         | Expired \<Rightarrow> (ks @ [abs_path p], cs)) s" for R
    using Cons(1) by (simp add: converge_auction_def fate_of_def wp_frozen [OF assms(1)])
  show ?case
    unfolding go_fold.simps wp_bind step
    by (cases "fate_of A kick expire t0 (au p)"; simp; rule Cons.IH) (use Cons.prems in simp_all)
qed simp

text \<open>What the deletions and the swaps leave.\<close>

lemma auctions_final:
  assumes ps: "\<And>p. p \<in> set ps \<longleftrightarrow> (\<exists>es v j. p = ''v1'' # r # es \<and> length es = 2 \<and> f p = Some (LeafE v j))"
    and data: "\<And>p. p \<in> set ps \<Longrightarrow> clean p \<and> f p = Some (LeafE (val p) (idx p)) \<and> au_fromJSON A (val p) = Ok (au p)"
    and bound: "\<And>p. p \<in> set ps \<Longrightarrow> fate_of A kick expire t0 (au p) = Kicked \<Longrightarrow> idx p \<le> t"
    and below: "\<And>p q. p \<in> set ps \<Longrightarrow> strict_prefix p q \<Longrightarrow> f q = None"
    and f2: "f2 = del_paths f (filter (\<lambda>p. fate_of A kick expire t0 (au p) = Expired) ps)"
    and sw: "swapped f2 t True zs f'"
    and zs: "set zs = (\<lambda>p. (idx p, leaf_node (abs_path p) (val p) 0)) ` {p \<in> set ps. fate_of A kick expire t0 (au p) = Kicked}"
  shows "auctions_converged A r t0 kick expire f f'"
proof -
  have f2p: "f2 p = (if p \<in> set ps \<and> fate_of A kick expire t0 (au p) = Expired then None else f p)" for p
  proof (cases "\<exists>q \<in> set ps. fate_of A kick expire t0 (au q) = Expired \<and> prefix q p")
    case True
    then obtain q where q: "q \<in> set ps" "fate_of A kick expire t0 (au q) = Expired" "prefix q p" by blast
    then have "f2 p = None" by (auto simp: f2 del_paths_def)
    moreover have "p = q \<or> f p = None" using below [OF q(1), of p] q(3) by (cases "p = q") (auto simp: strict_prefix_def)
    ultimately show ?thesis using q by auto
  next
    case False
    then show ?thesis by (auto simp: f2 del_paths_def)
  qed
  have keep: "f' p = f2 p" if "\<not> (p \<in> set ps \<and> fate_of A kick expire t0 (au p) = Kicked)" for p
  proof -
    have "sn_Key n \<noteq> abs_path p" if z: "(j, n) \<in> set zs" "clean p" for j n
    proof -
      obtain q where q: "q \<in> set ps" "fate_of A kick expire t0 (au q) = Kicked" "n = leaf_node (abs_path q) (val q) 0"
        using z(1) zs by auto
      then show ?thesis using data [OF q(1)] z(2) \<open>\<not> (p \<in> set ps \<and> _)\<close> by (auto simp: abs_path_eq)
    qed
    then show ?thesis using sw unfolding swapped_def by blast
  qed
  have kicked: "\<exists>i > idx p. f' p = Some (LeafE (val p) i)" if "p \<in> set ps" "fate_of A kick expire t0 (au p) = Kicked" for p
  proof -
    have "(idx p, leaf_node (abs_path p) (val p) 0) \<in> set zs" using that zs by auto
    then have "\<exists>i > t. f' p = Some (LeafE (val p) i)"
      using sw data [OF that(1)] unfolding swapped_def by fastforce
    then show ?thesis using bound [OF that] by (auto intro: le_less_trans)
  qed
  show ?thesis
    unfolding auctions_converged_def
  proof (intro conjI allI impI)
    fix es v j a
    assume a: "length es = 2" "f (''v1'' # r # es) = Some (LeafE v j)" "au_fromJSON A v = Ok a"
    then have p: "''v1'' # r # es \<in> set ps" using ps by blast
    then have d: "val (''v1'' # r # es) = v" "idx (''v1'' # r # es) = j" "au (''v1'' # r # es) = a" using data [OF p] a by auto
    show "case fate_of A kick expire t0 a of
           Kept \<Rightarrow> f' (''v1'' # r # es) = Some (LeafE v j)
         | Kicked \<Rightarrow> \<exists>i > j. f' (''v1'' # r # es) = Some (LeafE v i)
         | Expired \<Rightarrow> f' (''v1'' # r # es) = None"
      using keep [of "''v1'' # r # es"] kicked [OF p] f2p [of "''v1'' # r # es"] d a p
      by (cases "fate_of A kick expire t0 a") auto
  next
    fix p assume "\<nexists>es v j. p = ''v1'' # r # es \<and> length es = 2 \<and> f p = Some (LeafE v j)"
    then have "p \<notin> set ps" using ps by blast
    then show "f' p = f p" using keep [of p] f2p [of p] by simp
  qed
qed

text \<open>The paths of the auctions in a view, and what their leaves hold.\<close>

definition listed :: "view \<Rightarrow> path list \<Rightarrow> bool" where
  "listed f ps \<longleftrightarrow> distinct ps \<and> set ps = {p. prefix (v1 r) p \<and> length p = 4 \<and> f p \<noteq> None}"

definition val_at :: "view \<Rightarrow> path \<Rightarrow> bytes" where
  "val_at f p = (case f p of Some (LeafE v i) \<Rightarrow> v | _ \<Rightarrow> [])"

definition idx_at :: "view \<Rightarrow> path \<Rightarrow> nat" where
  "idx_at f p = (case f p of Some (LeafE v i) \<Rightarrow> i | _ \<Rightarrow> 0)"

definition au_at :: "view \<Rightarrow> path \<Rightarrow> 'a" where
  "au_at f p = (case au_fromJSON A (val_at f p) of Ok a \<Rightarrow> a | _ \<Rightarrow> undefined)"

definition fated :: "duration \<Rightarrow> duration \<Rightarrow> auction_fate \<Rightarrow> view \<Rightarrow> path list \<Rightarrow> path list" where
  "fated kick expire x f ps = filter (\<lambda>p. fate_of A kick expire t0 (au_at f p) = x) ps"

lemma listed_data:
  assumes "inv s" and "schema_wf (look s)" and "listed (look s) ps" and "p \<in> set ps"
  shows "clean p \<and> look s p = Some (LeafE (val_at (look s) p) (idx_at (look s) p)) \<and>
    au_fromJSON A (val_at (look s) p) = Ok (au_at (look s) p) \<and> au_toJSON A (au_at (look s) p) = Some (val_at (look s) p) \<and>
    p = apath (au_at (look s) p) \<and> length p = 4"
proof -
  obtain es where es: "p = ''v1'' # r # es" "length es = 2" "look s p \<noteq> None"
    using assms(3,4) by (auto simp: listed_def prefix_def)
  have keys: "\<forall>e \<in> set p. key_elem e" by (rule look_simple [OF assms(1) es(3)])
  obtain v i where v: "look s p = Some (LeafE v i)" "entry_ok r es v"
    by (rule schema_entry_cases [OF assms(2), of r es]) (use es depth in auto)
  obtain a where "au_fromJSON A v = Ok a" "au_toJSON A a = Some v" "es = key a" using entry_Ok [OF v(2)] by blast
  then show ?thesis using v es keys by (simp add: val_at_def idx_at_def au_at_def clean_def)
qed

lemma listed_mem:
  assumes "inv s" and "schema_wf (look s)" and "listed (look s) ps"
  shows "p \<in> set ps \<longleftrightarrow> (\<exists>es v j. p = ''v1'' # r # es \<and> length es = 2 \<and> look s p = Some (LeafE v j))"
proof
  assume p: "p \<in> set ps"
  define a where "a = au_at (look s) p"
  have "p = apath a" "look s p = Some (LeafE (val_at (look s) p) (idx_at (look s) p))"
    unfolding a_def using listed_data [OF assms p] by simp_all
  then show "\<exists>es v j. p = ''v1'' # r # es \<and> length es = 2 \<and> look s p = Some (LeafE v j)"
    using key_length [of a] by (intro exI conjI)
next
  assume "\<exists>es v j. p = ''v1'' # r # es \<and> length es = 2 \<and> look s p = Some (LeafE v j)"
  then obtain es v j where "p = ''v1'' # r # es" "length es = 2" "look s p = Some (LeafE v j)" by (elim exE conjE)
  then show "p \<in> set ps" using assms(3) by (simp add: listed_def)
qed

lemma listed_nodes:
  assumes "inv s" and "schema_wf (look s)" and "listed (look s) ps" and "list_all2 (\<lambda>p c. tree_of (look s) p c) ps nodes"
  shows "list_all2 (\<lambda>p n. sn_Key n = abs_path p \<and> sn_Index n = idx_at (look s) p \<and>
    au_fromJSON A (sn_Value n) = Ok (au_at (look s) p)) ps nodes"
  unfolding list_all2_conv_all_nth
proof (intro conjI allI impI)
  show "length ps = length nodes" using assms(4) by (rule list_all2_lengthD)
  fix k assume k: "k < length ps"
  have t: "tree_of (look s) (ps ! k) (nodes ! k)" using assms(4) k by (simp add: list_all2_conv_all_nth)
  note d = listed_data [OF assms(1-3) nth_mem [OF k]]
  then show "sn_Key (nodes ! k) = abs_path (ps ! k)" "sn_Index (nodes ! k) = idx_at (look s) (ps ! k)"
    "au_fromJSON A (sn_Value (nodes ! k)) = Ok (au_at (look s) (ps ! k))"
    using tree_of_key [OF t] tree_of_leaf [OF t] by auto
qed

lemma listed_printed:
  assumes "inv s" and "schema_wf (look s)" and "listed (look s) ps" and "set qs \<subseteq> set ps"
  shows "those (map (\<lambda>(j, a). map_option (\<lambda>value. (j, leaf_node (au_path A a) value 0)) (au_toJSON A a))
      (map (\<lambda>p. (idx_at (look s) p, au_at (look s) p)) qs)) =
    Some (map (\<lambda>p. (idx_at (look s) p, leaf_node (abs_path p) (val_at (look s) p) 0)) qs)"
  using assms(4)
proof (induction qs)
  case (Cons q qs)
  then have d: "clean q \<and> au_toJSON A (au_at (look s) q) = Some (val_at (look s) q) \<and> q = apath (au_at (look s) q)"
    using listed_data [OF assms(1-3), of q] by simp
  then have "\<forall>e \<in> set (key (au_at (look s) q)). key_elem e" by (metis clean_def list.set_intros(2))
  then have "au_path A (au_at (look s) q) = abs_path q" using path d by metis
  then show ?case using Cons d by simp
qed simp

text \<open>The expired auctions are deleted together, the kicked ones swapped for themselves in any order.\<close>

lemma wp_write_auctions:
  fixes s
  defines "f \<equiv> look s"
  assumes s: "inv s" "schema_wf f" and ps: "listed f ps" and s1: "inv s1" "slack s1 = 0" "look s1 = f"
    and sched: "\<And>zs. mset (sched zs) = mset zs"
    and zs: "zs = map (\<lambda>p. (idx_at f p, leaf_node (abs_path p) (val_at f p) 0)) (fated kick expire Kicked f ps)"
  shows "wp (sa_Delete (bbs_store B) (map abs_path (fated kick expire Expired f ps))) (\<lambda>_. wp (go_for (sched zs) (swap_node B))
    (\<lambda>_ s'. inv s' \<and> slack s' = 0 \<and> auctions_converged A r t0 kick expire f (look s'))) s1"
proof -
  let ?ex = "fated kick expire Expired f ps" and ?ki = "fated kick expire Kicked f ps"
  note data = listed_data [OF s [unfolded f_def] ps [unfolded f_def], folded f_def]
  have sub: "set ?ki \<subseteq> set ps" "set ?ex \<subseteq> set ps" and dist: "distinct ?ki" "distinct ?ex"
    using ps by (auto simp: fated_def listed_def)
  have below: "f q = None" if "p \<in> set ps" "strict_prefix p q" for p q
    using data [OF that(1)] look_dir [OF s(1) _ that(2)] unfolding f_def by fastforce
  have del: "\<forall>es \<in> set ?ex. clean es \<and> no_leaf_above (look s1) es"
    using sub(2) data look_above [OF s(1)] s1(3) unfolding f_def by fastforce
  have ind: "independent (set ?ex)" by (rule independent_length [of _ 4]) (use sub(2) data in blast)
  show ?thesis
  proof (rule wp_mono [OF law_Delete_multi [OF s1(1) del]], goal_cases)
    case (1 err s2)
    have "\<forall>es \<in> set ?ex. look s1 es \<noteq> None" using sub(2) data s1(3) by fastforce
    then have s2: "inv s2" "slack s2 = 0" "look s2 = del_paths f ?ex" using 1 s1 ind dist(2) by auto
    have keep: "look s2 p = f p" if p: "p \<in> set ?ki" for p
    proof -
      have "\<not> prefix q p" if q: "q \<in> set ?ex" for q
      proof
        assume "prefix q p"
        moreover have "q \<noteq> p" using q p by (auto simp: fated_def)
        ultimately have "f p = None" using below [of q p] q sub(2) by (auto simp: strict_prefix_def)
        then show False using data p sub(1) by fastforce
      qed
      then show ?thesis by (simp add: s2(3) del_paths_def)
    qed
    have mem: "set (sched zs) = set zs" using mset_eq_setD [OF sched] .
    have ok: "\<forall>z \<in> set (sched zs). swap_ok (look s2) z"
      unfolding mem using data sub(1) keep by (fastforce simp: zs swap_ok_def)
    have "inj_on abs_path (set ?ki)" by (rule inj_onI) (use data sub(1) abs_path_eq in blast)
    moreover have "map (\<lambda>(j, n). sn_Key n) zs = map abs_path ?ki" by (simp add: zs)
    ultimately have "distinct (map (\<lambda>(j, n). sn_Key n) zs)" using dist(1) by (simp add: distinct_map)
    then have dist: "distinct (map (\<lambda>(j, n). sn_Key n) (sched zs))" using distinct_map_mset [OF sched] by blast
    have tick: "idx_at f p \<le> tick s2" if "p \<in> set ?ki" for p
      using tick_above [OF s2(1), of p "val_at f p" "idx_at f p"] keep [OF that] data sub(1) that by fastforce
    show ?case
    proof (rule wp_mono [OF wp_swaps [OF s2(1) ok dist]], goal_cases)
      case (1 u s')
      have sw: "swapped (look s2) (tick s2) True (sched zs) (look s')" using 1 s2(2) by simp
      have zset: "set (sched zs) = (\<lambda>p. (idx_at f p, leaf_node (abs_path p) (val_at f p) 0)) `
          {p \<in> set ps. fate_of A kick expire t0 (au_at f p) = Kicked}"
        unfolding mem by (simp add: zs fated_def)
      have "auctions_converged A r t0 kick expire f (look s')"
        by (rule auctions_final [where ps = ps and val = "val_at f" and idx = "idx_at f" and au = "au_at f",
              OF listed_mem [OF s [unfolded f_def] ps [unfolded f_def], folded f_def] _ _ below s2(3) [unfolded fated_def] sw zset])
          (use data tick in \<open>auto simp: fated_def\<close>)
      then show ?case using 1 s2(2) by simp
    qed
  qed
qed

lemma wp_converge_listed:
  assumes "inv s" and wf: "schema_wf (look s)" and ps: "listed (look s) ps" "list_all2 (\<lambda>p c. tree_of (look s) p c) ps nodes"
    and s1: "inv s1" "slack s1 = 0" "look s1 = look s" and sched: "\<And>zs. mset (sched zs) = mset zs"
  shows "wp (go_bind (go_fold (converge_auction A B kick expire) nodes ([], []))
       (\<lambda>(keys, cas). go_bind (sa_Delete (bbs_store B) keys) (\<lambda>_.
          go_bind (go_must (those (map (\<lambda>(j, a). map_option (\<lambda>value. (j, leaf_node (au_path A a) value 0)) (au_toJSON A a)) cas)))
            (batch_swap sched B))))
    (\<lambda>_ s'. inv s' \<and> slack s' = 0 \<and> auctions_converged A r t0 kick expire (look s) (look s')) s1"
proof -
  have sub: "set (fated kick expire Kicked (look s) ps) \<subseteq> set ps" by (auto simp: fated_def)
  show ?thesis
    unfolding wp_bind [of "go_fold _ _ _"]
    by (rule wp_auction_loop [OF s1(1) listed_nodes [OF assms(1-4)]], unfold append.simps prod.case wp_bind fated_def [symmetric]
        listed_printed [OF assms(1-3) sub] go_must_simps wp_return batch_swap_def)
      (rule wp_write_auctions [OF assms(1-3) s1 sched refl])
qed

lemma wp_converge_auctions:
  assumes "inv s" and "slack s = 0" and wf: "schema_wf (look s)" and sched: "\<And>zs. mset (sched zs) = mset zs"
  shows "wp (converge_auctions A sched B kick expire)
    (\<lambda>_ s'. inv s' \<and> slack s' = 0 \<and> auctions_converged A r t0 kick expire (look s) (look s')) s"
proof -
  have roots: "r \<in> root_names" using in_roots by (auto simp: lrp_roots_def)
  have clean: "clean (v1 r)" using roots by simp
  have four: "length (v1 r) + 2 = 4" by simp
  show ?thesis
  proof (cases "look s (v1 r) = None")
    case True
    have above: "no_leaf_above (look s) (v1 r)" using schema_above [OF wf depth, of "[]"] by simp
    have "listed (look s) []"
      using look_dir [OF assms(1), of _ "v1 r"] True by (fastforce simp: listed_def strict_prefix_def)
    then have none: "listed (look s) []" "list_all2 (\<lambda>p c. tree_of (look s) p c) [] (grand zero_node)"
      by (simp_all add: grand_def zero_node_def)
    show ?thesis
      unfolding converge_auctions_def root wp_bind [of "sa_ListRecursively _ _"]
    proof (rule wp_List_none [OF assms(1) clean True above assms(2)], goal_cases)
      case (1 s1)
      show ?case using wp_converge_listed [OF assms(1) wf none 1(1,3,2), of sched] sched by simp
    qed
  next
    case False
    then have dir: "look s (v1 r) = Some DirE"
      using schema_wfD(1) [OF wf depth, of "[]"] by (cases "look s (v1 r)") (auto simp: is_leaf_def intro: entry.exhaust)
    show ?thesis
      unfolding converge_auctions_def root wp_bind [of "sa_ListRecursively _ _"]
    proof (rule wp_List_dir [OF assms(1) clean dir assms(2)], goal_cases)
      case (1 n s1)
      obtain ps where "listed (look s) ps" "list_all2 (\<lambda>p c. tree_of (look s) p c) ps (grand n)"
        using descend_tree [where k = 2, OF _ 1(4)] look_dir [OF assms(1)]
        unfolding descend_loops(2) [symmetric] four listed_def by blast
      then show ?case using wp_converge_listed [OF assms(1) wf _ _ 1(1,3,2), of ps "grand n" sched] sched by simp
    qed
  qed
qed

end

end
