(* ===== verification/StartAuctionBbs.thy ===== *)
theory StartAuctionBbs
  imports Auction
begin

text \<open>
  runtime-schema/bbs/start_auction_bbs: the auctions that place a new instance
  (start_auction.go) and their convergence (lrp_start_auction_convergence.go).
\<close>

section \<open>Life cycle\<close>

text \<open>The callback assigns the captured auction, but both fields are set again at every attempt.\<close>

definition RequestLRPStartAuction :: "'s bbs \<Rightarrow> lrp_start_auction \<Rightarrow> ('s, error option) go" where
  "RequestLRPStartAuction bbs lrp =
     Retry (go_bind (bbs_clock bbs) (\<lambda>t.
       let lrp = lrp\<lparr>sta_State := LRPStartAuctionStatePending, sta_UpdatedAt := UnixNano t\<rparr> in
       go_bind (go_must (LRPStartAuction_ToJSON lrp))
         (\<lambda>value. sa_Create (bbs_store bbs) (leaf_node (LRPStartAuctionSchemaPath lrp) value 0))))"

definition ClaimLRPStartAuction :: "'s bbs \<Rightarrow> lrp_start_auction \<Rightarrow> ('s, error option) go" where
  "ClaimLRPStartAuction bbs lrp =
     go_bind (go_must (LRPStartAuction_ToJSON lrp)) (\<lambda>originalValue.
     go_bind (bbs_clock bbs) (\<lambda>t.
     let lrp = lrp\<lparr>sta_State := LRPStartAuctionStateClaimed, sta_UpdatedAt := UnixNano t\<rparr> in
     go_bind (go_must (LRPStartAuction_ToJSON lrp)) (\<lambda>changedValue.
       Retry (sa_CompareAndSwap (bbs_store bbs) (leaf_node (LRPStartAuctionSchemaPath lrp) originalValue 0)
         (leaf_node (LRPStartAuctionSchemaPath lrp) changedValue 0)))))"

definition ResolveLRPStartAuction :: "'s bbs \<Rightarrow> lrp_start_auction \<Rightarrow> ('s, error option) go" where
  "ResolveLRPStartAuction s lrp = Retry (sa_Delete (bbs_store s) [LRPStartAuctionSchemaPath lrp])"

definition GetAllLRPStartAuctions :: "'s bbs \<Rightarrow> ('s, lrp_start_auction list \<times> error option) go" where
  "GetAllLRPStartAuctions bbs =
     get_all bbs LRPStartAuctionSchemaRoot (\<lambda>node. parse_nodes NewLRPStartAuctionFromJSON (\<lambda>_. True) (grand node) [])"

section \<open>Convergence\<close>

record compareAndSwappableLRPStartAuction =
  csta_OldIndex :: nat
  csta_NewLRPStartAuction :: lrp_start_auction

definition converge_start_auction ::
  "'s bbs \<Rightarrow> duration \<Rightarrow> duration \<Rightarrow> store_node
   \<Rightarrow> string list \<times> compareAndSwappableLRPStartAuction list \<Rightarrow> ('s, string list \<times> compareAndSwappableLRPStartAuction list) go" where
  "converge_start_auction bbs kickPendingDuration expireClaimedDuration node = (\<lambda>(keysToDelete, auctionsToCAS).
     (case NewLRPStartAuctionFromJSON (sn_Value node) of
        Panic \<Rightarrow> go_panic
      | Err _ \<Rightarrow> go_return (keysToDelete @ [sn_Key node], auctionsToCAS)
      | Ok auction \<Rightarrow>
          if sta_State auction = LRPStartAuctionStatePending then
            go_bind (bbs_clock bbs) (\<lambda>t. go_return (keysToDelete,
              if time_Sub t (sta_UpdatedAt auction) > kickPendingDuration
              then auctionsToCAS @ [\<lparr>csta_OldIndex = sn_Index node, csta_NewLRPStartAuction = auction\<rparr>]
              else auctionsToCAS))
          else if sta_State auction = LRPStartAuctionStateClaimed then
            go_bind (bbs_clock bbs) (\<lambda>t. go_return (
              if time_Sub t (sta_UpdatedAt auction) > expireClaimedDuration
              then keysToDelete @ [sn_Key node] else keysToDelete, auctionsToCAS))
          else go_return (keysToDelete, auctionsToCAS)))"

definition batchCompareAndSwapLRPStartAuctions ::
  "sched \<Rightarrow> 's bbs \<Rightarrow> compareAndSwappableLRPStartAuction list \<Rightarrow> ('s, unit) go" where
  "batchCompareAndSwapLRPStartAuctions sched bbs auctionsToCAS =
     go_bind (go_must (those (map (\<lambda>c. map_option (\<lambda>value. (csta_OldIndex c,
           leaf_node (LRPStartAuctionSchemaPath (csta_NewLRPStartAuction c)) value 0))
         (LRPStartAuction_ToJSON (csta_NewLRPStartAuction c))) auctionsToCAS)))
       (batch_swap sched bbs)"

definition ConvergeLRPStartAuctions :: "sched \<Rightarrow> 's bbs \<Rightarrow> duration \<Rightarrow> duration \<Rightarrow> ('s, unit) go" where
  "ConvergeLRPStartAuctions sched bbs kickPendingDuration expireClaimedDuration =
     go_bind (sa_ListRecursively (bbs_store bbs) LRPStartAuctionSchemaRoot) (\<lambda>(node, err).
       if err \<noteq> None \<and> err \<noteq> Some ErrorKeyNotFound then go_return ()
       else go_bind (go_fold (converge_start_auction bbs kickPendingDuration expireClaimedDuration) (grand node) ([], []))
         (\<lambda>(keysToDelete, auctionsToCAS).
            go_bind (sa_Delete (bbs_store bbs) keysToDelete) (\<lambda>_.
              batchCompareAndSwapLRPStartAuctions sched bbs auctionsToCAS)))"

section \<open>As an auction\<close>

definition start_auction :: "lrp_start_auction auction" where
  "start_auction = \<lparr>au_root = LRPStartAuctionSchemaRoot, au_fromJSON = NewLRPStartAuctionFromJSON,
     au_toJSON = LRPStartAuction_ToJSON, au_path = LRPStartAuctionSchemaPath, au_State = sta_State, au_UpdatedAt = sta_UpdatedAt,
     au_stamp = (\<lambda>state t lrp. lrp\<lparr>sta_State := state, sta_UpdatedAt := t\<rparr>)\<rparr>"

lemma start_auction_operations:
  "RequestLRPStartAuction bbs lrp = request_auction start_auction bbs lrp"
  "ClaimLRPStartAuction bbs lrp = claim_auction start_auction bbs lrp"
  "ResolveLRPStartAuction bbs lrp = resolve_auction start_auction bbs lrp"
  by (simp_all add: RequestLRPStartAuction_def request_auction_def ClaimLRPStartAuction_def claim_auction_def
      ResolveLRPStartAuction_def resolve_auction_def start_auction_def Let_def)

section \<open>The laws of an auction\<close>

lemma read_empty_start: "NewLRPStartAuctionFromJSON [] = Err JSONSyntaxError"
  by code_simp

interpretation start: auction_laws start_auction "''start''" "\<lambda>a. [desired_ProcessGuid (sta_DesiredLRP a), Itoa (sta_Index a)]" start_auction_ok
proof (unfold_locales, goal_cases)
  case (5 a)
  then show ?case by (simp add: start_auction_def schema_paths(3))
next
  case (6 a)
  then obtain v where "LRPStartAuction_ToJSON a = Some v" "NewLRPStartAuctionFromJSON v = Ok a" using start_auction_roundtrip by blast
  then show ?case using read_empty_start by (auto simp: start_auction_def)
next
  case (7 es v)
  then show ?case by (simp add: start_auction_def entry_ok_def)
qed (auto simp: start_auction_def start_auction_ok_def int64_ok_def)

text \<open>The convergence of the code is the shared one, its records of swaps read as pairs.\<close>

lemma Converge_start:
  "ConvergeLRPStartAuctions sched bbs kick expire = converge_auctions start_auction sched bbs kick expire"
proof -
  define g where "g = (\<lambda>(keys :: string list, cas). (keys, map (\<lambda>(j, a). \<lparr>csta_OldIndex = j, csta_NewLRPStartAuction = a\<rparr>) cas))"
  have step: "converge_start_auction bbs kick expire n (g acc) =
      go_bind (converge_auction start_auction bbs kick expire n acc) (\<lambda>acc. go_return (g acc))" for n acc
    by (cases acc; cases "NewLRPStartAuctionFromJSON (sn_Value n)")
      (simp_all add: g_def converge_start_auction_def converge_auction_def start_auction_def go_bind_assoc if_distrib [of "map f" for f] cong: if_cong)
  have "go_fold (converge_start_auction bbs kick expire) ns ([], []) =
      go_bind (go_fold (converge_auction start_auction bbs kick expire) ns ([], [])) (\<lambda>acc. go_return (g acc))" for ns
    using go_fold_map [of "converge_start_auction bbs kick expire" g "converge_auction start_auction bbs kick expire" ns "([], [])"] step
    by (simp add: g_def)
  moreover have "map (\<lambda>c. map_option (\<lambda>value. (csta_OldIndex c, leaf_node (LRPStartAuctionSchemaPath (csta_NewLRPStartAuction c)) value 0))
      (LRPStartAuction_ToJSON (csta_NewLRPStartAuction c))) (snd (g acc)) =
    map (\<lambda>(j, a). map_option (\<lambda>value. (j, leaf_node (au_path start_auction a) value 0)) (au_toJSON start_auction a)) (snd acc)" for acc
    by (cases acc) (auto simp: g_def start_auction_def)
  moreover have "fst (g acc) = fst acc" for acc by (cases acc) (simp add: g_def)
  ultimately show ?thesis
    unfolding ConvergeLRPStartAuctions_def converge_auctions_def batchCompareAndSwapLRPStartAuctions_def
    by (simp add: start_auction_def [THEN arg_cong [of _ _ au_root]] go_bind_assoc case_prod_unfold cong: if_cong)
qed

end
