(* ===== verification/StopAuctionBbs.thy ===== *)
theory StopAuctionBbs
  imports Auction
begin

text \<open>
  runtime-schema/bbs/stop_auction_bbs: the auctions that thin out an index with several instances
  (stop_auction.go) and their convergence (lrp_stop_auction_convergence.go).
\<close>

section \<open>Life cycle\<close>

text \<open>The callback assigns the captured auction, but both fields are set again at every attempt.\<close>

definition RequestLRPStopAuction :: "'s bbs \<Rightarrow> lrp_stop_auction \<Rightarrow> ('s, error option) go" where
  "RequestLRPStopAuction bbs lrp =
     Retry (go_bind (bbs_clock bbs) (\<lambda>t.
       let lrp = lrp\<lparr>spa_State := LRPStopAuctionStatePending, spa_UpdatedAt := UnixNano t\<rparr> in
       go_bind (go_must (LRPStopAuction_ToJSON lrp))
         (\<lambda>value. sa_Create (bbs_store bbs) (leaf_node (LRPStopAuctionSchemaPath lrp) value 0))))"

definition ClaimLRPStopAuction :: "'s bbs \<Rightarrow> lrp_stop_auction \<Rightarrow> ('s, error option) go" where
  "ClaimLRPStopAuction bbs lrp =
     go_bind (go_must (LRPStopAuction_ToJSON lrp)) (\<lambda>originalValue.
     go_bind (bbs_clock bbs) (\<lambda>t.
     let lrp = lrp\<lparr>spa_State := LRPStopAuctionStateClaimed, spa_UpdatedAt := UnixNano t\<rparr> in
     go_bind (go_must (LRPStopAuction_ToJSON lrp)) (\<lambda>changedValue.
       Retry (sa_CompareAndSwap (bbs_store bbs) (leaf_node (LRPStopAuctionSchemaPath lrp) originalValue 0)
         (leaf_node (LRPStopAuctionSchemaPath lrp) changedValue 0)))))"

definition ResolveLRPStopAuction :: "'s bbs \<Rightarrow> lrp_stop_auction \<Rightarrow> ('s, error option) go" where
  "ResolveLRPStopAuction s lrp = Retry (sa_Delete (bbs_store s) [LRPStopAuctionSchemaPath lrp])"

definition GetAllLRPStopAuctions :: "'s bbs \<Rightarrow> ('s, lrp_stop_auction list \<times> error option) go" where
  "GetAllLRPStopAuctions bbs =
     get_all bbs LRPStopAuctionSchemaRoot (\<lambda>node. parse_nodes NewLRPStopAuctionFromJSON (\<lambda>_. True) (grand node) [])"

section \<open>Convergence\<close>

record compareAndSwappableLRPStopAuction =
  cspa_OldIndex :: nat
  cspa_NewLRPStopAuction :: lrp_stop_auction

definition converge_stop_auction ::
  "'s bbs \<Rightarrow> duration \<Rightarrow> duration \<Rightarrow> store_node
   \<Rightarrow> string list \<times> compareAndSwappableLRPStopAuction list \<Rightarrow> ('s, string list \<times> compareAndSwappableLRPStopAuction list) go" where
  "converge_stop_auction bbs kickPendingDuration expireClaimedDuration node = (\<lambda>(keysToDelete, auctionsToCAS).
     (case NewLRPStopAuctionFromJSON (sn_Value node) of
        Panic \<Rightarrow> go_panic
      | Err _ \<Rightarrow> go_return (keysToDelete @ [sn_Key node], auctionsToCAS)
      | Ok auction \<Rightarrow>
          if spa_State auction = LRPStopAuctionStatePending then
            go_bind (bbs_clock bbs) (\<lambda>t. go_return (keysToDelete,
              if time_Sub t (spa_UpdatedAt auction) > kickPendingDuration
              then auctionsToCAS @ [\<lparr>cspa_OldIndex = sn_Index node, cspa_NewLRPStopAuction = auction\<rparr>]
              else auctionsToCAS))
          else if spa_State auction = LRPStopAuctionStateClaimed then
            go_bind (bbs_clock bbs) (\<lambda>t. go_return (
              if time_Sub t (spa_UpdatedAt auction) > expireClaimedDuration
              then keysToDelete @ [sn_Key node] else keysToDelete, auctionsToCAS))
          else go_return (keysToDelete, auctionsToCAS)))"

definition batchCompareAndSwapLRPStopAuctions ::
  "sched \<Rightarrow> 's bbs \<Rightarrow> compareAndSwappableLRPStopAuction list \<Rightarrow> ('s, unit) go" where
  "batchCompareAndSwapLRPStopAuctions sched bbs auctionsToCAS =
     go_bind (go_must (those (map (\<lambda>c. map_option (\<lambda>value. (cspa_OldIndex c,
           leaf_node (LRPStopAuctionSchemaPath (cspa_NewLRPStopAuction c)) value 0))
         (LRPStopAuction_ToJSON (cspa_NewLRPStopAuction c))) auctionsToCAS)))
       (batch_swap sched bbs)"

definition ConvergeLRPStopAuctions :: "sched \<Rightarrow> 's bbs \<Rightarrow> duration \<Rightarrow> duration \<Rightarrow> ('s, unit) go" where
  "ConvergeLRPStopAuctions sched bbs kickPendingDuration expireClaimedDuration =
     go_bind (sa_ListRecursively (bbs_store bbs) LRPStopAuctionSchemaRoot) (\<lambda>(node, err).
       if err \<noteq> None \<and> err \<noteq> Some ErrorKeyNotFound then go_return ()
       else go_bind (go_fold (converge_stop_auction bbs kickPendingDuration expireClaimedDuration) (grand node) ([], []))
         (\<lambda>(keysToDelete, auctionsToCAS).
            go_bind (sa_Delete (bbs_store bbs) keysToDelete) (\<lambda>_.
              batchCompareAndSwapLRPStopAuctions sched bbs auctionsToCAS)))"

section \<open>As an auction\<close>

definition stop_auction :: "lrp_stop_auction auction" where
  "stop_auction = \<lparr>au_root = LRPStopAuctionSchemaRoot, au_fromJSON = NewLRPStopAuctionFromJSON,
     au_toJSON = LRPStopAuction_ToJSON, au_path = LRPStopAuctionSchemaPath, au_State = spa_State, au_UpdatedAt = spa_UpdatedAt,
     au_stamp = (\<lambda>state t lrp. lrp\<lparr>spa_State := state, spa_UpdatedAt := t\<rparr>)\<rparr>"

lemma stop_auction_operations:
  "RequestLRPStopAuction bbs lrp = request_auction stop_auction bbs lrp"
  "ClaimLRPStopAuction bbs lrp = claim_auction stop_auction bbs lrp"
  "ResolveLRPStopAuction bbs lrp = resolve_auction stop_auction bbs lrp"
  by (simp_all add: RequestLRPStopAuction_def request_auction_def ClaimLRPStopAuction_def claim_auction_def
      ResolveLRPStopAuction_def resolve_auction_def stop_auction_def Let_def)

section \<open>The laws of an auction\<close>

lemma read_empty_stop: "NewLRPStopAuctionFromJSON [] = Err JSONSyntaxError"
  by code_simp

interpretation stop: auction_laws stop_auction "''stop''" "\<lambda>a. [spa_ProcessGuid a, Itoa (spa_Index a)]" stop_auction_ok
proof (unfold_locales, goal_cases)
  case (5 a)
  then show ?case by (simp add: stop_auction_def schema_paths(4))
next
  case (6 a)
  then obtain v where "LRPStopAuction_ToJSON a = Some v" "NewLRPStopAuctionFromJSON v = Ok a" using stop_auction_roundtrip by blast
  then show ?case using read_empty_stop by (auto simp: stop_auction_def)
next
  case (7 es v)
  then show ?case by (simp add: stop_auction_def entry_ok_def)
qed (auto simp: stop_auction_def stop_auction_ok_def int64_ok_def)

text \<open>The convergence of the code is the shared one, its records of swaps read as pairs.\<close>

lemma Converge_stop:
  "ConvergeLRPStopAuctions sched bbs kick expire = converge_auctions stop_auction sched bbs kick expire"
proof -
  define g where "g = (\<lambda>(keys :: string list, cas). (keys, map (\<lambda>(j, a). \<lparr>cspa_OldIndex = j, cspa_NewLRPStopAuction = a\<rparr>) cas))"
  have step: "converge_stop_auction bbs kick expire n (g acc) =
      go_bind (converge_auction stop_auction bbs kick expire n acc) (\<lambda>acc. go_return (g acc))" for n acc
    by (cases acc; cases "NewLRPStopAuctionFromJSON (sn_Value n)")
      (simp_all add: g_def converge_stop_auction_def converge_auction_def stop_auction_def go_bind_assoc if_distrib [of "map f" for f] cong: if_cong)
  have "go_fold (converge_stop_auction bbs kick expire) ns ([], []) =
      go_bind (go_fold (converge_auction stop_auction bbs kick expire) ns ([], [])) (\<lambda>acc. go_return (g acc))" for ns
    using go_fold_map [of "converge_stop_auction bbs kick expire" g "converge_auction stop_auction bbs kick expire" ns "([], [])"] step
    by (simp add: g_def)
  moreover have "map (\<lambda>c. map_option (\<lambda>value. (cspa_OldIndex c, leaf_node (LRPStopAuctionSchemaPath (cspa_NewLRPStopAuction c)) value 0))
      (LRPStopAuction_ToJSON (cspa_NewLRPStopAuction c))) (snd (g acc)) =
    map (\<lambda>(j, a). map_option (\<lambda>value. (j, leaf_node (au_path stop_auction a) value 0)) (au_toJSON stop_auction a)) (snd acc)" for acc
    by (cases acc) (auto simp: g_def stop_auction_def)
  moreover have "fst (g acc) = fst acc" for acc by (cases acc) (simp add: g_def)
  ultimately show ?thesis
    unfolding ConvergeLRPStopAuctions_def converge_auctions_def batchCompareAndSwapLRPStopAuctions_def
    by (simp add: stop_auction_def [THEN arg_cong [of _ _ au_root]] go_bind_assoc case_prod_unfold cong: if_cong)
qed

end
