(* ===== verification/EtcdClient.thy ===== *)
theory EtcdClient
  imports StoreAdapter
begin

text \<open>
  coreos/go-etcd: how the client turns its operations into requests (options.go, requests.go and the
  files of the operations). Sending a request to the cluster is a parameter: \<open>send\<close> answers a request
  with the decoded response or with the decoded error.
\<close>

section \<open>Requests and responses\<close>

datatype optval = OStr string | OUint nat | OBool bool
datatype optkind = KStr | KUint | KBool

text \<open>\<open>Options\<close> is a map: a list with one entry per key.\<close>

type_synonym options = "(string \<times> optval) list"

record etcd_request =
  rq_Method :: string
  rq_Path :: string
  rq_Params :: "(string \<times> string) list"
  rq_Values :: "(string \<times> string) list"

datatype etcd_node =
  EtcdNode (en_Key: string) (en_Value: string) (en_Dir: bool) (en_TTL: int) (en_Nodes: "etcd_node list")
    (en_ModifiedIndex: nat) (en_CreatedIndex: nat)

record etcd_response =
  er_Action :: string
  er_Node :: "etcd_node option"
  er_PrevNode :: "etcd_node option"

type_synonym 's transport = "etcd_request \<Rightarrow> ('s, error + etcd_response) go"

record 's etcd_client =
  ec_send :: "'s transport"
  ec_strong :: bool

section \<open>Building requests\<close>

definition VALID_GET_OPTIONS :: "(string \<times> optkind) list" where
  "VALID_GET_OPTIONS = [(''recursive'', KBool), (''consistent'', KBool), (''sorted'', KBool), (''wait'', KBool),
     (''waitIndex'', KUint)]"

definition VALID_PUT_OPTIONS :: "(string \<times> optkind) list" where
  "VALID_PUT_OPTIONS = [(''prevValue'', KStr), (''prevIndex'', KUint), (''prevExist'', KBool), (''dir'', KBool)]"

definition VALID_DELETE_OPTIONS :: "(string \<times> optkind) list" where
  "VALID_DELETE_OPTIONS = [(''recursive'', KBool), (''dir'', KBool), (''prevValue'', KStr), (''prevIndex'', KUint)]"

fun kind_of :: "optval \<Rightarrow> optkind" where
  "kind_of (OStr s) = KStr" | "kind_of (OUint n) = KUint" | "kind_of (OBool b) = KBool"

text \<open>\<open>fmt.Sprintf("%v", v)\<close>\<close>

fun show_opt :: "optval \<Rightarrow> string" where
  "show_opt (OStr s) = s"
| "show_opt (OUint n) = nat_digits n"
| "show_opt (OBool b) = (if b then ''true'' else ''false'')"

text \<open>
  \<open>toParameters\<close>: the parameters before their URL encoding. \<open>None\<close> is the nil map.
\<close>

fun check_options :: "(string \<times> optkind) list \<Rightarrow> options \<Rightarrow> error + (string \<times> string) list" where
  "check_options valid [] = Inr []"
| "check_options valid ((k, v) # ops) =
     (case map_of valid k of
        None \<Rightarrow> Inl (Errorf ''Invalid option: %v'' [k] None)
      | Some kind \<Rightarrow>
          if kind \<noteq> kind_of v then Inl (Errorf ''Option %s should be of %v kind, not of %v kind.'' [k] None)
          else (case check_options valid ops of
                  Inl e \<Rightarrow> Inl e
                | Inr ps \<Rightarrow> Inr ((k, show_opt v) # ps)))"

definition toParameters :: "options option \<Rightarrow> (string \<times> optkind) list \<Rightarrow> error + (string \<times> string) list" where
  "toParameters ops validOps = (case ops of None \<Rightarrow> Inr [] | Some l \<Rightarrow> check_options validOps l)"

definition buildValues :: "string \<Rightarrow> nat \<Rightarrow> (string \<times> string) list" where
  "buildValues v ttl = (if v \<noteq> [] then [(''value'', v)] else []) @ (if ttl > 0 then [(''ttl'', nat_digits ttl)] else [])"

definition keyToPath :: "string \<Rightarrow> string" where
  "keyToPath key = (let p = path_Join [''keys'', key] in if p = ''keys'' then ''keys/'' else p)"

definition etcd_send ::
  "'s etcd_client \<Rightarrow> string \<Rightarrow> string \<Rightarrow> error + (string \<times> string) list \<Rightarrow> (string \<times> string) list
   \<Rightarrow> ('s, error + etcd_response) go" where
  "etcd_send c verb key ps vs =
     (case ps of
        Inl e \<Rightarrow> go_return (Inl e)
      | Inr params \<Rightarrow> ec_send c \<lparr>rq_Method = verb, rq_Path = keyToPath key, rq_Params = params, rq_Values = vs\<rparr>)"

definition etcd_get :: "'s etcd_client \<Rightarrow> string \<Rightarrow> options \<Rightarrow> ('s, error + etcd_response) go" where
  "etcd_get c key ops =
     etcd_send c ''GET'' key
       (toParameters (Some (ops @ (if ec_strong c then [(''consistent'', OBool True)] else []))) VALID_GET_OPTIONS) []"

definition etcd_put :: "'s etcd_client \<Rightarrow> string \<Rightarrow> string \<Rightarrow> nat \<Rightarrow> options option \<Rightarrow> ('s, error + etcd_response) go" where
  "etcd_put c key v ttl ops = etcd_send c ''PUT'' key (toParameters ops VALID_PUT_OPTIONS) (buildValues v ttl)"

definition etcd_post :: "'s etcd_client \<Rightarrow> string \<Rightarrow> string \<Rightarrow> nat \<Rightarrow> ('s, error + etcd_response) go" where
  "etcd_post c key v ttl = etcd_send c ''POST'' key (Inr []) (buildValues v ttl)"

definition etcd_delete :: "'s etcd_client \<Rightarrow> string \<Rightarrow> options \<Rightarrow> ('s, error + etcd_response) go" where
  "etcd_delete c key ops = etcd_send c ''DELETE'' key (toParameters (Some ops) VALID_DELETE_OPTIONS) []"

section \<open>Operations\<close>

definition client_Get :: "'s etcd_client \<Rightarrow> string \<Rightarrow> bool \<Rightarrow> bool \<Rightarrow> ('s, error + etcd_response) go" where
  "client_Get c key srt recursive = etcd_get c key [(''recursive'', OBool recursive), (''sorted'', OBool srt)]"

definition client_Set :: "'s etcd_client \<Rightarrow> string \<Rightarrow> string \<Rightarrow> nat \<Rightarrow> ('s, error + etcd_response) go" where
  "client_Set c key v ttl = etcd_put c key v ttl None"

definition client_SetDir :: "'s etcd_client \<Rightarrow> string \<Rightarrow> nat \<Rightarrow> ('s, error + etcd_response) go" where
  "client_SetDir c key ttl = etcd_put c key [] ttl (Some [(''dir'', OBool True)])"

definition client_CreateDir :: "'s etcd_client \<Rightarrow> string \<Rightarrow> nat \<Rightarrow> ('s, error + etcd_response) go" where
  "client_CreateDir c key ttl = etcd_put c key [] ttl (Some [(''prevExist'', OBool False), (''dir'', OBool True)])"

definition client_UpdateDir :: "'s etcd_client \<Rightarrow> string \<Rightarrow> nat \<Rightarrow> ('s, error + etcd_response) go" where
  "client_UpdateDir c key ttl = etcd_put c key [] ttl (Some [(''prevExist'', OBool True), (''dir'', OBool True)])"

definition client_Create :: "'s etcd_client \<Rightarrow> string \<Rightarrow> string \<Rightarrow> nat \<Rightarrow> ('s, error + etcd_response) go" where
  "client_Create c key v ttl = etcd_put c key v ttl (Some [(''prevExist'', OBool False)])"

definition client_CreateInOrder :: "'s etcd_client \<Rightarrow> string \<Rightarrow> string \<Rightarrow> nat \<Rightarrow> ('s, error + etcd_response) go" where
  "client_CreateInOrder c dir v ttl = etcd_post c dir v ttl"

definition client_AddChildDir :: "'s etcd_client \<Rightarrow> string \<Rightarrow> nat \<Rightarrow> ('s, error + etcd_response) go" where
  "client_AddChildDir c key ttl = etcd_post c key [] ttl"

definition client_AddChild :: "'s etcd_client \<Rightarrow> string \<Rightarrow> string \<Rightarrow> nat \<Rightarrow> ('s, error + etcd_response) go" where
  "client_AddChild c key v ttl = etcd_post c key v ttl"

definition client_Update :: "'s etcd_client \<Rightarrow> string \<Rightarrow> string \<Rightarrow> nat \<Rightarrow> ('s, error + etcd_response) go" where
  "client_Update c key v ttl = etcd_put c key v ttl (Some [(''prevExist'', OBool True)])"

definition prev_options :: "string \<Rightarrow> nat \<Rightarrow> options" where
  "prev_options prevValue prevIndex =
     (if prevValue \<noteq> [] then [(''prevValue'', OStr prevValue)] else []) @
     (if prevIndex \<noteq> 0 then [(''prevIndex'', OUint prevIndex)] else [])"

definition client_CompareAndSwap ::
  "'s etcd_client \<Rightarrow> string \<Rightarrow> string \<Rightarrow> nat \<Rightarrow> string \<Rightarrow> nat \<Rightarrow> ('s, error + etcd_response) go" where
  "client_CompareAndSwap c key v ttl prevValue prevIndex =
     (if prevValue = [] \<and> prevIndex = 0
      then go_return (Inl (Errorf ''You must give either prevValue or prevIndex.'' [] None))
      else etcd_put c key v ttl (Some (prev_options prevValue prevIndex)))"

definition client_CompareAndDelete ::
  "'s etcd_client \<Rightarrow> string \<Rightarrow> string \<Rightarrow> nat \<Rightarrow> ('s, error + etcd_response) go" where
  "client_CompareAndDelete c key prevValue prevIndex =
     (if prevValue = [] \<and> prevIndex = 0
      then go_return (Inl (Errorf ''You must give either prevValue or prevIndex.'' [] None))
      else etcd_delete c key (prev_options prevValue prevIndex))"

definition client_Delete :: "'s etcd_client \<Rightarrow> string \<Rightarrow> bool \<Rightarrow> ('s, error + etcd_response) go" where
  "client_Delete c key recursive = etcd_delete c key [(''recursive'', OBool recursive), (''dir'', OBool False)]"

definition client_DeleteDir :: "'s etcd_client \<Rightarrow> string \<Rightarrow> ('s, error + etcd_response) go" where
  "client_DeleteDir c key = etcd_delete c key [(''recursive'', OBool False), (''dir'', OBool True)]"

text \<open>\<open>watchOnce\<close>, the wait request of \<open>Watch\<close> with a nil receiver.\<close>

definition client_watchOnce :: "'s etcd_client \<Rightarrow> string \<Rightarrow> nat \<Rightarrow> bool \<Rightarrow> ('s, error + etcd_response) go" where
  "client_watchOnce c key waitIndex recursive =
     go_bind (etcd_get c key ([(''wait'', OBool True)]
       @ (if waitIndex > 0 then [(''waitIndex'', OUint waitIndex)] else [])
       @ (if recursive then [(''recursive'', OBool True)] else [])))
     (\<lambda>resp. go_return (if resp = Inl ErrRequestCancelled then Inl ErrWatchStoppedByUser else resp))"

section \<open>The requests\<close>

lemma check_options_ok:
  "\<forall>(k, v) \<in> set ops. map_of valid k = Some (kind_of v) \<Longrightarrow>
   check_options valid ops = Inr (map (\<lambda>(k, v). (k, show_opt v)) ops)"
  by (induction ops) auto

lemma check_options_bad:
  "(k, v) \<in> set ops \<Longrightarrow> map_of valid k \<noteq> Some (kind_of v) \<Longrightarrow> \<exists>e. check_options valid ops = Inl e"
  by (induction ops) (auto split: option.splits sum.splits)

lemma show_opt_inj: "kind_of v = kind_of w \<Longrightarrow> show_opt v = show_opt w \<Longrightarrow> v = w"
  by (cases v; cases w) (auto dest: nat_digits_inj split: if_splits)

text \<open>Every operation sends one request, with valid options; two clauses of the source refuse to send any.\<close>

lemmas client_defs = client_Get_def client_Set_def client_SetDir_def client_CreateDir_def client_UpdateDir_def
  client_Create_def client_Update_def client_Delete_def client_DeleteDir_def etcd_get_def etcd_put_def
  etcd_delete_def etcd_send_def toParameters_def VALID_GET_OPTIONS_def VALID_PUT_OPTIONS_def VALID_DELETE_OPTIONS_def

lemma client_requests:
  "client_Get c key srt rec = ec_send c \<lparr>rq_Method = ''GET'', rq_Path = keyToPath key,
     rq_Params = [(''recursive'', show_opt (OBool rec)), (''sorted'', show_opt (OBool srt))]
       @ (if ec_strong c then [(''consistent'', ''true'')] else []), rq_Values = []\<rparr>"
  "client_Set c key v ttl = ec_send c \<lparr>rq_Method = ''PUT'', rq_Path = keyToPath key, rq_Params = [],
     rq_Values = buildValues v ttl\<rparr>"
  "client_Create c key v ttl = ec_send c \<lparr>rq_Method = ''PUT'', rq_Path = keyToPath key,
     rq_Params = [(''prevExist'', ''false'')], rq_Values = buildValues v ttl\<rparr>"
  "client_Update c key v ttl = ec_send c \<lparr>rq_Method = ''PUT'', rq_Path = keyToPath key,
     rq_Params = [(''prevExist'', ''true'')], rq_Values = buildValues v ttl\<rparr>"
  "client_Delete c key rec = ec_send c \<lparr>rq_Method = ''DELETE'', rq_Path = keyToPath key,
     rq_Params = [(''recursive'', show_opt (OBool rec)), (''dir'', ''false'')], rq_Values = []\<rparr>"
  by (simp_all add: client_defs)

lemma client_prev_requests:
  "prev \<noteq> [] \<Longrightarrow> client_CompareAndSwap c key v ttl prev 0 = ec_send c \<lparr>rq_Method = ''PUT'', rq_Path = keyToPath key,
     rq_Params = [(''prevValue'', prev)], rq_Values = buildValues v ttl\<rparr>"
  "idx \<noteq> 0 \<Longrightarrow> client_CompareAndSwap c key v ttl [] idx = ec_send c \<lparr>rq_Method = ''PUT'', rq_Path = keyToPath key,
     rq_Params = [(''prevIndex'', nat_digits idx)], rq_Values = buildValues v ttl\<rparr>"
  "prev \<noteq> [] \<Longrightarrow> client_CompareAndDelete c key prev 0 = ec_send c \<lparr>rq_Method = ''DELETE'', rq_Path = keyToPath key,
     rq_Params = [(''prevValue'', prev)], rq_Values = []\<rparr>"
  by (simp_all add: client_CompareAndSwap_def client_CompareAndDelete_def prev_options_def client_defs)

lemma keyToPath_abs: "clean es \<Longrightarrow> keyToPath (abs_path es) = ''keys'' @ abs_path es"
proof -
  assume c: "clean es"
  then have es: "es \<noteq> []" "\<forall>e \<in> set es. simple_elem e" by (auto simp: clean_def)
  have "strings_Split slash (''keys'' @ slash # abs_path es) = ''keys'' # [] # es"
    using es strings_Split_Join [of es slash]
    by (subst strings_Split_append) (auto simp: abs_path_def simple_elem_def)
  moreover have "clean_elems False [] (''keys'' # [] # es) = ''keys'' # es"
    using clean_elems_simple [OF es(2), of False "[''keys'']"] by simp
  moreover have "strings_Join [slash] (''keys'' # es) = ''keys'' @ abs_path es"
    using es(1) by (simp add: strings_Join_Cons abs_path_def)
  ultimately show ?thesis by (simp add: keyToPath_def path_Clean_def abs_path_def)
qed

end
