(* ===== verification/EtcdAdapter.thy ===== *)
theory EtcdAdapter
  imports EtcdClient Shared
begin

text \<open>
  storeadapter/etcdstoreadapter: the store adapter over an etcd client. The worker pool runs each
  scheduled closure on some worker; an operation that schedules several (\<open>SetMulti\<close>, \<open>Delete\<close>) may
  see them served in any order, the parameter \<open>ea_sched\<close>. Once the pool is stopped nothing runs
  any more, and the operations wait for an answer that never comes.
\<close>

section \<open>The adapter\<close>

record 's etcd_adapter =
  ea_client :: "'s etcd_client"
  ea_stopped :: bool
  ea_sched :: "nat \<Rightarrow> nat list"

text \<open>\<open>ea_sched n\<close> is the order in which \<open>n\<close> closures are served; only their positions matter.\<close>

definition in_order :: "'s etcd_adapter \<Rightarrow> 'a list \<Rightarrow> 'a list" where
  "in_order a xs = map (\<lambda>i. xs ! i) (ea_sched a (length xs))"

text \<open>\<open>ScheduleWork\<close> followed by the wait for its result.\<close>

definition go_hang :: "('s, 'a) go" where
  "go_hang s = None"

definition schedule :: "'s etcd_adapter \<Rightarrow> ('s, 'a) go \<Rightarrow> ('s, 'a) go" where
  "schedule a work = (if ea_stopped a then go_hang else work)"

fun etcdErrorCode :: "error option \<Rightarrow> int" where
  "etcdErrorCode (Some (EtcdError code msg)) = code"
| "etcdErrorCode _ = 0"

definition convertError :: "error option \<Rightarrow> error option" where
  "convertError err =
     (let code = etcdErrorCode err in
      if code = 501 then Some ErrorTimeout
      else if code = 100 then Some ErrorKeyNotFound
      else if code = 102 then Some ErrorNodeIsDirectory
      else if code = 105 then Some ErrorKeyExists
      else if code = 101 then Some ErrorKeyComparisonFailed
      else err)"

definition isEventIndexClearedError :: "error option \<Rightarrow> bool" where
  "isEventIndexClearedError err \<longleftrightarrow> etcdErrorCode err = 401"

text \<open>\<open>uint64\<close> of an \<open>int64\<close>.\<close>

definition u64 :: "int \<Rightarrow> nat" where
  "u64 n = nat (n mod 2 ^ 64)"

text \<open>The error of a response.\<close>

fun resp_err :: "error + etcd_response \<Rightarrow> error option" where
  "resp_err (Inl e) = Some e"
| "resp_err (Inr r) = None"

text \<open>Schedule one operation and convert its error.\<close>

definition run_op :: "'s etcd_adapter \<Rightarrow> ('s, error + etcd_response) go \<Rightarrow> ('s, error option) go" where
  "run_op a work = go_bind (schedule a work) (\<lambda>r. go_return (convertError (resp_err r)))"

text \<open>Schedule one operation per element and keep the first error received.\<close>

definition run_ops :: "'s etcd_adapter \<Rightarrow> ('a \<Rightarrow> ('s, error + etcd_response) go) \<Rightarrow> 'a list \<Rightarrow> ('s, error option) go" where
  "run_ops a work xs =
     go_bind (go_fold (\<lambda>x err. go_bind (schedule a (work x))
         (\<lambda>r. go_return (if err = None then resp_err r else err))) (in_order a xs) None)
       (\<lambda>err. go_return (convertError err))"

section \<open>Operations\<close>

definition ea_SetMulti :: "'s etcd_adapter \<Rightarrow> store_node list \<Rightarrow> ('s, error option) go" where
  "ea_SetMulti a nodes = run_ops a (\<lambda>node. client_Set (ea_client a) (sn_Key node) (sn_Value node) (sn_TTL node)) nodes"

definition ea_Get :: "'s etcd_adapter \<Rightarrow> string \<Rightarrow> ('s, store_node \<times> error option) go" where
  "ea_Get a key =
     go_bind (schedule a (client_Get (ea_client a) key False False)) (\<lambda>r.
       case r of
         Inl e \<Rightarrow> go_return (zero_node, convertError (Some e))
       | Inr response \<Rightarrow>
           (case er_Node response of
              None \<Rightarrow> go_panic
            | Some n \<Rightarrow>
                if en_Dir n then go_return (zero_node, Some ErrorNodeIsDirectory)
                else go_return (StoreNode (en_Key n) (en_Value n) (en_Dir n) (u64 (en_TTL n)) [] (en_ModifiedIndex n), None)))"

fun makeStoreNode :: "etcd_node \<Rightarrow> store_node" where
  "makeStoreNode (EtcdNode key v dir ttl nodes mi ci) =
     (if dir then StoreNode key [] True (u64 ttl) (map makeStoreNode nodes) 0
      else StoreNode key v False (u64 ttl) [] mi)"

definition ea_ListRecursively :: "'s etcd_adapter \<Rightarrow> string \<Rightarrow> ('s, store_node \<times> error option) go" where
  "ea_ListRecursively a key =
     go_bind (schedule a (client_Get (ea_client a) key False True)) (\<lambda>r.
       case r of
         Inl e \<Rightarrow> go_return (zero_node, convertError (Some e))
       | Inr response \<Rightarrow>
           (case er_Node response of
              None \<Rightarrow> go_panic
            | Some n \<Rightarrow>
                if \<not> en_Dir n then go_return (zero_node, Some ErrorNodeIsNotDirectory)
                else if en_Nodes n = [] then go_return (StoreNode key [] True 0 [] 0, None)
                else go_return (makeStoreNode n, None)))"

definition ea_Create :: "'s etcd_adapter \<Rightarrow> store_node \<Rightarrow> ('s, error option) go" where
  "ea_Create a node = run_op a (client_Create (ea_client a) (sn_Key node) (sn_Value node) (sn_TTL node))"

definition ea_Update :: "'s etcd_adapter \<Rightarrow> store_node \<Rightarrow> ('s, error option) go" where
  "ea_Update a node = run_op a (client_Update (ea_client a) (sn_Key node) (sn_Value node) (sn_TTL node))"

definition ea_CompareAndSwap :: "'s etcd_adapter \<Rightarrow> store_node \<Rightarrow> store_node \<Rightarrow> ('s, error option) go" where
  "ea_CompareAndSwap a oldNode newNode =
     run_op a (client_CompareAndSwap (ea_client a) (sn_Key newNode) (sn_Value newNode) (sn_TTL newNode) (sn_Value oldNode) 0)"

definition ea_CompareAndSwapByIndex :: "'s etcd_adapter \<Rightarrow> nat \<Rightarrow> store_node \<Rightarrow> ('s, error option) go" where
  "ea_CompareAndSwapByIndex a oldNodeIndex newNode =
     run_op a (client_CompareAndSwap (ea_client a) (sn_Key newNode) (sn_Value newNode) (sn_TTL newNode) [] oldNodeIndex)"

definition ea_Delete :: "'s etcd_adapter \<Rightarrow> string list \<Rightarrow> ('s, error option) go" where
  "ea_Delete a keys = run_ops a (\<lambda>key. client_Delete (ea_client a) key True) keys"

definition ea_CompareAndDelete :: "'s etcd_adapter \<Rightarrow> store_node \<Rightarrow> ('s, error option) go" where
  "ea_CompareAndDelete a node = run_op a (client_CompareAndDelete (ea_client a) (sn_Key node) (sn_Value node) 0)"

definition ea_UpdateDirTTL :: "'s etcd_adapter \<Rightarrow> string \<Rightarrow> nat \<Rightarrow> ('s, error option) go" where
  "ea_UpdateDirTTL a key ttl =
     go_bind (ea_Get a key) (\<lambda>(response, err).
       if err = None \<and> \<not> sn_Dir response then go_return (Some ErrorNodeIsNotDirectory)
       else run_op a (client_UpdateDir (ea_client a) key ttl))"

definition etcd_store :: "'s etcd_adapter \<Rightarrow> 's store_adapter" where
  "etcd_store a = \<lparr>sa_Create = ea_Create a, sa_Update = ea_Update a, sa_CompareAndSwap = ea_CompareAndSwap a,
     sa_CompareAndSwapByIndex = ea_CompareAndSwapByIndex a, sa_SetMulti = ea_SetMulti a, sa_Get = ea_Get a,
     sa_ListRecursively = ea_ListRecursively a, sa_Delete = ea_Delete a, sa_CompareAndDelete = ea_CompareAndDelete a,
     sa_UpdateDirTTL = ea_UpdateDirTTL a\<rparr>"

section \<open>Watching\<close>

definition makeWatchEvent :: "etcd_response \<Rightarrow> watch_event" where
  "makeWatchEvent event =
     (let mk = (\<lambda>ty node. \<lparr>we_Type = ty, we_Node = map_option makeStoreNode node,
                            we_PrevNode = map_option makeStoreNode (er_PrevNode event)\<rparr>) in
      if er_Action event = ''delete'' then mk DeleteEvent None
      else if er_Action event = ''create'' then mk CreateEvent (er_Node event)
      else if er_Action event \<in> set [''set'', ''update'', ''compareAndSwap''] then mk UpdateEvent (er_Node event)
      else if er_Action event = ''expire'' then mk ExpireEvent None
      else zero_event)"

text \<open>
  \<open>dispatchWatchEvents\<close>: \<open>wl_index\<close> is the index the next \<open>Watch\<close> call asks for; an answer of the
  client either ends the goroutine, which closes both channels, or leads to the next call. A
  response without a node panics when its index is read.
\<close>

record watch_loop =
  wl_index :: nat
  wl_events :: "watch_event list"
  wl_errors :: "error list"
  wl_closed :: bool
  wl_panicked :: bool

definition watch_start :: watch_loop where
  "watch_start = \<lparr>wl_index = 0, wl_events = [], wl_errors = [], wl_closed = False, wl_panicked = False\<rparr>"

definition watch_answer :: "error + etcd_response \<Rightarrow> watch_loop \<Rightarrow> watch_loop" where
  "watch_answer ans w =
     (if wl_closed w \<or> wl_panicked w then w
      else case ans of
        Inl err \<Rightarrow>
          if isEventIndexClearedError (Some err) then w\<lparr>wl_index := 0\<rparr>
          else if err = ErrWatchStoppedByUser then w\<lparr>wl_closed := True\<rparr>
          else w\<lparr>wl_errors := wl_errors w @ [the (convertError (Some err))], wl_closed := True\<rparr>
      | Inr response \<Rightarrow>
          (case er_Node response of
             None \<Rightarrow> w\<lparr>wl_events := wl_events w @ [makeWatchEvent response], wl_panicked := True\<rparr>
           | Some n \<Rightarrow> w\<lparr>wl_events := wl_events w @ [makeWatchEvent response], wl_index := en_ModifiedIndex n + 1\<rparr>))"

definition dispatchWatchEvents :: "(error + etcd_response) list \<Rightarrow> watch_loop" where
  "dispatchWatchEvents answers = fold watch_answer answers watch_start"

section \<open>MaintainNode\<close>

text \<open>
  \<open>MaintainNode\<close> checks the TTL, names an anonymous owner by a random UUID (\<open>new_guid\<close>, the outcome of
  \<open>uuid.NewV4\<close> and \<open>String\<close>) and starts the maintaining goroutine on the resulting node.
\<close>

definition ea_MaintainNode :: "(error + string) \<Rightarrow> store_node \<Rightarrow> error + store_node" where
  "ea_MaintainNode new_guid storeNode =
     (if sn_TTL storeNode = 0 then Inl ErrorInvalidTTL
      else if sn_Value storeNode = [] then
        (case new_guid of
           Inl err \<Rightarrow> Inl err
         | Inr guid \<Rightarrow> Inr (StoreNode (sn_Key storeNode) guid (sn_Dir storeNode) (sn_TTL storeNode)
                              (sn_ChildNodes storeNode) (sn_Index storeNode)))
      else Inr storeNode)"

text \<open>
  The maintaining goroutine: what it remembers between two timer events, what it sent on the status
  channel, the delay it set the timer to, and whether it closed the status channel and the channel it
  was handed with the release.
\<close>

record maintainer =
  mn_created :: bool
  mn_owned :: bool
  mn_cycle :: nat
  mn_status :: "bool list"
  mn_timer :: duration
  mn_closed :: bool
  mn_answered :: bool

definition mn_start :: maintainer where
  "mn_start = \<lparr>mn_created = False, mn_owned = False, mn_cycle = 0, mn_status = [], mn_timer = 0,
     mn_closed = False, mn_answered = False\<rparr>"

abbreviation second :: duration where "second \<equiv> 1000000000"

definition frequency :: nat where "frequency = 2"

text \<open>
  \<open>time.Duration(TTL) * time.Second / time.Duration(frequency)\<close>, in \<open>int64\<close> arithmetic with Go's division,
  which rounds to zero.
\<close>

definition go_div :: "int \<Rightarrow> int \<Rightarrow> int" where
  "go_div a b = sgn a * sgn b * (\<bar>a\<bar> div \<bar>b\<bar>)"

definition maintenanceInterval :: "nat \<Rightarrow> duration" where
  "maintenanceInterval ttl = go_div (sint (word_of_nat ttl * word_of_int second :: 64 word)) (int frequency)"

definition retryBackOff :: "duration \<Rightarrow> duration \<Rightarrow> duration" where
  "retryBackOff current mx = (if current * 2 > mx then mx else current * 2)"

text \<open>
  One timer event. The inner loop of the source tries again at once when the key turned out to be
  missing or to exist; the retry interval starts again from two seconds at every event. \<open>elapsed\<close> is what
  \<open>elapsedChannelSend\<close> measures, the time the receiver of the status let the goroutine wait.
\<close>

definition on_kept :: "nat \<Rightarrow> duration \<Rightarrow> maintainer \<Rightarrow> maintainer" where
  "on_kept ttl elapsed m =
     (let cycle = mn_cycle m + 1 in
      m\<lparr>mn_owned := True, mn_cycle := (if cycle = frequency then 0 else cycle),
        mn_status := mn_status m @ (if cycle = frequency then [True] else []),
        mn_timer := maintenanceInterval ttl - (if cycle = frequency then elapsed else 0)\<rparr>)"

definition on_lost :: "maintainer \<Rightarrow> maintainer" where
  "on_lost m = m\<lparr>mn_cycle := 0, mn_owned := False, mn_status := mn_status m @ (if mn_owned m then [False] else [])\<rparr>"

definition on_created :: "nat \<Rightarrow> duration \<Rightarrow> maintainer \<Rightarrow> maintainer" where
  "on_created ttl elapsed m = m\<lparr>mn_cycle := 0, mn_created := True, mn_owned := True, mn_status := mn_status m @ [True],
     mn_timer := maintenanceInterval ttl - elapsed\<rparr>"

definition on_retry :: "nat \<Rightarrow> maintainer \<Rightarrow> maintainer" where
  "on_retry ttl m = m\<lparr>mn_timer := retryBackOff (2 * second) (maintenanceInterval ttl)\<rparr>"

partial_function (option) maintain_tick ::
  "'s etcd_client \<Rightarrow> store_node \<Rightarrow> duration \<Rightarrow> maintainer \<Rightarrow> 's \<Rightarrow> (maintainer run \<times> 's) option" where
  "maintain_tick c node elapsed m s =
     (if mn_created m then
        (case client_CompareAndSwap c (sn_Key node) (sn_Value node) (sn_TTL node) (sn_Value node) 0 s of
           None \<Rightarrow> None
         | Some (r, s') \<Rightarrow>
             (case r of
                Panicked \<Rightarrow> Some (Panicked, s')
              | Done x \<Rightarrow>
                  if resp_err x = None then Some (Done (on_kept (sn_TTL node) elapsed m), s')
                  else if convertError (resp_err x) = Some ErrorKeyNotFound
                  then maintain_tick c node elapsed ((on_lost m)\<lparr>mn_created := False\<rparr>) s'
                  else Some (Done (on_retry (sn_TTL node) (on_lost m)), s')))
      else
        (case client_Create c (sn_Key node) (sn_Value node) (sn_TTL node) s of
           None \<Rightarrow> None
         | Some (r, s') \<Rightarrow>
             (case r of
                Panicked \<Rightarrow> Some (Panicked, s')
              | Done x \<Rightarrow>
                  if resp_err x = None then Some (Done (on_created (sn_TTL node) elapsed m), s')
                  else if convertError (resp_err x) = Some ErrorKeyExists
                  then maintain_tick c node elapsed (m\<lparr>mn_cycle := 0, mn_created := True\<rparr>) s'
                  else Some (Done (on_retry (sn_TTL node) (m\<lparr>mn_cycle := 0\<rparr>)), s'))))"

text \<open>The release: delete the key if it still holds this owner's value, and stop.\<close>

definition maintain_release :: "'s etcd_client \<Rightarrow> store_node \<Rightarrow> ('s, unit) go" where
  "maintain_release c node =
     go_bind (client_CompareAndDelete c (sn_Key node) (sn_Value node) 0) (\<lambda>_. go_return ())"

text \<open>
  The goroutine, as a loop over what its select receives: the timer, with the time the status send of that
  turn takes, or the request to release, with whether it brings a channel to close.
\<close>

datatype maintain_event = TimerFired duration | ReleaseAsked bool

fun maintain_loop :: "'s etcd_client \<Rightarrow> store_node \<Rightarrow> maintainer \<Rightarrow> maintain_event list \<Rightarrow> ('s, maintainer) go" where
  "maintain_loop c node m [] = go_return m"
| "maintain_loop c node m (TimerFired elapsed # es) =
     go_bind (maintain_tick c node elapsed m) (\<lambda>m'. maintain_loop c node m' es)"
| "maintain_loop c node m (ReleaseAsked answer # es) =
     go_bind (maintain_release c node) (\<lambda>_. go_return (m\<lparr>mn_closed := True, mn_answered := answer\<rparr>))"

definition maintainNode :: "'s etcd_client \<Rightarrow> store_node \<Rightarrow> maintain_event list \<Rightarrow> ('s, maintainer) go" where
  "maintainNode c node es = maintain_loop c node mn_start es"

lemma retryBackOff_start: "retryBackOff (2 * second) mx = min (4 * second) mx"
  by (simp add: retryBackOff_def min_def)

lemma maintenanceInterval_eq:
  assumes "int ttl * second < 2 ^ 63"
  shows "maintenanceInterval ttl = int ttl * second div 2"
proof -
  have "(word_of_nat ttl * word_of_int second :: 64 word) = word_of_int (int ttl * second)" by simp
  moreover have "sint (word_of_int (int ttl * second) :: 64 word) = int ttl * second"
    using UnixNano_ok [of "int ttl * second"] assms by (simp add: UnixNano_def int64_ok_def)
  ultimately show ?thesis by (simp add: maintenanceInterval_def go_div_def frequency_def sgn_if)
qed

end
