(* ===== verification/EtcdLaws.thy ===== *)
theory EtcdLaws
  imports EtcdAdapter
begin

text \<open>
  The documented behaviour of an etcd v2 cluster, as the laws of its answers to the requests the
  client sends, and the proof that the adapter over such a cluster meets the contract of a store
  with comparing writes. EtcdServer gives a cluster that has this behaviour.
\<close>

section \<open>The answers of etcd\<close>

definition unreachable :: "error + etcd_response \<Rightarrow> bool" where
  "unreachable r \<longleftrightarrow> (\<exists>m. r = Inl (EtcdError 501 m))"

definition refused :: "int \<Rightarrow> error + etcd_response \<Rightarrow> bool" where
  "refused code r \<longleftrightarrow> code \<noteq> 501 \<and> (\<exists>m. r = Inl (EtcdError code m))"

definition accepted :: "error + etcd_response \<Rightarrow> bool" where
  "accepted r \<longleftrightarrow> (\<exists>x. r = Inr x)"

text \<open>A listed etcd node and what it shows of the view.\<close>

inductive etree_of :: "view \<Rightarrow> path \<Rightarrow> etcd_node \<Rightarrow> bool" for f where
  etree_leaf: "f es = Some (LeafE v i) \<Longrightarrow> etree_of f es (EtcdNode (abs_path es) v False ttl [] i ci)"
| etree_dir: "f es = Some DirE \<Longrightarrow> distinct names \<Longrightarrow> set names = {e. f (es @ [e]) \<noteq> None} \<Longrightarrow>
    list_all2 (\<lambda>e c. etree_of f (es @ [e]) c) names ns \<Longrightarrow>
    etree_of f es (EtcdNode (abs_path es) v True ttl ns mi ci)"

text \<open>The requests on an absolute path.\<close>

abbreviation rget :: "path \<Rightarrow> bool \<Rightarrow> bool \<Rightarrow> etcd_request" where
  "rget es rec strong \<equiv> \<lparr>rq_Method = ''GET'', rq_Path = ''keys'' @ abs_path es,
     rq_Params = [(''recursive'', show_opt (OBool rec)), (''sorted'', ''false'')]
       @ (if strong then [(''consistent'', ''true'')] else []), rq_Values = []\<rparr>"

abbreviation rput :: "path \<Rightarrow> (string \<times> string) list \<Rightarrow> bytes \<Rightarrow> nat \<Rightarrow> etcd_request" where
  "rput es ps v ttl \<equiv> \<lparr>rq_Method = ''PUT'', rq_Path = ''keys'' @ abs_path es, rq_Params = ps, rq_Values = buildValues v ttl\<rparr>"

abbreviation rdelete :: "path \<Rightarrow> (string \<times> string) list \<Rightarrow> etcd_request" where
  "rdelete es ps \<equiv> \<lparr>rq_Method = ''DELETE'', rq_Path = ''keys'' @ abs_path es, rq_Params = ps, rq_Values = []\<rparr>"

text \<open>
  \<open>answers\<close>: what every answer to a write has in common. The write is refused with its code, or it
  is applied; a request that got no answer may have been applied.
\<close>

locale etcd_api =
  fixes send :: "'s transport"
    and inv :: "'s \<Rightarrow> bool" and look :: "'s \<Rightarrow> view" and slack :: "'s \<Rightarrow> nat" and tick :: "'s \<Rightarrow> nat"
  assumes api_dir: "inv s \<Longrightarrow> look s p \<noteq> None \<Longrightarrow> strict_prefix q p \<Longrightarrow> look s q = Some DirE"
  and api_simple: "inv s \<Longrightarrow> look s p \<noteq> None \<Longrightarrow> \<forall>e \<in> set p. key_elem e"
  and api_tick: "inv s \<Longrightarrow> look s p = Some (LeafE v i) \<Longrightarrow> 0 < i \<and> i \<le> tick s"
  and api_get: "inv s \<Longrightarrow> clean es \<Longrightarrow> wp (send (rget es rec strong)) (\<lambda>r s'. inv s' \<and> look s' = look s \<and>
      (if unreachable r then slack s' < slack s
       else slack s' \<le> slack s \<and>
        (case look s es of
           Some (LeafE v i) \<Rightarrow> \<exists>a ttl ci p. r = Inr \<lparr>er_Action = a, er_Node = Some (EtcdNode (abs_path es) v False ttl [] i ci), er_PrevNode = p\<rparr>
         | Some DirE \<Rightarrow> \<exists>a n p. r = Inr \<lparr>er_Action = a, er_Node = Some n, er_PrevNode = p\<rparr> \<and> en_Dir n \<and> (rec \<longrightarrow> etree_of (look s) es n)
         | None \<Rightarrow> \<exists>c. refused c r \<and> (no_leaf_above (look s) es \<longrightarrow> c = 100)))) s"
  and api_set: "inv s \<Longrightarrow> clean es \<Longrightarrow> wp (send (rput es [] v ttl)) (\<lambda>r s'. inv s' \<and> tick s \<le> tick s' \<and>
      (if unreachable r
       then slack s' < slack s \<and> (look s' = look s \<or> settable (look s) es \<and> (\<exists>i > tick s. look s' = put_path (look s) es v i))
       else slack s' \<le> slack s \<and>
        (if settable (look s) es then accepted r \<and> (\<exists>i > tick s. look s' = put_path (look s) es v i)
         else look s' = look s \<and> (\<exists>c. refused c r)))) s"
  and api_create: "inv s \<Longrightarrow> clean es \<Longrightarrow> wp (send (rput es [(''prevExist'', ''false'')] v ttl)) (\<lambda>r s'. inv s' \<and> tick s \<le> tick s' \<and>
      (if unreachable r
       then slack s' < slack s \<and> (look s' = look s \<or> creatable (look s) es \<and> (\<exists>i > tick s. look s' = put_path (look s) es v i))
       else slack s' \<le> slack s \<and>
        (if creatable (look s) es then accepted r \<and> (\<exists>i > tick s. look s' = put_path (look s) es v i)
         else look s' = look s \<and> (\<exists>c. refused c r \<and> (look s es \<noteq> None \<longrightarrow> c = 105))))) s"
  and api_swap: "inv s \<Longrightarrow> clean es \<Longrightarrow>
      ps = [(''prevValue'', pv)] \<and> pv \<noteq> [] \<and> M = (\<lambda>cur j. cur = pv) \<or>
      ps = [(''prevIndex'', nat_digits idx)] \<and> 0 < idx \<and> M = (\<lambda>cur j. j = idx) \<Longrightarrow>
    wp (send (rput es ps v ttl)) (\<lambda>r s'. inv s' \<and> tick s \<le> tick s' \<and>
      (let match = (\<exists>cur j. look s es = Some (LeafE cur j) \<and> M cur j) in
       if unreachable r
       then slack s' < slack s \<and> (look s' = look s \<or> match \<and> (\<exists>i > tick s. look s' = put_path (look s) es v i))
       else slack s' \<le> slack s \<and>
        (if match then accepted r \<and> (\<exists>i > tick s. look s' = put_path (look s) es v i)
         else look s' = look s \<and> (\<exists>c. refused c r \<and> (is_leaf (look s es) \<longrightarrow> c = 101) \<and>
             (look s es = None \<and> no_leaf_above (look s) es \<longrightarrow> c = 100))))) s"
  and api_delete: "inv s \<Longrightarrow> clean es \<Longrightarrow> wp (send (rdelete es [(''recursive'', ''true''), (''dir'', ''false'')])) (\<lambda>r s'. inv s' \<and> tick s \<le> tick s' \<and>
      (if unreachable r
       then slack s' < slack s \<and> (look s' = look s \<or> look s' = del_path (look s) es)
       else slack s' \<le> slack s \<and>
        (if look s es \<noteq> None then accepted r \<and> look s' = del_path (look s) es
         else look s' = look s \<and> (\<exists>c. refused c r \<and> (no_leaf_above (look s) es \<longrightarrow> c = 100))))) s"
  and api_compare_delete: "inv s \<Longrightarrow> clean es \<Longrightarrow> pv \<noteq> [] \<Longrightarrow>
    wp (send (rdelete es [(''prevValue'', pv)])) (\<lambda>r s'. inv s' \<and> tick s \<le> tick s' \<and>
      (let match = (\<exists>j. look s es = Some (LeafE pv j)) in
       if unreachable r
       then slack s' < slack s \<and> (look s' = look s \<or> match \<and> look s' = del_path (look s) es)
       else slack s' \<le> slack s \<and>
        (if match then accepted r \<and> look s' = del_path (look s) es
         else look s' = look s \<and> (\<exists>c. refused c r \<and> (is_leaf (look s es) \<longrightarrow> c = 101) \<and>
             (look s es = None \<and> no_leaf_above (look s) es \<longrightarrow> c = 100))))) s"

section \<open>The adapter over such a cluster\<close>

definition adapter_over :: "'s transport \<Rightarrow> bool \<Rightarrow> (nat \<Rightarrow> nat list) \<Rightarrow> 's etcd_adapter" where
  "adapter_over send strong sched =
     \<lparr>ea_client = \<lparr>ec_send = send, ec_strong = strong\<rparr>, ea_stopped = False, ea_sched = sched\<rparr>"

lemma adapter_over_simps [simp]:
  "ea_client (adapter_over send strong sched) = \<lparr>ec_send = send, ec_strong = strong\<rparr>"
  "ea_sched (adapter_over send strong sched) = sched"
  "schedule (adapter_over send strong sched) m = m"
  by (simp_all add: adapter_over_def schedule_def)

text \<open>How answers convert.\<close>

lemma convert_simps [simp]:
  "convertError None = None"
  "unreachable r \<Longrightarrow> convertError (resp_err r) = Some ErrorTimeout"
  "accepted r \<Longrightarrow> resp_err r = None"
  "\<not> unreachable (Inr x)"
  by (auto simp: convertError_def unreachable_def accepted_def)

lemma refused_convert:
  "refused c r \<Longrightarrow> \<exists>e. convertError (resp_err r) = Some e \<and> e \<noteq> ErrorTimeout \<and>
     (c = 100 \<longrightarrow> e = ErrorKeyNotFound) \<and> (c = 105 \<longrightarrow> e = ErrorKeyExists) \<and> (c = 101 \<longrightarrow> e = ErrorKeyComparisonFailed)"
  by (auto simp: refused_def convertError_def)

lemma refused_inl:
  "refused c r \<Longrightarrow> \<exists>x e. r = Inl x \<and> convertError (Some x) = Some e \<and> e \<noteq> ErrorTimeout \<and> (c = 100 \<longrightarrow> e = ErrorKeyNotFound)"
  by (auto simp: refused_def convertError_def)

lemma refused_not: "refused c r \<Longrightarrow> \<not> unreachable r \<and> \<not> accepted r"
  by (auto simp: refused_def unreachable_def accepted_def)

lemma etree_make:
  assumes "etree_of f es n"
  shows "tree_of f es (makeStoreNode n)"
  using assms
proof (induction rule: etree_of.induct)
  case (etree_leaf es v i ttl ci)
  then show ?case by (simp add: tree_of.tree_leaf)
next
  case (etree_dir es names ns v ttl mi ci)
  have "list_all2 (\<lambda>e c. tree_of f (es @ [e]) c) names (map makeStoreNode ns)"
    using etree_dir(4) by (simp add: list_all2_conv_all_nth)
  then show ?case using etree_dir(1-3) by (auto intro: tree_of.tree_dir)
qed

inductive_cases etree_of_cases: "etree_of f es n"

lemma etree_empty:
  assumes "etree_of f es n" and "en_Nodes n = []" and "en_Dir n"
  shows "tree_of f es (StoreNode (abs_path es) [] True 0 [] 0)"
  using assms(1)
proof (rule etree_of_cases, goal_cases)
  case (1 v i ttl ci)
  then show ?case using assms(3) by simp
next
  case (2 names ns v ttl mi ci)
  then have "names = []" using assms(2) by simp
  then show ?case using 2 by (intro tree_of.tree_dir [where names = "[]"]) simp_all
qed

text \<open>The closures of a batch are all served, in some order.\<close>

lemma in_order_mset:
  assumes "\<forall>n. mset (sched n) = mset [0..<n]"
  shows "mset (in_order (adapter_over send strong sched) xs) = mset xs"
proof -
  have "mset (map ((!) xs) (sched (length xs))) = image_mset ((!) xs) (mset [0..<length xs])"
    using assms by (simp only: mset_map)
  also have "\<dots> = mset (map ((!) xs) [0..<length xs])" by (simp only: mset_map)
  also have "\<dots> = mset xs" by (simp only: map_nth)
  finally show ?thesis by (simp add: in_order_def)
qed

lemma independent_mono: "independent Q \<Longrightarrow> P \<subseteq> Q \<Longrightarrow> independent P"
  by (auto simp: independent_def)

lemma no_leaf_above_del: "no_leaf_above f es \<Longrightarrow> no_leaf_above (del_path f p) es"
  by (auto simp: no_leaf_above_def del_path_def is_leaf_def)

context etcd_api
begin

text \<open>The operations of the adapter as requests.\<close>

abbreviation store :: "bool \<Rightarrow> (nat \<Rightarrow> nat list) \<Rightarrow> 's store_adapter" where
  "store strong sched \<equiv> etcd_store (adapter_over send strong sched)"

lemma look_dir1: "inv s \<Longrightarrow> look s p \<noteq> None \<Longrightarrow> strict_prefix q p \<Longrightarrow> look s q \<noteq> None"
  using api_dir by auto

lemma adapter_Get:
  assumes "inv s" and "clean es"
  shows "wp (sa_Get (store strong sched) (abs_path es)) (\<lambda>(n, err) s'. inv s' \<and> look s' = look s \<and>
       (if err = Some ErrorTimeout then slack s' < slack s
        else slack s' \<le> slack s \<and>
          (case look s es of
             Some (LeafE v i) \<Rightarrow> err = None \<and> sn_Key n = abs_path es \<and> sn_Value n = v \<and> sn_Index n = i
           | Some DirE \<Rightarrow> err = Some ErrorNodeIsDirectory
           | None \<Rightarrow> err \<noteq> None \<and> (no_leaf_above (look s) es \<longrightarrow> err = Some ErrorKeyNotFound)))) s"
proof -
  have req: "client_Get \<lparr>ec_send = send, ec_strong = strong\<rparr> (abs_path es) False False = send (rget es False strong)"
    by (simp add: client_requests keyToPath_abs [OF assms(2)])
  show ?thesis
    unfolding etcd_store_def ea_Get_def store_adapter.simps adapter_over_simps req wp_bind
    using api_get [OF assms, of False strong]
  proof (rule wp_mono, goal_cases)
    case (1 r s')
    show ?case
    proof (cases "unreachable r")
      case True
      then show ?thesis using 1 by (auto simp: unreachable_def convertError_def)
    next
      case False
      then show ?thesis using 1
        by (cases "look s es") (auto dest!: refused_inl split: entry.splits)
    qed
  qed
qed

lemma adapter_List:
  assumes "inv s" and "clean es"
  shows "wp (sa_ListRecursively (store strong sched) (abs_path es)) (\<lambda>(n, err) s'. inv s' \<and> look s' = look s \<and> (err \<noteq> None \<longrightarrow> n = zero_node) \<and>
       (if err = Some ErrorTimeout then slack s' < slack s
        else slack s' \<le> slack s \<and>
          (case look s es of
             Some DirE \<Rightarrow> err = None \<and> tree_of (look s) es n
           | Some (LeafE v i) \<Rightarrow> err = Some ErrorNodeIsNotDirectory
           | None \<Rightarrow> err \<noteq> None \<and> (no_leaf_above (look s) es \<longrightarrow> err = Some ErrorKeyNotFound)))) s"
proof -
  have req: "client_Get \<lparr>ec_send = send, ec_strong = strong\<rparr> (abs_path es) False True = send (rget es True strong)"
    by (simp add: client_requests keyToPath_abs [OF assms(2)])
  show ?thesis
    unfolding etcd_store_def ea_ListRecursively_def store_adapter.simps adapter_over_simps req wp_bind
    using api_get [OF assms, of True strong]
  proof (rule wp_mono, goal_cases)
    case (1 r s')
    show ?case
    proof (cases "unreachable r")
      case True
      then show ?thesis using 1 by (auto simp: unreachable_def convertError_def)
    next
      case False
      then show ?thesis using 1
        by (cases "look s es") (auto dest!: refused_inl intro: etree_make etree_empty split: entry.splits)
    qed
  qed
qed

text \<open>A write: one request, whose error is converted.\<close>

lemma wp_run_op:
  assumes "wp m (\<lambda>r s'. if unreachable r then T s'
      else (if good then accepted r \<and> G s' else (\<exists>c. refused c r \<and> K c) \<and> B s')) s"
    and "\<And>s'. T s' \<Longrightarrow> Q (Some ErrorTimeout) s'" and "\<And>s'. good \<Longrightarrow> G s' \<Longrightarrow> Q None s'"
    and "\<And>e c s'. \<not> good \<Longrightarrow> B s' \<Longrightarrow> K c \<Longrightarrow> e \<noteq> ErrorTimeout \<Longrightarrow> c = 100 \<longrightarrow> e = ErrorKeyNotFound \<Longrightarrow>
      c = 105 \<longrightarrow> e = ErrorKeyExists \<Longrightarrow> c = 101 \<longrightarrow> e = ErrorKeyComparisonFailed \<Longrightarrow> Q (Some e) s'"
  shows "wp (run_op (adapter_over send strong sched) m) Q s"
  unfolding run_op_def adapter_over_simps wp_bind wp_return
  using assms(1)
proof (rule wp_mono)
  fix r s'
  assume r: "if unreachable r then T s'
      else (if good then accepted r \<and> G s' else (\<exists>c. refused c r \<and> K c) \<and> B s')"
  show "Q (convertError (resp_err r)) s'"
  proof (cases "unreachable r")
    case True
    then show ?thesis using r assms(2) by simp
  next
    case un: False
    show ?thesis
    proof (cases good)
      case True
      then show ?thesis using r un assms(3) by simp
    next
      case False
      then obtain c where c: "refused c r" "K c" "B s'" using r un by auto
      obtain e where "convertError (resp_err r) = Some e" "e \<noteq> ErrorTimeout" "c = 100 \<longrightarrow> e = ErrorKeyNotFound"
        "c = 105 \<longrightarrow> e = ErrorKeyExists" "c = 101 \<longrightarrow> e = ErrorKeyComparisonFailed"
        using refused_convert [OF c(1)] by blast
      then show ?thesis using assms(4) False c by simp
    qed
  qed
qed

lemma adapter_Create:
  assumes "inv s" and "clean es"
  shows "wp (sa_Create (store strong sched) (leaf_node (abs_path es) v ttl)) (\<lambda>err s'. inv s' \<and>
       (if err = Some ErrorTimeout
        then slack s' < slack s \<and>
          (look s' = look s \<or> creatable (look s) es \<and> (\<exists>i. look s' = put_path (look s) es v i))
        else slack s' \<le> slack s \<and>
          (if creatable (look s) es then err = None \<and> (\<exists>i. look s' = put_path (look s) es v i)
           else look s' = look s \<and> err \<noteq> None \<and> (is_leaf (look s es) \<longrightarrow> err = Some ErrorKeyExists)))) s"
proof -
  have req: "client_Create \<lparr>ec_send = send, ec_strong = strong\<rparr> (abs_path es) v ttl
    = send (rput es [(''prevExist'', ''false'')] v ttl)" by (simp add: client_requests keyToPath_abs [OF assms(2)])
  show ?thesis
    unfolding etcd_store_def ea_Create_def store_adapter.simps adapter_over_simps leaf_node_def store_node.sel req
    by (rule wp_run_op [where good = "creatable (look s) es" and K = "\<lambda>c. look s es \<noteq> None \<longrightarrow> c = 105" and
      T = "\<lambda>s'. inv s' \<and> slack s' < slack s \<and> (look s' = look s \<or> creatable (look s) es \<and> (\<exists>i. look s' = put_path (look s) es v i))"
      and G = "\<lambda>s'. inv s' \<and> slack s' \<le> slack s \<and> (\<exists>i. look s' = put_path (look s) es v i)"
      and B = "\<lambda>s'. inv s' \<and> slack s' \<le> slack s \<and> look s' = look s"],
      rule wp_mono [OF api_create [OF assms, of v ttl]]) (auto simp: is_leaf_def split: if_splits)
qed

lemma adapter_CAS_index:
  assumes "inv s" and "clean es" and "look s es = Some (LeafE old j)" and "0 < idx"
  shows "wp (sa_CompareAndSwapByIndex (store strong sched) idx (leaf_node (abs_path es) v ttl)) (\<lambda>err s'. inv s' \<and> tick s \<le> tick s' \<and>
       (if err = Some ErrorTimeout
        then slack s' < slack s \<and>
          (look s' = look s \<or> j = idx \<and> (\<exists>i > tick s. look s' = put_path (look s) es v i))
        else slack s' \<le> slack s \<and>
          (if j = idx then err = None \<and> (\<exists>i > tick s. look s' = put_path (look s) es v i)
           else look s' = look s \<and> err = Some ErrorKeyComparisonFailed))) s"
proof -
  have req: "client_CompareAndSwap \<lparr>ec_send = send, ec_strong = strong\<rparr> (abs_path es) v ttl [] idx
    = send (rput es [(''prevIndex'', nat_digits idx)] v ttl)"
    using assms(4) by (simp add: client_prev_requests keyToPath_abs [OF assms(2)])
  show ?thesis
    unfolding etcd_store_def ea_CompareAndSwapByIndex_def store_adapter.simps adapter_over_simps leaf_node_def store_node.sel req
    by (rule wp_run_op [where good = "j = idx" and K = "\<lambda>c. c = 101" and
      T = "\<lambda>s'. inv s' \<and> tick s \<le> tick s' \<and> slack s' < slack s \<and> (look s' = look s \<or> j = idx \<and> (\<exists>i > tick s. look s' = put_path (look s) es v i))"
      and G = "\<lambda>s'. inv s' \<and> tick s \<le> tick s' \<and> slack s' \<le> slack s \<and> (\<exists>i > tick s. look s' = put_path (look s) es v i)"
      and B = "\<lambda>s'. inv s' \<and> tick s \<le> tick s' \<and> slack s' \<le> slack s \<and> look s' = look s"],
      rule wp_mono [OF api_swap [OF assms(1,2), of "[(''prevIndex'', nat_digits idx)]" _ "\<lambda>cur j. j = idx" idx v ttl]])
      (use assms(3,4) in \<open>auto simp: is_leaf_def Let_def split: if_splits\<close>)
qed

lemma adapter_CAS_value:
  assumes "inv s" and "clean es" and "old \<noteq> []"
  shows "wp (sa_CompareAndSwap (store strong sched) (leaf_node okey old ottl) (leaf_node (abs_path es) v ttl)) (\<lambda>err s'. inv s' \<and>
       tick s \<le> tick s' \<and>
       (if err = Some ErrorTimeout
        then slack s' < slack s \<and>
          (look s' = look s \<or> holds (look s) es old \<and> (\<exists>i > tick s. look s' = put_path (look s) es v i))
        else slack s' \<le> slack s \<and>
          (if holds (look s) es old then err = None \<and> (\<exists>i > tick s. look s' = put_path (look s) es v i)
           else look s' = look s \<and> compare_refused (look s) es err))) s"
proof -
  have req: "client_CompareAndSwap \<lparr>ec_send = send, ec_strong = strong\<rparr> (abs_path es) v ttl old 0
    = send (rput es [(''prevValue'', old)] v ttl)"
    using assms(3) by (simp add: client_prev_requests keyToPath_abs [OF assms(2)])
  show ?thesis
    unfolding etcd_store_def ea_CompareAndSwap_def store_adapter.simps adapter_over_simps leaf_node_def store_node.sel req
    by (rule wp_run_op [where good = "holds (look s) es old" and
      K = "\<lambda>c. (is_leaf (look s es) \<longrightarrow> c = 101) \<and> (look s es = None \<and> no_leaf_above (look s) es \<longrightarrow> c = 100)" and
      T = "\<lambda>s'. inv s' \<and> tick s \<le> tick s' \<and> slack s' < slack s \<and> (look s' = look s \<or> holds (look s) es old \<and> (\<exists>i > tick s. look s' = put_path (look s) es v i))"
      and G = "\<lambda>s'. inv s' \<and> tick s \<le> tick s' \<and> slack s' \<le> slack s \<and> (\<exists>i > tick s. look s' = put_path (look s) es v i)"
      and B = "\<lambda>s'. inv s' \<and> tick s \<le> tick s' \<and> slack s' \<le> slack s \<and> look s' = look s"],
      rule wp_mono [OF api_swap [OF assms(1,2), of "[(''prevValue'', old)]" old "\<lambda>cur j. cur = old" 0 v ttl]])
      (use assms(3) in \<open>auto simp: holds_def compare_refused_def Let_def split: if_splits\<close>)
qed

lemma adapter_CAD:
  assumes "inv s" and "clean es" and "old \<noteq> []"
  shows "wp (sa_CompareAndDelete (store strong sched) (leaf_node (abs_path es) old ttl)) (\<lambda>err s'. inv s' \<and> tick s \<le> tick s' \<and>
       (if err = Some ErrorTimeout
        then slack s' < slack s \<and> (look s' = look s \<or> holds (look s) es old \<and> look s' = del_path (look s) es)
        else slack s' \<le> slack s \<and>
          (if holds (look s) es old then err = None \<and> look s' = del_path (look s) es
           else look s' = look s \<and> compare_refused (look s) es err))) s"
proof -
  have req: "client_CompareAndDelete \<lparr>ec_send = send, ec_strong = strong\<rparr> (abs_path es) old 0
    = send (rdelete es [(''prevValue'', old)])"
    using assms(3) by (simp add: client_prev_requests keyToPath_abs [OF assms(2)])
  show ?thesis
    unfolding etcd_store_def ea_CompareAndDelete_def store_adapter.simps adapter_over_simps leaf_node_def store_node.sel req
    by (rule wp_run_op [where good = "holds (look s) es old" and
      K = "\<lambda>c. (is_leaf (look s es) \<longrightarrow> c = 101) \<and> (look s es = None \<and> no_leaf_above (look s) es \<longrightarrow> c = 100)" and
      T = "\<lambda>s'. inv s' \<and> tick s \<le> tick s' \<and> slack s' < slack s \<and> (look s' = look s \<or> holds (look s) es old \<and> look s' = del_path (look s) es)"
      and G = "\<lambda>s'. inv s' \<and> tick s \<le> tick s' \<and> slack s' \<le> slack s \<and> look s' = del_path (look s) es"
      and B = "\<lambda>s'. inv s' \<and> tick s \<le> tick s' \<and> slack s' \<le> slack s \<and> look s' = look s"],
      rule wp_mono [OF api_compare_delete [OF assms(1,2,3)]])
      (auto simp: holds_def compare_refused_def Let_def split: if_splits)
qed

text \<open>Batches: the invariant \<open>I done err s\<close> of the elements served so far, in the order they are served.\<close>

lemma wp_run_ops:
  assumes perm: "\<forall>n. mset (sched n) = mset [0..<n]"
    and step: "\<And>ys x zs err s. mset xs = mset (ys @ x # zs) \<Longrightarrow> I ys err s \<Longrightarrow>
      wp (work x) (\<lambda>r. I (ys @ [x]) (if err = None then resp_err r else err)) s"
    and "I [] None s" and fin: "\<And>ys err s. mset ys = mset xs \<Longrightarrow> I ys err s \<Longrightarrow> Q (convertError err) s"
  shows "wp (run_ops (adapter_over send strong sched) work xs) Q s"
proof -
  let ?xs = "in_order (adapter_over send strong sched) xs"
  have m: "mset ?xs = mset xs" by (rule in_order_mset [OF perm])
  have "wp (go_fold (\<lambda>x err. go_bind (schedule (adapter_over send strong sched) (work x))
      (\<lambda>r. go_return (if err = None then resp_err r else err))) ?xs None) (I ?xs) s"
  proof (rule wp_fold [where I = I, OF _ assms(3)])
    fix ys x zs err s
    assume xs: "?xs = ys @ x # zs" and I: "I ys err s"
    have "mset xs = mset (ys @ x # zs)" using m unfolding xs by (rule sym)
    from step [OF this I]
    show "wp (go_bind (schedule (adapter_over send strong sched) (work x))
      (\<lambda>r. go_return (if err = None then resp_err r else err))) (I (ys @ [x])) s" by simp
  qed
  then show ?thesis
    unfolding run_ops_def wp_bind wp_return by (rule wp_mono) (rule fin [OF m])
qed

lemma adapter_Set_multi:
  assumes perm: "\<forall>n. mset (sched n) = mset [0..<n]"
    and "inv s" and xs: "\<forall>(es, v) \<in> set xs. clean es \<and> settable (look s) es" and ind: "independent (fst ` set xs)"
  shows "wp (sa_SetMulti (store strong sched) (map (\<lambda>(es, v). leaf_node (abs_path es) v ttl) xs)) (\<lambda>err s'. inv s' \<and>
       (if err = Some ErrorTimeout
        then slack s' < slack s \<and> (\<exists>ys. set ys \<subseteq> set xs \<and> puts (look s) ys (look s'))
        else slack s' \<le> slack s \<and> err = None \<and> (\<exists>ys. set ys = set xs \<and> puts (look s) ys (look s')))) s"
proof -
  let ?n = "\<lambda>(es, v). leaf_node (abs_path es) v ttl"
  define I where "I ys err s' \<longleftrightarrow> inv s' \<and> (\<exists>zs. ys = map ?n zs \<and> set zs \<subseteq> set xs \<and>
    (if err = None then slack s' \<le> slack s \<and> puts (look s) zs (look s')
     else convertError err = Some ErrorTimeout \<and> slack s' < slack s \<and> (\<exists>us. set us \<subseteq> set zs \<and> puts (look s) us (look s'))))"
    for ys err s'
  show ?thesis
    unfolding etcd_store_def ea_SetMulti_def store_adapter.simps
  proof (rule wp_run_ops [OF perm, where I = I], goal_cases)
    case (1 ys x zs err s1)
    obtain us ws where us: "inv s1" "ys = map ?n us" "set us \<subseteq> set xs" "set ws \<subseteq> set us" "puts (look s) ws (look s1)"
      "if err = None then ws = us \<and> slack s1 \<le> slack s else convertError err = Some ErrorTimeout \<and> slack s1 < slack s"
      using 1(2) by (cases "err = None") (auto simp: I_def)
    have "x \<in> ?n ` set xs" using mset_eq_setD [OF 1(1)] by simp
    then obtain es v where x: "x = leaf_node (abs_path es) v ttl" "(es, v) \<in> set xs" by auto
    have es: "clean es" and st: "settable (look s) es" using xs x by auto
    have "insert es (fst ` set ws) \<subseteq> fst ` set xs" using us(3,4) x(2) by force
    then have "settable (look s1) es"
      using settable_puts [OF us(5) st] independent_mono [OF ind] by blast
    then have set: "wp (send (rput es [] v ttl)) (\<lambda>r s'. inv s' \<and>
      (if unreachable r then slack s' < slack s1 \<and> (look s' = look s1 \<or> (\<exists>i. look s' = put_path (look s1) es v i))
       else slack s' \<le> slack s1 \<and> accepted r \<and> (\<exists>i. look s' = put_path (look s1) es v i))) s1"
      using api_set [OF us(1) es, of v ttl] by (auto elim!: wp_mono split: if_splits)
    have req: "client_Set (ea_client (adapter_over send strong sched)) (sn_Key x) (sn_Value x) (sn_TTL x) = send (rput es [] v ttl)"
      by (simp add: x client_requests keyToPath_abs [OF es])
    show ?case
      unfolding req using set
    proof (rule wp_mono, goal_cases)
      case (1 r s')
      let ?err = "if err = None then resp_err r else err"
      have ys: "ys @ [x] = map ?n (us @ [(es, v)])" "set (us @ [(es, v)]) \<subseteq> set xs" using us(2,3) x by simp_all
      have ins: "puts (look s) (ws @ [(es, v)]) (look s')" if "look s' = put_path (look s1) es v i" for i
        using us(5) that by (auto simp: puts_append)
      have sub: "set ws \<subseteq> set (us @ [(es, v)])" "set (ws @ [(es, v)]) \<subseteq> set (us @ [(es, v)])" using us(4) by auto
      show ?case
      proof (cases "?err = None")
        case True
        then have "err = None" "\<not> unreachable r" by (auto simp: unreachable_def split: if_splits)
        then have "ws = us" "slack s' \<le> slack s" "puts (look s) (us @ [(es, v)]) (look s')" using 1 us(6) ins by auto
        then have "I (ys @ [x]) None s'" unfolding I_def ys(1) using 1 ys(2) us(6) \<open>err = None\<close> by (auto simp del: map_append intro!: exI [of _ "us @ [(es, v)]"])
          then show ?thesis unfolding True .
      next
        case False
        then have "err \<noteq> None \<or> unreachable r" using 1 by (auto split: if_splits)
        then have "convertError ?err = Some ErrorTimeout" "slack s' < slack s" using 1 us(6) by (auto split: if_splits)
        moreover have "\<exists>ws'. set ws' \<subseteq> set (us @ [(es, v)]) \<and> puts (look s) ws' (look s')"
          using 1 us(5) ins sub by (metis (no_types, lifting))
        ultimately show ?thesis unfolding I_def using False 1 ys by (metis (no_types, lifting))
      qed
    qed
  next
    case 2
    then show ?case using assms(2) by (simp add: I_def)
  next
    case (3 ys err s')
    then obtain zs where zs: "inv s'" "ys = map ?n zs" "set zs \<subseteq> set xs"
      "if err = None then slack s' \<le> slack s \<and> puts (look s) zs (look s')
       else convertError err = Some ErrorTimeout \<and> slack s' < slack s \<and> (\<exists>us. set us \<subseteq> set zs \<and> puts (look s) us (look s'))"
      by (auto simp: I_def)
    have inj: "inj_on ?n (set xs)"
    proof (rule inj_onI, clarify)
      fix es v es' v'
      assume "(es, v) \<in> set xs" "(es', v') \<in> set xs" "leaf_node (abs_path es) v ttl = leaf_node (abs_path es') v' ttl"
      moreover from this have "clean es" "clean es'" using xs by auto
      ultimately show "es = es' \<and> v = v'" by (simp add: leaf_node_def abs_path_eq)
    qed
    have "?n ` set zs = ?n ` set xs" using mset_eq_setD [OF 3(1)] zs(2) by simp
    then have "set zs = set xs" using zs(3) inj by (meson inj_on_image_eq_iff order_refl)
    then show ?case using zs by (cases "err = None") auto
  qed
qed

lemma adapter_Delete_step:
  assumes "inv s" and "clean es" and "no_leaf_above (look s) es"
  shows "wp (client_Delete (ea_client (adapter_over send strong sched)) (abs_path es) True) (\<lambda>r s'. inv s' \<and>
    (if unreachable r then slack s' < slack s \<and> (look s' = look s \<or> look s' = del_path (look s) es)
     else slack s' \<le> slack s \<and>
       (if look s es \<noteq> None then accepted r \<and> look s' = del_path (look s) es
        else look s' = look s \<and> refused 100 r))) s"
proof -
  have req: "client_Delete (ea_client (adapter_over send strong sched)) (abs_path es) True
    = send (rdelete es [(''recursive'', ''true''), (''dir'', ''false'')])"
    by (simp add: client_requests keyToPath_abs [OF assms(2)])
  show ?thesis
    unfolding req using api_delete [OF assms(1,2)] by (rule wp_mono) (use assms(3) in \<open>auto split: if_splits\<close>)
qed

lemma adapter_Delete:
  assumes perm: "\<forall>n. mset (sched n) = mset [0..<n]"
    and "inv s" and "clean es" and "no_leaf_above (look s) es"
  shows "wp (sa_Delete (store strong sched) [abs_path es]) (\<lambda>err s'. inv s' \<and>
       (if err = Some ErrorTimeout
        then slack s' < slack s \<and> (look s' = look s \<or> look s' = del_path (look s) es)
        else slack s' \<le> slack s \<and>
          (if look s es = None then look s' = look s \<and> err = Some ErrorKeyNotFound
           else look s' = del_path (look s) es \<and> err = None))) s"
proof -
  have "mset (in_order (adapter_over send strong sched) [abs_path es]) = {#abs_path es#}"
    by (simp add: in_order_mset [OF perm])
  then have one: "in_order (adapter_over send strong sched) [abs_path es] = [abs_path es]" by simp
  show ?thesis
    unfolding etcd_store_def ea_Delete_def run_ops_def one store_adapter.simps go_fold.simps wp_bind wp_return
      adapter_over_simps(3)
    using adapter_Delete_step [OF assms(2-4)]
  proof (rule wp_mono, goal_cases)
    case (1 r s')
    show ?case
    proof (cases "unreachable r")
      case True
      then show ?thesis using 1 by (auto simp: unreachable_def)
    next
      case False
      then show ?thesis using 1 by (cases "look s es") (auto dest!: refused_convert)
    qed
  qed
qed

lemma adapter_Delete_multi:
  assumes perm: "\<forall>n. mset (sched n) = mset [0..<n]"
    and "inv s" and ess: "\<forall>es \<in> set ess. clean es \<and> no_leaf_above (look s) es"
  shows "wp (sa_Delete (store strong sched) (map abs_path ess)) (\<lambda>err s'. inv s' \<and> slack s' \<le> slack s \<and>
       (\<exists>ds. set ds \<subseteq> set ess \<and> look s' = del_paths (look s) ds) \<and>
       (err = None \<longrightarrow> look s' = del_paths (look s) ess) \<and>
       (slack s = 0 \<and> distinct ess \<and> independent (set ess) \<and> (\<forall>es \<in> set ess. look s es \<noteq> None) \<longrightarrow> err = None)) s"
proof -
  define fine where "fine \<longleftrightarrow> slack s = 0 \<and> distinct ess \<and> independent (set ess) \<and> (\<forall>es \<in> set ess. look s es \<noteq> None)"
  define I where "I ys err s' \<longleftrightarrow> inv s' \<and> slack s' \<le> slack s \<and>
    (\<exists>zs us. ys = map abs_path zs \<and> set us \<subseteq> set zs \<and> set zs \<subseteq> set ess \<and> look s' = del_paths (look s) us \<and>
      (convertError err = None \<longrightarrow> set us = set zs) \<and> (err = None \<longleftrightarrow> convertError err = None) \<and> (fine \<longrightarrow> err = None))"
    for ys err s'
  have app: "del_path (del_paths f us) es = del_paths f (us @ [es])" for f us es
    by (auto simp: del_paths_def del_path_def)
  have inj: "inj_on abs_path (set ess)" using ess by (auto simp: inj_on_def abs_path_eq)
  show ?thesis
    unfolding etcd_store_def ea_Delete_def store_adapter.simps
  proof (rule wp_run_ops [OF perm, where I = I], goal_cases)
    case (1 ys x zs err s1)
    obtain vs us where vs: "inv s1" "slack s1 \<le> slack s" "ys = map abs_path vs" "set us \<subseteq> set vs" "set vs \<subseteq> set ess"
      "look s1 = del_paths (look s) us" "convertError err = None \<longrightarrow> set us = set vs" "fine \<longrightarrow> err = None"
      "err = None \<longleftrightarrow> convertError err = None"
      using 1(2) unfolding I_def by (elim conjE exE) (rule that, assumption+)
    have "x \<in> abs_path ` set ess" using mset_eq_setD [OF 1(1)] by simp
    then obtain es where x: "x = abs_path es" "es \<in> set ess" by auto
    have es: "clean es" and above: "no_leaf_above (look s) es" using ess x by auto
    have above1: "no_leaf_above (look s1) es"
      using above unfolding vs(6) by (auto simp: no_leaf_above_def del_paths_def is_leaf_def split: if_splits)
    have fresh: "look s1 es \<noteq> None" if fine: fine
    proof -
      have "mset (map abs_path ess) = mset (ys @ x # zs)" by (rule 1(1))
      moreover have "distinct (map abs_path ess)" using fine inj by (simp add: distinct_map fine_def)
      ultimately have "x \<notin> set ys" using mset_eq_imp_distinct_iff by fastforce
      then have "es \<notin> set us" using vs(3,4) x by auto
      moreover have "\<not> strict_prefix u es" if "u \<in> set us" for u
        using fine that vs(4,5) x(2) unfolding fine_def independent_def by blast
      ultimately have "\<forall>u \<in> set us. \<not> prefix u es" by (auto simp: strict_prefix_def)
      then show ?thesis using fine x(2) by (auto simp: vs(6) del_paths_def fine_def)
    qed
    show ?case
      unfolding x(1) using adapter_Delete_step [OF vs(1) es above1]
    proof (rule wp_mono, goal_cases)
      case (1 r s')
      let ?err = "if err = None then resp_err r else err"
      have ys: "ys @ [abs_path es] = map abs_path (vs @ [es])" "set (vs @ [es]) \<subseteq> set ess" using vs(3,5) x by simp_all
      have gone: "del_paths (look s) us = del_paths (look s) (us @ [es])" if "look s1 es = None"
      proof
        fix p
        have "look s1 p = None" if "prefix es p" for p
          using that look_dir1 [OF vs(1)] \<open>look s1 es = None\<close> by (metis option.distinct(1) prefix_order.le_imp_less_or_eq)
        then show "del_paths (look s) us p = del_paths (look s) (us @ [es]) p"
          unfolding vs(6) by (auto simp: del_paths_def split: if_splits)
      qed
      show ?case
      proof (cases "unreachable r")
        case True
        then have "resp_err r \<noteq> None \<and> convertError (resp_err r) \<noteq> None" by (auto simp: unreachable_def)
        moreover have "\<not> fine" using 1 True vs(2) by (auto simp: fine_def)
        moreover have "look s' = del_paths (look s) us \<or> look s' = del_paths (look s) (us @ [es])"
          using 1 True vs(6) app by auto
        then obtain us' where "set us' \<subseteq> set (vs @ [es])" "look s' = del_paths (look s) us'"
          using vs(4) by (metis (no_types, lifting) Un_mono set_append subset_refl le_supI1)
        ultimately show ?thesis unfolding I_def using 1 True vs(2,8,9) ys by (intro conjI exI [of _ "vs @ [es]"] exI [of _ us']) (auto split: if_splits)
      next
        case un: False
        have look': "look s' = del_paths (look s) (us @ [es])"
          using 1 un gone vs(6) app by (auto split: if_splits)
        have "(resp_err r = None \<longleftrightarrow> convertError (resp_err r) = None) \<and> (look s1 es \<noteq> None \<longrightarrow> resp_err r = None)"
          using 1 un by (auto dest!: refused_convert split: if_splits)
        then show ?thesis
          unfolding I_def using 1 un vs(2,4,7,8,9) ys look' fresh
          by (intro conjI exI [of _ "vs @ [es]"] exI [of _ "us @ [es]"]) (auto split: if_splits)
      qed
    qed
  next
    case 2
    then show ?case unfolding I_def using assms(2) by (intro conjI exI [of _ "[]"]) simp_all
  next
    case (3 ys err s')
    obtain zs us where zs: "inv s'" "slack s' \<le> slack s" "ys = map abs_path zs" "set us \<subseteq> set zs" "set zs \<subseteq> set ess"
      "look s' = del_paths (look s) us" "convertError err = None \<longrightarrow> set us = set zs" "fine \<longrightarrow> err = None"
      using 3(2) unfolding I_def by (elim conjE exE) (rule that, assumption+)
    have "abs_path ` set zs = abs_path ` set ess" using mset_eq_setD [OF 3(1)] zs(3) by simp
    then have "set zs = set ess" using zs(5) inj by (meson inj_on_image_eq_iff order_refl)
    moreover have "del_paths f us = del_paths f ess" if "set us = set ess" for f using that by (simp add: del_paths_def)
    ultimately show ?case using zs by (auto simp: fine_def)
  qed
qed

end

text \<open>The adapter meets the contract.\<close>

lemma adapter_cas_store:
  fixes inv :: "'s \<Rightarrow> bool"
  assumes "etcd_api send inv look slack tick" and "\<forall>n. mset (sched n) = mset [0..<n]"
  shows "cas_store (etcd_store (adapter_over send strong sched)) inv look slack tick"
proof -
  note api = assms(1)
  note perm = assms(2)
  show ?thesis
  proof (unfold_locales, goal_cases)
    case (1 s p q) then show ?case by (rule etcd_api.api_dir [OF api])
  next
    case (2 s p) then show ?case by (rule etcd_api.api_simple [OF api])
  next
    case (3 s es) then show ?case by (rule etcd_api.adapter_Get [OF api])
  next
    case (4 s es v ttl) then show ?case by (rule etcd_api.adapter_Create [OF api])
  next
    case (5 s xs ttl) then show ?case by (rule etcd_api.adapter_Set_multi [OF api perm])
  next
    case (6 s es) then show ?case by (rule etcd_api.adapter_Delete [OF api perm])
  next
    case (7 s ess) then show ?case by (rule etcd_api.adapter_Delete_multi [OF api perm])
  next
    case (8 s es) then show ?case by (rule etcd_api.adapter_List [OF api])
  next
    case (9 s p v i) then show ?case by (rule etcd_api.api_tick [OF api])
  next
    case (10 s es old j idx v ttl) then show ?case by (rule etcd_api.adapter_CAS_index [OF api])
  next
    case (11 s es old okey ottl v ttl) then show ?case by (rule etcd_api.adapter_CAS_value [OF api])
  next
    case (12 s es old ttl) then show ?case by (rule etcd_api.adapter_CAD [OF api])
  qed
qed

end
