(* ===== verification/EtcdServer.thy ===== *)
theory EtcdServer
  imports EtcdLaws FakeWorld
begin

text \<open>
  A cluster for the laws of EtcdLaws: the documented answers of the etcd v2 key API over a finite
  tree, with a script of faults. It gives the parameter of the adapter a concrete value, on which the
  store-level theorems of the components are applied.
\<close>

section \<open>The tree\<close>

type_synonym tree = "(path \<times> entry) list"

datatype fault = Served | LostRequest | LostAnswer

record etcd_server =
  es_tree :: tree
  es_index :: nat
  es_faults :: "fault list"

definition srv_names :: "tree \<Rightarrow> path \<Rightarrow> string list" where
  "srv_names m p = remdups (map last (filter (\<lambda>q. q \<noteq> [] \<and> butlast q = p) (map fst m)))"

fun srv_node :: "nat \<Rightarrow> tree \<Rightarrow> path \<Rightarrow> etcd_node" where
  "srv_node k m p =
     (case map_of m p of
        Some (LeafE v i) \<Rightarrow> EtcdNode (abs_path p) v False 0 [] i i
      | _ \<Rightarrow> EtcdNode (abs_path p) [] True 0
               (case k of 0 \<Rightarrow> [] | Suc k' \<Rightarrow> map (\<lambda>e. srv_node k' m (p @ [e])) (srv_names m p)) 0 0)"

declare srv_node.simps [simp del]

definition srv_depth :: "tree \<Rightarrow> nat" where
  "srv_depth m = sum_list (map (length \<circ> fst) m)"

definition srv_put :: "tree \<Rightarrow> path \<Rightarrow> bytes \<Rightarrow> nat \<Rightarrow> tree" where
  "srv_put m es v i = (es, LeafE v i) # map (\<lambda>k. (take k es, DirE)) [0..<length es] @ m"

definition srv_del :: "tree \<Rightarrow> path \<Rightarrow> tree" where
  "srv_del m es = filter (\<lambda>(q, x). \<not> prefix es q) m"

definition srv_leaf_above :: "tree \<Rightarrow> path \<Rightarrow> bool" where
  "srv_leaf_above m es =
     list_ex (\<lambda>k. case map_of m (take k es) of Some (LeafE v i) \<Rightarrow> True | _ \<Rightarrow> False) [0..<length es]"

section \<open>Answers\<close>

definition request_path :: "etcd_request \<Rightarrow> path" where
  "request_path rq = strings_Split slash (drop 5 (rq_Path rq))"

abbreviation srv_err :: "int \<Rightarrow> etcd_server \<Rightarrow> (error + etcd_response) \<times> etcd_server" where
  "srv_err code s \<equiv> (Inl (EtcdError code []), s)"

definition srv_write :: "string \<Rightarrow> path \<Rightarrow> bytes \<Rightarrow> etcd_server \<Rightarrow> (error + etcd_response) \<times> etcd_server" where
  "srv_write action es v s =
     (let s' = s\<lparr>es_tree := srv_put (es_tree s) es v (Suc (es_index s)), es_index := Suc (es_index s)\<rparr> in
      (Inr \<lparr>er_Action = action, er_Node = Some (srv_node 0 (es_tree s') es),
            er_PrevNode = (if map_of (es_tree s) es = None then None else Some (srv_node 0 (es_tree s) es))\<rparr>, s'))"

definition srv_remove :: "string \<Rightarrow> path \<Rightarrow> etcd_server \<Rightarrow> (error + etcd_response) \<times> etcd_server" where
  "srv_remove action es s =
     (Inr \<lparr>er_Action = action, er_Node = Some (EtcdNode (abs_path es) [] False 0 [] (Suc (es_index s)) 0),
           er_PrevNode = Some (srv_node 0 (es_tree s) es)\<rparr>,
      s\<lparr>es_tree := srv_del (es_tree s) es, es_index := Suc (es_index s)\<rparr>)"

definition srv_get :: "path \<Rightarrow> (string \<rightharpoonup> string) \<Rightarrow> etcd_server \<Rightarrow> (error + etcd_response) \<times> etcd_server" where
  "srv_get es ps s =
     (if srv_leaf_above (es_tree s) es then srv_err 104 s
      else if map_of (es_tree s) es = None then srv_err 100 s
      else (Inr \<lparr>er_Action = ''get'',
                 er_Node = Some (srv_node (if ps ''recursive'' = Some ''true'' then srv_depth (es_tree s) else 1) (es_tree s) es),
                 er_PrevNode = None\<rparr>, s))"

text \<open>Writes and deletes, by the entry at their path; \<open>a\<close>: a leaf is in the way.\<close>

definition put_on :: "bool \<Rightarrow> entry option \<Rightarrow> path \<Rightarrow> (string \<rightharpoonup> string) \<Rightarrow> bytes \<Rightarrow> etcd_server \<Rightarrow> (error + etcd_response) \<times> etcd_server" where
  "put_on a cur es ps v =
     (if a then srv_err 104
      else if ps ''dir'' = Some ''true'' then srv_err 209
      else if ps ''prevExist'' = Some ''false'' then (if cur = None then srv_write ''create'' es v else srv_err 105)
      else (case ps ''prevValue'' of
              Some pv \<Rightarrow> (case cur of
                  None \<Rightarrow> srv_err 100
                | Some x \<Rightarrow> (case x of DirE \<Rightarrow> srv_err 102
                | LeafE w i \<Rightarrow> if w = pv then srv_write ''compareAndSwap'' es v else srv_err 101))
            | None \<Rightarrow> (case ps ''prevIndex'' of
                Some pi \<Rightarrow> (case cur of
                    None \<Rightarrow> srv_err 100
                  | Some x \<Rightarrow> (case x of DirE \<Rightarrow> srv_err 102
                  | LeafE w i \<Rightarrow> if nat_digits i = pi then srv_write ''compareAndSwap'' es v else srv_err 101))
              | None \<Rightarrow>
                  if cur = Some DirE then srv_err 102
                  else if ps ''prevExist'' = Some ''true''
                  then (if cur = None then srv_err 100 else srv_write ''update'' es v)
                  else srv_write ''set'' es v)))"

definition delete_on :: "bool \<Rightarrow> entry option \<Rightarrow> path \<Rightarrow> (string \<rightharpoonup> string) \<Rightarrow> etcd_server \<Rightarrow> (error + etcd_response) \<times> etcd_server" where
  "delete_on a cur es ps =
     (case cur of
        None \<Rightarrow> srv_err (if a then 104 else 100)
      | Some x \<Rightarrow> (case x of DirE \<Rightarrow>
          if ps ''prevValue'' \<noteq> None \<or> ps ''recursive'' \<noteq> Some ''true'' then srv_err 102 else srv_remove ''delete'' es
      | LeafE w i \<Rightarrow>
          (case ps ''prevValue'' of
             None \<Rightarrow> srv_remove ''delete'' es
           | Some pv \<Rightarrow> if w = pv then srv_remove ''compareAndDelete'' es else srv_err 101)))"

definition srv_put_request :: "path \<Rightarrow> (string \<rightharpoonup> string) \<Rightarrow> bytes \<Rightarrow> etcd_server \<Rightarrow> (error + etcd_response) \<times> etcd_server" where
  "srv_put_request es ps v s = put_on (srv_leaf_above (es_tree s) es) (map_of (es_tree s) es) es ps v s"

definition srv_delete_request :: "path \<Rightarrow> (string \<rightharpoonup> string) \<Rightarrow> etcd_server \<Rightarrow> (error + etcd_response) \<times> etcd_server" where
  "srv_delete_request es ps s = delete_on (srv_leaf_above (es_tree s) es) (map_of (es_tree s) es) es ps s"

definition srv_answer :: "etcd_request \<Rightarrow> etcd_server \<Rightarrow> (error + etcd_response) \<times> etcd_server" where
  "srv_answer rq s =
     (let es = request_path rq; ps = map_of (rq_Params rq) in
      if rq_Method rq = ''GET'' then srv_get es ps s
      else if rq_Method rq = ''PUT''
      then srv_put_request es ps (case map_of (rq_Values rq) ''value'' of None \<Rightarrow> [] | Some v \<Rightarrow> v) s
      else if rq_Method rq = ''DELETE'' then srv_delete_request es ps s
      else srv_err 300 s)"

definition srv_send :: "etcd_server transport" where
  "srv_send rq s =
     (case es_faults s of
        [] \<Rightarrow> (let (r, s') = srv_answer rq s in Some (Done r, s'))
      | f # fs \<Rightarrow>
          (let s1 = s\<lparr>es_faults := fs\<rparr>; (r, s') = srv_answer rq s1 in
           if f = Served then Some (Done r, s')
           else Some (Done (Inl (EtcdError 501 [])), if f = LostRequest then s1 else s')))"

section \<open>The view of the tree\<close>

definition srv_look :: "etcd_server \<Rightarrow> view" where
  "srv_look s = map_of (es_tree s)"

definition srv_slack :: "etcd_server \<Rightarrow> nat" where
  "srv_slack s = length (filter (\<lambda>f. f \<noteq> Served) (es_faults s))"

definition tree_ok :: "tree \<Rightarrow> nat \<Rightarrow> bool" where
  "tree_ok m n \<longleftrightarrow>
     (\<forall>p q. map_of m p \<noteq> None \<longrightarrow> strict_prefix q p \<longrightarrow> map_of m q = Some DirE) \<and>
     (\<forall>p. map_of m p \<noteq> None \<longrightarrow> (\<forall>e \<in> set p. key_elem e)) \<and>
     (\<forall>p v i. map_of m p = Some (LeafE v i) \<longrightarrow> 0 < i \<and> i \<le> n)"

definition srv_inv :: "etcd_server \<Rightarrow> bool" where
  "srv_inv s \<longleftrightarrow> tree_ok (es_tree s) (es_index s)"

lemma strict_prefix_take: "strict_prefix q es \<longleftrightarrow> (\<exists>k < length es. q = take k es)"
proof
  assume "strict_prefix q es"
  then obtain zs where "es = q @ zs" "zs \<noteq> []" by (auto simp: strict_prefix_def prefix_def)
  then show "\<exists>k < length es. q = take k es" by (intro exI [of _ "length q"]) simp
next
  assume "\<exists>k < length es. q = take k es"
  then obtain k where k: "k < length es" "q = take k es" by blast
  then have "length q \<noteq> length es" by simp
  then show "strict_prefix q es" using k(2) by (auto simp: strict_prefix_def take_is_prefix)
qed

lemma map_of_put [simp]: "map_of (srv_put m es v i) = put_path (map_of m) es v i"
proof
  fix p
  have "map_of (map (\<lambda>k. (take k es, DirE)) [0..<length es] @ m) p = (if strict_prefix p es then Some DirE else map_of m p)"
  proof (cases "strict_prefix p es")
    case True
    then obtain k where "k < length es" "p = take k es" by (auto simp: strict_prefix_take)
    then have "map_of (map (\<lambda>k. (take k es, DirE)) [0..<length es]) p \<noteq> None"
      by (auto simp: map_of_eq_None_iff image_iff)
    moreover have "x = DirE" if "map_of (map (\<lambda>k. (take k es, DirE)) [0..<length es]) p = Some x" for x
      using map_of_SomeD [OF that] by auto
    ultimately show ?thesis using True by (auto simp: map_add_Some_iff)
  next
    case False
    then have "map_of (map (\<lambda>k. (take k es, DirE)) [0..<length es]) p = None"
      by (auto simp: map_of_eq_None_iff strict_prefix_take)
    then show ?thesis using False by (simp add: map_add_def)
  qed
  then show "map_of (srv_put m es v i) p = put_path (map_of m) es v i p"
    by (auto simp: srv_put_def put_path_def)
qed

lemma map_of_del [simp]: "map_of (srv_del m es) = del_path (map_of m) es"
  by (rule ext) (induction m, auto simp: srv_del_def del_path_def)

lemma leaf_above_iff: "srv_leaf_above m es \<longleftrightarrow> \<not> no_leaf_above (map_of m) es"
proof -
  have leaf: "(case x of Some (LeafE v i) \<Rightarrow> True | _ \<Rightarrow> False) \<longleftrightarrow> is_leaf x" for x
    by (auto simp: is_leaf_def split: option.splits entry.splits)
  show ?thesis
    unfolding srv_leaf_above_def leaf no_leaf_above_def strict_prefix_take list_ex_iff set_upt by fastforce
qed

lemma tree_ok_put:
  assumes "tree_ok m n" and "clean es" and "no_leaf_above (map_of m) es" and "map_of m es \<noteq> Some DirE"
  shows "tree_ok (srv_put m es v (Suc n)) (Suc n)"
proof -
  have dir: "\<And>p q. map_of m p \<noteq> None \<Longrightarrow> strict_prefix q p \<Longrightarrow> map_of m q = Some DirE"
    and simp: "\<And>p. map_of m p \<noteq> None \<Longrightarrow> \<forall>e \<in> set p. key_elem e"
    and idx: "\<And>p v i. map_of m p = Some (LeafE v i) \<Longrightarrow> 0 < i \<and> i \<le> n"
    using assms(1) unfolding tree_ok_def by blast+
  have above: "\<forall>e \<in> set p. key_elem e" if "prefix p es" for p
    using assms(2) that by (auto simp: clean_def prefix_def)
  have "put_path (map_of m) es v (Suc n) q = Some DirE"
    if ex: "put_path (map_of m) es v (Suc n) p \<noteq> None" and q: "strict_prefix q p" for p q
  proof (cases "prefix p es")
    case True
    then have "strict_prefix q es" using q by (rule prefix_order.less_le_trans [rotated])
    then show ?thesis by (auto simp: put_path_def)
  next
    case False
    then have "map_of m p \<noteq> None" using ex by (auto simp: put_path_def strict_prefix_def split: if_splits)
    then have "map_of m q = Some DirE" using dir q by blast
    then show ?thesis using assms(4) by (auto simp: put_path_def)
  qed
  moreover have "\<forall>e \<in> set p. key_elem e" if "put_path (map_of m) es v (Suc n) p \<noteq> None" for p
    using that simp above by (auto simp: put_path_def strict_prefix_def split: if_splits)
  moreover have "0 < i \<and> i \<le> Suc n" if "put_path (map_of m) es v (Suc n) p = Some (LeafE w i)" for p w i
    using that idx by (fastforce simp: put_path_def split: if_splits)
  ultimately show ?thesis unfolding tree_ok_def map_of_put by blast
qed

lemma tree_ok_del: "tree_ok m n \<Longrightarrow> tree_ok (srv_del m es) (Suc n)"
  unfolding tree_ok_def map_of_del
  by (auto simp: del_path_def strict_prefix_def split: if_splits) (force intro: le_SucI dest: prefix_order.trans)+

text \<open>A listed node shows the tree below its path.\<close>

lemma set_srv_names: "set (srv_names m p) = {e. map_of m (p @ [e]) \<noteq> None}"
proof -
  have "q \<noteq> [] \<and> butlast q = p \<longleftrightarrow> q = p @ [last q]" for q :: path by (metis append_butlast_last_id snoc_eq_iff_butlast)
  then have "set (srv_names m p) = {e. p @ [e] \<in> fst ` set m}"
    by (auto simp: srv_names_def image_iff) (force, metis last_snoc fst_conv)
  then show ?thesis by (auto simp: map_of_eq_None_iff)
qed

lemma srv_node_tree:
  "\<forall>q. map_of m q \<noteq> None \<longrightarrow> length q \<le> length p + k \<Longrightarrow> map_of m p \<noteq> None \<Longrightarrow> etree_of (map_of m) p (srv_node k m p)"
proof (induction k arbitrary: p)
  case 0
  have "map_of m (p @ [e]) = None" for e
    using spec [OF 0(1), of "p @ [e]"] by auto
  then have "{e. map_of m (p @ [e]) \<noteq> None} = {}" by simp
  then show ?case
    using 0(2) by (auto simp: srv_node.simps [of 0] split: option.splits entry.splits
        intro: etree_leaf intro!: etree_dir [where names = "[]"])
next
  case (Suc k)
  have kids: "etree_of (map_of m) (p @ [e]) (srv_node k m (p @ [e]))" if "e \<in> set (srv_names m p)" for e
    using Suc.IH [of "p @ [e]"] Suc.prems(1) that by (simp add: set_srv_names)
  then have all: "list_all2 (\<lambda>e. etree_of (map_of m) (p @ [e])) (srv_names m p) (map (\<lambda>e. srv_node k m (p @ [e])) (srv_names m p))"
    by (simp add: list_all2_conv_all_nth)
  have "distinct (srv_names m p)" by (simp add: srv_names_def)
  then show ?case
    using Suc.prems(2) all by (auto simp: srv_node.simps [of "Suc k"] set_srv_names split: option.splits entry.splits
        intro: etree_leaf intro!: etree_dir [where names = "srv_names m p"])
qed

lemma srv_depth_bound: "map_of m q \<noteq> None \<Longrightarrow> length q \<le> srv_depth m"
proof -
  assume "map_of m q \<noteq> None"
  then obtain x where "(q, x) \<in> set m" by (auto dest: map_of_SomeD)
  then have "length q \<in> set (map (length \<circ> fst) m)" by force
  then show ?thesis unfolding srv_depth_def by (rule member_le_sum_list) simp
qed

section \<open>The cluster has the documented behaviour\<close>

lemma request_path_keys: "clean es \<Longrightarrow> request_path \<lparr>rq_Method = v, rq_Path = ''keys'' @ abs_path es, rq_Params = ps, rq_Values = vs\<rparr> = es"
  using strings_Split_Join [of es slash]
  by (simp add: request_path_def abs_path_def clean_def key_elem_def simple_elem_def)

text \<open>A request under any fault: served, or not answered and applied or not.\<close>

definition blind :: "(etcd_server \<Rightarrow> (error + etcd_response) \<times> etcd_server) \<Rightarrow> bool" where
  "blind f \<longleftrightarrow> (\<forall>s fs. f (s\<lparr>es_faults := fs\<rparr>) = (fst (f s), (snd (f s))\<lparr>es_faults := fs\<rparr>) \<and>
     es_faults (snd (f s)) = es_faults s)"

text \<open>An answer does not depend on the faults to come and leaves them alone.\<close>

lemma blind_write: "blind (srv_write a es v)"
  by (simp add: blind_def srv_write_def Let_def)

lemma blind_remove: "blind (srv_remove a es)"
  by (simp add: blind_def srv_remove_def)

lemma blind_err: "blind (srv_err c)"
  by (simp add: blind_def)

lemma blind_option: "blind f \<Longrightarrow> (\<And>x. blind (g x)) \<Longrightarrow> blind (case o1 of None \<Rightarrow> f | Some x \<Rightarrow> g x)"
  by (cases o1) auto

lemma blind_entry: "blind f \<Longrightarrow> (\<And>v i. blind (g v i)) \<Longrightarrow> blind (case e of DirE \<Rightarrow> f | LeafE v i \<Rightarrow> g v i)"
  by (cases e) auto

lemma blind_const_if: "(c \<Longrightarrow> blind f) \<Longrightarrow> (\<not> c \<Longrightarrow> blind g) \<Longrightarrow> blind (if c then f else g)"
  by simp

lemma blind_put: "blind (srv_put_request es ps v)"
proof -
  have "blind (put_on a c es ps v)" for a c
    unfolding put_on_def by (intro blind_const_if blind_option blind_entry blind_write blind_err)
  then show ?thesis by (simp add: blind_def srv_put_request_def)
qed

lemma blind_delete: "blind (srv_delete_request es ps)"
proof -
  have "blind (delete_on a c es ps)" for a c
    unfolding delete_on_def by (intro blind_const_if blind_option blind_entry blind_remove blind_err)
  then show ?thesis by (simp add: blind_def srv_delete_request_def)
qed

lemma srv_answer_faults:
  "srv_answer rq (s\<lparr>es_faults := fs\<rparr>) = (fst (srv_answer rq s), (snd (srv_answer rq s))\<lparr>es_faults := fs\<rparr>)"
  "es_faults (snd (srv_answer rq s)) = es_faults s"
proof -
  have "blind (srv_get es ps)" for es ps by (simp add: blind_def srv_get_def)
  then have "blind (srv_answer rq)"
    using blind_put blind_delete blind_err by (auto simp: blind_def srv_answer_def Let_def)
  then show "srv_answer rq (s\<lparr>es_faults := fs\<rparr>) = (fst (srv_answer rq s), (snd (srv_answer rq s))\<lparr>es_faults := fs\<rparr>)"
    "es_faults (snd (srv_answer rq s)) = es_faults s" by (simp_all add: blind_def)
qed

lemma wp_srv_send:
  assumes "srv_answer rq s = (r, s')"
    and "\<And>t. es_tree t = es_tree s' \<Longrightarrow> es_index t = es_index s' \<Longrightarrow> srv_slack t \<le> srv_slack s \<Longrightarrow> Q r t"
    and "\<And>t m. es_tree t = es_tree s' \<and> es_index t = es_index s' \<or> es_tree t = es_tree s \<and> es_index t = es_index s \<Longrightarrow>
      srv_slack t < srv_slack s \<Longrightarrow> Q (Inl (EtcdError 501 m)) t"
  shows "wp (srv_send rq) Q s"
proof (cases "es_faults s")
  case Nil
  then show ?thesis using assms(1) srv_answer_faults(2) [of rq s] assms(2) [of s'] by (simp add: wp_def srv_send_def srv_slack_def)
next
  case (Cons f fs)
  then show ?thesis
    using assms(1) srv_answer_faults(1) [where fs = fs] assms(2) [of "s'\<lparr>es_faults := fs\<rparr>"]
      assms(3) [of "s'\<lparr>es_faults := fs\<rparr>"] assms(3) [of "s\<lparr>es_faults := fs\<rparr>"]
    by (cases f) (auto simp: wp_def srv_send_def srv_slack_def)
qed

text \<open>The answers, by what the tree holds at the path.\<close>

lemma buildValues_value: "(case map_of (buildValues v ttl) ''value'' of None \<Rightarrow> [] | Some v \<Rightarrow> v) = v"
  by (cases v) (auto simp: buildValues_def)

lemma srv_answer_requests:
  assumes "clean es"
  shows "srv_answer (rget es rec strong) s = srv_get es (map_of [(''recursive'', show_opt (OBool rec))]) s"
    and "srv_answer (rput es ps v ttl) s = srv_put_request es (map_of ps) v s"
    and "srv_answer (rdelete es ps) s = srv_delete_request es (map_of ps) s"
  using assms
  by (simp_all add: srv_answer_def request_path_keys buildValues_value srv_get_def Let_def del: list.simps append.simps show_opt.simps)

lemma un_simps [simp]: "unreachable (Inl (EtcdError c m)) \<longleftrightarrow> c = 501"
  "refused c (Inl (EtcdError d m)) \<longleftrightarrow> c \<noteq> 501 \<and> c = d" "accepted (Inr x)" "\<not> accepted (Inl e)"
  by (auto simp: unreachable_def refused_def accepted_def)

lemma etree_dir_node:
  assumes "map_of m es = Some DirE"
  shows "en_Dir (srv_node k m es)"
  using assms by (simp add: srv_node.simps [of k])

lemma leaf_node_shape: "map_of m es = Some (LeafE v i) \<Longrightarrow> srv_node k m es = EtcdNode (abs_path es) v False 0 [] i i"
  by (simp add: srv_node.simps [of k])

lemma srv_inv_of: "srv_inv s \<Longrightarrow> es_tree t = es_tree s \<Longrightarrow> es_index t = es_index s \<Longrightarrow> srv_inv t \<and> srv_look t = srv_look s"
  by (simp add: srv_inv_def srv_look_def)

text \<open>A write on a path where nothing is in the way, and a removal.\<close>

lemma wp_srv_write:
  assumes "srv_inv s" and "clean es" and "settable (srv_look s) es" and "srv_answer rq s = srv_write a es v s"
  shows "wp (srv_send rq) (\<lambda>r s'. srv_inv s' \<and> es_index s \<le> es_index s' \<and>
      (if unreachable r
       then srv_slack s' < srv_slack s \<and> (srv_look s' = srv_look s \<or> (\<exists>i > es_index s. srv_look s' = put_path (srv_look s) es v i))
       else srv_slack s' \<le> srv_slack s \<and> accepted r \<and> (\<exists>i > es_index s. srv_look s' = put_path (srv_look s) es v i))) s"
proof -
  let ?m = "srv_put (es_tree s) es v (Suc (es_index s))"
  let ?s = "s\<lparr>es_tree := ?m, es_index := Suc (es_index s)\<rparr>"
  have ok: "tree_ok ?m (Suc (es_index s))"
    using assms(1-3) by (intro tree_ok_put) (simp_all add: srv_inv_def srv_look_def settable_def)
  have new: "srv_inv t \<and> srv_look t = put_path (srv_look s) es v (Suc (es_index s))"
    if "es_tree t = es_tree ?s" "es_index t = es_index ?s" for t
    using that ok by (simp add: srv_inv_def srv_look_def)
  obtain x where ans: "srv_answer rq s = (Inr x, ?s)" by (simp add: assms(4) srv_write_def Let_def)
  show ?thesis
  proof (rule wp_srv_send [OF ans], goal_cases)
    case (1 t)
    then show ?case using new [of t] by auto
  next
    case (2 t m)
    then show ?case using new [of t] srv_inv_of [OF assms(1), of t] by fastforce
  qed
qed

lemma wp_srv_remove:
  assumes "srv_inv s" and "srv_answer rq s = srv_remove a es s"
  shows "wp (srv_send rq) (\<lambda>r s'. srv_inv s' \<and> es_index s \<le> es_index s' \<and>
      (if unreachable r
       then srv_slack s' < srv_slack s \<and> (srv_look s' = srv_look s \<or> srv_look s' = del_path (srv_look s) es)
       else srv_slack s' \<le> srv_slack s \<and> accepted r \<and> srv_look s' = del_path (srv_look s) es)) s"
proof -
  let ?s = "s\<lparr>es_tree := srv_del (es_tree s) es, es_index := Suc (es_index s)\<rparr>"
  have new: "srv_inv t \<and> srv_look t = del_path (srv_look s) es"
    if "es_tree t = es_tree ?s" "es_index t = es_index ?s" for t
    using that assms(1) by (simp add: srv_inv_def srv_look_def tree_ok_del)
  obtain x where ans: "srv_answer rq s = (Inr x, ?s)" by (simp add: assms(2) srv_remove_def)
  show ?thesis
  proof (rule wp_srv_send [OF ans], goal_cases)
    case (1 t)
    then show ?case using new [of t] by auto
  next
    case (2 t m)
    then show ?case using new [of t] srv_inv_of [OF assms(1), of t] by fastforce
  qed
qed

lemma wp_srv_refuse:
  assumes "srv_inv s" and "srv_answer rq s = srv_err c s" and "c \<noteq> 501"
  shows "wp (srv_send rq) (\<lambda>r s'. srv_inv s' \<and> es_index s \<le> es_index s' \<and> srv_look s' = srv_look s \<and>
      (if unreachable r then srv_slack s' < srv_slack s else srv_slack s' \<le> srv_slack s \<and> refused c r)) s"
proof (rule wp_srv_send [OF assms(2)], goal_cases)
  case (1 t)
  then show ?case using srv_inv_of [OF assms(1), of t] assms(3) by auto
next
  case (2 t m)
  then show ?case using srv_inv_of [OF assms(1), of t] by auto
qed

lemma srv_get_law:
  assumes "srv_inv s" and "clean es"
  shows "wp (srv_send (rget es rec strong)) (\<lambda>r s'. srv_inv s' \<and> srv_look s' = srv_look s \<and>
      (if unreachable r then srv_slack s' < srv_slack s
       else srv_slack s' \<le> srv_slack s \<and>
        (case srv_look s es of
           Some (LeafE v i) \<Rightarrow> \<exists>a ttl ci p. r = Inr \<lparr>er_Action = a, er_Node = Some (EtcdNode (abs_path es) v False ttl [] i ci), er_PrevNode = p\<rparr>
         | Some DirE \<Rightarrow> \<exists>a n p. r = Inr \<lparr>er_Action = a, er_Node = Some n, er_PrevNode = p\<rparr> \<and> en_Dir n \<and> (rec \<longrightarrow> etree_of (srv_look s) es n)
         | None \<Rightarrow> \<exists>c. refused c r \<and> (no_leaf_above (srv_look s) es \<longrightarrow> c = 100)))) s"
proof (cases "srv_leaf_above (es_tree s) es \<or> map_of (es_tree s) es = None")
  case True
  have none: "map_of (es_tree s) es = None"
  proof (rule ccontr)
    assume n: "map_of (es_tree s) es \<noteq> None"
    then have "no_leaf_above (map_of (es_tree s)) es"
      using assms(1) by (auto simp: srv_inv_def tree_ok_def no_leaf_above_def is_leaf_def)
    then show False using True n by (simp add: leaf_above_iff)
  qed
  let ?c = "if srv_leaf_above (es_tree s) es then 104 else 100"
  have ans: "srv_answer (rget es rec strong) s = srv_err ?c s"
    unfolding srv_answer_requests(1) [OF assms(2)] using True none by (auto simp: srv_get_def)
  show ?thesis
    by (rule wp_mono [OF wp_srv_refuse [OF assms(1) ans]])
      (use none in \<open>auto simp: srv_look_def leaf_above_iff split: if_splits\<close>)
next
  case False
  then obtain x where x: "map_of (es_tree s) es = Some x" "\<not> srv_leaf_above (es_tree s) es" by auto
  let ?k = "if rec then srv_depth (es_tree s) else 1"
  have "srv_get es (map_of [(''recursive'', show_opt (OBool rec))]) s = (Inr \<lparr>er_Action = ''get'',
      er_Node = Some (srv_node ?k (es_tree s) es), er_PrevNode = None\<rparr>, s)"
    using x by (simp add: srv_get_def)
  note ans = this [folded srv_answer_requests(1) [OF assms(2), of _ strong]]
  show ?thesis
  proof (rule wp_srv_send [OF ans], goal_cases)
    case (1 t)
    have t: "srv_inv t" "srv_look t = srv_look s" using srv_inv_of [OF assms(1) 1(1,2)] by blast+
    show ?case
    proof (cases x)
      case DirE
      have "etree_of (map_of (es_tree s)) es (srv_node (srv_depth (es_tree s)) (es_tree s) es)"
        using x(1) by (intro srv_node_tree) (auto intro: trans_le_add2 srv_depth_bound)
      then show ?thesis using t 1 x DirE etree_dir_node [of "es_tree s" es] by (simp add: srv_look_def)
    next
      case (LeafE v i)
      then show ?thesis using t 1 x leaf_node_shape [of "es_tree s" es v i] by (simp add: srv_look_def)
    qed
  next
    case (2 t m)
    then show ?case using srv_inv_of [OF assms(1), of t] by auto
  qed
qed

lemma srv_above_iff: "srv_leaf_above (es_tree s) es \<longleftrightarrow> \<not> no_leaf_above (srv_look s) es"
  by (simp add: leaf_above_iff srv_look_def)

lemma srv_exists_above: "srv_inv s \<Longrightarrow> srv_look s es \<noteq> None \<Longrightarrow> no_leaf_above (srv_look s) es"
  by (auto simp: srv_inv_def srv_look_def tree_ok_def no_leaf_above_def is_leaf_def)

lemma srv_settable: "srv_inv s \<Longrightarrow> is_leaf (srv_look s es) \<Longrightarrow> settable (srv_look s) es"
  using srv_exists_above [of s es] by (auto simp: settable_def is_leaf_def)

lemma entry_cases: "(x = None \<Longrightarrow> P) \<Longrightarrow> (x = Some DirE \<Longrightarrow> P) \<Longrightarrow> (\<And>v i. x = Some (LeafE v i) \<Longrightarrow> P) \<Longrightarrow> P"
  by (metis entry.exhaust option.exhaust)

text \<open>A swap writes when its comparison holds, and answers 102, 101 or 100 by what it finds otherwise.\<close>

lemma srv_swap_law:
  assumes "srv_inv s" and "clean es"
    and ps: "ps = [(''prevValue'', pv)] \<and> M = (\<lambda>cur j. cur = pv) \<or> ps = [(''prevIndex'', nat_digits idx)] \<and> M = (\<lambda>cur j. j = idx)"
  shows "wp (srv_send (rput es ps v ttl)) (\<lambda>r s'. srv_inv s' \<and> es_index s \<le> es_index s' \<and>
      (let match = (\<exists>cur j. srv_look s es = Some (LeafE cur j) \<and> M cur j) in
       if unreachable r
       then srv_slack s' < srv_slack s \<and> (srv_look s' = srv_look s \<or> match \<and> (\<exists>i > es_index s. srv_look s' = put_path (srv_look s) es v i))
       else srv_slack s' \<le> srv_slack s \<and>
        (if match then accepted r \<and> (\<exists>i > es_index s. srv_look s' = put_path (srv_look s) es v i)
         else srv_look s' = srv_look s \<and> (\<exists>c. refused c r \<and> (is_leaf (srv_look s es) \<longrightarrow> c = 101) \<and>
             (srv_look s es = None \<and> no_leaf_above (srv_look s) es \<longrightarrow> c = 100))))) s"
proof -
  have digits: "nat_digits j = nat_digits idx \<longleftrightarrow> j = idx" "nat_digits idx = nat_digits j \<longleftrightarrow> j = idx" for j
    by (auto dest: nat_digits_inj)
  let ?match = "\<exists>cur j. srv_look s es = Some (LeafE cur j) \<and> M cur j"
  show ?thesis
  proof (cases ?match)
    case True
    then have leaf: "is_leaf (srv_look s es)" by (auto simp: is_leaf_def)
    have "srv_answer (rput es ps v ttl) s = srv_write ''compareAndSwap'' es v s"
      unfolding srv_answer_requests(2) [OF assms(2)]
      using True ps srv_settable [OF assms(1) leaf] by (auto simp: srv_put_request_def put_on_def srv_above_iff digits settable_def srv_look_def)
    from wp_srv_write [OF assms(1,2) srv_settable [OF assms(1) leaf] this] True show ?thesis
      by (elim wp_mono) (simp add: Let_def split: if_splits)
  next
    case False
    define c :: int where "c = (if \<not> no_leaf_above (srv_look s) es then 104 else if srv_look s es = None then 100
      else if is_leaf (srv_look s es) then 101 else 102)"
    have "srv_answer (rput es ps v ttl) s = srv_err c s"
      unfolding srv_answer_requests(2) [OF assms(2)]
      using False ps
      by (cases "no_leaf_above (srv_look s) es"; cases "srv_look s es" rule: entry_cases; elim disjE conjE)
        (simp_all add: srv_put_request_def put_on_def srv_above_iff digits c_def is_leaf_def flip: srv_look_def)
    from wp_srv_refuse [OF assms(1) this] show ?thesis
      by (rule wp_mono) (use False srv_exists_above [OF assms(1), of es] in
          \<open>auto simp: Let_def c_def is_leaf_def split: if_splits\<close>)
  qed
qed

interpretation srv: etcd_api srv_send srv_inv srv_look srv_slack es_index
proof (unfold_locales, goal_cases)
  case (1 s p q)
  then show ?case by (auto simp: srv_inv_def srv_look_def tree_ok_def)
next
  case (2 s p)
  then show ?case by (auto simp: srv_inv_def srv_look_def tree_ok_def)
next
  case (3 s p v i)
  then show ?case by (auto simp: srv_inv_def srv_look_def tree_ok_def)
next
  case (4 s es rec strong)
  then show ?case by (rule srv_get_law)
next
  case (5 s es v ttl)
  show ?case
  proof (cases "settable (srv_look s) es")
    case True
    have "srv_answer (rput es [] v ttl) s = srv_write ''set'' es v s"
      unfolding srv_answer_requests(2) [OF 5(2)]
      using True by (simp add: srv_put_request_def put_on_def srv_above_iff settable_def srv_look_def)
    from wp_srv_write [OF 5 True this] show ?thesis by (rule wp_mono) (simp add: True split: if_splits)
  next
    case False
    have "srv_answer (rput es [] v ttl) s = srv_err (if no_leaf_above (srv_look s) es then 102 else 104) s"
      unfolding srv_answer_requests(2) [OF 5(2)]
      using False by (auto simp: srv_put_request_def put_on_def srv_above_iff settable_def srv_look_def)
    from wp_srv_refuse [OF 5(1) this] show ?thesis by (rule wp_mono) (auto simp: False split: if_splits)
  qed
next
  case (6 s es v ttl)
  show ?case
  proof (cases "creatable (srv_look s) es")
    case True
    have "srv_answer (rput es [(''prevExist'', ''false'')] v ttl) s = srv_write ''create'' es v s"
      unfolding srv_answer_requests(2) [OF 6(2)]
      using True by (simp add: srv_put_request_def put_on_def srv_above_iff creatable_def srv_look_def)
    from wp_srv_write [OF 6 creatable_settable [OF True] this] show ?thesis by (rule wp_mono) (simp add: True split: if_splits)
  next
    case False
    have "srv_answer (rput es [(''prevExist'', ''false'')] v ttl) s = srv_err (if no_leaf_above (srv_look s) es then 105 else 104) s"
      unfolding srv_answer_requests(2) [OF 6(2)]
      using False by (auto simp: srv_put_request_def put_on_def srv_above_iff creatable_def srv_look_def)
    from wp_srv_refuse [OF 6(1) this] show ?thesis
      by (rule wp_mono) (use False srv_exists_above [OF 6(1), of es] in \<open>auto split: if_splits\<close>)
  qed
next
  case (7 s es ps pv M idx v ttl)
  then show ?case by (intro srv_swap_law) auto
next
  case (8 s es)
  show ?case
  proof (cases "srv_look s es")
    case None
    have "srv_answer (rdelete es [(''recursive'', ''true''), (''dir'', ''false'')]) s = srv_err (if no_leaf_above (srv_look s) es then 100 else 104) s"
      unfolding srv_answer_requests(3) [OF 8(2)]
      using None by (simp add: srv_delete_request_def delete_on_def srv_above_iff srv_look_def)
    from wp_srv_refuse [OF 8(1) this] show ?thesis by (rule wp_mono) (auto simp: None split: if_splits)
  next
    case (Some x)
    have "srv_answer (rdelete es [(''recursive'', ''true''), (''dir'', ''false'')]) s = srv_remove ''delete'' es s"
      unfolding srv_answer_requests(3) [OF 8(2)]
      using Some by (cases x) (simp_all add: srv_delete_request_def delete_on_def srv_look_def)
    from wp_srv_remove [OF 8(1) this] show ?thesis by (rule wp_mono) (auto simp: Some split: if_splits)
  qed
next
  case (9 s es pv)
  show ?case
  proof (cases "\<exists>j. srv_look s es = Some (LeafE pv j)")
    case True
    then have "srv_answer (rdelete es [(''prevValue'', pv)]) s = srv_remove ''compareAndDelete'' es s"
      unfolding srv_answer_requests(3) [OF 9(2)] by (auto simp: srv_delete_request_def delete_on_def srv_look_def)
    from wp_srv_remove [OF 9(1) this] show ?thesis by (rule wp_mono) (auto simp: True split: if_splits)
  next
    case False
    define c :: int where "c = (case srv_look s es of None \<Rightarrow> if no_leaf_above (srv_look s) es then 100 else 104
      | Some DirE \<Rightarrow> 102 | Some (LeafE w i) \<Rightarrow> 101)"
    have "srv_answer (rdelete es [(''prevValue'', pv)]) s = srv_err c s"
      unfolding srv_answer_requests(3) [OF 9(2)]
      using False by (auto simp: srv_delete_request_def delete_on_def srv_above_iff c_def srv_look_def
          split: option.splits entry.splits)
    from wp_srv_refuse [OF 9(1) this] show ?thesis
      by (rule wp_mono) (use False in \<open>auto simp: c_def is_leaf_def split: if_splits option.splits entry.splits\<close>)
  qed
qed

end
