(* ===== verification/EtcdWorld.thy ===== *)
theory EtcdWorld
  imports EtcdServer
begin

text \<open>
  The world of the real adapter: a component over the etcd adapter, a cluster and a clock. The
  interpretations give every store-level theorem of the components for it.
\<close>

lemma cas_store_on_fst:
  assumes "cas_store a I look slack tick"
  shows "cas_store (store_on_fst a) (\<lambda>(s, t). I s \<and> J t) (\<lambda>(s, t). look s) (\<lambda>(s, t). slack s) (\<lambda>(s, t). tick s)"
proof -
  have kv: "kv_store a I look slack" using assms by (rule cas_store.axioms(1))
  show ?thesis
  proof (rule cas_store.intro [OF kv_store_on_fst [OF kv]], unfold_locales, goal_cases)
    case (1 s p v i)
    then show ?case using cas_store.tick_bound [OF assms] by (auto simp: split_beta)
  next
    case (2 s es old j idx v ttl)
    then show ?case
      by (cases s) (auto simp: store_on_fst_def wp_on_fst split_beta
          intro!: wp_mono [OF cas_store.law_CAS_index [OF assms, of _ es old j idx v ttl]] split: if_splits)
  next
    case (3 s es old okey ottl v ttl)
    then show ?case
      by (cases s) (auto simp: store_on_fst_def wp_on_fst split_beta
          intro!: wp_mono [OF cas_store.law_CAS_value [OF assms, of _ es old okey ottl v ttl]] split: if_splits)
  next
    case (4 s es old ttl)
    then show ?case
      by (cases s) (auto simp: store_on_fst_def wp_on_fst split_beta
          intro!: wp_mono [OF cas_store.law_CAD [OF assms, of _ es old ttl]] split: if_splits)
  qed
qed

definition clocked :: "'s store_adapter \<Rightarrow> ('s \<times> fake_time) bbs" where
  "clocked a = \<lparr>bbs_store = store_on_fst a, bbs_clock = on_snd ftp_Time\<rparr>"

definition clocked_inv :: "('s \<Rightarrow> bool) \<Rightarrow> gotime \<Rightarrow> 's \<times> fake_time \<Rightarrow> bool" where
  "clocked_inv I t0 = (\<lambda>(s, t). I s \<and> (ftp_TimeToProvide t = t0 \<and> int64_ok t0))"

lemma clocked_frozen:
  assumes "cas_store a I look slack tick"
  shows "frozen_world (clocked a) (clocked_inv I t0) (\<lambda>(s, t). look s) (\<lambda>(s, t). slack s) (\<lambda>(s, t). tick s) t0"
proof -
  have cas: "cas_store (bbs_store (clocked a)) (clocked_inv I t0) (\<lambda>(s, t). look s) (\<lambda>(s, t). slack s) (\<lambda>(s, t). tick s)"
    using cas_store_on_fst [OF assms, of "\<lambda>t. ftp_TimeToProvide t = t0 \<and> int64_ok t0"]
    by (simp add: clocked_def clocked_inv_def case_prod_unfold)
  show ?thesis
  proof (intro frozen_world.intro cas_world.intro kv_world.intro cas cas_store.axioms(1) [OF cas])
    show "kv_world_axioms (clocked a) (clocked_inv I t0) (\<lambda>(s, t). look s) (\<lambda>(s, t). slack s)"
      by unfold_locales (auto simp: clocked_def clocked_inv_def wp_on_snd wp_def ftp_Time_def on_snd_def)
    show "cas_world_axioms (clocked a) (clocked_inv I t0) (\<lambda>(s, t). tick s)"
      by unfold_locales (auto simp: clocked_def clocked_inv_def wp_on_snd wp_def ftp_Time_def on_snd_def)
    show "frozen_world_axioms (clocked a) (clocked_inv I t0) t0"
      by unfold_locales (auto simp: clocked_def clocked_inv_def ftp_Time_def on_snd_def)
  qed
qed

text \<open>The pool of one worker serves closures in the order they are scheduled.\<close>

definition fifo :: "nat \<Rightarrow> nat list" where
  "fifo n = [0..<n]"

definition etcd_ops :: "etcd_server store_adapter" where
  "etcd_ops = etcd_store (adapter_over srv_send True fifo)"

definition etcd_bbs :: "(etcd_server \<times> fake_time) bbs" where
  "etcd_bbs = clocked etcd_ops"

abbreviation etcd_inv :: "gotime \<Rightarrow> etcd_server \<times> fake_time \<Rightarrow> bool" where
  "etcd_inv t0 \<equiv> clocked_inv srv_inv t0"

interpretation etcd: cas_store etcd_ops srv_inv srv_look srv_slack es_index
  unfolding etcd_ops_def by (rule adapter_cas_store [OF srv.etcd_api_axioms]) (simp add: fifo_def)

interpretation etcd_world: frozen_world etcd_bbs "etcd_inv t0" "\<lambda>(s, t). srv_look s" "\<lambda>(s, t). srv_slack s"
  "\<lambda>(s, t). es_index s" t0 for t0
  unfolding etcd_bbs_def by (rule clocked_frozen [OF etcd.cas_store_axioms])

end
