(* ===== verification/Examples.thy ===== *)
theory Examples
  imports TaskConvergence EtcdWorld
begin

text \<open>
  Concrete worlds on which the general properties are applied: a cluster of one or two entries, whose
  next answer gets lost, and a clock.
\<close>

definition ex_task :: task where
  "ex_task = zero_task\<lparr>task_Guid := ''guid-1'', task_Domain := ''tests'', task_Stack := ''pancakes'',
     task_Actions := Some [FetchResultAction \<lparr>fr_File = ''out''\<rparr>], task_MemoryMB := 256, task_CreatedAt := 5,
     task_UpdatedAt := 7, task_State := TaskStatePending\<rparr>"

lemma float_ok_zero [simp]: "float_ok 0"
proof -
  have "shortest_digits 0 = ([], 0)"
    by (simp add: shortest_digits_def f64_fraction_def f64_frac_def f64_exp_def)
  then have f: "FormatFloat 0 = ''0''"
    by (simp add: FormatFloat_def fmt_f_def f64_neg_def)
  have "digits_value ''0'' = 0" "dec_digit CHR ''0''" by (simp_all add: digits_value_def dec_digit_def digit_val_def)
  then have "ParseFloat ''0'' = Some 0"
    by (simp add: ParseFloat_def decimal_f64_def round_f64_def exp_value_def)
  moreover have "number_lit ''0''" by (simp add: number_lit_def) code_simp
  ultimately show ?thesis by (simp add: float_ok_def f f64_finite_def f64_exp_def)
qed

lemma ex_task_ok [simp]: "task_ok ex_task" "task_ok (ex_task\<lparr>task_State := n\<rparr>) \<longleftrightarrow> int64_ok n"
  by (simp_all add: ex_task_def task_ok_def zero_task_def actions_ok_def log_ok_def zero_log_def ascii_def int64_ok_def)

text \<open>A cluster that holds the given entries below two-element roots.\<close>

definition ex_tree :: "(string \<times> string \<times> bytes) list \<Rightarrow> tree" where
  "ex_tree xs = fold (\<lambda>(r, k, v) m. srv_put m [''v1'', r, k] v 1) xs [([], DirE)]"

definition ex_world :: "fault list \<Rightarrow> (string \<times> string \<times> bytes) list \<Rightarrow> gotime \<Rightarrow> etcd_server \<times> fake_time" where
  "ex_world faults xs t0 = (\<lparr>es_tree = ex_tree xs, es_index = 1, es_faults = faults\<rparr>, ftp_New t0)"

lemma ex_tree_one: "map_of (ex_tree [(r, k, v)]) = (\<lambda>p. if p = [''v1'', r, k] then Some (LeafE v 1)
    else if prefix p [''v1'', r] then Some DirE else None)"
  by (auto simp: ex_tree_def put_path_def fun_eq_iff strict_prefix_def prefix_Cons)

lemma ex_inv_one: "r \<in> root_names \<Longrightarrow> key_elem k \<Longrightarrow> int64_ok t0 \<Longrightarrow> etcd_inv t0 (ex_world fs [(r, k, v)] t0)"
  by (auto simp: ex_world_def clocked_inv_def srv_inv_def tree_ok_def ex_tree_one ftp_New_def strict_prefix_def
      prefix_Cons split: if_splits)

lemma ex_look_one: "srv_look (fst (ex_world fs [(r, k, v)] t0)) = map_of (ex_tree [(r, k, v)])"
  by (simp add: ex_world_def srv_look_def)

text \<open>The stored form of a task.\<close>

definition ex_value :: "task \<Rightarrow> bytes" where
  "ex_value t = the (Task_ToJSON t)"

lemma ex_value: "task_ok t \<Longrightarrow> NewTaskFromJSON (ex_value t) = Ok t"
  using task_ToJSON [of t] by (auto simp: ex_value_def)

abbreviation ex_task_world :: "fault list \<Rightarrow> task \<Rightarrow> gotime \<Rightarrow> etcd_server \<times> fake_time" where
  "ex_task_world fs t t0 \<equiv> ex_world fs [(''task'', task_Guid t, ex_value t)] t0"

lemma ex_guid [simp]: "task_Guid ex_task = ''guid-1''" "task_State ex_task = TaskStatePending" "task_ExecutorID ex_task = []" "key_elem ''guid-1''" "ascii ''exec''" "ascii ''other''"
  by (simp_all add: ex_task_def zero_task_def key_elem_def simple_elem_def ascii_def)

lemma ex_tasks_ok: "tasks_ok (map_of (ex_tree [(''task'', task_Guid ex_task, ex_value ex_task)]))"
  by (auto simp: tasks_ok_def ex_tree_one ex_value split: if_splits)

lemma ex_task_entry: "task_entry (map_of (ex_tree [(''task'', task_Guid ex_task, ex_value ex_task)])) ''guid-1'' ex_task 1"
  by (auto simp: task_entry_def ex_tree_one ex_value)

end
