(* ===== verification/LrpRefinement.thy ===== *)
theory LrpRefinement
  imports StartAuctionBbs StopAuctionBbs Examples
begin

text \<open>
  The abstract specification of what lrp_bbs, start_auction_bbs and stop_auction_bbs keep: a state of
  five partial functions, the effect of every operation on it and the error it answers with. On any
  store that meets its contract the operations implement it.
\<close>

section \<open>Both kinds of auctions in any world\<close>

sublocale cas_world \<subseteq> start_auctions: auction_world start_auction "''start''"
  "\<lambda>a. [desired_ProcessGuid (sta_DesiredLRP a), Itoa (sta_Index a)]" start_auction_ok B inv look slack tick
  by (intro auction_world.intro start.auction_laws_axioms cas_world_axioms)

sublocale cas_world \<subseteq> stop_auctions: auction_world stop_auction "''stop''"
  "\<lambda>a. [spa_ProcessGuid a, Itoa (spa_Index a)]" stop_auction_ok B inv look slack tick
  by (intro auction_world.intro stop.auction_laws_axioms cas_world_axioms)

section \<open>The operations and their specification\<close>

datatype lrp_op =
    OpDesire desired_lrp
  | OpRemoveDesired string
  | OpChange desired_lrp_change
  | OpReportStarting actual_lrp string
  | OpReportRunning actual_lrp string
  | OpRemoveActual actual_lrp
  | OpRequestStops "stop_lrp_instance list"
  | OpRequestStop stop_lrp_instance
  | OpResolveStop stop_lrp_instance
  | OpRequestStart lrp_start_auction
  | OpClaimStart lrp_start_auction
  | OpResolveStart lrp_start_auction
  | OpRequestStopAuction lrp_stop_auction
  | OpClaimStopAuction lrp_stop_auction
  | OpResolveStopAuction lrp_stop_auction

fun run_lrp_op :: "'s bbs \<Rightarrow> lrp_op \<Rightarrow> ('s, error option) go" where
  "run_lrp_op B (OpDesire d) = DesireLRP B d"
| "run_lrp_op B (OpRemoveDesired g) = RemoveDesiredLRPByProcessGuid B g"
| "run_lrp_op B (OpChange c) = ChangeDesiredLRP B c"
| "run_lrp_op B (OpReportStarting a e) = ReportActualLRPAsStarting B a e"
| "run_lrp_op B (OpReportRunning a e) = ReportActualLRPAsRunning B a e"
| "run_lrp_op B (OpRemoveActual a) = RemoveActualLRP B a"
| "run_lrp_op B (OpRequestStops is) = RequestStopLRPInstances B is"
| "run_lrp_op B (OpRequestStop i) = RequestStopLRPInstance B i"
| "run_lrp_op B (OpResolveStop i) = ResolveStopLRPInstance B i"
| "run_lrp_op B (OpRequestStart a) = RequestLRPStartAuction B a"
| "run_lrp_op B (OpClaimStart a) = ClaimLRPStartAuction B a"
| "run_lrp_op B (OpResolveStart a) = ResolveLRPStartAuction B a"
| "run_lrp_op B (OpRequestStopAuction a) = RequestLRPStopAuction B a"
| "run_lrp_op B (OpClaimStopAuction a) = ClaimLRPStopAuction B a"
| "run_lrp_op B (OpResolveStopAuction a) = ResolveLRPStopAuction B a"

text \<open>Arguments within the ranges the wire format and the keys can carry.\<close>

definition start_arg_ok :: "lrp_start_auction \<Rightarrow> bool" where
  "start_arg_ok a \<longleftrightarrow> start_auction_ok a \<and> key_elem (desired_ProcessGuid (sta_DesiredLRP a))"

definition stop_arg_ok :: "lrp_stop_auction \<Rightarrow> bool" where
  "stop_arg_ok a \<longleftrightarrow> stop_auction_ok a \<and> key_elem (spa_ProcessGuid a)"

definition actual_arg_ok :: "actual_lrp \<Rightarrow> bool" where
  "actual_arg_ok a \<longleftrightarrow> actual_ok a \<and> key_elem (actual_ProcessGuid a) \<and> key_elem (actual_InstanceGuid a) \<and>
     key_elem (actual_ExecutorID a)"

definition stop_request_ok :: "stop_lrp_instance \<Rightarrow> bool" where
  "stop_request_ok i \<longleftrightarrow> stop_instance_ok i \<and> key_elem (sli_InstanceGuid i)"

fun lrp_op_ok :: "lrp_op \<Rightarrow> bool" where
  "lrp_op_ok (OpDesire d) \<longleftrightarrow> desired_ok d \<and> key_elem (desired_ProcessGuid d)"
| "lrp_op_ok (OpRemoveDesired g) \<longleftrightarrow> key_elem g"
| "lrp_op_ok (OpChange c) \<longleftrightarrow> change_ok c"
| "lrp_op_ok (OpReportStarting a e) \<longleftrightarrow> actual_arg_ok (a\<lparr>actual_ExecutorID := e\<rparr>)"
| "lrp_op_ok (OpReportRunning a e) \<longleftrightarrow> actual_arg_ok (a\<lparr>actual_ExecutorID := e\<rparr>)"
| "lrp_op_ok (OpRemoveActual a) \<longleftrightarrow> key_elem (actual_ProcessGuid a) \<and> key_elem (actual_InstanceGuid a)"
| "lrp_op_ok (OpRequestStops is) \<longleftrightarrow> list_all stop_request_ok is \<and> distinct (map sli_InstanceGuid is)"
| "lrp_op_ok (OpRequestStop i) \<longleftrightarrow> stop_request_ok i"
| "lrp_op_ok (OpResolveStop i) \<longleftrightarrow> key_elem (sli_InstanceGuid i)"
| "lrp_op_ok (OpRequestStart a) \<longleftrightarrow> start_arg_ok a"
| "lrp_op_ok (OpClaimStart a) \<longleftrightarrow> start_arg_ok a"
| "lrp_op_ok (OpResolveStart a) \<longleftrightarrow> start_arg_ok a"
| "lrp_op_ok (OpRequestStopAuction a) \<longleftrightarrow> stop_arg_ok a"
| "lrp_op_ok (OpClaimStopAuction a) \<longleftrightarrow> stop_arg_ok a"
| "lrp_op_ok (OpResolveStopAuction a) \<longleftrightarrow> stop_arg_ok a"

text \<open>The keys and the stamps of the two kinds.\<close>

definition start_key :: "lrp_start_auction \<Rightarrow> string \<times> int" where
  "start_key a = (desired_ProcessGuid (sta_DesiredLRP a), sta_Index a)"

definition stop_key :: "lrp_stop_auction \<Rightarrow> string \<times> int" where
  "stop_key a = (spa_ProcessGuid a, spa_Index a)"

definition actual_key :: "actual_lrp \<Rightarrow> string \<times> int \<times> string" where
  "actual_key a = (actual_ProcessGuid a, actual_Index a, actual_InstanceGuid a)"

definition start_stamped :: "int \<Rightarrow> int \<Rightarrow> lrp_start_auction \<Rightarrow> lrp_start_auction" where
  "start_stamped st t a = a\<lparr>sta_State := st, sta_UpdatedAt := t\<rparr>"

definition stop_stamped :: "int \<Rightarrow> int \<Rightarrow> lrp_stop_auction \<Rightarrow> lrp_stop_auction" where
  "stop_stamped st t a = a\<lparr>spa_State := st, spa_UpdatedAt := t\<rparr>"

text \<open>The effect of an operation that takes place at the time \<open>t\<close>.\<close>

fun lrp_effect :: "lrp_op \<Rightarrow> int \<Rightarrow> lrp_state \<Rightarrow> lrp_state" where
  "lrp_effect (OpDesire d) t \<sigma> = \<sigma>\<lparr>ls_desired := (ls_desired \<sigma>)(desired_ProcessGuid d \<mapsto> d)\<rparr>"
| "lrp_effect (OpRemoveDesired g) t \<sigma> = \<sigma>\<lparr>ls_desired := (ls_desired \<sigma>)(g := None)\<rparr>"
| "lrp_effect (OpChange c) t \<sigma> = \<sigma>\<lparr>ls_desired := change_effect c (ls_desired \<sigma>)\<rparr>"
| "lrp_effect (OpReportStarting a e) t \<sigma> = \<sigma>\<lparr>ls_actual := (ls_actual \<sigma>)(actual_key a \<mapsto> reported 1 t e a)\<rparr>"
| "lrp_effect (OpReportRunning a e) t \<sigma> = \<sigma>\<lparr>ls_actual := (ls_actual \<sigma>)(actual_key a \<mapsto> reported 2 t e a)\<rparr>"
| "lrp_effect (OpRemoveActual a) t \<sigma> = \<sigma>\<lparr>ls_actual := (ls_actual \<sigma>)(actual_key a := None)\<rparr>"
| "lrp_effect (OpRequestStops is) t \<sigma> =
     \<sigma>\<lparr>ls_stop_instance := ls_stop_instance \<sigma> ++ map_of (map (\<lambda>i. (sli_InstanceGuid i, i)) is)\<rparr>"
| "lrp_effect (OpRequestStop i) t \<sigma> = \<sigma>\<lparr>ls_stop_instance := (ls_stop_instance \<sigma>)(sli_InstanceGuid i \<mapsto> i)\<rparr>"
| "lrp_effect (OpResolveStop i) t \<sigma> = \<sigma>\<lparr>ls_stop_instance := (ls_stop_instance \<sigma>)(sli_InstanceGuid i := None)\<rparr>"
| "lrp_effect (OpRequestStart a) t \<sigma> =
     (if ls_start \<sigma> (start_key a) = None then \<sigma>\<lparr>ls_start := (ls_start \<sigma>)(start_key a \<mapsto> start_stamped 1 t a)\<rparr> else \<sigma>)"
| "lrp_effect (OpClaimStart a) t \<sigma> =
     (if ls_start \<sigma> (start_key a) = Some a then \<sigma>\<lparr>ls_start := (ls_start \<sigma>)(start_key a \<mapsto> start_stamped 2 t a)\<rparr> else \<sigma>)"
| "lrp_effect (OpResolveStart a) t \<sigma> = \<sigma>\<lparr>ls_start := (ls_start \<sigma>)(start_key a := None)\<rparr>"
| "lrp_effect (OpRequestStopAuction a) t \<sigma> =
     (if ls_stop \<sigma> (stop_key a) = None then \<sigma>\<lparr>ls_stop := (ls_stop \<sigma>)(stop_key a \<mapsto> stop_stamped 1 t a)\<rparr> else \<sigma>)"
| "lrp_effect (OpClaimStopAuction a) t \<sigma> =
     (if ls_stop \<sigma> (stop_key a) = Some a then \<sigma>\<lparr>ls_stop := (ls_stop \<sigma>)(stop_key a \<mapsto> stop_stamped 2 t a)\<rparr> else \<sigma>)"
| "lrp_effect (OpResolveStopAuction a) t \<sigma> = \<sigma>\<lparr>ls_stop := (ls_stop \<sigma>)(stop_key a := None)\<rparr>"

text \<open>What it answers on a store that does not time out.\<close>

definition absent :: "'a option \<Rightarrow> error option" where
  "absent x = (if x = None then Some ErrorKeyNotFound else None)"

definition taken :: "'a option \<Rightarrow> error option" where
  "taken x = (if x = None then None else Some ErrorKeyExists)"

definition compared :: "'a option \<Rightarrow> 'a \<Rightarrow> error option" where
  "compared x a = (if x = Some a then None else if x = None then Some ErrorKeyNotFound else Some ErrorKeyComparisonFailed)"

fun lrp_result :: "lrp_op \<Rightarrow> lrp_state \<Rightarrow> error option" where
  "lrp_result (OpChange c) \<sigma> = change_result c (ls_desired \<sigma>)"
| "lrp_result (OpRemoveActual a) \<sigma> = absent (ls_actual \<sigma> (actual_key a))"
| "lrp_result (OpRequestStart a) \<sigma> = taken (ls_start \<sigma> (start_key a))"
| "lrp_result (OpClaimStart a) \<sigma> = compared (ls_start \<sigma> (start_key a)) a"
| "lrp_result (OpResolveStart a) \<sigma> = absent (ls_start \<sigma> (start_key a))"
| "lrp_result (OpRequestStopAuction a) \<sigma> = taken (ls_stop \<sigma> (stop_key a))"
| "lrp_result (OpClaimStopAuction a) \<sigma> = compared (ls_stop \<sigma> (stop_key a)) a"
| "lrp_result (OpResolveStopAuction a) \<sigma> = absent (ls_stop \<sigma> (stop_key a))"
| "lrp_result op \<sigma> = None"

section \<open>The refinement\<close>

definition refines_op :: "lrp_op \<Rightarrow> bool \<Rightarrow> view \<Rightarrow> error option \<Rightarrow> view \<Rightarrow> bool" where
  "refines_op op reliable f err f' \<longleftrightarrow> err \<noteq> Some ErrorTimeout \<and> (\<exists>t. moved (lrp_effect op t) f f') \<and>
     (reliable \<longrightarrow> err = lrp_result op (abs_lrps f))"

lemma start_moved:
  assumes "start.stamped_in st a f f'"
  shows "\<exists>t. abs_lrps f' = (abs_lrps f)\<lparr>ls_start := (ls_start (abs_lrps f))(start_key a \<mapsto> start_stamped st t a)\<rparr>"
  using assms unfolding start.stamped_in_def by (auto simp: start_auction_def start_key_def start_stamped_def abs_lrps_put)

lemma stop_moved:
  assumes "stop.stamped_in st a f f'"
  shows "\<exists>t. abs_lrps f' = (abs_lrps f)\<lparr>ls_stop := (ls_stop (abs_lrps f))(stop_key a \<mapsto> stop_stamped st t a)\<rparr>"
  using assms unfolding stop.stamped_in_def by (auto simp: stop_auction_def stop_key_def stop_stamped_def abs_lrps_put)

lemma auction_at_abs:
  "start.auction_at f [desired_ProcessGuid (sta_DesiredLRP a), Itoa (sta_Index a)] = ls_start (abs_lrps f) (start_key a)"
  "stop.auction_at f [spa_ProcessGuid b, Itoa (spa_Index b)] = ls_stop (abs_lrps f) (stop_key b)"
  by (simp_all add: start_auction_def stop_auction_def start_key_def stop_key_def start_at_def stop_at_def)

context cas_world
begin

lemma wp_plain_ops:
  assumes "inv s" and "schema_wf (look s)" and "lrp_op_ok op" and "\<And>a. op \<noteq> OpRequestStart a \<and> op \<noteq> OpClaimStart a \<and> op \<noteq> OpResolveStart a"
    and "\<And>a. op \<noteq> OpRequestStopAuction a \<and> op \<noteq> OpClaimStopAuction a \<and> op \<noteq> OpResolveStopAuction a"
  shows "wp (run_lrp_op B op) (\<lambda>err s'. inv s' \<and> slack s' \<le> slack s \<and> refines_op op (slack s = 0) (look s) err (look s')) s"
proof (cases op)
  case (OpDesire d)
  then show ?thesis using assms(3) by (auto simp: refines_op_def moved_def intro!: wp_mono [OF wp_DesireLRP [OF assms(1,2)]])
next
  case (OpRemoveDesired g)
  then show ?thesis using assms(3) by (auto simp: refines_op_def moved_def intro!: wp_mono [OF wp_RemoveDesired [OF assms(1,2)]])
next
  case (OpChange c)
  then show ?thesis using assms(3)
    by (auto simp: refines_op_def moved_def intro!: wp_mono [OF wp_ChangeDesiredLRP [OF assms(1,2)]])
next
  case (OpReportStarting a e)
  then show ?thesis using assms(3)
    by (auto simp: refines_op_def moved_def actual_key_def actual_arg_ok_def ReportActualLRPAsStarting_def
        intro!: wp_mono [OF wp_report_actual [OF assms(1,2)]])
next
  case (OpReportRunning a e)
  then show ?thesis using assms(3)
    by (auto simp: refines_op_def moved_def actual_key_def actual_arg_ok_def ReportActualLRPAsRunning_def
        intro!: wp_mono [OF wp_report_actual [OF assms(1,2)]])
next
  case (OpRemoveActual a)
  then show ?thesis using assms(3)
    by (auto simp: refines_op_def moved_def actual_key_def RemoveActualLRP_def absent_def intro!: wp_mono [OF wp_RemoveActual [OF assms(1,2)]])
next
  case (OpRequestStops "is")
  then show ?thesis using assms(3)
    by (auto simp: refines_op_def moved_def stop_request_ok_def list_all_iff dest: stops_for_distinct
        intro!: wp_mono [OF wp_RequestStopLRPInstances [OF assms(1,2)]])
next
  case (OpRequestStop i)
  then show ?thesis using assms(3)
    by (auto simp: refines_op_def moved_def stop_request_ok_def intro!: wp_mono [OF wp_RequestStopLRPInstance [OF assms(1,2)]])
next
  case (OpResolveStop i)
  then show ?thesis using assms(3)
    by (auto simp: refines_op_def moved_def intro!: wp_mono [OF wp_ResolveStopLRPInstance [OF assms(1,2)]])
qed (use assms(4,5) in blast)+

lemma start_ops:
  assumes "inv s" and "schema_wf (look s)" and "start_arg_ok a"
  shows "wp (run_lrp_op B (OpRequestStart a)) (\<lambda>err s'. inv s' \<and> slack s' \<le> slack s \<and> refines_op (OpRequestStart a) (slack s = 0) (look s) err (look s')) s"
    and "wp (run_lrp_op B (OpClaimStart a)) (\<lambda>err s'. inv s' \<and> slack s' \<le> slack s \<and> refines_op (OpClaimStart a) (slack s = 0) (look s) err (look s')) s"
    and "wp (run_lrp_op B (OpResolveStart a)) (\<lambda>err s'. inv s' \<and> slack s' \<le> slack s \<and> refines_op (OpResolveStart a) (slack s = 0) (look s) err (look s')) s"
proof -
  note world = start_auctions.wp_request [OF assms(1,2), unfolded auction_at_abs] start_auctions.wp_claim [OF assms(1,2), unfolded auction_at_abs]
    start_auctions.wp_resolve [OF assms(1,2), unfolded auction_at_abs]
  have a: "start_auction_ok a" and key: "\<forall>e \<in> set ([desired_ProcessGuid (sta_DesiredLRP a), Itoa (sta_Index a)]). key_elem e" using assms(3) by (auto simp: start_arg_ok_def)
  note defs = refines_op_def moved_def start_auctions.leaves_def absent_def taken_def compared_def
  show "wp (run_lrp_op B (OpRequestStart a)) (\<lambda>err s'. inv s' \<and> slack s' \<le> slack s \<and> refines_op (OpRequestStart a) (slack s = 0) (look s) err (look s')) s"
    unfolding run_lrp_op.simps start_auction_operations
  proof (rule wp_mono [OF world(1) [OF a key]], goal_cases)
    case (1 err s')
    then show ?case
      using start_moved [of 1 a "look s" "look s'"] by (cases "ls_start (abs_lrps (look s)) (start_key a)") (auto simp: defs)
  qed
  show "wp (run_lrp_op B (OpClaimStart a)) (\<lambda>err s'. inv s' \<and> slack s' \<le> slack s \<and> refines_op (OpClaimStart a) (slack s = 0) (look s) err (look s')) s"
    unfolding run_lrp_op.simps start_auction_operations
  proof (rule wp_mono [OF world(2) [OF a key]], goal_cases)
    case (1 err s')
    then show ?case
      using start_moved [of 2 a "look s" "look s'"] by (cases "ls_start (abs_lrps (look s)) (start_key a) = Some a") (auto simp: defs)
  qed
  show "wp (run_lrp_op B (OpResolveStart a)) (\<lambda>err s'. inv s' \<and> slack s' \<le> slack s \<and> refines_op (OpResolveStart a) (slack s = 0) (look s) err (look s')) s"
    unfolding run_lrp_op.simps start_auction_operations
  proof (rule wp_mono [OF world(3) [OF key]], goal_cases)
    case (1 err s')
    then show ?case by (auto simp: defs abs_lrps_del start_key_def)
  qed
qed

lemma stop_ops:
  assumes "inv s" and "schema_wf (look s)" and "stop_arg_ok a"
  shows "wp (run_lrp_op B (OpRequestStopAuction a)) (\<lambda>err s'. inv s' \<and> slack s' \<le> slack s \<and> refines_op (OpRequestStopAuction a) (slack s = 0) (look s) err (look s')) s"
    and "wp (run_lrp_op B (OpClaimStopAuction a)) (\<lambda>err s'. inv s' \<and> slack s' \<le> slack s \<and> refines_op (OpClaimStopAuction a) (slack s = 0) (look s) err (look s')) s"
    and "wp (run_lrp_op B (OpResolveStopAuction a)) (\<lambda>err s'. inv s' \<and> slack s' \<le> slack s \<and> refines_op (OpResolveStopAuction a) (slack s = 0) (look s) err (look s')) s"
proof -
  note world = stop_auctions.wp_request [OF assms(1,2), unfolded auction_at_abs] stop_auctions.wp_claim [OF assms(1,2), unfolded auction_at_abs]
    stop_auctions.wp_resolve [OF assms(1,2), unfolded auction_at_abs]
  have a: "stop_auction_ok a" and key: "\<forall>e \<in> set ([spa_ProcessGuid a, Itoa (spa_Index a)]). key_elem e" using assms(3) by (auto simp: stop_arg_ok_def)
  note defs = refines_op_def moved_def stop_auctions.leaves_def absent_def taken_def compared_def
  show "wp (run_lrp_op B (OpRequestStopAuction a)) (\<lambda>err s'. inv s' \<and> slack s' \<le> slack s \<and> refines_op (OpRequestStopAuction a) (slack s = 0) (look s) err (look s')) s"
    unfolding run_lrp_op.simps stop_auction_operations
  proof (rule wp_mono [OF world(1) [OF a key]], goal_cases)
    case (1 err s')
    then show ?case
      using stop_moved [of 1 a "look s" "look s'"] by (cases "ls_stop (abs_lrps (look s)) (stop_key a)") (auto simp: defs)
  qed
  show "wp (run_lrp_op B (OpClaimStopAuction a)) (\<lambda>err s'. inv s' \<and> slack s' \<le> slack s \<and> refines_op (OpClaimStopAuction a) (slack s = 0) (look s) err (look s')) s"
    unfolding run_lrp_op.simps stop_auction_operations
  proof (rule wp_mono [OF world(2) [OF a key]], goal_cases)
    case (1 err s')
    then show ?case
      using stop_moved [of 2 a "look s" "look s'"] by (cases "ls_stop (abs_lrps (look s)) (stop_key a) = Some a") (auto simp: defs)
  qed
  show "wp (run_lrp_op B (OpResolveStopAuction a)) (\<lambda>err s'. inv s' \<and> slack s' \<le> slack s \<and> refines_op (OpResolveStopAuction a) (slack s = 0) (look s) err (look s')) s"
    unfolding run_lrp_op.simps stop_auction_operations
  proof (rule wp_mono [OF world(3) [OF key]], goal_cases)
    case (1 err s')
    then show ?case by (auto simp: defs abs_lrps_del stop_key_def)
  qed
qed

lemma wp_lrp_op:
  assumes "inv s" and "schema_wf (look s)" and "lrp_op_ok op"
  shows "wp (run_lrp_op B op) (\<lambda>err s'. inv s' \<and> slack s' \<le> slack s \<and> refines_op op (slack s = 0) (look s) err (look s')) s"
  using wp_plain_ops [OF assms] start_ops [OF assms(1,2)] stop_ops [OF assms(1,2)] assms(3)
  by (cases op) (simp_all only: lrp_op_ok.simps lrp_op.distinct simp_thms)

end

end
