(* ===== verification/LrpConvergence.thy ===== *)
theory LrpConvergence
  imports Listing
begin

text \<open>
  What one pass of \<open>ConvergeLRPs\<close> leaves on a store that does not time out: no actual LRP of an executor
  that is gone, every desired LRP whose instances do not match written again, and a stop request for
  every instance of a process that is not desired.
\<close>

section \<open>The specification\<close>

text \<open>An instance that runs on an executor that is present.\<close>

definition live :: "view \<Rightarrow> string \<Rightarrow> int \<Rightarrow> string \<Rightarrow> bool" where
  "live f g i x \<longleftrightarrow> (\<exists>a. actual_at f g i x = Some a \<and> alive f (actual_ExecutorID a))"

definition settled :: "view \<Rightarrow> desired_lrp \<Rightarrow> bool" where
  "settled f d \<longleftrightarrow>
     (\<forall>i. 0 \<le> i \<and> i < desired_Instances d \<longrightarrow> card {x. live f (desired_ProcessGuid d) i x} = 1) \<and>
     (\<forall>i x. live f (desired_ProcessGuid d) i x \<longrightarrow> i < desired_Instances d)"

definition lrps_converged :: "view \<Rightarrow> view \<Rightarrow> bool" where
  "lrps_converged f f' \<longleftrightarrow> schema_wf f' \<and> same_elsewhere f f' \<and>
     (\<forall>g i x. actual_at f' g i x = (if live f g i x then actual_at f g i x else None)) \<and>
     (\<forall>g v j d. f [''v1'', ''desired'', g] = Some (LeafE v j) \<and> desired_at f g = Some d \<longrightarrow>
        (if settled f d then f' [''v1'', ''desired'', g] = Some (LeafE v j)
         else \<exists>i > j. f' [''v1'', ''desired'', g] = Some (LeafE v i))) \<and>
     desired_at f' = desired_at f \<and> start_at f' = start_at f \<and> stop_at f' = stop_at f \<and>
     (\<exists>m. stop_instance_at f' = stop_instance_at f ++ m \<and>
        dom m = {x. \<exists>g i. desired_at f g = None \<and> live f g i x} \<and>
        (\<forall>x k. m x = Some k \<longrightarrow> sli_InstanceGuid k = x \<and> live f (sli_ProcessGuid k) (sli_Index k) x \<and>
           desired_at f (sli_ProcessGuid k) = None))"

section \<open>The loops\<close>

abbreviation actual_path :: "actual_lrp \<Rightarrow> path" where
  "actual_path a \<equiv> [''v1'', ''actual'', actual_ProcessGuid a, Itoa (actual_Index a), actual_InstanceGuid a]"

lemma prune_loop_eq:
  "prune_loop ex as (ks, m) =
     (ks @ map (\<lambda>a. ActualLRPSchemaPath (actual_ProcessGuid a) (actual_Index a) (actual_InstanceGuid a))
        (filter (\<lambda>a. Lookup ex (actual_ExecutorID a) = None) as),
      fold add_actual (filter (\<lambda>a. Lookup ex (actual_ExecutorID a) \<noteq> None) as) m)"
  by (induction ex as "(ks, m)" arbitrary: ks m rule: prune_loop.induct) (simp_all split: if_splits)

lemma actuals_at_fold:
  "actuals_at (fold add_actual as m) g = actuals_at m g @ filter (\<lambda>a. actual_ProcessGuid a = g) as"
proof (induction as arbitrary: m)
  case (Cons a as)
  have "actuals_at (add_actual a m) g = actuals_at m g @ (if actual_ProcessGuid a = g then [a] else [])"
    by (simp add: actuals_at_def add_actual_def update_conv split: option.splits)
  then show ?case using Cons.IH [of "add_actual a m"] by simp
qed simp

lemma keys_fold:
  "distinct (map fst m) \<Longrightarrow> distinct (map fst (fold add_actual as m))"
  "fst ` set (fold add_actual as m) = fst ` set m \<union> actual_ProcessGuid ` set as"
  by (induction as arbitrary: m) (simp_all add: add_actual_def distinct_update dom_update insert_commute)

text \<open>The entries of the map are the processes with their actual LRPs.\<close>

lemma entries_fold:
  "(g, as') \<in> set (fold add_actual as []) \<longleftrightarrow> g \<in> actual_ProcessGuid ` set as \<and> as' = filter (\<lambda>a. actual_ProcessGuid a = g) as"
proof -
  let ?m = "fold add_actual as []"
  have dist: "distinct (map fst ?m)" by (rule keys_fold(1)) simp
  have at: "map_of ?m g = Some as' \<Longrightarrow> as' = filter (\<lambda>a. actual_ProcessGuid a = g) as" for as'
    using actuals_at_fold [of as "[]" g] by (simp add: actuals_at_def)
  have dom: "map_of ?m g \<noteq> None \<longleftrightarrow> g \<in> actual_ProcessGuid ` set as"
    using keys_fold(2) [of as "[]"] by (simp add: map_of_eq_None_iff)
  have "(g, as') \<in> set ?m \<longleftrightarrow> map_of ?m g = Some as'" using dist by (simp add: map_of_eq_Some_iff)
  then show ?thesis using at dom by auto
qed

lemma converge_desired_loop_ok:
  assumes "list_all2 (\<lambda>g n. NewDesiredLRPFromJSON (sn_Value n) = Ok (d g) \<and> sn_Index n = idx g \<and> desired_ProcessGuid (d g) = g) gs nodes"
  shows "converge_desired_loop m nodes acc = Some (acc\<lparr>
     ca_toCAS := ca_toCAS acc @ map (\<lambda>g. \<lparr>cd_OldIndex = idx g, cd_NewDesiredLRP = d g\<rparr>)
       (filter (\<lambda>g. needsReconciliation (d g) (actuals_at m g)) gs),
     ca_known := ca_known acc \<union> set gs\<rparr>)"
  using assms
proof (induction arbitrary: acc rule: list_all2_induct)
  case (Cons g gs n ns)
  then show ?case by (simp add: converge_desired_node_def)
qed simp

lemma needsReconciliation_iff:
  "needsReconciliation d as \<longleftrightarrow>
     \<not> ((\<forall>i. 0 \<le> i \<and> i < desired_Instances d \<longrightarrow> length (filter (\<lambda>a. actual_Index a = i) as) = 1) \<and>
        (\<forall>a \<in> set as. actual_Index a < desired_Instances d))"
proof -
  let ?a = "map (\<lambda>a. \<lparr>Index = actual_Index a, Guid = actual_InstanceGuid a\<rparr>) as"
  have len: "length (filter (\<lambda>x. Index x = i) ?a) = length (filter (\<lambda>a. actual_Index a = i) as)" for i
    by (induction as) simp_all
  have one: "length (filter (\<lambda>x. Index x = i) ?a) = 1 \<longleftrightarrow>
      (\<exists>x \<in> set ?a. Index x = i) \<and> length (filter (\<lambda>x. Index x = i) ?a) \<le> 1" for i
    using filter_empty_iff [of "\<lambda>x. Index x = i" ?a] by (cases "filter (\<lambda>x. Index x = i) ?a") auto
  have "Empty (Reconcile (desired_Instances d) ?a) \<longleftrightarrow>
      (\<forall>i. 0 \<le> i \<and> i < desired_Instances d \<longrightarrow> length (filter (\<lambda>x. Index x = i) ?a) = 1) \<and>
      (\<forall>x \<in> set ?a. Index x < desired_Instances d)"
    unfolding Empty_iff Reconcile_closed extra_empty_iff [symmetric] one
    by (cases "missing (desired_Instances d) ?a = []") (auto simp: missing_empty_iff duplicated_empty_iff)
  then show ?thesis unfolding needsReconciliation_def len by simp
qed

section \<open>The instances of a process\<close>

lemma all_actuals_iff: "schema_wf f \<Longrightarrow> a \<in> all_actuals f \<longleftrightarrow> actual_at f (actual_ProcessGuid a) (actual_Index a) (actual_InstanceGuid a) = Some a"
  using actual_at_key by (auto simp: all_actuals_def actuals_of_def)

lemma live_iff:
  assumes "schema_wf f"
  shows "live f g i x \<longleftrightarrow> (\<exists>a \<in> all_actuals f. alive f (actual_ExecutorID a) \<and> actual_ProcessGuid a = g \<and> actual_Index a = i \<and>
    actual_InstanceGuid a = x)"
proof
  assume "live f g i x"
  then obtain a where a: "actual_at f g i x = Some a" "alive f (actual_ExecutorID a)" by (auto simp: live_def)
  then show "\<exists>a \<in> all_actuals f. alive f (actual_ExecutorID a) \<and> actual_ProcessGuid a = g \<and> actual_Index a = i \<and> actual_InstanceGuid a = x"
    using actual_at_key [OF assms a(1)] by (auto simp: all_actuals_def actuals_of_def)
next
  assume "\<exists>a \<in> all_actuals f. alive f (actual_ExecutorID a) \<and> actual_ProcessGuid a = g \<and> actual_Index a = i \<and> actual_InstanceGuid a = x"
  then show "live f g i x" using all_actuals_iff [OF assms] by (auto simp: live_def)
qed

lemma settled_list:
  assumes wf: "schema_wf f" and las: "lists_exactly las {a \<in> all_actuals f. alive f (actual_ExecutorID a)}"
  shows "needsReconciliation d (filter (\<lambda>a. actual_ProcessGuid a = desired_ProcessGuid d) las) \<longleftrightarrow> \<not> settled f d"
proof -
  let ?g = "desired_ProcessGuid d"
  let ?as = "filter (\<lambda>a. actual_ProcessGuid a = ?g) las"
  have set: "a \<in> set las \<longleftrightarrow> a \<in> all_actuals f \<and> alive f (actual_ExecutorID a)" for a
    using las by (auto simp: lists_exactly_def)
  have count: "length (filter (\<lambda>a. actual_Index a = i) ?as) = card {x. live f ?g i x}" for i
  proof -
    have "distinct (filter (\<lambda>a. actual_Index a = i) ?as)" using las by (simp add: lists_exactly_def)
    then have "length (filter (\<lambda>a. actual_Index a = i) ?as) = card (set (filter (\<lambda>a. actual_Index a = i) ?as))"
      by (rule distinct_card [symmetric])
    also have "\<dots> = card (actual_InstanceGuid ` set (filter (\<lambda>a. actual_Index a = i) ?as))"
    proof (rule card_image [symmetric], rule inj_onI)
      fix a b assume "a \<in> set (filter (\<lambda>a. actual_Index a = i) ?as)" "b \<in> set (filter (\<lambda>a. actual_Index a = i) ?as)"
        "actual_InstanceGuid a = actual_InstanceGuid b"
      then have "a \<in> all_actuals f" "b \<in> all_actuals f" "actual_ProcessGuid a = actual_ProcessGuid b" "actual_Index a = actual_Index b"
        by (simp_all add: set)
      then show "a = b" using all_actuals_iff [OF wf, of a] all_actuals_iff [OF wf, of b] \<open>actual_InstanceGuid a = _\<close> by simp
    qed
    also have "actual_InstanceGuid ` set (filter (\<lambda>a. actual_Index a = i) ?as) = {x. live f ?g i x}"
      using live_iff [OF wf] by (auto simp: set)
    finally show ?thesis .
  qed
  have "(\<forall>a \<in> set ?as. actual_Index a < desired_Instances d) \<longleftrightarrow> (\<forall>i x. live f ?g i x \<longrightarrow> i < desired_Instances d)"
    unfolding live_iff [OF wf] set_filter mem_Collect_eq set by blast
  then show ?thesis unfolding needsReconciliation_iff count settled_def by simp
qed

lemma instancesToStop_mem:
  "k \<in> set (instancesToStop known m) \<longleftrightarrow> (\<exists>g as a. (g, as) \<in> set m \<and> g \<notin> known \<and> a \<in> set as \<and>
     k = \<lparr>sli_ProcessGuid = g, sli_InstanceGuid = actual_InstanceGuid a, sli_Index = actual_Index a\<rparr>)"
  by (auto simp: instancesToStop_def split: if_splits)

text \<open>The requests that are made, for a map that holds the live instances.\<close>

lemma instancesToStop_live:
  assumes wf: "schema_wf f" and las: "lists_exactly las {a \<in> all_actuals f. alive f (actual_ExecutorID a)}"
    and m: "set m = set (fold add_actual las [])"
  shows "k \<in> set (instancesToStop known m) \<longleftrightarrow> live f (sli_ProcessGuid k) (sli_Index k) (sli_InstanceGuid k) \<and> sli_ProcessGuid k \<notin> known"
proof -
  have set: "a \<in> set las \<longleftrightarrow> a \<in> all_actuals f \<and> alive f (actual_ExecutorID a)" for a
    using las by (auto simp: lists_exactly_def)
  have "k \<in> set (instancesToStop known m) \<longleftrightarrow> (\<exists>a \<in> set las. actual_ProcessGuid a \<notin> known \<and>
      k = \<lparr>sli_ProcessGuid = actual_ProcessGuid a, sli_InstanceGuid = actual_InstanceGuid a, sli_Index = actual_Index a\<rparr>)"
    unfolding instancesToStop_mem m entries_fold by (auto simp: image_iff) metis
  then show ?thesis unfolding live_iff [OF wf] by (cases k) (auto simp: set)
qed

context kv_world
begin

lemma actual_entry_clean:
  assumes "inv s" and "schema_wf (look s)" and "a \<in> all_actuals (look s)"
  shows "look s (actual_path a) \<noteq> None" and "clean (actual_path a)" and "key_elem (actual_ProcessGuid a)"
    and "key_elem (actual_InstanceGuid a)" and "actual_ok a" and "key_elem (actual_ExecutorID a)"
proof -
  have at: "actual_at (look s) (actual_ProcessGuid a) (actual_Index a) (actual_InstanceGuid a) = Some a"
    using all_actuals_iff [OF assms(2)] assms(3) by simp
  show l: "look s (actual_path a) \<noteq> None" using at by (auto simp: actual_at_def entry_at_iff)
  show "clean (actual_path a)" "key_elem (actual_ProcessGuid a)" "key_elem (actual_InstanceGuid a)"
    using look_simple [OF assms(1) l] by (auto simp: clean_def)
  show "actual_ok a" "key_elem (actual_ExecutorID a)" using actual_at_key [OF assms(2) at] by simp_all
qed

lemma wp_prune:
  assumes "inv s" and wf: "schema_wf (look s)" and "slack s = 0"
    and Q: "\<And>las s'. inv s' \<Longrightarrow> slack s' = 0 \<Longrightarrow>
      lists_exactly las {a \<in> all_actuals (look s). alive (look s) (actual_ExecutorID a)} \<Longrightarrow>
      (\<And>p. look s' p = (if \<exists>a \<in> all_actuals (look s). \<not> alive (look s) (actual_ExecutorID a) \<and> p = actual_path a
         then None else look s p)) \<Longrightarrow> schema_wf (look s') \<Longrightarrow> Q (fold add_actual las [], None) s'"
  shows "wp (pruneActualsWithMissingExecutors B) Q s"
  unfolding pruneActualsWithMissingExecutors_def wp_bind [of "sa_ListRecursively _ _"]
proof (rule wp_list_executors [OF assms(1,3)], goal_cases)
  case 1
  then show ?case using schema_wfD(1) [OF wf, of "''executor''" 1 "[]"] by simp
next
  case 2
  then show ?case using schema_above [OF wf, of "''executor''" 1 "[]"] by simp
next
  case (3 n err s1)
  define ex where "ex = (if err = Some ErrorKeyNotFound then zero_node else n)"
  have wf1: "schema_wf (look s1)" using wf 3 by simp
  have al: "alive (look s) (actual_ExecutorID a) \<longleftrightarrow> Lookup ex (actual_ExecutorID a) \<noteq> None" if "a \<in> all_actuals (look s)" for a
    using 3(5) actual_entry_clean(6) [OF assms(1,2) that] unfolding ex_def by blast
  have "wp (go_bind (GetAllActualLRPs B) (\<lambda>(actuals, err').
         if err' \<noteq> None then go_return ([], err')
         else (let (keysToDelete, m) = prune_loop ex actuals ([], []) in
               go_bind (sa_Delete (bbs_store B) keysToDelete) (\<lambda>_. go_return (m, None))))) Q s1"
    unfolding wp_bind [of "GetAllActualLRPs _"]
  proof (rule wp_mono [OF wp_GetAllActualLRPs [OF 3(1) wf1]], goal_cases)
    case (1 res s2)
    obtain as e where res: "res = (as, e)" by force
    have as: "e = None" "lists_exactly as (all_actuals (look s))" and s2: "inv s2" "look s2 = look s" "slack s2 = 0"
      using 1 3 unfolding res by (auto simp: got_def split: if_splits)
    define dead where "dead = filter (\<lambda>a. Lookup ex (actual_ExecutorID a) = None) as"
    define las where "las = filter (\<lambda>a. Lookup ex (actual_ExecutorID a) \<noteq> None) as"
    have mem: "a \<in> all_actuals (look s)" if "a \<in> set as" for a using as(2) that by (simp add: lists_exactly_def)
    have deads: "a \<in> set dead \<longleftrightarrow> a \<in> all_actuals (look s) \<and> \<not> alive (look s) (actual_ExecutorID a)" for a
      using al as(2) by (auto simp: dead_def lists_exactly_def)
    have las: "lists_exactly las {a \<in> all_actuals (look s). alive (look s) (actual_ExecutorID a)}"
      using al as(2) by (auto simp: las_def lists_exactly_def)
    have keys: "map (\<lambda>a. ActualLRPSchemaPath (actual_ProcessGuid a) (actual_Index a) (actual_InstanceGuid a)) dead = map abs_path (map actual_path dead)"
      using actual_entry_clean(3,4) [OF assms(1,2)] by (auto simp: deads schema_paths)
    have del: "\<forall>es \<in> set (map actual_path dead). clean es \<and> no_leaf_above (look s2) es"
      using actual_entry_clean(1,2) [OF assms(1,2)] look_above [OF assms(1)] s2(2) by (auto simp: deads)
    have dist: "distinct (map actual_path dead)"
    proof -
      have "distinct dead" using as(2) by (simp add: dead_def lists_exactly_def)
      moreover have "inj_on actual_path (set dead)"
      proof (rule inj_onI)
        fix a b assume "a \<in> set dead" "b \<in> set dead" "actual_path a = actual_path b"
        then have "a \<in> all_actuals (look s)" "b \<in> all_actuals (look s)" "actual_ProcessGuid a = actual_ProcessGuid b"
          "actual_Index a = actual_Index b" "actual_InstanceGuid a = actual_InstanceGuid b" by (simp_all add: deads)
        then show "a = b" using all_actuals_iff [OF wf, of a] all_actuals_iff [OF wf, of b] by simp
      qed
      ultimately show ?thesis by (simp add: distinct_map)
    qed
    have ind: "independent (set (map actual_path dead))" by (rule independent_length [of _ 5]) auto
    have here: "\<forall>es \<in> set (map actual_path dead). look s2 es \<noteq> None" using actual_entry_clean(1) [OF assms(1,2)] s2(2) by (auto simp: deads)
    show ?case
      unfolding res as(1) prod.case prune_loop_eq append_Nil dead_def [symmetric] las_def [symmetric] keys Let_def wp_bind wp_return
        simp_thms if_False
    proof (rule wp_mono [OF law_Delete_multi [OF s2(1) del]], goal_cases)
      case (1 err s3)
      then have look: "look s3 = del_paths (look s) (map actual_path dead)" and s3: "inv s3" "slack s3 = 0"
        using dist ind here s2 by auto
      have "look s3 p = (if \<exists>a \<in> all_actuals (look s). \<not> alive (look s) (actual_ExecutorID a) \<and> p = actual_path a
         then None else look s p)" for p
      proof -
        have "look s p = None" if "a \<in> set dead" "prefix (actual_path a) p" "p \<noteq> actual_path a" for a
        proof -
          have "look s (actual_path a) \<noteq> Some DirE"
            using actual_entry_clean(1) [OF assms(1,2)] that(1) schema_wfD(2) [OF wf, of "''actual''" 3] by simp
          moreover have "strict_prefix (actual_path a) p" using that by (simp add: strict_prefix_def)
          ultimately show ?thesis using look_dir [OF assms(1), of p "actual_path a"] by blast
        qed
        then show ?thesis unfolding look del_paths_def by (auto simp: deads)
      qed
      moreover have "schema_wf (look s3)" unfolding look by (rule schema_dels [OF wf])
      ultimately show ?case using Q s3 las by blast
    qed
  qed
  moreover have "\<not> (err \<noteq> None \<and> err \<noteq> Some ErrorKeyNotFound)" using 3(4) by auto
  ultimately show ?case unfolding ex_def by (auto simp del: wp_bind)
qed

end

section \<open>The pass\<close>

text \<open>A view that differs from another only in the indices of leaves holds the same entries.\<close>

lemma schema_reindex:
  assumes "\<And>p. f' p = f p \<or> (\<exists>v j i. f p = Some (LeafE v j) \<and> f' p = Some (LeafE v i))"
  shows "schema_wf f \<Longrightarrow> schema_wf f'" and "entry_at F f' p = entry_at F f p"
proof -
  have leaf: "is_leaf (f' p) \<longleftrightarrow> is_leaf (f p)" for p using assms [of p] unfolding is_leaf_def by (elim disjE exE conjE) simp_all
  have kind: "(case f' p of None \<Rightarrow> True | Some DirE \<Rightarrow> False | Some (LeafE v i) \<Rightarrow> P v) =
      (case f p of None \<Rightarrow> True | Some DirE \<Rightarrow> False | Some (LeafE v i) \<Rightarrow> P v)" for p P
    using assms [of p] by auto
  show "schema_wf f \<Longrightarrow> schema_wf f'" unfolding schema_wf_def leaf kind .
  show "entry_at F f' p = entry_at F f p" using assms [of p] by (auto simp: entry_at_def)
qed

text \<open>The store after the pruning: the instances of executors that are gone are removed, nothing else.\<close>

definition pruned :: "view \<Rightarrow> view \<Rightarrow> bool" where
  "pruned f f' \<longleftrightarrow>
     (\<forall>p. f' p = (if \<exists>a \<in> all_actuals f. \<not> alive f (actual_ExecutorID a) \<and> p = actual_path a then None else f p))"

lemma pruned_other: "pruned f f' \<Longrightarrow> (\<And>g y x. p \<noteq> [''v1'', ''actual'', g, y, x]) \<Longrightarrow> f' p = f p"
  by (auto simp: pruned_def)

lemma pruned_ats:
  assumes "pruned f f'"
  shows "desired_at f' = desired_at f" and "start_at f' = start_at f" and "stop_at f' = stop_at f"
    and "stop_instance_at f' = stop_instance_at f"
  by (auto simp: fun_eq_iff at_defs entry_at_def pruned_other [OF assms])

lemma pruned_elsewhere:
  assumes "pruned f f'"
  shows "same_elsewhere f f'"
  unfolding same_elsewhere_def
proof (intro allI impI)
  fix a r es assume "\<not> (a = ''v1'' \<and> r \<in> lrp_roots)"
  then show "f' (a # r # es) = f (a # r # es)" by (intro pruned_other [OF assms]) auto
qed

lemma pruned_actual:
  assumes "schema_wf f" and "pruned f f'"
  shows "actual_at f' g i x = (if live f g i x then actual_at f g i x else None)"
proof (cases "actual_at f g i x")
  case None
  then have "f [''v1'', ''actual'', g, Itoa i, x] = None" using desired_facts(3) [OF assms(1)] by simp
  then show ?thesis using None assms(2) by (simp add: pruned_def live_def actual_at_def entry_at_def)
next
  case (Some a)
  then have a: "actual_path a = [''v1'', ''actual'', g, Itoa i, x]" "a \<in> all_actuals f"
    using actual_at_key [OF assms(1) Some] by (auto simp: all_actuals_def actuals_of_def)
  have "b = a" if "b \<in> all_actuals f" "actual_path b = actual_path a" for b
    using all_actuals_iff [OF assms(1), of a] all_actuals_iff [OF assms(1), of b] that a(2) by simp
  then have "(\<exists>b \<in> all_actuals f. \<not> alive f (actual_ExecutorID b) \<and> actual_path a = actual_path b) \<longleftrightarrow> \<not> alive f (actual_ExecutorID a)"
    using a(2) by metis
  then have "f' [''v1'', ''actual'', g, Itoa i, x] = (if alive f (actual_ExecutorID a) then f [''v1'', ''actual'', g, Itoa i, x] else None)"
    using assms(2) unfolding pruned_def a(1) by simp
  then show ?thesis using Some by (simp add: live_def actual_at_def entry_at_def)
qed

text \<open>The desired LRPs, as the loop over the listed nodes reads them.\<close>

lemma desired_nodes:
  assumes "schema_wf f" and "list_all2 (\<lambda>g c. tree_of f' [''v1'', ''desired'', g] c) gs cs"
    and "set gs = {g. desired_at f g \<noteq> None}" and "\<And>g. f' [''v1'', ''desired'', g] = f [''v1'', ''desired'', g]"
  shows "list_all2 (\<lambda>g c. NewDesiredLRPFromJSON (sn_Value c) = Ok (the (desired_at f g)) \<and>
      sn_Index c = (case f' [''v1'', ''desired'', g] of Some (LeafE v j) \<Rightarrow> j | _ \<Rightarrow> 0) \<and>
      desired_ProcessGuid (the (desired_at f g)) = g) gs cs"
  unfolding list_all2_conv_all_nth
proof (intro conjI allI impI)
  show "length gs = length cs" using assms(2) by (rule list_all2_lengthD)
  fix k assume k: "k < length gs"
  have t: "tree_of f' [''v1'', ''desired'', gs ! k] (cs ! k)" using assms(2) k by (simp add: list_all2_conv_all_nth)
  have "gs ! k \<in> set gs" using k by simp
  then obtain x where x: "desired_at f (gs ! k) = Some x" using assms(3) by auto
  then obtain v j where v: "f' [''v1'', ''desired'', gs ! k] = Some (LeafE v j)" "NewDesiredLRPFromJSON v = Ok x"
    using assms(4) by (auto simp: desired_at_def entry_at_iff)
  show "NewDesiredLRPFromJSON (sn_Value (cs ! k)) = Ok (the (desired_at f (gs ! k)))"
    "sn_Index (cs ! k) = (case f' [''v1'', ''desired'', gs ! k] of Some (LeafE v j) \<Rightarrow> j | _ \<Rightarrow> 0)"
    "desired_ProcessGuid (the (desired_at f (gs ! k))) = gs ! k"
    using tree_of_leaf [OF t v(1)] v x desired_at_key [OF assms(1) x] by simp_all
qed

text \<open>The stop requests that are wanted: one for every live instance of a process that is not desired.\<close>

definition stops_wanted :: "view \<Rightarrow> stop_lrp_instance list \<Rightarrow> bool" where
  "stops_wanted f stops \<longleftrightarrow>
     (\<forall>k. k \<in> set stops \<longleftrightarrow> live f (sli_ProcessGuid k) (sli_Index k) (sli_InstanceGuid k) \<and> desired_at f (sli_ProcessGuid k) = None)"

lemma stops_wanted_made:
  assumes "stops_wanted f stops" and "stops_for stops m"
  shows "dom m = {x. \<exists>g i. desired_at f g = None \<and> live f g i x}"
    and "m x = Some k \<Longrightarrow> sli_InstanceGuid k = x \<and> live f (sli_ProcessGuid k) (sli_Index k) x \<and> desired_at f (sli_ProcessGuid k) = None"
proof -
  have wanted: "k \<in> set stops \<longleftrightarrow> live f (sli_ProcessGuid k) (sli_Index k) (sli_InstanceGuid k) \<and> desired_at f (sli_ProcessGuid k) = None" for k
    using assms(1) by (simp add: stops_wanted_def)
  have "sli_InstanceGuid ` set stops = {x. \<exists>g i. desired_at f g = None \<and> live f g i x}"
  proof (intro equalityI subsetI)
    fix x assume "x \<in> {x. \<exists>g i. desired_at f g = None \<and> live f g i x}"
    then obtain g i where "desired_at f g = None" "live f g i x" by auto
    then have "\<lparr>sli_ProcessGuid = g, sli_InstanceGuid = x, sli_Index = i\<rparr> \<in> set stops" by (simp add: wanted)
    then show "x \<in> sli_InstanceGuid ` set stops" by (metis image_eqI stop_lrp_instance.select_convs(2))
  next
    fix x assume "x \<in> sli_InstanceGuid ` set stops"
    then obtain k where "k \<in> set stops" "x = sli_InstanceGuid k" by auto
    then show "x \<in> {x. \<exists>g i. desired_at f g = None \<and> live f g i x}" using wanted [of k] by blast
  qed
  then show "dom m = {x. \<exists>g i. desired_at f g = None \<and> live f g i x}" using assms(2) by (simp add: stops_for_def)
  show "m x = Some k \<Longrightarrow> sli_InstanceGuid k = x \<and> live f (sli_ProcessGuid k) (sli_Index k) x \<and> desired_at f (sli_ProcessGuid k) = None"
    using assms(2) wanted unfolding stops_for_def by blast
qed

lemma unsettled_listed:
  assumes "schema_wf f" and "lists_exactly las {a \<in> all_actuals f. alive f (actual_ExecutorID a)}" and "desired_at f g = Some x"
  shows "needsReconciliation x (actuals_at (fold add_actual las []) g) \<longleftrightarrow> \<not> settled f x"
proof -
  have "actuals_at (fold add_actual las []) g = filter (\<lambda>a. actual_ProcessGuid a = desired_ProcessGuid x) las"
    using desired_at_key [OF assms(1,3)] by (simp add: actuals_at_fold) (simp add: actuals_at_def)
  then show ?thesis using settled_list [OF assms(1,2)] by simp
qed

text \<open>Pruning, then writing the unsettled LRPs again and requesting the stops, is convergence.\<close>

lemma converged_by:
  assumes wf: "schema_wf f" and pruned: "pruned f f1" and wanted: "stops_wanted f stops"
    and un: "\<And>g. g \<in> set un \<longleftrightarrow> (\<exists>x. desired_at f g = Some x \<and> \<not> settled f x)"
    and f4: "schema_wf f4" "same_elsewhere f1 f4"
      "\<And>g v j. f1 [''v1'', ''desired'', g] = Some (LeafE v j) \<Longrightarrow>
         if g \<in> set un then \<exists>i > j. f4 [''v1'', ''desired'', g] = Some (LeafE v i)
         else f4 [''v1'', ''desired'', g] = Some (LeafE v j)"
      "stops_for stops k" "abs_lrps f4 = (abs_lrps f1)\<lparr>ls_stop_instance := stop_instance_at f1 ++ k\<rparr>"
  shows "lrps_converged f f4"
proof -
  have d4: "desired_at f4 = desired_at f" "stop_instance_at f4 = stop_instance_at f ++ k"
    using arg_cong [OF f4(5), of ls_desired] arg_cong [OF f4(5), of ls_stop_instance] pruned_ats [OF pruned] by simp_all
  have a4: "actual_at f4 g i x = actual_at f1 g i x" "start_at f4 g i = start_at f g i" "stop_at f4 g i = stop_at f g i" for g i x
    using fun_cong [OF arg_cong [OF f4(5), of ls_actual], of "(g, i, x)"] fun_cong [OF arg_cong [OF f4(5), of ls_start], of "(g, i)"]
      fun_cong [OF arg_cong [OF f4(5), of ls_stop], of "(g, i)"] pruned_ats [OF pruned] by simp_all
  have raw: "if settled f x then f4 [''v1'', ''desired'', g] = Some (LeafE v j)
     else \<exists>i > j. f4 [''v1'', ''desired'', g] = Some (LeafE v i)"
    if l: "f [''v1'', ''desired'', g] = Some (LeafE v j)" "desired_at f g = Some x" for g v j x
    using f4(3) [of g v j] l pruned_other [OF pruned, of "[''v1'', ''desired'', g]"] un [of g] by auto
  show ?thesis
    unfolding lrps_converged_def
    by (intro conjI allI impI f4(1) same_elsewhere_trans [OF pruned_elsewhere [OF pruned] f4(2)] exI [of _ k])
      (use raw stops_wanted_made [OF wanted f4(4)] d4 a4 pruned_actual [OF wf pruned] in \<open>auto simp: fun_eq_iff\<close>)
qed

text \<open>Desired LRPs that are swapped for themselves: their indices move up, nothing else changes.\<close>

lemma desired_swapped:
  assumes wf: "schema_wf f" and sw: "swapped f t True zs f1"
    and zs: "set zs = (\<lambda>g. (idx g, leaf_node (abs_path [''v1'', ''desired'', g]) (val g) 0)) ` gs"
    and data: "\<forall>g \<in> gs. f [''v1'', ''desired'', g] = Some (LeafE (val g) (idx g)) \<and> clean [''v1'', ''desired'', g] \<and> idx g \<le> t"
  shows "g \<in> gs \<Longrightarrow> \<exists>i > idx g. f1 [''v1'', ''desired'', g] = Some (LeafE (val g) i)"
    and "(\<And>g. g \<in> gs \<Longrightarrow> p \<noteq> [''v1'', ''desired'', g]) \<Longrightarrow> f1 p = f p"
    and "schema_wf f1" and "abs_lrps f1 = abs_lrps f" and "same_elsewhere f f1"
proof -
  show written: "\<exists>i > idx g. f1 [''v1'', ''desired'', g] = Some (LeafE (val g) i)" if g: "g \<in> gs" for g
  proof -
    have "(idx g, leaf_node (abs_path [''v1'', ''desired'', g]) (val g) 0) \<in> set zs" using g zs by auto
    then have "\<exists>i > t. f1 [''v1'', ''desired'', g] = Some (LeafE (val g) i)"
      using sw bspec [OF data g] unfolding swapped_def by fastforce
    with bspec [OF data g] show ?thesis by (auto intro: le_less_trans)
  qed
  show other: "f1 p = f p" if p: "\<And>g. g \<in> gs \<Longrightarrow> p \<noteq> [''v1'', ''desired'', g]" for p
  proof -
    have "sn_Key n \<noteq> abs_path p" if z: "(j, n) \<in> set zs" "clean p" for j n
    proof -
      obtain g where "g \<in> gs" "n = leaf_node (abs_path [''v1'', ''desired'', g]) (val g) 0"
        using z(1) unfolding zs by auto
      then show ?thesis using data z(2) p abs_path_eq by fastforce
    qed
    then show ?thesis using sw unfolding swapped_def by blast
  qed
  have re: "f1 p = f p \<or> (\<exists>v j i. f p = Some (LeafE v j) \<and> f1 p = Some (LeafE v i))" for p
    using written data other by (cases "\<exists>g \<in> gs. p = [''v1'', ''desired'', g]") blast+
  show "schema_wf f1" by (rule schema_reindex(1) [OF re wf])
  show "abs_lrps f1 = abs_lrps f" by (simp add: abs_lrps_def at_defs schema_reindex(2) [OF re] fun_eq_iff)
  show "same_elsewhere f f1"
    unfolding same_elsewhere_def
  proof (intro allI impI)
    fix a r es assume "\<not> (a = ''v1'' \<and> r \<in> lrp_roots)"
    then show "f1 (a # r # es) = f (a # r # es)" by (intro other) auto
  qed
qed

context cas_world
begin

text \<open>The desired LRPs as the loop meets them.\<close>

lemma wp_list_desired:
  assumes "inv s" and wf: "schema_wf (look s)" and "slack s = 0"
    and Q: "\<And>gs n err s'. inv s' \<Longrightarrow> look s' = look s \<Longrightarrow> slack s' = 0 \<Longrightarrow> err = None \<or> err = Some ErrorKeyNotFound \<Longrightarrow>
      distinct gs \<Longrightarrow> set gs = {g. look s [''v1'', ''desired'', g] \<noteq> None} \<Longrightarrow>
      list_all2 (\<lambda>g c. tree_of (look s) [''v1'', ''desired'', g] c) gs (sn_ChildNodes n) \<Longrightarrow> Q (n, err) s'"
  shows "wp (sa_ListRecursively (bbs_store B) DesiredLRPSchemaRoot) Q s"
proof (cases "look s (v1 ''desired'') = None")
  case True
  have none: "look s [''v1'', ''desired'', x] = None" for x
    using look_dir [OF assms(1), of "[''v1'', ''desired'', x]" "v1 ''desired''"] True by fastforce
  have above: "no_leaf_above (look s) (v1 ''desired'')" using schema_above [OF wf, of "''desired''" 1 "[]"] by simp
  show ?thesis unfolding roots_abs
    by (rule wp_List_none [OF assms(1) _ True above assms(3)]) (auto intro!: Q [of _ _ "[]"] simp: zero_node_def none)
next
  case False
  then have dir: "look s (v1 ''desired'') = Some DirE"
    using schema_wfD(1) [OF wf, of "''desired''" 1 "[]"] by (cases "look s (v1 ''desired'')") (auto simp: is_leaf_def intro: entry.exhaust)
  show ?thesis unfolding roots_abs
  proof (rule wp_List_dir [OF assms(1) _ dir assms(3)], simp, goal_cases)
    case (1 n s')
    obtain names where "distinct names" "set names = {e. look s (v1 ''desired'' @ [e]) \<noteq> None}"
      "list_all2 (\<lambda>e c. tree_of (look s) (v1 ''desired'' @ [e]) c) names (sn_ChildNodes n)"
      by (rule tree_of_names [OF 1(4) dir])
    then show ?case using 1 by (intro Q [of _ _ names]) simp_all
  qed
qed

text \<open>The desired LRPs that are written again, and the requests to stop, on a store without dead instances.\<close>

lemma wp_converge_writes:
  assumes "inv s" and wf: "schema_wf (look s)" and "slack s = 0" and sched: "\<And>zs. mset (sched zs) = mset zs"
    and gs: "distinct gs" "set gs \<subseteq> {g. look s [''v1'', ''desired'', g] \<noteq> None}"
    and stops: "\<forall>i \<in> set is. stop_instance_ok i \<and> key_elem (sli_InstanceGuid i)"
  shows "wp (go_bind (batchCompareAndSwapDesiredLRPs sched B
      (map (\<lambda>g. \<lparr>cd_OldIndex = (case look s [''v1'', ''desired'', g] of Some (LeafE v j) \<Rightarrow> j | _ \<Rightarrow> 0),
        cd_NewDesiredLRP = the (desired_at (look s) g)\<rparr>) gs)) (\<lambda>_. RequestStopLRPInstances B is))
    (\<lambda>err s'. inv s' \<and> slack s' = 0 \<and> schema_wf (look s') \<and> same_elsewhere (look s) (look s') \<and>
      (\<forall>g v j. look s [''v1'', ''desired'', g] = Some (LeafE v j) \<longrightarrow>
         (if g \<in> set gs then \<exists>i > j. look s' [''v1'', ''desired'', g] = Some (LeafE v i)
          else look s' [''v1'', ''desired'', g] = Some (LeafE v j))) \<and>
      (\<exists>m. stops_for is m \<and> abs_lrps (look s') = (abs_lrps (look s))\<lparr>ls_stop_instance := stop_instance_at (look s) ++ m\<rparr>)) s"
proof -
  define val where "val g = (case look s [''v1'', ''desired'', g] of Some (LeafE v j) \<Rightarrow> v | _ \<Rightarrow> [])" for g
  define idx where "idx g = (case look s [''v1'', ''desired'', g] of Some (LeafE v j) \<Rightarrow> j | _ \<Rightarrow> 0)" for g
  define zs where "zs = map (\<lambda>g. (idx g, leaf_node (abs_path [''v1'', ''desired'', g]) (val g) 0)) gs"
  have data: "look s [''v1'', ''desired'', g] = Some (LeafE (val g) (idx g)) \<and> clean [''v1'', ''desired'', g] \<and>
      DesiredLRP_ToJSON (the (desired_at (look s) g)) = Some (val g) \<and>
      DesiredLRPSchemaPath (the (desired_at (look s) g)) = abs_path [''v1'', ''desired'', g]" if g: "g \<in> set gs" for g
  proof -
    have l: "look s [''v1'', ''desired'', g] \<noteq> None" using g gs(2) by auto
    have dd: "schema_depth ''desired'' = Some (length [g])" by simp
    have key: "key_elem g" using look_simple [OF assms(1) l] by simp
    obtain v j where v: "look s [''v1'', ''desired'', g] = Some (LeafE v j)" "entry_ok ''desired'' [g] v"
      by (rule schema_entry_cases [OF wf dd]) (use l in auto)
    obtain d where d: "NewDesiredLRPFromJSON v = Ok d" "DesiredLRP_ToJSON d = Some v" "desired_ProcessGuid d = g"
      using entry_okD(1) [OF v(2)] by auto
    then have "desired_at (look s) g = Some d" using v(1) by (simp add: desired_at_def entry_at_def)
    then show ?thesis using v d key by (simp add: val_def idx_def schema_paths)
  qed
  have printed: "those (map (\<lambda>c. map_option (\<lambda>value. (cd_OldIndex c, leaf_node (DesiredLRPSchemaPath (cd_NewDesiredLRP c)) value 0))
      (DesiredLRP_ToJSON (cd_NewDesiredLRP c))) (map (\<lambda>g. \<lparr>cd_OldIndex = idx g, cd_NewDesiredLRP = the (desired_at (look s) g)\<rparr>) hs))
      = Some (map (\<lambda>g. (idx g, leaf_node (abs_path [''v1'', ''desired'', g]) (val g) 0)) hs)" if "set hs \<subseteq> set gs" for hs
    using that by (induction hs) (use data in auto)
  have mem: "set (sched zs) = set zs" using mset_eq_setD [OF sched] .
  have ok: "\<forall>z \<in> set (sched zs). swap_ok (look s) z"
    unfolding mem using data by (fastforce simp: zs_def swap_ok_def)
  have "distinct (map (\<lambda>(j, n). sn_Key n) zs)"
  proof -
    have "map (\<lambda>(j, n). sn_Key n) zs = map (\<lambda>g. abs_path [''v1'', ''desired'', g]) gs" by (simp add: zs_def)
    moreover have "inj_on (\<lambda>g. abs_path [''v1'', ''desired'', g]) (set gs)"
    proof (rule inj_onI)
      fix g h assume "g \<in> set gs" "h \<in> set gs" "abs_path [''v1'', ''desired'', g] = abs_path [''v1'', ''desired'', h]"
      then show "g = h" using abs_path_eq data by blast
    qed
    ultimately show ?thesis using gs(1) by (simp add: distinct_map)
  qed
  then have dist: "distinct (map (\<lambda>(j, n). sn_Key n) (sched zs))" using distinct_map_mset [OF sched] by blast
  show ?thesis
    unfolding batchCompareAndSwapDesiredLRPs_def idx_def [symmetric] printed [OF order_refl] zs_def [symmetric] go_must_simps
      go_return_bind batch_swap_def wp_bind
  proof (rule wp_mono [OF wp_swaps [OF assms(1) ok dist]], goal_cases)
    case (1 u s1)
    then have sw: "swapped (look s) (tick s) True (sched zs) (look s1)" and s1: "inv s1" "slack s1 = 0" using assms(3) by simp_all
    have moved: "set (sched zs) = (\<lambda>g. (idx g, leaf_node (abs_path [''v1'', ''desired'', g]) (val g) 0)) ` set gs"
      unfolding mem by (auto simp: zs_def)
    have bound: "\<forall>g \<in> set gs. look s [''v1'', ''desired'', g] = Some (LeafE (val g) (idx g)) \<and>
        clean [''v1'', ''desired'', g] \<and> idx g \<le> tick s"
      using data tick_bound [OF assms(1)] by blast
    note written = desired_swapped(1) [OF wf sw moved bound] and other = desired_swapped(2) [OF wf sw moved bound]
      and wf1 = desired_swapped(3) [OF wf sw moved bound] and abs1 = desired_swapped(4) [OF wf sw moved bound]
      and same1 = desired_swapped(5) [OF wf sw moved bound]
    from abs1 have at1: "stop_instance_at (look s1) = stop_instance_at (look s)" by (metis abs_lrps_sel(5))
    show ?case
    proof (rule wp_mono [OF wp_RequestStopLRPInstances [OF s1(1) wf1 stops]], goal_cases)
      case (1 err s2)
      then obtain m where m: "stops_for is m" "schema_wf (look s2)" "same_elsewhere (look s1) (look s2)"
        "abs_lrps (look s2) = (abs_lrps (look s))\<lparr>ls_stop_instance := stop_instance_at (look s) ++ m\<rparr>"
        unfolding moved_def abs1 at1 by auto
      have upd: "\<forall>g v j. look s [''v1'', ''desired'', g] = Some (LeafE v j) \<longrightarrow>
         (if g \<in> set gs then \<exists>i > j. look s2 [''v1'', ''desired'', g] = Some (LeafE v i)
          else look s2 [''v1'', ''desired'', g] = Some (LeafE v j))"
      proof (intro allI impI)
        fix g v j assume l: "look s [''v1'', ''desired'', g] = Some (LeafE v j)"
        have s21: "look s2 [''v1'', ''desired'', g] = look s1 [''v1'', ''desired'', g]" using 1 by simp
        show "if g \<in> set gs then \<exists>i > j. look s2 [''v1'', ''desired'', g] = Some (LeafE v i)
          else look s2 [''v1'', ''desired'', g] = Some (LeafE v j)"
        proof (cases "g \<in> set gs")
          case True
          then show ?thesis using written [OF True] data [OF True] l s21 by auto
        next
          case False
          then have "look s1 [''v1'', ''desired'', g] = look s [''v1'', ''desired'', g]" by (intro other) auto
          then show ?thesis using l s21 False by simp
        qed
      qed
      show ?case
        by (intro conjI upd m(2) same_elsewhere_trans [OF same1 m(3)] exI [of _ m] m(1,4)) (use 1 s1(2) in simp_all)
    qed
  qed
qed

text \<open>After the pruning: the desired LRPs are listed, the unsettled ones written and the stops requested.\<close>

lemma wp_converge_pruned:
  assumes "inv s1" and f: "schema_wf f" "pruned f (look s1)" "schema_wf (look s1)" and "slack s1 = 0"
    and stops: "stops_wanted f stops" "\<forall>i \<in> set stops. stop_instance_ok i \<and> key_elem (sli_InstanceGuid i)"
    and un: "distinct un" "\<And>g. g \<in> set un \<longleftrightarrow> (\<exists>x. desired_at f g = Some x \<and> \<not> settled f x)"
    and sched: "\<And>zs. mset (sched zs) = mset zs"
  shows "wp (go_bind (sa_Delete (bbs_store B) (map abs_path [])) (\<lambda>_.
      go_bind (go_bind (batchCompareAndSwapDesiredLRPs sched B
        (map (\<lambda>g. \<lparr>cd_OldIndex = (case look s1 [''v1'', ''desired'', g] of Some (LeafE v j) \<Rightarrow> j | _ \<Rightarrow> 0),
          cd_NewDesiredLRP = the (desired_at f g)\<rparr>) un)) (\<lambda>_. RequestStopLRPInstances B stops)) (\<lambda>_. go_return ())))
    (\<lambda>_ s'. inv s' \<and> slack s' = 0 \<and> lrps_converged f (look s')) s1"
  unfolding wp_bind [of "sa_Delete _ _"]
proof (rule wp_mono [OF law_Delete_multi [OF assms(1), of "[]"]], simp, goal_cases)
  case (1 err s3)
  then have s3: "inv s3" "slack s3 = 0" "look s3 = look s1" using assms(5) by (auto simp: del_paths_def)
  have un_sub: "set un \<subseteq> {g. look s3 [''v1'', ''desired'', g] \<noteq> None}"
    using un(2) pruned_other [OF f(2)] s3(3) by (auto simp: desired_at_def entry_at_iff)
  show ?case
    unfolding s3(3) [symmetric] pruned_ats(1) [OF f(2), folded s3(3), symmetric] wp_bind [of "go_bind _ _"]
  proof (rule wp_mono [OF wp_converge_writes [OF s3(1) _ s3(2) sched un(1) un_sub stops(2)]], goal_cases)
    case 1
    then show ?case using f(3) s3(3) by simp
  next
    case (2 e s4)
    then obtain k where "stops_for stops k" "abs_lrps (look s4) = (abs_lrps (look s3))\<lparr>ls_stop_instance := stop_instance_at (look s3) ++ k\<rparr>"
      by blast
    then have "lrps_converged f (look s4)"
      using 2 s3(3) by (intro converged_by [OF f(1,2) stops(1) un(2)]) simp_all
    then show ?case using 2 by simp
  qed
qed

lemma wp_ConvergeLRPs:
  assumes "inv s" and wf: "schema_wf (look s)" and "slack s = 0"
    and sched: "\<And>zs. mset (sched zs) = mset zs" and order: "\<And>m. mset (order m) = mset m"
  shows "wp (ConvergeLRPs sched order B) (\<lambda>_ s'. inv s' \<and> slack s' = 0 \<and> lrps_converged (look s) (look s')) s"
  unfolding ConvergeLRPs_def wp_bind [of "pruneActualsWithMissingExecutors _"]
proof (rule wp_prune [OF assms(1-3)], goal_cases)
  case (1 las s1)
  define f where "f = look s"
  define m where "m = fold add_actual las []"
  have wff: "schema_wf f" and las: "lists_exactly las {a \<in> all_actuals f. alive f (actual_ExecutorID a)}"
    and pruned: "pruned f (look s1)"
    using wf 1(3,4) by (simp_all add: f_def pruned_def)
  show ?case
    unfolding prod.case m_def [symmetric] wp_bind [of "sa_ListRecursively _ _"] simp_thms if_False
  proof (rule wp_list_desired [OF 1(1,5,2)], goal_cases)
    case (1 gs n err s2)
    have gs: "set gs = {g. desired_at f g \<noteq> None}"
      using 1(6) desired_facts(2) [OF wff] pruned_other [OF pruned] by simp
    have nodes: "list_all2 (\<lambda>g c. NewDesiredLRPFromJSON (sn_Value c) = Ok (the (desired_at f g)) \<and>
        sn_Index c = (case look s1 [''v1'', ''desired'', g] of Some (LeafE v j) \<Rightarrow> j | _ \<Rightarrow> 0) \<and>
        desired_ProcessGuid (the (desired_at f g)) = g) gs (sn_ChildNodes n)"
      using wff 1(7) gs by (rule desired_nodes) (simp add: pruned_other [OF pruned])
    define un where "un = filter (\<lambda>g. needsReconciliation (the (desired_at f g)) (actuals_at m g)) gs"
    define stops where "stops = instancesToStop (set gs) (order m)"
    have wanted: "stops_wanted f stops"
      unfolding stops_def stops_wanted_def
      using instancesToStop_live [OF wff las, of "order m" _ "set gs"] mset_eq_setD [OF order, of m] gs by (simp add: m_def)
    have stops_ok: "\<forall>i \<in> set stops. stop_instance_ok i \<and> key_elem (sli_InstanceGuid i)"
    proof
      fix k assume "k \<in> set stops"
      then obtain a where "a \<in> all_actuals f" "actual_ProcessGuid a = sli_ProcessGuid k" "actual_Index a = sli_Index k"
        "actual_InstanceGuid a = sli_InstanceGuid k"
        using wanted live_iff [OF wff] unfolding stops_wanted_def by blast
      then show "stop_instance_ok k \<and> key_elem (sli_InstanceGuid k)"
        using actual_entry_clean(4,5) [OF assms(1) wf, of a] by (simp add: f_def stop_instance_ok_def actual_ok_def)
    qed
    have un_mem: "g \<in> set un \<longleftrightarrow> (\<exists>x. desired_at f g = Some x \<and> \<not> settled f x)" for g
      using unsettled_listed [OF wff las, of g] gs by (auto simp: un_def m_def)
    have loop: "converge_desired_loop m (sn_ChildNodes n) \<lparr>ca_toCAS = [], ca_toDelete = [], ca_known = {}\<rparr> = Some \<lparr>
        ca_toCAS = map (\<lambda>g. \<lparr>cd_OldIndex = (case look s2 [''v1'', ''desired'', g] of Some (LeafE v j) \<Rightarrow> j | _ \<Rightarrow> 0),
          cd_NewDesiredLRP = the (desired_at f g)\<rparr>) un, ca_toDelete = [], ca_known = set gs\<rparr>"
      unfolding converge_desired_loop_ok [OF nodes] by (simp add: un_def 1(2))
    have "wp (go_bind (sa_Delete (bbs_store B) (map abs_path [])) (\<lambda>_.
        go_bind (go_bind (batchCompareAndSwapDesiredLRPs sched B
          (map (\<lambda>g. \<lparr>cd_OldIndex = (case look s2 [''v1'', ''desired'', g] of Some (LeafE v j) \<Rightarrow> j | _ \<Rightarrow> 0),
            cd_NewDesiredLRP = the (desired_at f g)\<rparr>) un)) (\<lambda>_. RequestStopLRPInstances B stops)) (\<lambda>_. go_return ())))
      (\<lambda>_ s'. inv s' \<and> slack s' = 0 \<and> lrps_converged f (look s')) s2"
      using 1(1-3,5) pruned \<open>schema_wf (look s1)\<close>
      by (intro wp_converge_pruned [OF _ wff _ _ _ wanted stops_ok _ un_mem sched]) (simp_all add: un_def)
    moreover have "\<not> (err \<noteq> None \<and> err \<noteq> Some ErrorKeyNotFound)" using 1(4) by auto
    ultimately show ?case
      unfolding loop go_must_simps go_return_bind prod.case Let_def converge_acc.simps stops_def f_def
      by (cases err) (simp_all add: go_bind_assoc)
  qed
qed

end

end
