(* ===== verification/EtcdBbs.thy ===== *)
theory EtcdBbs
  imports LrpRefinement LrpConvergence
begin

text \<open>
  The auctions in the world of the real adapter, and the LRP world on concrete clusters.
\<close>

interpretation etcd_start: auction_frozen start_auction "''start''"
  "\<lambda>a. [desired_ProcessGuid (sta_DesiredLRP a), Itoa (sta_Index a)]" start_auction_ok
  etcd_bbs "etcd_inv t0" "\<lambda>(s, t). srv_look s" "\<lambda>(s, t). srv_slack s" "\<lambda>(s, t). es_index s" t0 for t0
  by (intro auction_frozen.intro auction_world.intro start.auction_laws_axioms etcd_world.cas_world_axioms
      etcd_world.frozen_world_axioms)

interpretation etcd_stop: auction_frozen stop_auction "''stop''"
  "\<lambda>a. [spa_ProcessGuid a, Itoa (spa_Index a)]" stop_auction_ok
  etcd_bbs "etcd_inv t0" "\<lambda>(s, t). srv_look s" "\<lambda>(s, t). srv_slack s" "\<lambda>(s, t). es_index s" t0 for t0
  by (intro auction_frozen.intro auction_world.intro stop.auction_laws_axioms etcd_world.cas_world_axioms
      etcd_world.frozen_world_axioms)

text \<open>What the locales of a world give for its auctions.\<close>

lemma start_world:
  "cas_world B I look slack tick \<Longrightarrow> auction_world start_auction ''start''
    (\<lambda>a. [desired_ProcessGuid (sta_DesiredLRP a), Itoa (sta_Index a)]) start_auction_ok B I look slack tick"
  by (intro auction_world.intro start.auction_laws_axioms)

lemma stop_world:
  "cas_world B I look slack tick \<Longrightarrow> auction_world stop_auction ''stop''
    (\<lambda>a. [spa_ProcessGuid a, Itoa (spa_Index a)]) stop_auction_ok B I look slack tick"
  by (intro auction_world.intro stop.auction_laws_axioms)

lemma start_frozen:
  "frozen_world B I look slack tick t0 \<Longrightarrow> auction_frozen start_auction ''start''
    (\<lambda>a. [desired_ProcessGuid (sta_DesiredLRP a), Itoa (sta_Index a)]) start_auction_ok B I look slack tick t0"
  by (intro auction_frozen.intro auction_world.intro start.auction_laws_axioms frozen_world.axioms(1))

lemma stop_frozen:
  "frozen_world B I look slack tick t0 \<Longrightarrow> auction_frozen stop_auction ''stop''
    (\<lambda>a. [spa_ProcessGuid a, Itoa (spa_Index a)]) stop_auction_ok B I look slack tick t0"
  by (intro auction_frozen.intro auction_world.intro stop.auction_laws_axioms frozen_world.axioms(1))

end
