(* ===== verification/Watch.thy ===== *)
theory Watch
  imports LrpBbs TaskBbs EtcdAdapter
begin

text \<open>
  Watching: the goroutine of \<open>WatchWithFilter\<close> (shared/bbs_helpers.go) between a store watch and the
  watchers of the components. Its inputs are the sends and closes it can receive, in the order its
  \<open>select\<close> takes them; the reflective checks of the argument types are what typing gives here.
\<close>

section \<open>WatchWithFilter\<close>

datatype watch_input =
    Event watch_event
  | EventsClosed
  | WatchErr error
  | ErrorsClosed
  | StopAsked

text \<open>What a component watches, and how it reads an event: the value and whether to pass it on.\<close>

record 'a watch =
  wa_path :: string
  wa_filter :: "watch_event \<Rightarrow> ('a \<times> bool) outcome"

record 'a watcher =
  wt_out :: "'a list"
  wt_errs :: "error list"
  wt_stopInner :: bool
  wt_closed :: bool
  wt_panicked :: bool

definition watcher_start :: "'a watcher" where
  "watcher_start = \<lparr>wt_out = [], wt_errs = [], wt_stopInner = False, wt_closed = False, wt_panicked = False\<rparr>"

definition filter_step :: "(watch_event \<Rightarrow> ('a \<times> bool) outcome) \<Rightarrow> watch_input \<Rightarrow> 'a watcher \<Rightarrow> 'a watcher" where
  "filter_step flt input w =
     (if wt_closed w \<or> wt_panicked w then w
      else case input of
        StopAsked \<Rightarrow> w\<lparr>wt_stopInner := True, wt_closed := True\<rparr>
      | EventsClosed \<Rightarrow> w\<lparr>wt_closed := True\<rparr>
      | Event event \<Rightarrow>
          (case flt event of
             Ok (x, ok) \<Rightarrow> if ok then w\<lparr>wt_out := wt_out w @ [x]\<rparr> else w
           | _ \<Rightarrow> w\<lparr>wt_panicked := True\<rparr>)
      | WatchErr err \<Rightarrow> w\<lparr>wt_errs := wt_errs w @ [err], wt_closed := True\<rparr>
      | ErrorsClosed \<Rightarrow> w\<lparr>wt_closed := True\<rparr>)"

definition WatchWithFilter :: "'a watch \<Rightarrow> watch_input list \<Rightarrow> 'a watcher" where
  "WatchWithFilter w inputs = fold (filter_step (wa_filter w)) inputs watcher_start"

section \<open>The watchers of the components\<close>

definition WatchForDesiredTask :: "task watch" where
  "WatchForDesiredTask = \<lparr>wa_path = TaskSchemaRoot, wa_filter = taskFilterByState TaskStatePending\<rparr>"

definition WatchForCompletedTask :: "task watch" where
  "WatchForCompletedTask = \<lparr>wa_path = TaskSchemaRoot, wa_filter = taskFilterByState TaskStateCompleted\<rparr>"

definition WatchForDesiredLRPChanges :: "desired_lrp_change watch" where
  "WatchForDesiredLRPChanges = \<lparr>wa_path = DesiredLRPSchemaRoot, wa_filter = filterDesiredLRPChanges\<rparr>"

definition WatchForActualLRPChanges :: "actual_lrp_change watch" where
  "WatchForActualLRPChanges = \<lparr>wa_path = ActualLRPSchemaRoot, wa_filter = filterActualLRPChanges\<rparr>"

definition WatchForStopLRPInstance :: "stop_lrp_instance watch" where
  "WatchForStopLRPInstance = \<lparr>wa_path = StopLRPInstanceSchemaRoot, wa_filter = filterStopLRPInstance\<rparr>"

definition filterLRPStartAuction :: "watch_event \<Rightarrow> (lrp_start_auction \<times> bool) outcome" where
  "filterLRPStartAuction =
     written_filter NewLRPStartAuctionFromJSON zero_start_auction (\<lambda>lrp. sta_State lrp = LRPStartAuctionStatePending)"

definition WatchForLRPStartAuction :: "lrp_start_auction watch" where
  "WatchForLRPStartAuction = \<lparr>wa_path = LRPStartAuctionSchemaRoot, wa_filter = filterLRPStartAuction\<rparr>"

definition filterLRPStopAuction :: "watch_event \<Rightarrow> (lrp_stop_auction \<times> bool) outcome" where
  "filterLRPStopAuction =
     written_filter NewLRPStopAuctionFromJSON zero_stop_auction (\<lambda>lrp. spa_State lrp = LRPStopAuctionStatePending)"

definition WatchForLRPStopAuction :: "lrp_stop_auction watch" where
  "WatchForLRPStopAuction = \<lparr>wa_path = LRPStopAuctionSchemaRoot, wa_filter = filterLRPStopAuction\<rparr>"

section \<open>What a watcher delivers\<close>

text \<open>
  The events a watcher serves, up to the input that ends it (a panic of its filter among them), and
  the values among them that its filter passes on.
\<close>

fun served :: "(watch_event \<Rightarrow> ('a \<times> bool) outcome) \<Rightarrow> watch_input list \<Rightarrow> watch_event list" where
  "served flt [] = []"
| "served flt (i # is) = (case i of Event e \<Rightarrow> (case flt e of Ok r \<Rightarrow> e # served flt is | _ \<Rightarrow> []) | _ \<Rightarrow> [])"

fun ended_by :: "(watch_event \<Rightarrow> ('a \<times> bool) outcome) \<Rightarrow> watch_input list \<Rightarrow> watch_input option" where
  "ended_by flt [] = None"
| "ended_by flt (i # is) = (case i of Event e \<Rightarrow> (case flt e of Ok r \<Rightarrow> ended_by flt is | _ \<Rightarrow> Some i) | _ \<Rightarrow> Some i)"

fun passed :: "(watch_event \<Rightarrow> ('a \<times> bool) outcome) \<Rightarrow> watch_event list \<Rightarrow> 'a list" where
  "passed flt [] = []"
| "passed flt (e # es) = (case flt e of Ok (x, ok) \<Rightarrow> if ok then x # passed flt es else passed flt es | _ \<Rightarrow> passed flt es)"

fun is_event :: "watch_input \<Rightarrow> bool" where
  "is_event (Event e) \<longleftrightarrow> True"
| "is_event _ \<longleftrightarrow> False"

lemma filter_step_closed: "wt_closed w \<or> wt_panicked w \<Longrightarrow> fold (filter_step flt) is w = w"
  by (induction "is") (simp_all add: filter_step_def)

lemma fold_filter_step:
  assumes "\<not> wt_closed w" and "\<not> wt_panicked w"
  shows "fold (filter_step flt) is w = w\<lparr>wt_out := wt_out w @ passed flt (served flt is),
    wt_errs := wt_errs w @ (case ended_by flt is of Some (WatchErr e) \<Rightarrow> [e] | _ \<Rightarrow> []),
    wt_stopInner := (wt_stopInner w \<or> ended_by flt is = Some StopAsked),
    wt_closed := (\<exists>i. ended_by flt is = Some i \<and> \<not> is_event i),
    wt_panicked := (\<exists>i. ended_by flt is = Some i \<and> is_event i)\<rparr>"
  using assms
proof (induction "is" arbitrary: w)
  case Nil
  then show ?case by simp
next
  case (Cons i "is")
  show ?case
  proof (cases i)
    case (Event e)
    show ?thesis
    proof (cases "flt e")
      case (Ok r)
      obtain x ok where r: "r = (x, ok)" by force
      show ?thesis
        using Cons.prems Cons.IH [of "if ok then w\<lparr>wt_out := wt_out w @ [x]\<rparr> else w"]
        by (cases ok) (simp_all add: Event Ok r filter_step_def)
    qed (use Cons.prems in \<open>simp_all add: Event filter_step_def filter_step_closed [unfolded filter_step_def]\<close>)
  qed (use Cons.prems in \<open>simp_all add: filter_step_def filter_step_closed [unfolded filter_step_def]\<close>)
qed

lemma WatchWithFilter_eq:
  "WatchWithFilter w inputs = \<lparr>wt_out = passed (wa_filter w) (served (wa_filter w) inputs),
     wt_errs = (case ended_by (wa_filter w) inputs of Some (WatchErr e) \<Rightarrow> [e] | _ \<Rightarrow> []),
     wt_stopInner = (ended_by (wa_filter w) inputs = Some StopAsked),
     wt_closed = (\<exists>i. ended_by (wa_filter w) inputs = Some i \<and> \<not> is_event i),
     wt_panicked = (\<exists>i. ended_by (wa_filter w) inputs = Some i \<and> is_event i)\<rparr>"
  by (simp add: WatchWithFilter_def fold_filter_step watcher_start_def)

section \<open>Filters\<close>

lemma written_filter_panics:
  "we_Type e = CreateEvent \<or> we_Type e = UpdateEvent \<Longrightarrow> we_Node e = None \<Longrightarrow> written_filter P z k e = Panic"
  by (auto simp: written_filter_def)

text \<open>
  An event the adapter has no case for is the zero event: a create event without nodes. The filters
  of tasks, stop requests and auctions panic on it, the filters of changes pass on a change of nothing.
\<close>

lemma zero_event_filters:
  "taskFilterByState n zero_event = Panic"
  "filterStopLRPInstance zero_event = Panic"
  "filterLRPStartAuction zero_event = Panic"
  "filterLRPStopAuction zero_event = Panic"
  "filterDesiredLRPChanges zero_event = Ok (\<lparr>dchange_Before = None, dchange_After = None\<rparr>, True)"
  "filterActualLRPChanges zero_event = Ok (\<lparr>achange_Before = None, achange_After = None\<rparr>, True)"
  by (simp_all add: zero_event_def taskFilterByState_def filterStopLRPInstance_def filterLRPStartAuction_def
      filterLRPStopAuction_def written_filter_def filterDesiredLRPChanges_def filterActualLRPChanges_def change_part_def)

lemma makeWatchEvent_compareAndDelete: "er_Action r = ''compareAndDelete'' \<Longrightarrow> makeWatchEvent r = zero_event"
  by (simp add: makeWatchEvent_def Let_def)

end
