(* ===== verification/Uuid.thy ===== *)
theory Uuid
  imports GoLib "HOL-Library.Monad_Syntax"
begin

text \<open>
  nu7hatch/gouuid (uuid.go): the identifiers of instances and of anonymous owners. A \<open>UUID\<close> is a list
  of 16 bytes; the random source and the two hash functions are arguments.
\<close>

unbundle bit_operations_syntax

section \<open>Bytes\<close>

type_synonym uuid = "byte list"

definition ReservedNCS :: byte where "ReservedNCS = 0x80"
definition ReservedRFC4122 :: byte where "ReservedRFC4122 = 0x40"
definition ReservedMicrosoft :: byte where "ReservedMicrosoft = 0x20"
definition ReservedFuture :: byte where "ReservedFuture = 0x00"

definition setVariant :: "byte \<Rightarrow> uuid \<Rightarrow> uuid" where
  "setVariant v u =
     (if v = ReservedNCS then u[8 := (u ! 8 OR ReservedNCS) AND 0xBF]
      else if v = ReservedRFC4122 then u[8 := (u ! 8 OR ReservedRFC4122) AND 0x7F]
      else if v = ReservedMicrosoft then u[8 := (u ! 8 OR ReservedMicrosoft) AND 0x3F]
      else u)"

definition Variant :: "uuid \<Rightarrow> byte" where
  "Variant u =
     (if u ! 8 AND ReservedNCS = ReservedNCS then ReservedNCS
      else if u ! 8 AND ReservedRFC4122 = ReservedRFC4122 then ReservedRFC4122
      else if u ! 8 AND ReservedMicrosoft = ReservedMicrosoft then ReservedMicrosoft
      else ReservedFuture)"

definition setVersion :: "byte \<Rightarrow> uuid \<Rightarrow> uuid" where
  "setVersion v u = u[6 := (u ! 6 AND 0xF) OR push_bit 4 v]"

definition Version :: "uuid \<Rightarrow> byte" where
  "Version u = drop_bit 4 (u ! 6)"

section \<open>Generating\<close>

text \<open>\<open>rand\<close>: what \<open>rand.Read\<close> fills the 16 bytes with, or its error.\<close>

definition NewV4 :: "error + byte list \<Rightarrow> error + uuid" where
  "NewV4 rand =
     (case rand of
        Inl err \<Rightarrow> Inl err
      | Inr u \<Rightarrow> Inr (setVersion 4 (setVariant ReservedRFC4122 u)))"

definition setBytesFromHash :: "(byte list \<Rightarrow> byte list) \<Rightarrow> byte list \<Rightarrow> byte list \<Rightarrow> uuid" where
  "setBytesFromHash hash ns name = take 16 (hash (ns @ name))"

definition NewV3 :: "(byte list \<Rightarrow> byte list) \<Rightarrow> uuid option \<Rightarrow> byte list \<Rightarrow> uuid outcome" where
  "NewV3 md5 ns name =
     (case ns of
        None \<Rightarrow> Err (Errorf ''Invalid namespace UUID'' [] None)
      | Some n \<Rightarrow> Ok (setVersion 3 (setVariant ReservedRFC4122 (setBytesFromHash md5 n name))))"

text \<open>\<open>ns[:]\<close> of a nil array pointer panics: \<open>NewV5\<close> has no check.\<close>

definition NewV5 :: "(byte list \<Rightarrow> byte list) \<Rightarrow> uuid option \<Rightarrow> byte list \<Rightarrow> uuid outcome" where
  "NewV5 sha1 ns name =
     (case ns of
        None \<Rightarrow> Panic
      | Some n \<Rightarrow> Ok (setVersion 5 (setVariant ReservedRFC4122 (setBytesFromHash sha1 n name))))"

section \<open>Text form\<close>

definition hex_digit :: "nat \<Rightarrow> char" where
  "hex_digit d = char_of (if d < 10 then 48 + d else 87 + d)"

definition hex_value :: "char \<Rightarrow> nat option" where
  "hex_value c = (let n = of_char c in
     if 48 \<le> n \<and> n \<le> 57 then Some (n - 48)
     else if 97 \<le> n \<and> n \<le> 102 then Some (n - 87)
     else if 65 \<le> n \<and> n \<le> 70 then Some (n - 55) else None)"

definition hex_byte :: "byte \<Rightarrow> string" where
  "hex_byte b = [hex_digit (unat b div 16), hex_digit (unat b mod 16)]"

definition hex :: "byte list \<Rightarrow> string" where
  "hex bs = concat (map hex_byte bs)"

definition slice :: "nat \<Rightarrow> nat \<Rightarrow> 'a list \<Rightarrow> 'a list" where
  "slice a b xs = take (b - a) (drop a xs)"

definition String :: "uuid \<Rightarrow> string" where
  "String u = hex (slice 0 4 u) @ ''-'' @ hex (slice 4 6 u) @ ''-'' @ hex (slice 6 8 u) @ ''-'' @
     hex (slice 8 10 u) @ ''-'' @ hex (drop 10 u)"

text \<open>\<open>hex.DecodeString\<close> on a text of even length.\<close>

fun hex_Decode :: "string \<Rightarrow> byte list outcome" where
  "hex_Decode [] = Ok []"
| "hex_Decode [c] = Err (Errorf ''encoding/hex: odd length hex string'' [] None)"
| "hex_Decode (c # d # cs) =
     (case (hex_value c, hex_value d) of
        (Some a, Some b) \<Rightarrow> outcome_bind (hex_Decode cs) (\<lambda>bs. Ok (word_of_nat (16 * a + b) # bs))
      | _ \<Rightarrow> Err (Errorf ''encoding/hex: invalid byte'' [] None))"

text \<open>
  The pattern \<open>^(urn:uuid:)?{?(8)-(4)-([1-5]3)-(4)-(12)}?$\<close>, each group over \<open>[a-z0-9]\<close>: what its last
  five groups match, concatenated.
\<close>

definition alnum :: "char \<Rightarrow> bool" where
  "alnum c \<longleftrightarrow> (let n = of_char c :: nat in 48 \<le> n \<and> n \<le> 57 \<or> 97 \<le> n \<and> n \<le> 122)"

definition group :: "nat \<Rightarrow> string \<Rightarrow> (string \<times> string) option" where
  "group k s = (if k \<le> length s \<and> (\<forall>c \<in> set (take k s). alnum c) then Some (take k s, drop k s) else None)"

definition skip :: "string \<Rightarrow> string \<Rightarrow> string option" where
  "skip p s = (if take (length p) s = p then Some (drop (length p) s) else None)"

definition skip_opt :: "string \<Rightarrow> string \<Rightarrow> string" where
  "skip_opt p s = (case skip p s of Some r \<Rightarrow> r | None \<Rightarrow> s)"

definition FindHex :: "string \<Rightarrow> string option" where
  "FindHex s = do {
     (g2, s) \<leftarrow> group 8 (skip_opt ''{'' (skip_opt ''urn:uuid:'' s));
     s \<leftarrow> skip ''-'' s;
     (g3, s) \<leftarrow> group 4 s;
     s \<leftarrow> skip ''-'' s;
     (g4, s) \<leftarrow> group 4 s;
     s \<leftarrow> (if hd g4 \<in> set ''12345'' then skip ''-'' s else None);
     (g5, s) \<leftarrow> group 4 s;
     s \<leftarrow> skip ''-'' s;
     (g6, s) \<leftarrow> group 12 s;
     if s = [] \<or> s = ''}'' then Some (g2 @ g3 @ g4 @ g5 @ g6) else None
   }"

definition ParseHex :: "string \<Rightarrow> uuid outcome" where
  "ParseHex s =
     (case FindHex s of
        None \<Rightarrow> Err (Errorf ''Invalid UUID string'' [] None)
      | Some hash \<Rightarrow> hex_Decode hash)"

definition Parse :: "byte list \<Rightarrow> uuid outcome" where
  "Parse b = (if length b \<noteq> 16 then Err (Errorf ''Given slice is not valid UUID sequence'' [] None) else Ok b)"

end
