(* ===== verification/Handler.thy ===== *)
theory Handler
  imports Watch StartAuctionBbs StopAuctionBbs Uuid
begin

text \<open>
  handler/handler.go: the app manager itself. For every change of a desired LRP it compares the
  desired number of instances with the actual ones and requests start auctions, stops of instances
  and stop auctions. The pre-processor and the random source are arguments.
\<close>

section \<open>Data\<close>

record 's handler =
  h_bbs :: "'s bbs"
  h_PreProcess :: "desired_lrp \<Rightarrow> int \<Rightarrow> string \<Rightarrow> ('s, error + desired_lrp) go"
  h_rand :: "('s, error + byte list) go"

definition NewHandler ::
  "'s bbs \<Rightarrow> (desired_lrp \<Rightarrow> int \<Rightarrow> string \<Rightarrow> ('s, error + desired_lrp) go) \<Rightarrow> ('s, error + byte list) go \<Rightarrow> 's handler" where
  "NewHandler bbs lrPreProcessor rand = \<lparr>h_bbs = bbs, h_PreProcess = lrPreProcessor, h_rand = rand\<rparr>"

section \<open>Processing one change\<close>

text \<open>The actual instances for \<open>Reconcile\<close>, and the map from instance GUIDs to actual LRPs.\<close>

fun actuals_loop :: "actual_lrp list \<Rightarrow> actual_instance list \<times> (string \<rightharpoonup> actual_lrp) \<Rightarrow> actual_instance list \<times> (string \<rightharpoonup> actual_lrp)" where
  "actuals_loop [] acc = acc"
| "actuals_loop (actualLRP # actualLRPs) (actualInstances, m) =
     actuals_loop actualLRPs (actualInstances @ [\<lparr>Index = actual_Index actualLRP, Guid = actual_InstanceGuid actualLRP\<rparr>],
       m(actual_InstanceGuid actualLRP \<mapsto> actualLRP))"

definition actualsForProcessGuid ::
  "'s handler \<Rightarrow> string \<Rightarrow> ('s, (actual_instance list \<times> (string \<rightharpoonup> actual_lrp)) \<times> error option) go" where
  "actualsForProcessGuid h lrpGuid =
     go_bind (GetActualLRPsByProcessGuid (h_bbs h) lrpGuid) (\<lambda>(actualLRPs, err).
       if err \<noteq> None then go_return (([], Map.empty), err)
       else go_return (actuals_loop actualLRPs ([], Map.empty), err))"

text \<open>The body of the first loop; the result says whether the function goes on or returns.\<close>

definition request_start :: "'s handler \<Rightarrow> desired_lrp \<Rightarrow> int \<Rightarrow> ('s, bool) go" where
  "request_start h desiredLRP lrpIndex =
     go_bind (h_rand h) (\<lambda>r.
       case NewV4 r of
         Inl err \<Rightarrow> go_return False
       | Inr instanceGuid \<Rightarrow>
           go_bind (h_PreProcess h desiredLRP lrpIndex (String instanceGuid)) (\<lambda>p.
             case p of
               Inl err \<Rightarrow> go_return False
             | Inr preprocessedLRP \<Rightarrow>
                 go_bind (RequestLRPStartAuction (h_bbs h)
                     (zero_start_auction\<lparr>sta_DesiredLRP := preprocessedLRP, sta_Index := lrpIndex,
                        sta_InstanceGuid := String instanceGuid\<rparr>))
                   (\<lambda>_. go_return True)))"

fun start_loop :: "'s handler \<Rightarrow> desired_lrp \<Rightarrow> int list \<Rightarrow> ('s, bool) go" where
  "start_loop h desiredLRP [] = go_return True"
| "start_loop h desiredLRP (lrpIndex # is) =
     go_bind (request_start h desiredLRP lrpIndex)
       (\<lambda>go_on. if go_on then start_loop h desiredLRP is else go_return False)"

text \<open>A GUID that is not in the map gives the zero value, as in Go.\<close>

definition request_stop :: "'s handler \<Rightarrow> (string \<rightharpoonup> actual_lrp) \<Rightarrow> string \<Rightarrow> ('s, unit) go" where
  "request_stop h instanceGuidToActual guidToStop =
     (let actualToStop = (case instanceGuidToActual guidToStop of Some a \<Rightarrow> a | None \<Rightarrow> zero_actual) in
      go_bind (RequestStopLRPInstance (h_bbs h)
          \<lparr>sli_ProcessGuid = actual_ProcessGuid actualToStop, sli_InstanceGuid = actual_InstanceGuid actualToStop,
           sli_Index = actual_Index actualToStop\<rparr>)
        (\<lambda>_. go_return ()))"

definition request_stop_auction :: "'s handler \<Rightarrow> desired_lrp \<Rightarrow> int \<Rightarrow> ('s, unit) go" where
  "request_stop_auction h desiredLRP indexToStopAllButOne =
     go_bind (RequestLRPStopAuction (h_bbs h)
         (zero_stop_auction\<lparr>spa_ProcessGuid := desired_ProcessGuid desiredLRP, spa_Index := indexToStopAllButOne\<rparr>))
       (\<lambda>_. go_return ())"

text \<open>The dereference of a nil \<open>Before\<close> is a panic.\<close>

definition desired_of :: "desired_lrp_change \<Rightarrow> (desired_lrp \<times> int) option" where
  "desired_of desiredChange =
     (case dchange_After desiredChange of
        None \<Rightarrow> map_option (\<lambda>lrp. (lrp, 0)) (dchange_Before desiredChange)
      | Some lrp \<Rightarrow> Some (lrp, desired_Instances lrp))"

definition processDesiredChange :: "'s handler \<Rightarrow> desired_lrp_change \<Rightarrow> ('s, unit) go" where
  "processDesiredChange h desiredChange =
     go_bind (go_must (desired_of desiredChange)) (\<lambda>(desiredLRP, desiredInstances).
       go_bind (actualsForProcessGuid h (desired_ProcessGuid desiredLRP)) (\<lambda>((actualInstances, instanceGuidToActual), err).
         if err \<noteq> None then go_return ()
         else (let delta = Reconcile desiredInstances actualInstances in
           go_bind (start_loop h desiredLRP (IndicesToStart delta)) (\<lambda>go_on.
             if \<not> go_on then go_return ()
             else go_bind (go_for (GuidsToStop delta) (request_stop h instanceGuidToActual)) (\<lambda>_.
               go_for (IndicesToStopAllButOne delta) (request_stop_auction h desiredLRP))))))"

section \<open>The run loop\<close>

text \<open>
  The loop of \<open>Run\<close>. \<open>rn_watches\<close> counts the watches started, the last one being the one listened to;
  \<open>rn_watching\<close> is false while \<open>desiredChangeChan\<close> is nil; \<open>rn_taken\<close> are the changes received, each of
  which gets a goroutine; \<open>rn_active\<close> counts the goroutines still at work (the wait group).
\<close>

record runner =
  rn_watches :: nat
  rn_watching :: bool
  rn_taken :: "desired_lrp_change list"
  rn_active :: nat
  rn_stopped :: "nat option"
  rn_returned :: bool

definition run_start :: runner where
  "run_start = \<lparr>rn_watches = 1, rn_watching = True, rn_taken = [], rn_active = 0, rn_stopped = None, rn_returned = False\<rparr>"

text \<open>What the loop, and the goroutines it waits for, can do.\<close>

datatype run_event =
    Change desired_lrp_change
  | ChangesClosed
  | ErrorReceived error
  | ErrorsClosed
  | Rewatch
  | Signal
  | Processed
  | AllDone

inductive run_step :: "runner \<Rightarrow> run_event \<Rightarrow> runner \<Rightarrow> bool" where
  run_change: "rn_watching s \<Longrightarrow> rn_stopped s = None \<Longrightarrow>
    run_step s (Change c) (s\<lparr>rn_taken := rn_taken s @ [c], rn_active := Suc (rn_active s)\<rparr>)"
| run_closed: "rn_watching s \<Longrightarrow> rn_stopped s = None \<Longrightarrow> run_step s ChangesClosed (s\<lparr>rn_watching := False\<rparr>)"
| run_error: "rn_watching s \<Longrightarrow> rn_stopped s = None \<Longrightarrow> run_step s (ErrorReceived e) (s\<lparr>rn_watching := False\<rparr>)"
| run_errors_closed: "rn_watching s \<Longrightarrow> rn_stopped s = None \<Longrightarrow> run_step s ErrorsClosed (s\<lparr>rn_watching := False\<rparr>)"
| run_rewatch: "\<not> rn_watching s \<Longrightarrow> rn_stopped s = None \<Longrightarrow>
    run_step s Rewatch (s\<lparr>rn_watching := True, rn_watches := Suc (rn_watches s)\<rparr>)"
| run_signal: "rn_watching s \<Longrightarrow> rn_stopped s = None \<Longrightarrow> run_step s Signal (s\<lparr>rn_stopped := Some (rn_watches s)\<rparr>)"
| run_processed: "0 < rn_active s \<Longrightarrow> run_step s Processed (s\<lparr>rn_active := rn_active s - 1\<rparr>)"
| run_all_done: "rn_stopped s \<noteq> None \<Longrightarrow> rn_active s = 0 \<Longrightarrow> \<not> rn_returned s \<Longrightarrow> run_step s AllDone (s\<lparr>rn_returned := True\<rparr>)"

inductive_cases run_step_cases: "run_step s e s'"
inductive_simps run_step_simps:
  "run_step s (Change c) s'" "run_step s ChangesClosed s'" "run_step s (ErrorReceived x) s'" "run_step s ErrorsClosed s'"
  "run_step s Rewatch s'" "run_step s Signal s'" "run_step s Processed s'" "run_step s AllDone s'"

inductive runs :: "run_event list \<Rightarrow> runner \<Rightarrow> bool" where
  runs_start: "runs [] run_start"
| runs_step: "runs es s \<Longrightarrow> run_step s e s' \<Longrightarrow> runs (es @ [e]) s'"

end
