(* ===== verification/HandlerProofs.thy ===== *)
theory HandlerProofs
  imports Handler LrpRefinement LrpConvergence
begin

text \<open>
  What the handler does to the cluster. The processing of one change is, seen on the abstract state of
  LRPs and auctions, a sequence of the operations of lrp_bbs and the auction components
  (\<open>handler_ops\<close>); the run loop is a step relation whose reachable states are described by an
  invariant. The random source and the pre-processor are parameters, their laws those of a locale.
\<close>

section \<open>Sequences of operations\<close>

definition moved_ops :: "lrp_op list \<Rightarrow> view \<Rightarrow> view \<Rightarrow> bool" where
  "moved_ops ops f f' \<longleftrightarrow>
     (\<exists>ts. length ts = length ops \<and> moved (fold (\<lambda>(op, t). lrp_effect op t) (zip ops ts)) f f')"

lemma moved_ops_Nil: "schema_wf f \<Longrightarrow> moved_ops [] f f"
  by (simp add: moved_ops_def moved_same)

lemma moved_ops_wf: "moved_ops ops f f' \<Longrightarrow> schema_wf f'"
  by (auto simp: moved_ops_def moved_def)

lemma moved_ops_append:
  assumes "moved_ops xs f g" and "moved_ops ys g h"
  shows "moved_ops (xs @ ys) f h"
proof -
  obtain ts us where t: "length ts = length xs" "moved (fold (\<lambda>(op, t). lrp_effect op t) (zip xs ts)) f g"
    and u: "length us = length ys" "moved (fold (\<lambda>(op, t). lrp_effect op t) (zip ys us)) g h"
    using assms unfolding moved_ops_def by blast
  have "moved (fold (\<lambda>(op, t). lrp_effect op t) (zip (xs @ ys) (ts @ us))) f h"
    using t u by (auto simp: moved_def intro: same_elsewhere_trans)
  then show ?thesis using t(1) u(1) unfolding moved_ops_def by (intro exI [of _ "ts @ us"]) simp
qed

context cas_world
begin

lemma wp_one_op:
  assumes "inv s" and "schema_wf (look s)" and "lrp_op_ok op"
  shows "wp (run_lrp_op B op) (\<lambda>_ s'. inv s' \<and> slack s' \<le> slack s \<and> moved_ops [op] (look s) (look s')) s"
proof (rule wp_mono [OF wp_lrp_op [OF assms]], goal_cases)
  case (1 err s')
  then obtain t where "moved (lrp_effect op t) (look s) (look s')" unfolding refines_op_def by blast
  then have "moved_ops [op] (look s) (look s')" unfolding moved_ops_def by (intro exI [of _ "[t]"]) simp
  then show ?case using 1 by simp
qed

lemma wp_for_ops:
  assumes "inv s" and "schema_wf (look s)" and "\<And>x. x \<in> set xs \<Longrightarrow> lrp_op_ok (op x)"
    and body: "\<And>x. x \<in> set xs \<Longrightarrow> body (k x) = go_bind (run_lrp_op B (op x)) (\<lambda>_. go_return ())"
  shows "wp (go_for (map k xs) body) (\<lambda>_ s'. inv s' \<and> slack s' \<le> slack s \<and> moved_ops (map op xs) (look s) (look s')) s"
  using assms
proof (induction xs arbitrary: s)
  case Nil
  then show ?case by (simp add: moved_ops_Nil)
next
  case (Cons x xs)
  have x: "body (k x) = go_bind (run_lrp_op B (op x)) (\<lambda>_. go_return ())" using Cons.prems(4) by simp
  show ?case
    unfolding go_for.simps list.map x wp_bind wp_return
  proof (rule wp_mono [OF wp_one_op [OF Cons.prems(1,2)]], goal_cases)
    case 1
    then show ?case using Cons.prems(3) by simp
  next
    case (2 err s1)
    show ?case
    proof (rule wp_mono [OF Cons.IH], goal_cases)
      case (5 u s')
      then show ?case using 2 moved_ops_append [of "[op x]"] by fastforce
    qed (use 2 Cons.prems(3,4) moved_ops_wf in auto)
  qed
qed

end

section \<open>What a change asks for\<close>

definition lost :: "actual_lrp list \<Rightarrow> int \<Rightarrow> int list" where
  "lost xs n = filter (\<lambda>i. \<forall>a \<in> set xs. actual_Index a \<noteq> i) [0..n - 1]"

text \<open>Of the instances that share a GUID, the one listed last.\<close>

definition newest :: "actual_lrp list \<Rightarrow> actual_lrp \<Rightarrow> actual_lrp" where
  "newest xs a = last (filter (\<lambda>b. actual_InstanceGuid b = actual_InstanceGuid a) xs)"

definition stop_of :: "actual_lrp \<Rightarrow> stop_lrp_instance" where
  "stop_of a = \<lparr>sli_ProcessGuid = actual_ProcessGuid a, sli_InstanceGuid = actual_InstanceGuid a, sli_Index = actual_Index a\<rparr>"

text \<open>An auction for an instance: a fresh GUID, and the LRP as the pre-processor returns it.\<close>

definition start_for :: "(desired_lrp \<Rightarrow> int \<Rightarrow> string \<Rightarrow> error + desired_lrp) \<Rightarrow> desired_lrp \<Rightarrow> lrp_start_auction \<Rightarrow> bool" where
  "start_for P d a \<longleftrightarrow> (\<exists>r u d'. length r = 16 \<and> NewV4 (Inr r) = Inr u \<and> P d (sta_Index a) (String u) = Inr d' \<and>
     a = zero_start_auction\<lparr>sta_DesiredLRP := d', sta_Index := sta_Index a, sta_InstanceGuid := String u\<rparr>)"

definition handler_ops ::
  "(desired_lrp \<Rightarrow> int \<Rightarrow> string \<Rightarrow> error + desired_lrp) \<Rightarrow> bool \<Rightarrow> desired_lrp \<Rightarrow> int \<Rightarrow> actual_lrp list \<Rightarrow> lrp_op list \<Rightarrow> bool" where
  "handler_ops P steady d n xs ops \<longleftrightarrow>
     (if lost xs n \<noteq> [] then
        \<exists>as. ops = map OpRequestStart as \<and> list_all (start_for P d) as \<and> prefix (map sta_Index as) (lost xs n) \<and>
          (steady \<longrightarrow> map sta_Index as = lost xs n)
      else ops = map (\<lambda>a. OpRequestStop (stop_of (newest xs a))) (filter (\<lambda>a. n \<le> actual_Index a) xs) @
        map (\<lambda>i. OpRequestStopAuction (zero_stop_auction\<lparr>spa_ProcessGuid := desired_ProcessGuid d, spa_Index := i\<rparr>))
          (filter (\<lambda>i. 1 < length (filter (\<lambda>a. actual_Index a = i) xs)) [0..n - 1]))"

section \<open>The slices and the map of the code\<close>

definition instance_of :: "actual_lrp \<Rightarrow> actual_instance" where
  "instance_of a = \<lparr>Index = actual_Index a, Guid = actual_InstanceGuid a\<rparr>"

lemma actuals_loop_snoc:
  "actuals_loop (xs @ [a]) acc =
    (case actuals_loop xs acc of (is, m) \<Rightarrow> (is @ [instance_of a], m(actual_InstanceGuid a \<mapsto> a)))"
  by (induction xs acc rule: actuals_loop.induct) (auto simp: instance_of_def fun_eq_iff)

lemma actuals_loop_eq:
  "fst (actuals_loop xs ([], Map.empty)) = map instance_of xs"
  "a \<in> set xs \<Longrightarrow> snd (actuals_loop xs ([], Map.empty)) (actual_InstanceGuid a) = Some (newest xs a)"
proof (induction xs rule: rev_induct)
  case (snoc x xs)
  {
    case 1
    then show ?case using snoc(1) by (simp add: actuals_loop_snoc split_beta)
  next
    case 2
    then show ?case using snoc(2) by (auto simp: actuals_loop_snoc split_beta newest_def)
  }
qed simp_all

lemma newest_mem: "a \<in> set xs \<Longrightarrow> newest xs a \<in> set xs \<and> actual_InstanceGuid (newest xs a) = actual_InstanceGuid a"
proof -
  assume "a \<in> set xs"
  then have "filter (\<lambda>b. actual_InstanceGuid b = actual_InstanceGuid a) xs \<noteq> []" by (auto simp: filter_empty_iff)
  from last_in_set [OF this] show ?thesis by (auto simp: newest_def)
qed

lemma Reconcile_instances:
  "missing n (map instance_of xs) = lost xs n"
  "extra n (map instance_of xs) = map actual_InstanceGuid (filter (\<lambda>a. n \<le> actual_Index a) xs)"
  "duplicated n (map instance_of xs) = filter (\<lambda>i. 1 < length (filter (\<lambda>a. actual_Index a = i) xs)) [0..n - 1]"
  by (simp_all add: missing_def extra_def duplicated_def lost_def instance_of_def filter_map o_def)

section \<open>The text form is ASCII\<close>

lemma String_text: "String u \<noteq> []" "ascii (String u)"
proof -
  have d: "bval (hex_digit d) < 128" if "d < 16" for d using that by (simp add: hex_digit_def)
  have "unat b div 16 < 16" for b :: byte using unsigned_less [of b, where ?'a = nat] by simp
  then have "ascii (hex bs)" for bs by (induction bs) (simp_all add: hex_def hex_byte_def d)
  then show "String u \<noteq> []" "ascii (String u)" by (simp_all add: String_def)
qed

section \<open>The handler in a world\<close>

text \<open>
  The laws of what the handler is given: neither the random source nor the pre-processor touches the
  cluster, the pre-processor is a function \<open>P\<close> that keeps LRPs valid, and neither fails when \<open>steady\<close>.
\<close>

locale handler_world = cas_world B inv look slack tick
  for B :: "'s bbs" and inv :: "'s \<Rightarrow> bool" and look :: "'s \<Rightarrow> view" and slack :: "'s \<Rightarrow> nat" and tick :: "'s \<Rightarrow> nat" +
  fixes h :: "'s handler" and P :: "desired_lrp \<Rightarrow> int \<Rightarrow> string \<Rightarrow> error + desired_lrp" and steady :: bool
  assumes bbs: "h_bbs h = B"
    and rand: "inv s \<Longrightarrow> wp (h_rand h) (\<lambda>r s'. inv s' \<and> look s' = look s \<and> slack s' = slack s \<and>
      (case r of Inl e \<Rightarrow> \<not> steady | Inr u \<Rightarrow> length u = 16)) s"
    and pre: "inv s \<Longrightarrow> wp (h_PreProcess h d i g) (\<lambda>r s'. inv s' \<and> look s' = look s \<and> slack s' = slack s \<and> r = P d i g) s"
    and pre_ok: "desired_ok d \<Longrightarrow> key_elem (desired_ProcessGuid d) \<Longrightarrow> P d i g = Inr d' \<Longrightarrow> desired_ok d' \<and> key_elem (desired_ProcessGuid d')"
    and pre_steady: "steady \<Longrightarrow> \<exists>d'. P d i g = Inr d'"
begin

lemma wp_request_start:
  assumes "inv s" and "schema_wf (look s)" and "desired_ok d" and "int64_ok i" and "key_elem (desired_ProcessGuid d)"
  shows "wp (request_start h d i) (\<lambda>go_on s'. inv s' \<and> slack s' \<le> slack s \<and>
    (if go_on then \<exists>a. start_for P d a \<and> sta_Index a = i \<and> moved_ops [OpRequestStart a] (look s) (look s')
     else \<not> steady \<and> look s' = look s)) s"
  unfolding request_start_def wp_bind bbs
proof (rule wp_mono [OF rand [OF assms(1)]], goal_cases)
  case (1 r s1)
  show ?case
  proof (cases r)
    case (Inl e)
    then show ?thesis using 1 by (simp add: NewV4_def)
  next
    case r: (Inr bytes)
    define u where "u = setVersion 4 (setVariant ReservedRFC4122 bytes)"
    have u: "NewV4 r = Inr u" "length bytes = 16" using 1 r by (simp_all add: NewV4_def u_def)
    have s1: "inv s1" "look s1 = look s" "slack s1 = slack s" using 1 by simp_all
    show ?thesis
      unfolding u sum.case wp_bind
    proof (rule wp_mono [OF pre [OF s1(1)]], goal_cases)
      case (1 p s2)
      show ?case
      proof (cases p)
        case (Inl e)
        then show ?thesis
          using 1 s1 pre_steady [of d i "String u"] by auto
      next
        case p: (Inr d')
        define a where "a = zero_start_auction\<lparr>sta_DesiredLRP := d', sta_Index := i, sta_InstanceGuid := String u\<rparr>"
        have d': "desired_ok d'" "key_elem (desired_ProcessGuid d')" using pre_ok [OF assms(3,5)] 1 p by auto
        have a: "start_arg_ok a"
          using d' assms(4) by (simp add: a_def start_arg_ok_def start_auction_ok_def zero_start_auction_def String_text int64_ok_def)
        have s2: "inv s2" "look s2 = look s" "slack s2 = slack s" using 1 s1 by simp_all
        have "start_for P d a" using u p 1 r unfolding start_for_def a_def by auto
        then show ?thesis
          using wp_one_op [of s2 "OpRequestStart a"] s2 a assms(2)
          unfolding p sum.case a_def [symmetric] wp_bind wp_return
          by (auto simp: a_def elim!: wp_mono)
      qed
    qed
  qed
qed

lemma wp_start_loop:
  assumes "inv s" and "schema_wf (look s)" and "desired_ok d" and "\<forall>i \<in> set is. int64_ok i" and "key_elem (desired_ProcessGuid d)"
  shows "wp (start_loop h d is) (\<lambda>go_on s'. inv s' \<and> slack s' \<le> slack s \<and>
    (\<exists>as. moved_ops (map OpRequestStart as) (look s) (look s') \<and> list_all (start_for P d) as \<and> prefix (map sta_Index as) is \<and>
       (go_on \<longrightarrow> map sta_Index as = is) \<and> (steady \<longrightarrow> go_on))) s"
  using assms(1,2,4)
proof (induction "is" arbitrary: s)
  case Nil
  then show ?case by (auto simp: moved_ops_Nil intro!: exI [of _ "[]"])
next
  case (Cons i "is")
  have i: "int64_ok i" "\<forall>i \<in> set is. int64_ok i" using Cons.prems(3) by simp_all
  show ?case
    unfolding start_loop.simps wp_bind
  proof (rule wp_mono [OF wp_request_start [OF Cons.prems(1,2) assms(3) i(1) assms(5)]], goal_cases)
    case (1 go_on s1)
    show ?case
    proof (cases go_on)
      case False
      then show ?thesis using 1 moved_ops_Nil [OF Cons.prems(2)] by (auto intro!: exI [of _ "[]"])
    next
      case True
      then obtain a where a: "start_for P d a" "sta_Index a = i" "moved_ops [OpRequestStart a] (look s) (look s1)" using 1 by auto
      have s1: "inv s1" "slack s1 \<le> slack s" using 1 by simp_all
      show ?thesis
        unfolding eqTrueI [OF True] if_True
      proof (rule wp_mono [OF Cons.IH [OF s1(1) moved_ops_wf [OF a(3)] i(2)]], goal_cases)
        case (1 g s')
        then obtain as where as: "moved_ops (map OpRequestStart as) (look s1) (look s')" "list_all (start_for P d) as"
          "prefix (map sta_Index as) is" "g \<longrightarrow> map sta_Index as = is" "steady \<longrightarrow> g" by blast
        have "moved_ops (map OpRequestStart (a # as)) (look s) (look s')" using moved_ops_append [OF a(3) as(1)] by simp
        then show ?case using 1 s1(2) a as by (intro conjI exI [of _ "a # as"]) simp_all
      qed
    qed
  qed
qed

lemma wp_actualsForProcessGuid:
  assumes "inv s" and "schema_wf (look s)" and "key_elem g"
    and Q: "\<And>xs err s'. inv s' \<Longrightarrow> look s' = look s \<Longrightarrow> slack s' \<le> slack s \<Longrightarrow>
      err = None \<and> lists_exactly xs (actuals_of (look s) g) \<or> err \<noteq> None \<and> xs = [] \<and> 0 < slack s \<Longrightarrow>
      Q (actuals_loop xs ([], Map.empty), err) s'"
  shows "wp (actualsForProcessGuid h g) Q s"
  unfolding actualsForProcessGuid_def bbs wp_bind
proof (rule wp_mono [OF wp_GetActualLRPsByProcessGuid [OF assms(1-3)]], goal_cases)
  case (1 res s')
  then show ?case
    using Q [of s' None "fst res"] Q [of s' "snd res" "[]"] by (cases res; cases "snd res") (auto simp: got_def)
qed

text \<open>The processing of a change that names an LRP.\<close>

lemma wp_processDesiredChange:
  assumes "inv s" and wf: "schema_wf (look s)" and c: "desired_of c = Some (d, n)"
    and d: "desired_ok d" "key_elem (desired_ProcessGuid d)" and n: "int64_ok n"
  shows "wp (processDesiredChange h c) (\<lambda>_ s'. inv s' \<and> slack s' \<le> slack s \<and>
    (\<exists>ops. moved_ops ops (look s) (look s') \<and>
       (ops = [] \<and> 0 < slack s \<or>
        (\<exists>xs. lists_exactly xs (actuals_of (look s) (desired_ProcessGuid d)) \<and> handler_ops P steady d n xs ops)))) s"
  unfolding processDesiredChange_def c go_must_simps go_return_bind prod.case wp_bind [of "actualsForProcessGuid _ _"]
proof (rule wp_actualsForProcessGuid [OF assms(1,2) d(2)], goal_cases)
  case (1 xs err s1)
  have wf1: "schema_wf (look s1)" using 1(2) wf by simp
  show ?case
  proof (cases err)
    case (Some e)
    then show ?thesis using 1 moved_ops_Nil [OF wf] by (auto split: prod.splits intro!: exI [of _ "[]"])
  next
    case None
    then have xs: "lists_exactly xs (actuals_of (look s) (desired_ProcessGuid d))" using 1(4) by simp
    obtain m where loop: "actuals_loop xs ([], Map.empty) = (map instance_of xs, m)"
      using actuals_loop_eq(1) [of xs] by (metis prod.collapse)
    have m: "a \<in> set xs \<Longrightarrow> m (actual_InstanceGuid a) = Some (newest xs a)" for a
      using actuals_loop_eq(2) [of a xs] loop by simp
    have range: "int64_ok i" if "0 \<le> i" "i < n" for i using that n by (simp add: int64_ok_def)
    have stop_ok: "stop_request_ok (stop_of (newest xs a))" if "a \<in> set xs" for a
    proof -
      have "newest xs a \<in> all_actuals (look s)"
        using newest_mem [OF that] xs by (auto simp: lists_exactly_def all_actuals_def)
      from actual_entry_clean(4,5) [OF assms(1,2) this] show ?thesis
        by (simp add: stop_request_ok_def stop_instance_ok_def stop_of_def actual_ok_def)
    qed
    show ?thesis
    proof (cases "lost xs n = []")
      case False
      have "\<forall>i \<in> set (lost xs n). int64_ok i" using range by (auto simp: lost_def)
      note starts = wp_start_loop [OF 1(1) wf1 d(1) this d(2)]
      have "Reconcile n (map instance_of xs) = \<lparr>IndicesToStart = lost xs n, GuidsToStop = [], IndicesToStopAllButOne = []\<rparr>"
        using False by (simp add: Reconcile_closed Reconcile_instances)
      then show ?thesis
        unfolding None loop prod.case Let_def simp_thms if_False
        unfolding wp_bind [of "start_loop _ _ _"]
      proof (simp only: delta_result.simps go_for.simps go_return_bind if_cancel wp_return, intro wp_mono [OF starts], goal_cases)
        case (1 g s')
        then obtain as where as: "moved_ops (map OpRequestStart as) (look s1) (look s')" "list_all (start_for P d) as"
          "prefix (map sta_Index as) (lost xs n)" "g \<longrightarrow> map sta_Index as = lost xs n" "steady \<longrightarrow> g" by blast
        then have "handler_ops P steady d n xs (map OpRequestStart as)" using False unfolding handler_ops_def by auto
        then show ?case using 1 as(1) \<open>look s1 = look s\<close> \<open>slack s1 \<le> slack s\<close> xs
          unfolding wp_return by (intro conjI exI [of _ "map OpRequestStart as"] disjI2 exI [of _ xs]) simp_all
      qed
    next
      case True
      define over where "over = filter (\<lambda>a. n \<le> actual_Index a) xs"
      define twice where "twice = filter (\<lambda>i. 1 < length (filter (\<lambda>a. actual_Index a = i) xs)) [0..n - 1]"
      define auction where "auction i = zero_stop_auction\<lparr>spa_ProcessGuid := desired_ProcessGuid d, spa_Index := i\<rparr>" for i
      have auction_ok: "stop_arg_ok (auction i)" if "i \<in> set twice" for i
        using that range [of i] d
        by (auto simp: twice_def auction_def stop_arg_ok_def stop_auction_ok_def zero_stop_auction_def desired_ok_def int64_ok_def)
      have ops: "handler_ops P steady d n xs (map (\<lambda>a. OpRequestStop (stop_of (newest xs a))) over @ map (\<lambda>i. OpRequestStopAuction (auction i)) twice)"
        using True by (simp add: handler_ops_def over_def twice_def auction_def)
      have stops: "wp (go_for (map actual_InstanceGuid over) (request_stop h m)) (\<lambda>_ s'. inv s' \<and> slack s' \<le> slack s1 \<and>
          moved_ops (map (\<lambda>a. OpRequestStop (stop_of (newest xs a))) over) (look s1) (look s')) s1"
        by (rule wp_for_ops [OF 1(1) wf1]) (auto simp: over_def stop_ok m request_stop_def Let_def bbs stop_of_def [symmetric])
      have auctions: "wp (go_for twice (request_stop_auction h d)) (\<lambda>_ s'. inv s' \<and> slack s' \<le> slack s2 \<and>
          moved_ops (map (\<lambda>i. OpRequestStopAuction (auction i)) twice) (look s2) (look s')) s2"
        if "inv s2" "schema_wf (look s2)" for s2
        using wp_for_ops [OF that, of twice "\<lambda>i. OpRequestStopAuction (auction i)" "request_stop_auction h d" id] auction_ok
        by (simp add: request_stop_auction_def auction_def [symmetric] bbs)
      have "Reconcile n (map instance_of xs) =
          \<lparr>IndicesToStart = [], GuidsToStop = map actual_InstanceGuid over, IndicesToStopAllButOne = twice\<rparr>"
        using True by (simp add: Reconcile_closed Reconcile_instances over_def twice_def)
      then show ?thesis
        unfolding None loop prod.case Let_def simp_thms if_False
      proof (simp only: delta_result.simps start_loop.simps go_return_bind if_False simp_thms wp_bind [of "go_for _ _"],
          intro wp_mono [OF stops], goal_cases)
        case (1 u s2)
        show ?case
        proof (rule wp_mono [OF auctions], goal_cases)
          case (3 u s')
          then have "moved_ops (map (\<lambda>a. OpRequestStop (stop_of (newest xs a))) over @ map (\<lambda>i. OpRequestStopAuction (auction i)) twice)
            (look s) (look s')"
            using 1 \<open>look s1 = look s\<close> by (intro moved_ops_append [of _ "look s" "look s2"]) simp_all
          moreover note 3 1 \<open>slack s1 \<le> slack s\<close> xs ops
          ultimately show ?case by (intro conjI exI [of _ "map (\<lambda>a. OpRequestStop (stop_of (newest xs a))) over @
            map (\<lambda>i. OpRequestStopAuction (auction i)) twice"] disjI2 exI [of _ xs]) simp_all
        qed (use 1 moved_ops_wf in auto)
      qed
    qed
  qed
qed

end

section \<open>What a reliable run leaves\<close>

abbreviation run_effects :: "lrp_op list \<Rightarrow> int list \<Rightarrow> lrp_state \<Rightarrow> lrp_state" where
  "run_effects ops ts \<equiv> fold (\<lambda>(op, t). lrp_effect op t) (zip ops ts)"

lemma effects_start:
  assumes "length ts = length as"
  shows "\<exists>m. run_effects (map OpRequestStart as) ts \<sigma> = \<sigma>\<lparr>ls_start := m ++ ls_start \<sigma>\<rparr> \<and> start_key ` set as \<subseteq> dom (m ++ ls_start \<sigma>) \<and>
    (\<forall>k x. m k = Some x \<longrightarrow> (\<exists>a \<in> set as. \<exists>t. start_key a = k \<and> x = start_stamped 1 t a))"
  using assms
proof (induction as arbitrary: ts \<sigma>)
  case Nil
  then show ?case by (intro exI [of _ Map.empty]) simp
next
  case (Cons a as)
  obtain t ts' where ts: "ts = t # ts'" "length ts' = length as" using Cons.prems by (cases ts) auto
  define x where "x = (if ls_start \<sigma> (start_key a) = None then Some (start_stamped 1 t a) else None)"
  obtain m where m: "run_effects (map OpRequestStart as) ts' (lrp_effect (OpRequestStart a) t \<sigma>) =
      (lrp_effect (OpRequestStart a) t \<sigma>)\<lparr>ls_start := m ++ ls_start (lrp_effect (OpRequestStart a) t \<sigma>)\<rparr>"
    "start_key ` set as \<subseteq> dom (m ++ ls_start (lrp_effect (OpRequestStart a) t \<sigma>))"
    "\<And>k y. m k = Some y \<Longrightarrow> \<exists>b \<in> set as. \<exists>t. start_key b = k \<and> y = start_stamped 1 t b"
    using Cons.IH [OF ts(2), of "lrp_effect (OpRequestStart a) t \<sigma>"] by blast
  have eff: "ls_start (lrp_effect (OpRequestStart a) t \<sigma>) = [start_key a \<mapsto> start_stamped 1 t a] ++ ls_start \<sigma>"
    "(lrp_effect (OpRequestStart a) t \<sigma>)\<lparr>ls_start := z\<rparr> = \<sigma>\<lparr>ls_start := z\<rparr>" for z
    by (auto simp: map_add_def fun_eq_iff split: option.splits)
  show ?case
  proof (intro exI [of _ "m ++ [start_key a \<mapsto> start_stamped 1 t a]"] conjI allI impI)
    show "run_effects (map OpRequestStart (a # as)) ts \<sigma> = \<sigma>\<lparr>ls_start := (m ++ [start_key a \<mapsto> start_stamped 1 t a]) ++ ls_start \<sigma>\<rparr>"
      using m(1) by (simp only: ts list.map zip_Cons_Cons fold_simps prod.case eff map_add_assoc)
    show "start_key ` set (a # as) \<subseteq> dom ((m ++ [start_key a \<mapsto> start_stamped 1 t a]) ++ ls_start \<sigma>)"
      using m(2) unfolding eff by auto
    fix k y assume "(m ++ [start_key a \<mapsto> start_stamped 1 t a]) k = Some y"
    then show "\<exists>b \<in> set (a # as). \<exists>t. start_key b = k \<and> y = start_stamped 1 t b"
      using m(3) by (auto simp: map_add_Some_iff split: if_splits)
  qed
qed

lemma effects_stop_auction:
  assumes "length ts = length as"
  shows "\<exists>m. run_effects (map OpRequestStopAuction as) ts \<sigma> = \<sigma>\<lparr>ls_stop := m ++ ls_stop \<sigma>\<rparr> \<and> stop_key ` set as \<subseteq> dom (m ++ ls_stop \<sigma>) \<and>
    (\<forall>k x. m k = Some x \<longrightarrow> (\<exists>a \<in> set as. \<exists>t. stop_key a = k \<and> x = stop_stamped 1 t a))"
  using assms
proof (induction as arbitrary: ts \<sigma>)
  case Nil
  then show ?case by (intro exI [of _ Map.empty]) simp
next
  case (Cons a as)
  obtain t ts' where ts: "ts = t # ts'" "length ts' = length as" using Cons.prems by (cases ts) auto
  obtain m where m: "run_effects (map OpRequestStopAuction as) ts' (lrp_effect (OpRequestStopAuction a) t \<sigma>) =
      (lrp_effect (OpRequestStopAuction a) t \<sigma>)\<lparr>ls_stop := m ++ ls_stop (lrp_effect (OpRequestStopAuction a) t \<sigma>)\<rparr>"
    "stop_key ` set as \<subseteq> dom (m ++ ls_stop (lrp_effect (OpRequestStopAuction a) t \<sigma>))"
    "\<And>k y. m k = Some y \<Longrightarrow> \<exists>b \<in> set as. \<exists>t. stop_key b = k \<and> y = stop_stamped 1 t b"
    using Cons.IH [OF ts(2), of "lrp_effect (OpRequestStopAuction a) t \<sigma>"] by blast
  have eff: "ls_stop (lrp_effect (OpRequestStopAuction a) t \<sigma>) = [stop_key a \<mapsto> stop_stamped 1 t a] ++ ls_stop \<sigma>"
    "(lrp_effect (OpRequestStopAuction a) t \<sigma>)\<lparr>ls_stop := z\<rparr> = \<sigma>\<lparr>ls_stop := z\<rparr>" for z
    by (auto simp: map_add_def fun_eq_iff split: option.splits)
  show ?case
  proof (intro exI [of _ "m ++ [stop_key a \<mapsto> stop_stamped 1 t a]"] conjI allI impI)
    show "run_effects (map OpRequestStopAuction (a # as)) ts \<sigma> = \<sigma>\<lparr>ls_stop := (m ++ [stop_key a \<mapsto> stop_stamped 1 t a]) ++ ls_stop \<sigma>\<rparr>"
      using m(1) by (simp only: ts list.map zip_Cons_Cons fold_simps prod.case eff map_add_assoc)
    show "stop_key ` set (a # as) \<subseteq> dom ((m ++ [stop_key a \<mapsto> stop_stamped 1 t a]) ++ ls_stop \<sigma>)"
      using m(2) unfolding eff by auto
    fix k y assume "(m ++ [stop_key a \<mapsto> stop_stamped 1 t a]) k = Some y"
    then show "\<exists>b \<in> set (a # as). \<exists>t. stop_key b = k \<and> y = stop_stamped 1 t b"
      using m(3) by (auto simp: map_add_Some_iff split: if_splits)
  qed
qed

lemma effects_stops:
  assumes "length ts = length is"
  shows "\<exists>m. run_effects (map OpRequestStop is) ts \<sigma> = \<sigma>\<lparr>ls_stop_instance := ls_stop_instance \<sigma> ++ m\<rparr> \<and> stops_for is m"
  using assms
proof (induction "is" arbitrary: ts rule: rev_induct)
  case Nil
  then show ?case by (intro exI [of _ Map.empty]) (simp add: stops_for_def)
next
  case (snoc i "is")
  obtain ts' t where ts: "ts = ts' @ [t]" "length ts' = length is"
    using snoc.prems by (cases ts rule: rev_cases) auto
  obtain m where "run_effects (map OpRequestStop is) ts' \<sigma> = \<sigma>\<lparr>ls_stop_instance := ls_stop_instance \<sigma> ++ m\<rparr>" "stops_for is m"
    using snoc.IH [OF ts(2)] by blast
  moreover from this(2) have "stops_for (is @ [i]) (m(sli_InstanceGuid i \<mapsto> i))"
    unfolding stops_for_def by (auto split: if_splits)
  moreover have "(ls_stop_instance \<sigma> ++ m)(sli_InstanceGuid i \<mapsto> i) = ls_stop_instance \<sigma> ++ m(sli_InstanceGuid i \<mapsto> i)"
    by (rule map_add_upd [symmetric])
  ultimately show ?case
    using ts by (intro exI [of _ "m(sli_InstanceGuid i \<mapsto> i)"]) (simp del: fun_upd_apply)
qed

text \<open>
  The cluster after a change was processed without a failure. \<open>A\<close> are the instances there were. When an
  index lacks an instance, every such index has an auction afterwards, the new ones pending, for such
  an index and with the pre-processed LRP, and nothing else changed; otherwise every instance beyond
  the count has a stop request, every index with several instances a stop auction.
\<close>

definition fulfilled ::
  "(desired_lrp \<Rightarrow> int \<Rightarrow> string \<Rightarrow> error + desired_lrp) \<Rightarrow> desired_lrp \<Rightarrow> int \<Rightarrow> actual_lrp set \<Rightarrow> lrp_state \<Rightarrow> lrp_state \<Rightarrow> bool" where
  "fulfilled P d n A \<sigma> \<sigma>' \<longleftrightarrow>
     (let lacking = {i. 0 \<le> i \<and> i < n \<and> (\<forall>a \<in> A. actual_Index a \<noteq> i)};
          over = {a \<in> A. n \<le> actual_Index a};
          twice = {i. 0 \<le> i \<and> i < n \<and> (\<exists>a \<in> A. \<exists>b \<in> A. a \<noteq> b \<and> actual_Index a = i \<and> actual_Index b = i)}
      in if lacking \<noteq> {} then
           (\<exists>m. \<sigma>' = \<sigma>\<lparr>ls_start := m ++ ls_start \<sigma>\<rparr> \<and>
              (\<forall>i \<in> lacking. \<exists>x d'. P d i x = Inr d' \<and> (m ++ ls_start \<sigma>) (desired_ProcessGuid d', i) \<noteq> None) \<and>
              (\<forall>k x. m k = Some x \<longrightarrow> (\<exists>a t. start_for P d a \<and> sta_Index a \<in> lacking \<and> start_key a = k \<and> x = start_stamped 1 t a)))
         else
           (\<exists>m w. \<sigma>' = \<sigma>\<lparr>ls_stop_instance := ls_stop_instance \<sigma> ++ m, ls_stop := w ++ ls_stop \<sigma>\<rparr> \<and>
              dom m = actual_InstanceGuid ` over \<and>
              (\<forall>x k. m x = Some k \<longrightarrow> sli_InstanceGuid k = x \<and> (\<exists>a \<in> A. k = stop_of a)) \<and>
              (\<forall>i \<in> twice. (w ++ ls_stop \<sigma>) (desired_ProcessGuid d, i) \<noteq> None) \<and>
              (\<forall>k x. w k = Some x \<longrightarrow> (\<exists>i t. i \<in> twice \<and> k = (desired_ProcessGuid d, i) \<and>
                 x = zero_stop_auction\<lparr>spa_ProcessGuid := desired_ProcessGuid d, spa_Index := i, spa_State := 1, spa_UpdatedAt := t\<rparr>))))"

lemma several_iff: "distinct xs \<Longrightarrow> 1 < length (filter P xs) \<longleftrightarrow> (\<exists>a \<in> set xs. \<exists>b \<in> set xs. a \<noteq> b \<and> P a \<and> P b)"
proof (induction xs)
  case (Cons x xs)
  have "0 < length (filter P xs) \<longleftrightarrow> (\<exists>b \<in> set xs. P b)" by (auto simp: filter_empty_iff)
  then show ?case using Cons by (cases "P x") auto
qed simp

lemma sta_DesiredLRP_stamp: "sta_DesiredLRP (a\<lparr>sta_DesiredLRP := d, sta_Index := i, sta_InstanceGuid := g\<rparr>) = d"
  by simp

lemma start_forE:
  assumes "start_for P d a"
  obtains u d' where "P d (sta_Index a) (String u) = Inr d'"
    and "a = zero_start_auction\<lparr>sta_DesiredLRP := d', sta_Index := sta_Index a, sta_InstanceGuid := String u\<rparr>"
  using assms unfolding start_for_def by (elim exE conjE) (rule that, assumption+)

lemma start_ops_fulfilled:
  assumes ops: "handler_ops P True d n xs ops" and xs: "lists_exactly xs A" and moved: "moved_ops ops f f'" and lost: "lost xs n \<noteq> []"
  shows "fulfilled P d n A (abs_lrps f) (abs_lrps f')"
proof -
  obtain ts where ts: "length ts = length ops" "abs_lrps f' = run_effects ops ts (abs_lrps f)"
    using moved by (auto simp: moved_ops_def moved_def)
  have A: "A = set xs" "distinct xs" using xs by (auto simp: lists_exactly_def)
  have lacking: "{i. 0 \<le> i \<and> i < n \<and> (\<forall>a \<in> A. actual_Index a \<noteq> i)} = set (lost xs n)" by (auto simp: lost_def A)
  obtain as where as: "ops = map OpRequestStart as" "list_all (start_for P d) as" "map sta_Index as = lost xs n"
    using ops lost unfolding handler_ops_def by auto
  have idx: "set (lost xs n) = sta_Index ` set as" using as(3) by (metis list.set_map)
  have pre: "\<exists>x d'. P d (sta_Index a) x = Inr d' \<and> start_key a = (desired_ProcessGuid d', sta_Index a)" if "a \<in> set as" for a
  proof -
    obtain u d' where u: "P d (sta_Index a) (String u) = Inr d'"
      "a = zero_start_auction\<lparr>sta_DesiredLRP := d', sta_Index := sta_Index a, sta_InstanceGuid := String u\<rparr>"
      using as(2) \<open>a \<in> set as\<close> unfolding list_all_iff by (blast elim: start_forE)
    have "sta_DesiredLRP a = d'" by (rule trans [OF arg_cong [OF u(2), of sta_DesiredLRP] sta_DesiredLRP_stamp])
    then show ?thesis unfolding start_key_def using u(1) by blast
  qed
  obtain m where m: "run_effects (map OpRequestStart as) ts (abs_lrps f) = (abs_lrps f)\<lparr>ls_start := m ++ ls_start (abs_lrps f)\<rparr>"
    "start_key ` set as \<subseteq> dom (m ++ ls_start (abs_lrps f))"
    "\<And>k x. m k = Some x \<Longrightarrow> \<exists>a \<in> set as. \<exists>t. start_key a = k \<and> x = start_stamped 1 t a"
    using effects_start [of ts as "abs_lrps f"] ts as(1) by auto
  show ?thesis
    unfolding fulfilled_def lacking Let_def
  proof (subst if_P, use lost in simp, intro exI [of _ m] conjI ballI allI impI)
    show "abs_lrps f' = (abs_lrps f)\<lparr>ls_start := m ++ ls_start (abs_lrps f)\<rparr>" using ts m(1) as(1) by simp
    fix i assume "i \<in> set (lost xs n)"
    then obtain a where a: "a \<in> set as" "sta_Index a = i" unfolding idx by blast
    obtain x d' where x: "P d i x = Inr d'" "start_key a = (desired_ProcessGuid d', i)" using pre [OF a(1)] a(2) by auto
    moreover have "(m ++ ls_start (abs_lrps f)) (start_key a) \<noteq> None" using m(2) a(1) by (metis domD image_subset_iff option.distinct(1))
    ultimately show "\<exists>x d'. P d i x = Inr d' \<and> (m ++ ls_start (abs_lrps f)) (desired_ProcessGuid d', i) \<noteq> None"
      by metis
  next
    fix k x assume "m k = Some x"
    then show "\<exists>a t. start_for P d a \<and> sta_Index a \<in> set (lost xs n) \<and> start_key a = k \<and> x = start_stamped 1 t a"
      using m(3) [of k x] as(2) unfolding list_all_iff idx by (meson imageI)
  qed
qed

lemma stop_ops_fulfilled:
  assumes ops: "handler_ops P True d n xs ops" and xs: "lists_exactly xs A" and moved: "moved_ops ops f f'" and lost: "lost xs n = []"
  shows "fulfilled P d n A (abs_lrps f) (abs_lrps f')"
proof -
  obtain ts where ts: "length ts = length ops" "abs_lrps f' = run_effects ops ts (abs_lrps f)"
    using moved by (auto simp: moved_ops_def moved_def)
  have A: "A = set xs" "distinct xs" using xs by (auto simp: lists_exactly_def)
  have lacking: "{i. 0 \<le> i \<and> i < n \<and> (\<forall>a \<in> A. actual_Index a \<noteq> i)} = set (lost xs n)" by (auto simp: lost_def A)
  define over where "over = filter (\<lambda>a. n \<le> actual_Index a) xs"
  define twice where "twice = filter (\<lambda>i. 1 < length (filter (\<lambda>a. actual_Index a = i) xs)) [0..n - 1]"
  define auction where "auction i = zero_stop_auction\<lparr>spa_ProcessGuid := desired_ProcessGuid d, spa_Index := i\<rparr>" for i
  define stops where "stops = map (\<lambda>a. stop_of (newest xs a)) over"
  have ops': "ops = map OpRequestStop stops @ map OpRequestStopAuction (map auction twice)"
    using ops lost by (simp add: handler_ops_def over_def twice_def auction_def stops_def)
  define us where "us = take (length stops) ts"
  define vs where "vs = drop (length stops) ts"
  have uv: "ts = us @ vs" "length us = length stops" "length vs = length (map auction twice)"
    using ts(1) by (auto simp: us_def vs_def ops')
  obtain m where m: "run_effects (map OpRequestStop stops) us (abs_lrps f) =
      (abs_lrps f)\<lparr>ls_stop_instance := ls_stop_instance (abs_lrps f) ++ m\<rparr>" "stops_for stops m"
    using effects_stops [OF uv(2)] by blast
  obtain w where w: "run_effects (map OpRequestStopAuction (map auction twice)) vs ((abs_lrps f)\<lparr>ls_stop_instance := ls_stop_instance (abs_lrps f) ++ m\<rparr>)
      = (abs_lrps f)\<lparr>ls_stop_instance := ls_stop_instance (abs_lrps f) ++ m, ls_stop := w ++ ls_stop (abs_lrps f)\<rparr>"
    "stop_key ` set (map auction twice) \<subseteq> dom (w ++ ls_stop (abs_lrps f))"
    "\<And>k x. w k = Some x \<Longrightarrow> \<exists>a \<in> set (map auction twice). \<exists>t. stop_key a = k \<and> x = stop_stamped 1 t a"
    using effects_stop_auction [OF uv(3), of "(abs_lrps f)\<lparr>ls_stop_instance := ls_stop_instance (abs_lrps f) ++ m\<rparr>"] by auto
  have final: "abs_lrps f' = (abs_lrps f)\<lparr>ls_stop_instance := ls_stop_instance (abs_lrps f) ++ m, ls_stop := w ++ ls_stop (abs_lrps f)\<rparr>"
    using ts(2) m(1) w(1) by (simp only: ops' uv zip_append length_map fold_append o_apply)
  have overs: "{a \<in> A. n \<le> actual_Index a} = set over" by (auto simp: over_def A)
  have twices: "{i. 0 \<le> i \<and> i < n \<and> (\<exists>a \<in> A. \<exists>b \<in> A. a \<noteq> b \<and> actual_Index a = i \<and> actual_Index b = i)} = set twice"
    by (auto simp: twice_def several_iff [OF A(2), unfolded One_nat_def] A(1))
  have key: "stop_key (auction i) = (desired_ProcessGuid d, i)" for i by (simp add: stop_key_def auction_def)
  have stamp: "stop_stamped 1 t (auction i) = zero_stop_auction\<lparr>spa_ProcessGuid := desired_ProcessGuid d, spa_Index := i, spa_State := 1, spa_UpdatedAt := t\<rparr>" for t i
    by (simp add: stop_stamped_def auction_def)
  have new: "newest xs a \<in> A \<and> actual_InstanceGuid (newest xs a) = actual_InstanceGuid a" if "a \<in> set over" for a
    using newest_mem [of a xs] that by (auto simp: over_def A)
  have guids: "sli_InstanceGuid ` set stops = actual_InstanceGuid ` set over"
    unfolding stops_def by (force simp: stop_of_def new image_iff)
  show ?thesis
    unfolding fulfilled_def lacking overs twices Let_def
  proof (subst if_not_P, use lost in simp, intro exI [of _ m] exI [of _ w] conjI ballI allI impI final)
    show "dom m = actual_InstanceGuid ` set over" using m(2) guids by (simp add: stops_for_def)
  next
    fix x k assume "m x = Some k"
    then have "k \<in> set stops" "sli_InstanceGuid k = x" using m(2) by (auto simp: stops_for_def)
    then show "sli_InstanceGuid k = x" "\<exists>a \<in> A. k = stop_of a" using new by (auto simp: stops_def)
  next
    fix i assume "i \<in> set twice"
    then have "(desired_ProcessGuid d, i) \<in> dom (w ++ ls_stop (abs_lrps f))"
      by (intro subsetD [OF w(2)] image_eqI [of _ _ "auction i"]) (simp_all add: key)
    then show "(w ++ ls_stop (abs_lrps f)) (desired_ProcessGuid d, i) \<noteq> None" by (simp add: domIff)
  next
    fix k x assume "w k = Some x"
    from w(3) [OF this] obtain i t where "i \<in> set twice" "k = stop_key (auction i)" "x = stop_stamped 1 t (auction i)" by auto
    then show "\<exists>i t. i \<in> set twice \<and> k = (desired_ProcessGuid d, i) \<and>
        x = zero_stop_auction\<lparr>spa_ProcessGuid := desired_ProcessGuid d, spa_Index := i, spa_State := 1, spa_UpdatedAt := t\<rparr>"
      using key stamp by auto
  qed
qed

lemma handler_ops_fulfilled:
  assumes "handler_ops P True d n xs ops" and "lists_exactly xs A" and "moved_ops ops f f'"
  shows "fulfilled P d n A (abs_lrps f) (abs_lrps f')"
  using start_ops_fulfilled [OF assms] stop_ops_fulfilled [OF assms] by blast

section \<open>The run loop\<close>

text \<open>Every change received has a goroutine that is at work or done; the counts follow from the events.\<close>

definition is_change :: "run_event \<Rightarrow> bool" where
  "is_change e \<longleftrightarrow> (\<exists>c. e = Change c)"

fun changes :: "run_event list \<Rightarrow> desired_lrp_change list" where
  "changes [] = []"
| "changes (Change c # es) = c # changes es"
| "changes (e # es) = changes es"

lemma changes_append [simp]: "changes (es @ es') = changes es @ changes es'"
  by (induction es rule: changes.induct) simp_all

definition run_inv :: "run_event list \<Rightarrow> runner \<Rightarrow> bool" where
  "run_inv es s \<longleftrightarrow> rn_taken s = changes es \<and>
     length (changes es) = rn_active s + count_list es Processed \<and>
     rn_watches s = Suc (count_list es Rewatch) \<and>
     (rn_stopped s \<noteq> None \<longleftrightarrow> Signal \<in> set es) \<and> rn_stopped s \<in> {None, Some (rn_watches s)} \<and>
     (rn_returned s \<longrightarrow> rn_stopped s \<noteq> None \<and> rn_active s = 0)"

lemma run_inv_step: "run_inv es s \<Longrightarrow> run_step s e s' \<Longrightarrow> run_inv (es @ [e]) s'"
  by (cases e) (auto simp: run_inv_def run_step_simps)

lemma runs_inv: "runs es s \<Longrightarrow> run_inv es s"
proof (induction rule: runs.induct)
  case runs_start
  then show ?case by (simp add: run_inv_def run_start_def)
next
  case (runs_step es s e s')
  then show ?case by (blast intro: run_inv_step)
qed

text \<open>After the signal only the goroutines and the return are left, and their number is bounded.\<close>

lemma stopped_step:
  assumes "run_step s e s'" and "rn_stopped s \<noteq> None" and "rn_returned s \<Longrightarrow> rn_active s = 0"
  shows "e \<in> {Processed, AllDone}" and "rn_stopped s' = rn_stopped s" and "rn_taken s' = rn_taken s"
    and "(if rn_returned s' then 0 else Suc (rn_active s')) < (if rn_returned s then 0 else Suc (rn_active s))"
    and "rn_returned s' \<Longrightarrow> rn_active s' = 0"
  using assms by (cases rule: run_step.cases; auto)+

text \<open>The steps that remain.\<close>

inductive run_steps :: "runner \<Rightarrow> run_event list \<Rightarrow> runner \<Rightarrow> bool" where
  run_steps_Nil: "run_steps s [] s"
| run_steps_Cons: "run_step s e s' \<Longrightarrow> run_steps s' es s'' \<Longrightarrow> run_steps s (e # es) s''"

inductive_simps run_steps_simps: "run_steps s [] s'" "run_steps s (e # es) s'"

lemma runs_more: "run_steps s es' s' \<Longrightarrow> runs es s \<Longrightarrow> runs (es @ es') s'"
proof (induction arbitrary: es rule: run_steps.induct)
  case (run_steps_Cons s e s' es' s'')
  then show ?case using runs_step [of es s e s'] by fastforce
qed simp

lemma stopped_steps:
  assumes "run_steps s es s'" and "rn_stopped s \<noteq> None" and "rn_returned s \<Longrightarrow> rn_active s = 0"
  shows "set es \<subseteq> {Processed, AllDone} \<and> rn_taken s' = rn_taken s \<and>
    length es + (if rn_returned s' then 0 else Suc (rn_active s')) \<le> (if rn_returned s then 0 else Suc (rn_active s))"
  using assms
proof (induction rule: run_steps.induct)
  case (run_steps_Cons s e s' es s'')
  note st = stopped_step [OF run_steps_Cons(1,4,5)]
  have "rn_stopped s' \<noteq> None" using st(2) run_steps_Cons(4) by simp
  from run_steps_Cons.IH [OF this st(5)] show ?case using st(1,3,4) by auto
qed simp

lemma drain:
  assumes "rn_stopped s \<noteq> None" and "\<not> rn_returned s"
  shows "run_steps s (replicate (rn_active s) Processed @ [AllDone]) (s\<lparr>rn_active := 0, rn_returned := True\<rparr>)"
  using assms
proof (induction "rn_active s" arbitrary: s)
  case 0
  then have "s\<lparr>rn_active := 0, rn_returned := True\<rparr> = s\<lparr>rn_returned := True\<rparr>" by (cases s) simp
  moreover have "run_step s AllDone (s\<lparr>rn_returned := True\<rparr>)" using 0 by (simp add: run_step_simps)
  ultimately show ?case
    unfolding 0(1) [symmetric] using run_steps_Cons [OF _ run_steps_Nil] by simp
next
  case (Suc k)
  let ?s = "s\<lparr>rn_active := k\<rparr>"
  have "run_steps ?s (replicate (rn_active ?s) Processed @ [AllDone]) (?s\<lparr>rn_active := 0, rn_returned := True\<rparr>)"
    using Suc by (intro Suc(1)) simp_all
  moreover have "run_step s Processed ?s" using Suc(2) by (simp add: run_step_simps flip: Suc(2))
  ultimately show ?case using run_steps_Cons [of s Processed ?s] by (simp flip: Suc(2))
qed

end
