(* ===== verification/LrpExamples.thy ===== *)
theory LrpExamples
  imports EtcdBbs HandlerProofs
begin

text \<open>
  Concrete clusters with LRPs and auctions, on which the properties are applied, and a handler in the
  world of the real adapter whose pre-processor renames the process, as the one of the tests does.
\<close>

section \<open>Clusters with one entry\<close>

definition ex_at :: "fault list \<Rightarrow> path \<Rightarrow> bytes \<Rightarrow> gotime \<Rightarrow> etcd_server \<times> fake_time" where
  "ex_at faults p v t0 = (\<lparr>es_tree = srv_put [([], DirE)] p v 1, es_index = 1, es_faults = faults\<rparr>, ftp_New t0)"

definition ex_view :: "path \<Rightarrow> bytes \<Rightarrow> view" where
  "ex_view p v = (\<lambda>q. if q = p then Some (LeafE v 1) else if strict_prefix q p then Some DirE else None)"

lemma ex_view_at [simp]: "ex_view p v p = Some (LeafE v 1)"
  by (simp add: ex_view_def)

lemma ex_view_alt: "p \<noteq> [] \<Longrightarrow> put_path (map_of [([], DirE)]) p v 1 = ex_view p v"
  by (auto simp: put_path_def ex_view_def fun_eq_iff strict_prefix_def)

lemma ex_at_sel [simp]:
  "p \<noteq> [] \<Longrightarrow> srv_look (fst (ex_at fs p v t0)) = ex_view p v" "srv_slack (fst (ex_at fs p v t0)) = length (filter (\<lambda>f. f \<noteq> Served) fs)"
  "es_index (fst (ex_at fs p v t0)) = 1"
  using ex_view_alt [of p v] by (simp_all add: ex_at_def srv_look_def srv_slack_def)

lemma ex_at_inv [simp]: "p \<noteq> [] \<Longrightarrow> \<forall>e \<in> set p. key_elem e \<Longrightarrow> int64_ok t0 \<Longrightarrow> etcd_inv t0 (ex_at fs p v t0)"
  using ex_view_alt [of p v]
  by (auto simp: ex_at_def clocked_inv_def srv_inv_def tree_ok_def ftp_New_def ex_view_def strict_prefix_def prefix_def split: if_splits)

lemma ex_view_wf:
  assumes "schema_depth r = Some (length es)" and "entry_ok r es v" and "r \<noteq> ''executor''"
  shows "schema_wf (ex_view (''v1'' # r # es) v)"
proof -
  have "schema_wf (\<lambda>q. if q = [] then Some DirE else None)" by (auto simp: schema_wf_def is_leaf_def)
  from schema_put [OF this assms(1,2), of 1] show ?thesis
    using ex_view_alt [of "''v1'' # r # es" v] by (simp add: fun_upd_def)
qed

section \<open>Values\<close>

definition ex_desired :: desired_lrp where
  "ex_desired = zero_desired\<lparr>desired_ProcessGuid := ''app'', desired_Domain := ''tests'', desired_Instances := 2,
     desired_Stack := ''some-stack'', desired_Actions := Some [FetchResultAction \<lparr>fr_File = ''out''\<rparr>]\<rparr>"

definition ex_start :: lrp_start_auction where
  "ex_start = zero_start_auction\<lparr>sta_DesiredLRP := ex_desired, sta_Index := 1, sta_InstanceGuid := ''i-1'', sta_State := 1, sta_UpdatedAt := 5\<rparr>"

definition ex_stop :: lrp_stop_auction where
  "ex_stop = \<lparr>spa_ProcessGuid = ''app'', spa_Index = 1, spa_State = 1, spa_UpdatedAt = 5\<rparr>"

definition ex_actual :: actual_lrp where
  "ex_actual = \<lparr>actual_ProcessGuid = ''app'', actual_InstanceGuid = ''i-1'', actual_ExecutorID = ''exec'', actual_Index = 3,
     actual_Host = ''h'', actual_Ports = Some [], actual_State = 2, actual_Since = 5\<rparr>"

lemma ex_lrps_ok [simp]: "desired_ok ex_desired" "start_auction_ok ex_start" "stop_auction_ok ex_stop" "actual_ok ex_actual"
  "desired_ProcessGuid ex_desired = ''app''" "desired_Instances ex_desired = 2" "start_arg_ok ex_start" "stop_arg_ok ex_stop"
  "key_elem ''app''"
  by (auto simp: ex_desired_def ex_start_def ex_stop_def ex_actual_def desired_ok_def start_auction_ok_def stop_auction_ok_def actual_ok_def
      zero_desired_def zero_start_auction_def actions_ok_def log_ok_def zero_log_def ascii_def int64_ok_def start_arg_ok_def
      stop_arg_ok_def key_elem_def simple_elem_def)

lemma ex_sel [simp]: "sta_DesiredLRP ex_start = ex_desired" "sta_Index ex_start = 1" "sta_State ex_start = 1" "sta_UpdatedAt ex_start = 5"
  "spa_ProcessGuid ex_stop = ''app''" "spa_Index ex_stop = 1" "spa_State ex_stop = 1" "spa_UpdatedAt ex_stop = 5"
  "actual_ProcessGuid ex_actual = ''app''" "actual_Index ex_actual = 3" "actual_InstanceGuid ex_actual = ''i-1''"
  "actual_ExecutorID ex_actual = ''exec''"
  by (simp_all add: ex_start_def ex_stop_def ex_actual_def)

text \<open>Their stored forms, and the clusters that hold them.\<close>

definition ex_desired_value :: bytes where "ex_desired_value = the (DesiredLRP_ToJSON ex_desired)"
definition ex_actual_value :: bytes where "ex_actual_value = the (ActualLRP_ToJSON ex_actual)"
definition ex_start_value :: bytes where "ex_start_value = the (LRPStartAuction_ToJSON ex_start)"
definition ex_stop_value :: bytes where "ex_stop_value = the (LRPStopAuction_ToJSON ex_stop)"

lemma ex_values:
  "DesiredLRP_ToJSON ex_desired = Some ex_desired_value" "NewDesiredLRPFromJSON ex_desired_value = Ok ex_desired"
  "ActualLRP_ToJSON ex_actual = Some ex_actual_value" "NewActualLRPFromJSON ex_actual_value = Ok ex_actual"
  "LRPStartAuction_ToJSON ex_start = Some ex_start_value" "NewLRPStartAuctionFromJSON ex_start_value = Ok ex_start"
  "LRPStopAuction_ToJSON ex_stop = Some ex_stop_value" "NewLRPStopAuctionFromJSON ex_stop_value = Ok ex_stop"
  using desired_roundtrip [of ex_desired] actual_roundtrip [of ex_actual] start_auction_roundtrip [of ex_start]
    stop_auction_roundtrip [of ex_stop]
  by (auto simp: ex_desired_value_def ex_actual_value_def ex_start_value_def ex_stop_value_def)

lemma ex_keys [simp]: "key_elem ''v1''" "key_elem ''desired''" "key_elem ''actual''" "key_elem ''start''" "key_elem ''stop''"
  "key_elem ''i-1''" "key_elem ''exec''" "int64_ok 9" "int64_ok 2" "int64_ok 0"
  by (simp_all add: key_elem_def simple_elem_def int64_ok_def)

abbreviation ex_desired_path :: path where "ex_desired_path \<equiv> [''v1'', ''desired'', ''app'']"
abbreviation ex_actual_path :: path where "ex_actual_path \<equiv> [''v1'', ''actual'', ''app'', Itoa 3, ''i-1'']"
abbreviation ex_start_path :: path where "ex_start_path \<equiv> [''v1'', ''start'', ''app'', Itoa 1]"
abbreviation ex_stop_path :: path where "ex_stop_path \<equiv> [''v1'', ''stop'', ''app'', Itoa 1]"

lemma ex_wf [simp]:
  "schema_wf (ex_view ex_desired_path ex_desired_value)" "schema_wf (ex_view ex_actual_path ex_actual_value)"
  "schema_wf (ex_view ex_start_path ex_start_value)" "schema_wf (ex_view ex_stop_path ex_stop_value)"
  using entry_okI(1) [of ex_desired ex_desired_value] entry_okI(2) [of ex_actual ex_actual_value]
    entry_okI(3) [of ex_start ex_start_value] entry_okI(4) [of ex_stop ex_stop_value]
  by (auto intro!: ex_view_wf simp: ex_values)

section \<open>A handler\<close>

definition ex_pre :: "desired_lrp \<Rightarrow> int \<Rightarrow> string \<Rightarrow> error + desired_lrp" where
  "ex_pre d i g = Inr (d\<lparr>desired_ProcessGuid := ''preprocessed-'' @ desired_ProcessGuid d\<rparr>)"

definition ex_handler :: "(etcd_server \<times> fake_time) handler" where
  "ex_handler = NewHandler etcd_bbs (\<lambda>d i g. go_return (ex_pre d i g)) (go_return (Inr (replicate 16 7)))"

interpretation etcd_handler: handler_world etcd_bbs "etcd_inv t0" "\<lambda>(s, t). srv_look s" "\<lambda>(s, t). srv_slack s"
  "\<lambda>(s, t). es_index s" ex_handler ex_pre True for t0
proof (intro handler_world.intro etcd_world.cas_world_axioms handler_world_axioms.intro, goal_cases)
  case (4 d i g d')
  then show ?case by (auto simp: ex_pre_def desired_ok_def key_elem_def simple_elem_def)
qed (auto simp: ex_handler_def NewHandler_def ex_pre_def)

end
