(* ===== verification/WatchProofs.thy ===== *)
theory WatchProofs
  imports Watch
begin

text \<open>
  The adapter's watch goroutine and the goroutine of \<open>WatchWithFilter\<close> behind it: what the second
  receives when the first is given a list of answers, and that a write of a desired LRP comes out as the
  change it is.
\<close>

section \<open>The adapter's goroutine\<close>

definition next_index :: "(error + etcd_response) list \<Rightarrow> nat" where
  "next_index answers = (if answers = [] then 0
     else case last answers of Inl _ \<Rightarrow> 0 | Inr r \<Rightarrow> en_ModifiedIndex (the (er_Node r)) + 1)"

definition responses :: "(error + etcd_response) list \<Rightarrow> etcd_response list" where
  "responses answers = concat (map (\<lambda>a. case a of Inl _ \<Rightarrow> [] | Inr r \<Rightarrow> [r]) answers)"

lemma responses_simps [simp]:
  "responses [] = []" "responses (as @ bs) = responses as @ responses bs" "responses [Inl e] = []" "responses [Inr r] = [r]"
  by (simp_all add: responses_def)

lemma set_responses: "set (responses as) = {r. Inr r \<in> set as}"
  by (auto simp: responses_def split: sum.splits)

lemma dispatch_answers:
  assumes "\<forall>r. Inr r \<in> set answers \<longrightarrow> er_Node r \<noteq> None" and "\<forall>e. Inl e \<in> set answers \<longrightarrow> isEventIndexClearedError (Some e)"
  shows "dispatchWatchEvents answers = \<lparr>wl_index = next_index answers, wl_events = map makeWatchEvent (responses answers),
    wl_errors = [], wl_closed = False, wl_panicked = False\<rparr>"
  using assms
proof (induction answers rule: rev_induct)
  case Nil
  then show ?case by (simp add: dispatchWatchEvents_def watch_start_def next_index_def)
next
  case (snoc a answers)
  then have IH: "fold watch_answer answers watch_start = \<lparr>wl_index = next_index answers, wl_events = map makeWatchEvent (responses answers),
      wl_errors = [], wl_closed = False, wl_panicked = False\<rparr>"
    by (simp add: dispatchWatchEvents_def)
  show ?case
    using snoc.prems by (cases a) (auto simp: dispatchWatchEvents_def IH watch_answer_def next_index_def)
qed

lemma dispatch_end:
  assumes "\<forall>r. Inr r \<in> set answers \<longrightarrow> er_Node r \<noteq> None" and "\<forall>e. Inl e \<in> set answers \<longrightarrow> isEventIndexClearedError (Some e)"
    and "\<not> isEventIndexClearedError (Some e)"
  shows "dispatchWatchEvents (answers @ [Inl e]) = \<lparr>wl_index = next_index answers, wl_events = map makeWatchEvent (responses answers),
    wl_errors = (if e = ErrWatchStoppedByUser then [] else [the (convertError (Some e))]), wl_closed = True, wl_panicked = False\<rparr>"
proof -
  have "dispatchWatchEvents (answers @ [Inl e]) = watch_answer (Inl e) (dispatchWatchEvents answers)"
    by (simp add: dispatchWatchEvents_def)
  then show ?thesis
    using assms(3) by (simp add: dispatch_answers [OF assms(1,2)] watch_answer_def)
qed

section \<open>The goroutine behind it\<close>

lemma served_events:
  assumes "\<forall>e \<in> set es. \<exists>x. flt e = Ok x"
  shows "served flt (map Event es @ is) = es @ served flt is" and "ended_by flt (map Event es @ is) = ended_by flt is"
  using assms by (induction es) auto

lemma served_errors:
  "served flt (map WatchErr errs @ [EventsClosed]) = []"
  "ended_by flt (map WatchErr errs @ [EventsClosed]) = Some (case errs of [] \<Rightarrow> EventsClosed | e # _ \<Rightarrow> WatchErr e)"
  by (cases errs; simp)+

section \<open>Changes of desired LRPs\<close>

text \<open>The stored forms of an event's two sides.\<close>

definition shows_desired :: "etcd_node option \<Rightarrow> desired_lrp option \<Rightarrow> bool" where
  "shows_desired node d \<longleftrightarrow> (case (node, d) of
     (None, None) \<Rightarrow> True
   | (Some n, Some d) \<Rightarrow> \<not> en_Dir n \<and> desired_ok d \<and> DesiredLRP_ToJSON d = Some (en_Value n)
   | _ \<Rightarrow> False)"

lemma change_part_desired:
  assumes "shows_desired node d"
  shows "change_part NewDesiredLRPFromJSON (map_option makeStoreNode node) = Ok (d, True)"
proof (cases node)
  case None
  then show ?thesis using assms by (cases d) (auto simp: shows_desired_def change_part_def)
next
  case (Some n)
  then obtain d' where d: "d = Some d'" "\<not> en_Dir n" "desired_ok d'" "DesiredLRP_ToJSON d' = Some (en_Value n)"
    using assms by (cases d) (auto simp: shows_desired_def)
  have "sn_Value (makeStoreNode n) = en_Value n" using d(2) by (cases n) simp
  then show ?thesis using Some d FromJSON_ToJSON(1) by (simp add: change_part_def)
qed

end
