(* ===== verification/LrpProperties.thy ===== *)
theory LrpProperties
  imports LrpExamples WatchProofs
begin

text \<open>
  The properties of the handler, of LRPs and of auctions, each followed by an application to a
  concrete cluster.
\<close>

section \<open>The handler\<close>

text \<open>
  C1 -- What the handler does for a change of a desired LRP, on any store that meets its contract and
  whatever fails: it panics never, deletes nothing and touches no desired or actual LRP; it runs a
  sequence of operations that is empty when the instances could not be listed, and otherwise is the
  one \<open>Reconcile\<close> asks for: start auctions for the missing indices in order, with a fresh GUID and the
  pre-processed LRP, all of them unless the pre-processor or the random source fails, or, when no
  index is missing, a stop request for every instance beyond the count and then a stop auction for
  every index with several instances.
\<close>

theorem change_processed:
  fixes inv :: "'s \<Rightarrow> bool"
  assumes "handler_world B inv look slack tick h P steady" and "inv s" and "schema_wf (look s)"
    and "desired_of c = Some (d, n)" and "desired_ok d" and "key_elem (desired_ProcessGuid d)" and "int64_ok n"
  shows "wp (processDesiredChange h c) (\<lambda>_ s'. inv s' \<and> slack s' \<le> slack s \<and>
    (\<exists>ops. moved_ops ops (look s) (look s') \<and>
       (ops = [] \<and> 0 < slack s \<or>
        (\<exists>xs. lists_exactly xs (actuals_of (look s) (desired_ProcessGuid d)) \<and> handler_ops P steady d n xs ops)))) s"
  using assms by (rule handler_world.wp_processDesiredChange)

theorem change_processed_witness:
  "wp (processDesiredChange ex_handler \<lparr>dchange_Before = None, dchange_After = Some ex_desired\<rparr>) (\<lambda>_ w. etcd_inv 9 w \<and>
     (\<exists>ops. moved_ops ops (ex_view ex_desired_path ex_desired_value) (srv_look (fst w))))
     (ex_at [LostAnswer] ex_desired_path ex_desired_value 9)"
  by (rule wp_mono [OF change_processed [OF etcd_handler.handler_world_axioms [of 9],
        where s = "ex_at [LostAnswer] ex_desired_path ex_desired_value 9" and d = ex_desired and n = 2]])
    (auto simp: case_prod_beta desired_of_def)

text \<open>
  C2 -- When nothing fails a processed change is fulfilled: if an index below the count has no
  instance, every such index has a start auction afterwards, the new ones pending, each with the LRP
  as pre-processed, and nothing else changed; otherwise every instance whose index is not below the
  count has a stop request, every index with several instances a stop auction, and nothing else changed.
\<close>

theorem change_fulfilled:
  fixes inv :: "'s \<Rightarrow> bool"
  assumes "handler_world B inv look slack tick h P True" and "inv s" and "slack s = 0" and "schema_wf (look s)"
    and "desired_of c = Some (d, n)" and "desired_ok d" and "key_elem (desired_ProcessGuid d)" and "int64_ok n"
  shows "wp (processDesiredChange h c) (\<lambda>_ s'. inv s' \<and> same_elsewhere (look s) (look s') \<and>
    fulfilled P d n (actuals_of (look s) (desired_ProcessGuid d)) (abs_lrps (look s)) (abs_lrps (look s'))) s"
proof (rule wp_mono [OF handler_world.wp_processDesiredChange [OF assms(1,2,4-8)]], goal_cases)
  case (1 u s')
  then obtain ops xs where "moved_ops ops (look s) (look s')" "lists_exactly xs (actuals_of (look s) (desired_ProcessGuid d))"
    "handler_ops P True d n xs ops" using assms(3) by auto
  then show ?case using 1 handler_ops_fulfilled by (auto simp: moved_ops_def moved_def)
qed

theorem change_fulfilled_witness:
  "wp (processDesiredChange ex_handler \<lparr>dchange_Before = Some ex_desired, dchange_After = None\<rparr>) (\<lambda>_ w.
     fulfilled ex_pre ex_desired 0 (actuals_of (ex_view ex_actual_path ex_actual_value) ''app'')
       (abs_lrps (ex_view ex_actual_path ex_actual_value)) (abs_lrps (srv_look (fst w))))
     (ex_at [] ex_actual_path ex_actual_value 9)"
  by (rule wp_mono [OF change_fulfilled [OF etcd_handler.handler_world_axioms [of 9],
        where s = "ex_at [] ex_actual_path ex_actual_value 9" and d = ex_desired and n = 0]])
    (auto simp: case_prod_beta desired_of_def)

text \<open>
  C18 -- A desired LRP that is deleted with the compare-and-delete of \<open>ChangeDesiredLRP\<close> reaches the
  handler as a change of nothing, on which its goroutine panics: the adapter has no case for the action
  and the filter passes the zero event on.
\<close>

theorem deleted_desired_panics:
  assumes "er_Action r = ''compareAndDelete''"
  shows "wt_out (WatchWithFilter WatchForDesiredLRPChanges [Event (makeWatchEvent r)]) =
      [\<lparr>dchange_Before = None, dchange_After = None\<rparr>] \<and>
    processDesiredChange h \<lparr>dchange_Before = None, dchange_After = None\<rparr> s = Some (Panicked, s)"
  using assms
  by (simp add: WatchWithFilter_eq WatchForDesiredLRPChanges_def zero_event_filters makeWatchEvent_compareAndDelete
      processDesiredChange_def desired_of_def go_panic_def)

theorem deleted_desired_panics_witness:
  "processDesiredChange ex_handler \<lparr>dchange_Before = None, dchange_After = None\<rparr> (ex_at [] ex_desired_path ex_desired_value 9) =
     Some (Panicked, ex_at [] ex_desired_path ex_desired_value 9)"
  using deleted_desired_panics [of "\<lparr>er_Action = ''compareAndDelete'', er_Node = None, er_PrevNode = None\<rparr>" ex_handler
    "ex_at [] ex_desired_path ex_desired_value 9"] by simp



section \<open>The run loop\<close>

abbreviation ex_change :: desired_lrp_change where
  "ex_change \<equiv> \<lparr>dchange_Before = None, dchange_After = Some ex_desired\<rparr>"

text \<open>
  C11 -- In every reachable state of the run loop each change received so far is recorded in order and
  has a goroutine that is at work or done, there is one watch for the start and one for every time the
  loop found its channel gone, the watch closed at shutdown is the last one, and the loop has returned
  only after a signal and with no goroutine at work.
\<close>

theorem run_loop_invariant:
  assumes "runs es s"
  shows "rn_taken s = changes es \<and> length (changes es) = rn_active s + count_list es Processed \<and>
    rn_watches s = Suc (count_list es Rewatch) \<and> (rn_stopped s \<noteq> None \<longleftrightarrow> Signal \<in> set es) \<and>
    rn_stopped s \<in> {None, Some (rn_watches s)} \<and> (rn_returned s \<longrightarrow> Signal \<in> set es \<and> rn_active s = 0)"
  using runs_inv [OF assms] by (auto simp: run_inv_def)

theorem run_loop_invariant_witness:
  "\<exists>s. runs [Change ex_change, ErrorsClosed, Rewatch, Signal, Processed, AllDone] s \<and> rn_returned s \<and> rn_taken s = [ex_change] \<and> rn_stopped s = Some 2"
proof -
  let ?s = "\<lparr>rn_watches = 2, rn_watching = True, rn_taken = [ex_change], rn_active = 0, rn_stopped = Some 2, rn_returned = True\<rparr>"
  have "run_steps run_start [Change ex_change, ErrorsClosed, Rewatch, Signal, Processed, AllDone] ?s"
    by (simp add: run_steps_simps run_step_simps run_start_def)
  from runs_more [OF this runs_start] have r: "runs [Change ex_change, ErrorsClosed, Rewatch, Signal, Processed, AllDone] ?s" by simp
  then show ?thesis using run_loop_invariant [OF r] by (intro exI [of _ ?s]) auto
qed

text \<open>
  C12 -- Shutting down ends: once the signal is received the loop takes no change any more, the only
  steps left are goroutines that finish and the return, there are at most as many as goroutines at work
  plus one, and as long as the loop has not returned these steps lead to its return.
\<close>

theorem run_loop_ends:
  assumes "runs es s" and "Signal \<in> set es"
  shows "(\<forall>fs s'. run_steps s fs s' \<longrightarrow> set fs \<subseteq> {Processed, AllDone} \<and> length fs \<le> Suc (rn_active s) \<and> rn_taken s' = rn_taken s) \<and>
    (rn_returned s \<or> (\<exists>fs s'. run_steps s fs s' \<and> rn_returned s'))"
proof -
  have i: "rn_stopped s \<noteq> None" "rn_returned s \<Longrightarrow> rn_active s = 0"
    using runs_inv [OF assms(1)] assms(2) by (auto simp: run_inv_def)
  have "set fs \<subseteq> {Processed, AllDone} \<and> length fs \<le> Suc (rn_active s) \<and> rn_taken s' = rn_taken s" if "run_steps s fs s'" for fs s'
    using stopped_steps [OF that i] by (auto split: if_splits)
  moreover have "\<exists>fs s'. run_steps s fs s' \<and> rn_returned s'" if "\<not> rn_returned s"
    using drain [OF i(1) that] by (intro exI conjI) auto
  ultimately show ?thesis by blast
qed

theorem run_loop_ends_witness:
  "let s = \<lparr>rn_watches = 1, rn_watching = True, rn_taken = [ex_change], rn_active = 1, rn_stopped = Some 1, rn_returned = False\<rparr> in
   \<exists>fs s'. run_steps s fs s' \<and> rn_returned s'"
proof -
  let ?s = "\<lparr>rn_watches = 1, rn_watching = True, rn_taken = [ex_change], rn_active = 1, rn_stopped = Some 1, rn_returned = False\<rparr>"
  have "run_steps run_start [Change ex_change, Signal] ?s" by (simp add: run_steps_simps run_step_simps run_start_def)
  from runs_more [OF this runs_start] have "runs [Change ex_change, Signal] ?s" by simp
  from run_loop_ends [OF this] show ?thesis by simp
qed

section \<open>LRPs and auctions\<close>

text \<open>
  C4 -- Every operation on desired LRPs, actual LRPs, stop requests and auctions implements its
  specification on the state of five partial functions, on any store that meets its contract: it
  returns, never with a timeout, has exactly the effect of the specification and leaves everything
  else alone; when the store does not time out the error is the one of the specification.
\<close>

theorem lrp_operations_refine:
  fixes inv :: "'s \<Rightarrow> bool"
  assumes "cas_world B inv look slack tick" and "inv s" and "schema_wf (look s)" and "lrp_op_ok op"
  shows "wp (run_lrp_op B op) (\<lambda>err s'. inv s' \<and> slack s' \<le> slack s \<and> err \<noteq> Some ErrorTimeout \<and>
    schema_wf (look s') \<and> same_elsewhere (look s) (look s') \<and>
    (\<exists>t. abs_lrps (look s') = lrp_effect op t (abs_lrps (look s))) \<and>
    (slack s = 0 \<longrightarrow> err = lrp_result op (abs_lrps (look s)))) s"
  by (rule wp_mono [OF cas_world.wp_lrp_op [OF assms]]) (auto simp: refines_op_def moved_def)

theorem lrp_operations_refine_witness:
  "wp (ClaimLRPStartAuction etcd_bbs ex_start) (\<lambda>err w. err = None \<and>
     (\<exists>t. start_at (srv_look (fst w)) ''app'' 1 = Some (ex_start\<lparr>sta_State := 2, sta_UpdatedAt := t\<rparr>)))
     (ex_at [] ex_start_path ex_start_value 9)"
proof -
  have at: "start_at (ex_view ex_start_path ex_start_value) ''app'' 1 = Some ex_start"
    by (simp add: start_at_def entry_at_def ex_view_def ex_values)
  have k: "start_key ex_start = (''app'', 1)" by (simp add: start_key_def ex_start_def)
  have "wp (run_lrp_op etcd_bbs (OpClaimStart ex_start)) (\<lambda>err w. err = None \<and>
      (\<exists>t. start_at (srv_look (fst w)) ''app'' 1 = Some (ex_start\<lparr>sta_State := 2, sta_UpdatedAt := t\<rparr>)))
      (ex_at [] ex_start_path ex_start_value 9)"
  proof (rule wp_mono [OF lrp_operations_refine [OF etcd_world.cas_world_axioms [of 9], where op = "OpClaimStart ex_start" and
        s = "ex_at [] ex_start_path ex_start_value 9"]], goal_cases)
    case (4 err w)
    then obtain t where "abs_lrps (srv_look (fst w)) = lrp_effect (OpClaimStart ex_start) t (abs_lrps (ex_view ex_start_path ex_start_value))"
      by (auto simp: case_prod_beta)
    from arg_cong [OF this, of "\<lambda>\<sigma>. ls_start \<sigma> (''app'', 1)"]
    have "start_at (srv_look (fst w)) ''app'' 1 = Some (ex_start\<lparr>sta_State := 2, sta_UpdatedAt := t\<rparr>)"
      by (simp add: at k start_stamped_def)
    then show ?case using 4 at by (auto simp: case_prod_beta k compared_def)
  qed (auto simp: case_prod_beta)
  then show ?thesis by simp
qed

text \<open>
  C21 -- The getters are exact: on any store that meets its contract each returns a list without
  repetitions of exactly the stored values it is asked for, or, when the store timed out, the error
  and no value; none of them changes the store.
\<close>

theorem lrp_getters_exact:
  fixes inv :: "'s \<Rightarrow> bool"
  assumes "kv_world B inv look slack" and "inv s" and "schema_wf (look s)" and "key_elem g"
  shows "wp (GetAllDesiredLRPs B) (\<lambda>r s'. inv s' \<and> look s' = look s \<and> got (ran (desired_at (look s))) (slack s) r) s \<and>
    wp (GetActualLRPsByProcessGuid B g) (\<lambda>r s'. inv s' \<and> look s' = look s \<and> got (actuals_of (look s) g) (slack s) r) s \<and>
    wp (GetRunningActualLRPs B) (\<lambda>r s'. inv s' \<and> look s' = look s \<and>
       got {a \<in> all_actuals (look s). actual_State a = ActualLRPStateRunning} (slack s) r) s \<and>
    wp (GetAllStopLRPInstances B) (\<lambda>r s'. inv s' \<and> look s' = look s \<and> got (ran (stop_instance_at (look s))) (slack s) r) s"
  using kv_world.wp_GetAllDesiredLRPs [OF assms(1-3)] kv_world.wp_GetActualLRPsByProcessGuid [OF assms]
    kv_world.wp_GetRunningActualLRPs [OF assms(1-3)] kv_world.wp_GetAllStopLRPInstances [OF assms(1-3)]
  by (auto elim!: wp_mono)

theorem lrp_getters_exact_witness:
  "wp (GetActualLRPsByProcessGuid etcd_bbs ''app'') (\<lambda>r w. got (actuals_of (ex_view ex_actual_path ex_actual_value) ''app'') 0 r)
    (ex_at [] ex_actual_path ex_actual_value 9)"
  using lrp_getters_exact [OF etcd_world.kv_world_axioms [of 9], of "ex_at [] ex_actual_path ex_actual_value 9" "''app''"]
  by (auto simp: case_prod_beta elim!: wp_mono)

text \<open>
  What was desired is found: a desired LRP that is written and then looked up by its process GUID
  is the one that is returned, unless the lookup times out.
\<close>

theorem desire_then_get:
  fixes inv :: "'s \<Rightarrow> bool"
  assumes "kv_world B inv look slack" and "inv s" and "schema_wf (look s)" and "desired_ok d"
    and "key_elem (desired_ProcessGuid d)"
  shows "wp (go_bind (DesireLRP B d) (\<lambda>_. GetDesiredLRPByProcessGuid B (desired_ProcessGuid d)))
    (\<lambda>(x, err) s'. inv s' \<and> (err \<noteq> Some ErrorTimeout \<longrightarrow> x = d \<and> err = None) \<and> (err = Some ErrorTimeout \<longrightarrow> 0 < slack s)) s"
  unfolding wp_bind
proof (rule wp_mono [OF kv_world.wp_DesireLRP [OF assms]], goal_cases)
  case (1 err s1)
  then have s1: "inv s1" "schema_wf (look s1)" "slack s1 \<le> slack s" "desired_at (look s1) (desired_ProcessGuid d) = Some d"
    using arg_cong [where f = ls_desired and x = "abs_lrps (look s1)"] by (auto simp: moved_def dest!: arg_cong [of _ _ ls_desired])
  show ?case
    by (rule wp_mono [OF kv_world.wp_GetDesiredLRPByProcessGuid [OF assms(1) s1(1,2) assms(5)]])
      (use s1 in \<open>auto split: if_splits\<close>)
qed

theorem desire_then_get_witness:
  "wp (go_bind (DesireLRP etcd_bbs ex_desired) (\<lambda>_. GetDesiredLRPByProcessGuid etcd_bbs ''app''))
    (\<lambda>(x, err) w. x = ex_desired \<and> err = None) (ex_at [] ex_actual_path ex_actual_value 9)"
  using desire_then_get [OF etcd_world.kv_world_axioms [of 9], of "ex_at [] ex_actual_path ex_actual_value 9" ex_desired]
  by (auto simp: case_prod_beta elim!: wp_mono)

end
