(* ===== verification/AuctionProperties.thy ===== *)
theory AuctionProperties
  imports LrpExamples
begin

text \<open>
  The properties of auctions and of the convergence of LRPs, each followed by an application to a
  concrete cluster.
\<close>

section \<open>Claims\<close>

text \<open>
  Two auctioneers that both hold the pending start auction, each claiming it: the second is told
  that the comparison failed, the auction ends up claimed, and on a store that does not time out the
  first is told that it has it.
\<close>

lemma start_claim_race:
  fixes inv :: "'s \<Rightarrow> bool"
  assumes "cas_world B inv look slack tick" and "inv s" and "schema_wf (look s)" and "start_arg_ok a"
    and "start_at (look s) (desired_ProcessGuid (sta_DesiredLRP a)) (sta_Index a) = Some a"
    and "sta_State a = LRPStartAuctionStatePending"
  shows "wp (go_bind (ClaimLRPStartAuction B a) (\<lambda>x. go_bind (ClaimLRPStartAuction B a) (\<lambda>y. go_return (x, y))))
    (\<lambda>(x, y) s'. inv s' \<and> y = Some ErrorKeyComparisonFailed \<and> (slack s = 0 \<longrightarrow> x = None) \<and>
       (\<exists>t. start_at (look s') (desired_ProcessGuid (sta_DesiredLRP a)) (sta_Index a) =
          Some (a\<lparr>sta_State := LRPStartAuctionStateClaimed, sta_UpdatedAt := t\<rparr>))) s"
  unfolding start_auction_operations
proof (rule wp_mono [OF auction_world.wp_claim_race [OF start_world [OF assms(1)] assms(2,3)]], goal_cases)
  case (5 r s')
  then obtain t where "abs_lrps (look s') = (abs_lrps (look s))\<lparr>ls_start := (ls_start (abs_lrps (look s)))(start_key a \<mapsto> start_stamped 2 t a)\<rparr>"
    using start_moved by fastforce
  from arg_cong [OF this, of "\<lambda>\<sigma>. ls_start \<sigma> (start_key a)"]
  have "start_at (look s') (desired_ProcessGuid (sta_DesiredLRP a)) (sta_Index a) = Some (start_stamped 2 t a)"
    by (simp add: start_key_def)
  then show ?case using 5 auction_world.leaves_def [OF start_world [OF assms(1)]] by (auto simp: start_stamped_def)
qed (use assms in \<open>auto simp: start_arg_ok_def start_at_def start_auction_def\<close>)

text \<open>
  The same for stop auctions.
\<close>

lemma stop_claim_race:
  fixes inv :: "'s \<Rightarrow> bool"
  assumes "cas_world B inv look slack tick" and "inv s" and "schema_wf (look s)" and "stop_arg_ok a"
    and "stop_at (look s) (spa_ProcessGuid a) (spa_Index a) = Some a" and "spa_State a = LRPStopAuctionStatePending"
  shows "wp (go_bind (ClaimLRPStopAuction B a) (\<lambda>x. go_bind (ClaimLRPStopAuction B a) (\<lambda>y. go_return (x, y))))
    (\<lambda>(x, y) s'. inv s' \<and> y = Some ErrorKeyComparisonFailed \<and> (slack s = 0 \<longrightarrow> x = None) \<and>
       (\<exists>t. stop_at (look s') (spa_ProcessGuid a) (spa_Index a) =
          Some (a\<lparr>spa_State := LRPStopAuctionStateClaimed, spa_UpdatedAt := t\<rparr>))) s"
  unfolding stop_auction_operations
proof (rule wp_mono [OF auction_world.wp_claim_race [OF stop_world [OF assms(1)] assms(2,3)]], goal_cases)
  case (5 r s')
  then obtain t where "abs_lrps (look s') = (abs_lrps (look s))\<lparr>ls_stop := (ls_stop (abs_lrps (look s)))(stop_key a \<mapsto> stop_stamped 2 t a)\<rparr>"
    using stop_moved by fastforce
  from arg_cong [OF this, of "\<lambda>\<sigma>. ls_stop \<sigma> (stop_key a)"]
  have "stop_at (look s') (spa_ProcessGuid a) (spa_Index a) = Some (stop_stamped 2 t a)"
    by (simp add: stop_key_def)
  then show ?case using 5 auction_world.leaves_def [OF stop_world [OF assms(1)]] by (auto simp: stop_stamped_def)
qed (use assms in \<open>auto simp: stop_arg_ok_def stop_at_def stop_auction_def\<close>)

text \<open>
  C16 -- Two auctioneers that both hold a pending auction, of either kind, each claiming it: the second is
  told that the comparison failed, the auction ends up claimed, and on a store that does not time out the
  first is told that it has it.
\<close>

theorem auction_claim_races:
  fixes inv :: "'s \<Rightarrow> bool"
  assumes "cas_world B inv look slack tick" and "inv s" and "schema_wf (look s)"
  shows "(start_arg_ok a \<and> start_at (look s) (desired_ProcessGuid (sta_DesiredLRP a)) (sta_Index a) = Some a \<and>
      sta_State a = LRPStartAuctionStatePending \<longrightarrow>
      wp (go_bind (ClaimLRPStartAuction B a) (\<lambda>x. go_bind (ClaimLRPStartAuction B a) (\<lambda>y. go_return (x, y))))
        (\<lambda>(x, y) s'. inv s' \<and> y = Some ErrorKeyComparisonFailed \<and> (slack s = 0 \<longrightarrow> x = None) \<and>
           (\<exists>t. start_at (look s') (desired_ProcessGuid (sta_DesiredLRP a)) (sta_Index a) =
              Some (a\<lparr>sta_State := LRPStartAuctionStateClaimed, sta_UpdatedAt := t\<rparr>))) s) \<and>
    (stop_arg_ok b \<and> stop_at (look s) (spa_ProcessGuid b) (spa_Index b) = Some b \<and> spa_State b = LRPStopAuctionStatePending \<longrightarrow>
      wp (go_bind (ClaimLRPStopAuction B b) (\<lambda>x. go_bind (ClaimLRPStopAuction B b) (\<lambda>y. go_return (x, y))))
        (\<lambda>(x, y) s'. inv s' \<and> y = Some ErrorKeyComparisonFailed \<and> (slack s = 0 \<longrightarrow> x = None) \<and>
           (\<exists>t. stop_at (look s') (spa_ProcessGuid b) (spa_Index b) =
              Some (b\<lparr>spa_State := LRPStopAuctionStateClaimed, spa_UpdatedAt := t\<rparr>))) s)"
  using start_claim_race [OF assms] stop_claim_race [OF assms] by blast

theorem auction_claim_races_witness:
  "wp (go_bind (ClaimLRPStartAuction etcd_bbs ex_start) (\<lambda>x. go_bind (ClaimLRPStartAuction etcd_bbs ex_start) (\<lambda>y. go_return (x, y))))
    (\<lambda>(x, y) w. x = None \<and> y = Some ErrorKeyComparisonFailed) (ex_at [] ex_start_path ex_start_value 9)"
  by (rule wp_mono [OF mp [OF conjunct1 [OF auction_claim_races [OF etcd_world.cas_world_axioms [of 9],
      where a = ex_start and s = "ex_at [] ex_start_path ex_start_value 9"]]]])
    (auto simp: case_prod_beta start_at_def entry_at_def ex_values)

section \<open>Convergence\<close>







end
