(* ===== verification/UuidProofs.thy ===== *)
theory UuidProofs
  imports Uuid
begin

text \<open>
  The version and variant bits of generated UUIDs, and the round trip of their text form.
\<close>

section \<open>Hexadecimal digits\<close>

lemma hex_digit_cases: "d < 16 \<Longrightarrow> d \<in> {0, 1, 2, 3, 4, 5, 6, 7, 8, 9, 10, 11, 12, 13, 14, 15 :: nat}"
  by (simp, presburger)

lemma hex_value_digit: "d < 16 \<Longrightarrow> hex_value (hex_digit d) = Some d"
  by (drule hex_digit_cases) (auto simp: hex_value_def hex_digit_def)

lemma alnum_hex_digit: "d < 16 \<Longrightarrow> alnum (hex_digit d)"
  by (drule hex_digit_cases) (auto simp: alnum_def hex_digit_def)

lemma hex_digit_inj: "d < 16 \<Longrightarrow> e < 16 \<Longrightarrow> hex_digit d = hex_digit e \<longleftrightarrow> d = e"
  using hex_value_digit by (metis option.inject)

lemma byte_div: "unat (b :: byte) div 16 < 16"
  using unsigned_less [of b, where ?'a = nat] by simp

lemma hex_simps [simp]: "hex [] = []" "hex (b # bs) = hex_digit (unat b div 16) # hex_digit (unat b mod 16) # hex bs"
  "hex (xs @ ys) = hex xs @ hex ys" "length (hex bs) = 2 * length bs"
proof -
  show "length (hex bs) = 2 * length bs" by (induction bs) (simp_all add: hex_def hex_byte_def)
qed (simp_all add: hex_def hex_byte_def)

lemma hex_alnum: "\<forall>c \<in> set (hex bs). alnum c"
  by (induction bs) (simp_all add: alnum_hex_digit byte_div)

lemma hex_Decode_hex: "hex_Decode (hex bs) = Ok bs"
proof (induction bs)
  case (Cons b bs)
  have "word_of_nat (16 * (unat b div 16) + unat b mod 16) = b" by simp
  then show ?case using Cons by (simp add: hex_value_digit byte_div del: mult_div_mod_eq)
qed simp

section \<open>The pattern\<close>

lemma group_append: "length g = k \<Longrightarrow> \<forall>c \<in> set g. alnum c \<Longrightarrow> group k (g @ s) = Some (g, s)"
  by (simp add: group_def)

lemma skip_append: "skip p (p @ s) = Some s"
  by (simp add: skip_def)

lemma hex_digit_no_mark: "d < 16 \<Longrightarrow> hex_digit d \<noteq> CHR ''{'' \<and> hex_digit d \<noteq> CHR ''u''"
proof -
  assume d: "d < 16"
  have "hex_value (CHR ''{'') = None" "hex_value (CHR ''u'') = None" by code_simp+
  then show ?thesis using hex_value_digit [OF d] by auto
qed

lemma skip_opt_digit: "d < 16 \<Longrightarrow> skip_opt ''{'' (hex_digit d # s) = hex_digit d # s"
  "d < 16 \<Longrightarrow> skip_opt ''urn:uuid:'' (hex_digit d # s) = hex_digit d # s"
  using hex_digit_no_mark [of d] by (simp_all add: skip_opt_def skip_def)

lemma slice_drop: "a \<le> b \<Longrightarrow> slice a b u @ drop b u = drop a u"
  unfolding slice_def by (metis append_take_drop_id drop_drop le_add_diff_inverse2)

lemma slices:
  assumes "length u = 16"
  shows "slice 0 4 u @ slice 4 6 u @ slice 6 8 u @ slice 8 10 u @ drop 10 u = u"
    and "length (slice 0 4 u) = 4" "length (slice 4 6 u) = 2" "length (slice 6 8 u) = 2" "length (slice 8 10 u) = 2" "length (drop 10 u) = 6"
  using assms by (simp_all add: slice_drop) (simp_all add: slice_def)

lemma version_digit: "1 \<le> n \<Longrightarrow> n \<le> 5 \<Longrightarrow> hex_digit n \<in> set ''12345''"
proof -
  assume "1 \<le> n" "n \<le> 5"
  then have "n \<in> {1, 2, 3, 4, 5}" by auto
  moreover have "hex_digit 1 = CHR ''1''" "hex_digit 2 = CHR ''2''" "hex_digit 3 = CHR ''3''" "hex_digit 4 = CHR ''4''" "hex_digit 5 = CHR ''5''"
    by code_simp+
  ultimately show ?thesis by auto
qed

lemma FindHex_String:
  assumes u: "length u = 16" and v: "1 \<le> unat (Version u)" "unat (Version u) \<le> 5"
  shows "FindHex (String u) = Some (hex u)"
proof -
  note len = slices(2-6) [OF u]
  define g4 where "g4 = hex (slice 6 8 u)"
  have "drop 6 u = u ! 6 # u ! 7 # drop 8 u" using Cons_nth_drop_Suc [of 6 u] Cons_nth_drop_Suc [of 7 u] u by simp
  then have u6: "slice 6 8 u = [u ! 6, u ! 7]" by (simp add: slice_def)
  have "unat (Version u) = unat (u ! 6) div 16" by (simp add: Version_def drop_bit_eq_div unat_div)
  then have hd: "hd g4 \<in> set ''12345''" using version_digit [of "unat (u ! 6) div 16"] v by (simp add: g4_def u6)
  have first: "skip_opt ''{'' (skip_opt ''urn:uuid:'' (hex (slice 0 4 u) @ s)) = hex (slice 0 4 u) @ s" for s
    using len(1) by (cases "slice 0 4 u") (simp_all add: skip_opt_digit byte_div)
  have grp: "group k (hex xs @ s) = Some (hex xs, s)" if "2 * length xs = k" for k xs s
    by (rule group_append) (use that hex_alnum in simp_all)
  have last: "group 12 (hex (drop 10 u)) = Some (hex (drop 10 u), [])"
    using grp [of "drop 10 u" 12 "[]"] len(5) by simp
  have dash: "skip ''-'' (''-'' @ s) = Some s" for s by (rule skip_append)
  have "FindHex (String u) = Some (hex (slice 0 4 u) @ hex (slice 4 6 u) @ hex (slice 6 8 u) @ hex (slice 8 10 u) @ hex (drop 10 u))"
    unfolding FindHex_def String_def first
    using hd by (simp add: grp len last skip_def g4_def)
  then show ?thesis using slices(1) [OF u] by (metis hex_simps(3))
qed

lemma ParseHex_String:
  assumes "length u = 16" and "1 \<le> unat (Version u)" and "unat (Version u) \<le> 5"
  shows "ParseHex (String u) = Ok u"
  by (simp add: ParseHex_def FindHex_String [OF assms] hex_Decode_hex)

section \<open>Version and variant\<close>

lemma set_bits:
  assumes "length u = 16" and "v \<in> {3, 4, 5}"
  shows "length (setVersion v (setVariant ReservedRFC4122 u)) = 16"
    and "Version (setVersion v (setVariant ReservedRFC4122 u)) = v"
    and "setVersion v (setVariant ReservedRFC4122 u) ! 8 AND 0xC0 = 0x40"
    and "i \<noteq> 6 \<Longrightarrow> i \<noteq> 8 \<Longrightarrow> setVersion v (setVariant ReservedRFC4122 u) ! i = u ! i"
proof -
  have var: "setVariant ReservedRFC4122 u = u[8 := (u ! 8 OR 0x40) AND 0x7F]"
    by (simp add: setVariant_def ReservedRFC4122_def ReservedNCS_def)
  show "length (setVersion v (setVariant ReservedRFC4122 u)) = 16" using assms by (simp add: setVersion_def var)
  have "drop_bit 4 ((x AND 0xF) OR push_bit 4 v) = v" for x :: byte
    using assms(2) by (auto intro!: bit_word_eqI simp: bit_simps)
  then show "Version (setVersion v (setVariant ReservedRFC4122 u)) = v" using assms by (simp add: Version_def setVersion_def var)
  have "((x OR 0x40) AND 0x7F) AND 0xC0 = (0x40 :: byte)" for x
  proof -
    have "(x OR 0x40) AND 0x40 = 0x40" by (rule bit_word_eqI) (auto simp: bit_simps)
    then show ?thesis by (simp add: and.assoc)
  qed
  then show "setVersion v (setVariant ReservedRFC4122 u) ! 8 AND 0xC0 = 0x40" using assms by (simp add: setVersion_def var)
  show "setVersion v (setVariant ReservedRFC4122 u) ! i = u ! i" if "i \<noteq> 6" "i \<noteq> 8"
    using assms that by (simp add: setVersion_def var)
qed

end
