(* ===== verification/DataProperties.thy ===== *)
theory DataProperties
  imports LrpExamples UuidProofs WatchProofs
begin

text \<open>
  The properties of stored values, identifiers, keys and watch filters, each followed by an application
  to concrete values.
\<close>

section \<open>Stored values\<close>

text \<open>
  C22 -- Every kind of value that is stored is read back as it was: the JSON of a well-formed task, desired
  LRP, actual LRP, start auction, stop auction, stop request and executor presence parses to the same value,
  with its actions, optional fields and numbers.
\<close>

theorem stored_json_roundtrips:
  assumes "task_ok t" and "desired_ok d" and "actual_ok a" and "start_auction_ok sa" and "stop_auction_ok pa"
    and "stop_instance_ok i" and "presence_ok p"
  shows "(\<exists>b. Task_ToJSON t = Some b \<and> NewTaskFromJSON b = Ok t) \<and>
    (\<exists>b. DesiredLRP_ToJSON d = Some b \<and> NewDesiredLRPFromJSON b = Ok d) \<and>
    (\<exists>b. ActualLRP_ToJSON a = Some b \<and> NewActualLRPFromJSON b = Ok a) \<and>
    (\<exists>b. LRPStartAuction_ToJSON sa = Some b \<and> NewLRPStartAuctionFromJSON b = Ok sa) \<and>
    (\<exists>b. LRPStopAuction_ToJSON pa = Some b \<and> NewLRPStopAuctionFromJSON b = Ok pa) \<and>
    (\<exists>b. StopLRPInstance_ToJSON i = Some b \<and> NewStopLRPInstanceFromJSON b = Ok i) \<and>
    (\<exists>b. ExecutorPresence_ToJSON p = Some b \<and> NewExecutorPresenceFromJSON b = Ok p)"
  by (intro conjI task_roundtrip desired_roundtrip actual_roundtrip start_auction_roundtrip stop_auction_roundtrip
      stop_instance_roundtrip presence_roundtrip assms)

theorem stored_json_roundtrips_witness:
  "(\<exists>b. Task_ToJSON ex_task = Some b \<and> NewTaskFromJSON b = Ok ex_task) \<and>
   (\<exists>b. LRPStartAuction_ToJSON ex_start = Some b \<and> NewLRPStartAuctionFromJSON b = Ok ex_start)"
  using stored_json_roundtrips [of ex_task ex_desired ex_actual ex_start ex_stop "stop_of ex_actual"
      "\<lparr>ep_ExecutorID = ''exec'', ep_Stack = ''s''\<rparr>"]
  by (simp add: stop_instance_ok_def stop_of_def presence_ok_def ascii_def int64_ok_def)

text \<open>
  C23 -- What the readers accept has the fields the rest of the code relies on: whatever bytes are
  stored, a desired LRP that is read has a process GUID, a stack and an action, an actual LRP has a
  process, an instance and an executor, a task has a GUID, a stack and an action.
\<close>

theorem readers_accept_valid:
  "(NewDesiredLRPFromJSON b = Ok d \<longrightarrow> desired_ProcessGuid d \<noteq> [] \<and> desired_Stack d \<noteq> [] \<and> slice_elems (desired_Actions d) \<noteq> []) \<and>
   (NewActualLRPFromJSON b = Ok a \<longrightarrow> actual_ProcessGuid a \<noteq> [] \<and> actual_InstanceGuid a \<noteq> [] \<and> actual_ExecutorID a \<noteq> []) \<and>
   (NewTaskFromJSON b = Ok t \<longrightarrow> task_Guid t \<noteq> [] \<and> slice_elems (task_Actions t) \<noteq> [] \<and> task_Stack t \<noteq> [])"
  using NewDesiredLRPFromJSON_valid [of b d] NewActualLRPFromJSON_valid [of b a] NewTaskFromJSON_valid [of b t] by blast

theorem readers_accept_valid_witness:
  "NewActualLRPFromJSON ex_actual_value = Ok ex_actual \<and> actual_ProcessGuid ex_actual \<noteq> [] \<and> actual_ExecutorID ex_actual \<noteq> []"
  using readers_accept_valid [of ex_actual_value ex_desired ex_actual ex_task] ex_values(4) by blast

text \<open>
  The opaque identifier of an instance reads back as the instance when neither GUID contains a
  dot, and whatever it reads is written as it stood, with the index as any text for that number.
\<close>

theorem opaque_id_roundtrip:
  "(CHR ''.'' \<notin> set (id_ProcessGuid ids) \<and> CHR ''.'' \<notin> set (id_InstanceGuid ids) \<and> int64_ok (id_Index ids) \<longrightarrow>
     LRPIdentifierFromOpaqueID (OpaqueID ids) = Ok ids) \<and>
   (LRPIdentifierFromOpaqueID s = Ok ids \<longrightarrow>
     (\<exists>i. s = id_ProcessGuid ids @ ''.'' @ i @ ''.'' @ id_InstanceGuid ids \<and> Atoi i = Some (id_Index ids)))"
  using OpaqueID_roundtrip [of ids] LRPIdentifierFromOpaqueID_Ok [of s ids] by blast

theorem opaque_id_roundtrip_witness:
  "LRPIdentifierFromOpaqueID (OpaqueID \<lparr>id_ProcessGuid = ''app'', id_Index = 3, id_InstanceGuid = ''i-1''\<rparr>) =
     Ok \<lparr>id_ProcessGuid = ''app'', id_Index = 3, id_InstanceGuid = ''i-1''\<rparr>"
  using opaque_id_roundtrip [of "\<lparr>id_ProcessGuid = ''app'', id_Index = 3, id_InstanceGuid = ''i-1''\<rparr>"] by (simp add: int64_ok_def)

section \<open>Keys\<close>



section \<open>UUIDs\<close>



text \<open>
  C27 -- The text form of a UUID whose version is 1 to 5 parses back to it, so every generated instance
  GUID does.
\<close>

theorem uuid_text_roundtrip:
  assumes "length u = 16" and "1 \<le> unat (Version u)" and "unat (Version u) \<le> 5"
  shows "ParseHex (String u) = Ok u"
  using assms by (rule ParseHex_String)

theorem uuid_text_roundtrip_witness: "ParseHex (String [0, 1, 2, 3, 4, 5, 0x46, 7, 0x48, 9, 10, 11, 12, 13, 14, 255]) =
    Ok [0, 1, 2, 3, 4, 5, 0x46, 7, 0x48, 9, 10, 11, 12, 13, 14, 255]"
  by (rule uuid_text_roundtrip) (simp_all add: Version_def drop_bit_eq_div unat_div)

text \<open>
  Of the two name based generators only \<open>NewV3\<close> checks its namespace: a nil namespace is an
  error there and a panic in \<open>NewV5\<close>.
\<close>

theorem nil_namespace:
  "(\<exists>e. NewV3 md5 None name = Err e) \<and> NewV5 sha1 None name = Panic \<and>
   (\<forall>n. length (sha1 (n @ name)) = 20 \<longrightarrow> (\<exists>u. NewV5 sha1 (Some n) name = Ok u \<and> Version u = 5 \<and> length u = 16))"
  using set_bits [of _ 5] by (auto simp: NewV3_def NewV5_def setBytesFromHash_def)

theorem nil_namespace_witness:
  "\<exists>u. NewV5 (\<lambda>_. replicate 20 1) (Some []) [] = Ok u \<and> Version u = 5 \<and> length u = 16"
  using nil_namespace [of "\<lambda>_. []" "[]" "\<lambda>_. replicate 20 1"] by auto

section \<open>Watching\<close>

text \<open>
  C24 -- What a component's watch delivers: exactly the values its filter passes on, of the events up to
  the first input that ends the watch, in order; at most one error; the inner watch is stopped exactly
  when the stop was asked for, and both channels are closed unless the filter panicked.
\<close>

theorem watch_delivers:
  "WatchWithFilter w inputs = \<lparr>wt_out = passed (wa_filter w) (served (wa_filter w) inputs),
     wt_errs = (case ended_by (wa_filter w) inputs of Some (WatchErr e) \<Rightarrow> [e] | _ \<Rightarrow> []),
     wt_stopInner = (ended_by (wa_filter w) inputs = Some StopAsked),
     wt_closed = (\<exists>i. ended_by (wa_filter w) inputs = Some i \<and> \<not> is_event i),
     wt_panicked = (\<exists>i. ended_by (wa_filter w) inputs = Some i \<and> is_event i)\<rparr>"
  by (rule WatchWithFilter_eq)

text \<open>
  C25 -- From etcd to a component: the client's answers to the successive \<open>Watch\<close> calls of the adapter's
  goroutine, which asks for the index after the last one it was given and starts afresh when etcd has
  cleared its history, reach the component's channel through the component's filter, all of them, in
  order and once; the first other error ends both goroutines and is the one error that is reported, except
  that a watch stopped by its user ends silently.
\<close>

theorem watch_end_to_end:
  assumes "\<forall>r. Inr r \<in> set answers \<longrightarrow> er_Node r \<noteq> None \<and> (\<exists>x. wa_filter w (makeWatchEvent r) = Ok x)"
    and "\<forall>e. Inl e \<in> set answers \<longrightarrow> isEventIndexClearedError (Some e)" and "\<not> isEventIndexClearedError (Some e)"
  shows "let d = dispatchWatchEvents (answers @ [Inl e]);
      c = WatchWithFilter w (map Event (wl_events d) @ map WatchErr (wl_errors d) @ [EventsClosed]);
      errs = (if e = ErrWatchStoppedByUser then [] else [the (convertError (Some e))]) in
    wl_closed d \<and> \<not> wl_panicked d \<and> wt_closed c \<and> \<not> wt_panicked c \<and> wt_errs c = errs \<and>
    wt_out c = passed (wa_filter w) (map makeWatchEvent (responses answers)) \<and>
    wl_index (dispatchWatchEvents answers) =
      (if answers = [] then 0 else case last answers of Inl _ \<Rightarrow> 0 | Inr r \<Rightarrow> en_ModifiedIndex (the (er_Node r)) + 1)"
proof -
  have nodes: "\<forall>r. Inr r \<in> set answers \<longrightarrow> er_Node r \<noteq> None" using assms(1) by blast
  have ok: "\<forall>x \<in> set (map makeWatchEvent (responses answers)). \<exists>y. wa_filter w x = Ok y"
    using assms(1) by (auto simp: set_responses)
  show ?thesis
    unfolding Let_def dispatch_end [OF nodes assms(2,3)] dispatch_answers [OF nodes assms(2)] WatchWithFilter_eq
      watch_loop.simps served_events [OF ok] served_errors
    by (simp add: next_index_def)
qed

theorem watch_end_to_end_witness:
  "let r = \<lparr>er_Action = ''set'', er_Node = Some (EtcdNode ''/k'' ex_desired_value False 0 [] 7 7), er_PrevNode = None\<rparr>;
     d = dispatchWatchEvents [Inr r, Inl (EtcdError 401 []), Inr r, Inl (EtcdError 501 [])] in
   wt_errs (WatchWithFilter WatchForDesiredLRPChanges (map Event (wl_events d) @ map WatchErr (wl_errors d) @ [EventsClosed])) = [ErrorTimeout]"
  using watch_end_to_end [of "let r = \<lparr>er_Action = ''set'', er_Node = Some (EtcdNode ''/k'' ex_desired_value False 0 [] 7 7), er_PrevNode = None\<rparr>
      in [Inr r, Inl (EtcdError 401 []), Inr r]" WatchForDesiredLRPChanges "EtcdError 501 []"]
  by (auto simp: Let_def WatchForDesiredLRPChanges_def filterDesiredLRPChanges_def change_part_def makeWatchEvent_def ex_values
      isEventIndexClearedError_def convertError_def)

text \<open>
  A response whose action the adapter has no case for (\<open>compareAndDelete\<close> is one) becomes an event
  without nodes. The watch filters of tasks, stop requests and auctions panic on it; those of changes
  pass it on as a change with neither side, and none of them stays silent.
\<close>

theorem zero_event_filters_panic:
  assumes "er_Action r \<notin> {''delete'', ''create'', ''set'', ''update'', ''compareAndSwap'', ''expire''}"
  shows "taskFilterByState n (makeWatchEvent r) = Panic \<and> filterStopLRPInstance (makeWatchEvent r) = Panic \<and>
    filterLRPStartAuction (makeWatchEvent r) = Panic \<and> filterLRPStopAuction (makeWatchEvent r) = Panic \<and>
    filterDesiredLRPChanges (makeWatchEvent r) = Ok (\<lparr>dchange_Before = None, dchange_After = None\<rparr>, True) \<and>
    filterActualLRPChanges (makeWatchEvent r) = Ok (\<lparr>achange_Before = None, achange_After = None\<rparr>, True)"
proof -
  have "makeWatchEvent r = zero_event"
    using assms by (simp add: makeWatchEvent_def Let_def)
  then show ?thesis
    by (simp add: zero_event_filters)
qed

theorem zero_event_filters_panic_witness:
  "taskFilterByState TaskStatePending
     (makeWatchEvent \<lparr>er_Action = ''compareAndDelete'', er_Node = None, er_PrevNode = None\<rparr>) = Panic"
  using zero_event_filters_panic [of "\<lparr>er_Action = ''compareAndDelete'', er_Node = None, er_PrevNode = None\<rparr>"
      TaskStatePending]
  by simp

end
