(* ===== verification/Maintaining.thy ===== *)
theory Maintaining
  imports EtcdWorld
begin

text \<open>
  The maintaining goroutine of the etcd adapter over a cluster: one timer event always comes to an end,
  writes the key only when it is free or holds the owner's value, and claims ownership only when it
  does. Locks and presences rest on this.
\<close>

lemma maintain_tick_eq:
  "maintain_tick c node elapsed m =
     (if mn_created m then
        go_bind (client_CompareAndSwap c (sn_Key node) (sn_Value node) (sn_TTL node) (sn_Value node) 0) (\<lambda>x.
          if resp_err x = None then go_return (on_kept (sn_TTL node) elapsed m)
          else if convertError (resp_err x) = Some ErrorKeyNotFound
          then maintain_tick c node elapsed ((on_lost m)\<lparr>mn_created := False\<rparr>)
          else go_return (on_retry (sn_TTL node) (on_lost m)))
      else
        go_bind (client_Create c (sn_Key node) (sn_Value node) (sn_TTL node)) (\<lambda>x.
          if resp_err x = None then go_return (on_created (sn_TTL node) elapsed m)
          else if convertError (resp_err x) = Some ErrorKeyExists
          then maintain_tick c node elapsed (m\<lparr>mn_cycle := 0, mn_created := True\<rparr>)
          else go_return (on_retry (sn_TTL node) (m\<lparr>mn_cycle := 0\<rparr>))))"
  by (rule ext, subst maintain_tick.simps)
    (auto simp: go_bind_def go_return_def split: option.splits run.splits)

lemmas on_defs = on_kept_def on_lost_def on_created_def on_retry_def Let_def

lemma refused_resp:
  "refused c r \<Longrightarrow> (\<exists>y. resp_err r = Some y) \<and> (\<exists>e. convertError (resp_err r) = Some e \<and> e \<noteq> ErrorTimeout \<and>
     (c = 100 \<longrightarrow> e = ErrorKeyNotFound) \<and> (c = 105 \<longrightarrow> e = ErrorKeyExists) \<and> (c = 101 \<longrightarrow> e = ErrorKeyComparisonFailed))"
  using refused_convert [of c r] by (auto simp: refused_def)

definition maintained :: "(nat \<Rightarrow> bool) \<Rightarrow> view \<Rightarrow> path \<Rightarrow> bytes \<Rightarrow> nat \<Rightarrow> maintainer \<Rightarrow> maintainer \<Rightarrow> view \<Rightarrow> bool" where
  "maintained later f es v slack m m' f' \<longleftrightarrow>
     (mn_owned m' \<longrightarrow> mn_created m' \<and> holds f' es v) \<and>
     (f' = f \<or> (f es = None \<or> holds f es v) \<and> (\<exists>i. later i \<and> f' = put_path f es v i)) \<and>
     (slack = 0 \<longrightarrow> (mn_owned m' \<longleftrightarrow> f es = None \<or> holds f es v)) \<and>
     (\<not> mn_owned m' \<longrightarrow> mn_status m' = mn_status m @ (if mn_owned m then [False] else [])) \<and>
     mn_closed m' = mn_closed m"

definition reports :: "path \<Rightarrow> bytes \<Rightarrow> maintainer \<Rightarrow> view \<Rightarrow> bool" where
  "reports es v m f \<longleftrightarrow> (mn_owned m \<longrightarrow> mn_created m \<and> holds f es v) \<and>
     (mn_status m \<noteq> [] \<and> last (mn_status m) \<longrightarrow> mn_owned m) \<and> \<not> mn_closed m"

lemma maintained_reports: "maintained later f es v n m m' f' \<Longrightarrow> reports es v m f \<Longrightarrow> reports es v m' f'"
  by (auto simp: maintained_def reports_def split: if_splits)

lemma no_leaf_above_put: "no_leaf_above f es \<Longrightarrow> no_leaf_above (put_path f es v i) es"
  by (auto simp: no_leaf_above_def put_path_def is_leaf_def)

lemma put_path_leaf: "put_path f es v i es \<noteq> Some DirE"
  by (simp add: put_path_def)

context etcd_api
begin

abbreviation client :: "bool \<Rightarrow> 's etcd_client" where
  "client strong \<equiv> \<lparr>ec_send = send, ec_strong = strong\<rparr>"

lemma wp_tick_swap:
  assumes "inv s" and es: "clean es" and v: "v \<noteq> []" and wf: "no_leaf_above (look s) es" "look s es \<noteq> Some DirE"
    and kept: "\<And>s' i. inv s' \<Longrightarrow> slack s' \<le> slack s \<Longrightarrow> holds (look s) es v \<Longrightarrow> tick s < i \<Longrightarrow> look s' = put_path (look s) es v i \<Longrightarrow> K s'"
    and timed: "\<And>s'. inv s' \<Longrightarrow> slack s' < slack s \<Longrightarrow>
      look s' = look s \<or> holds (look s) es v \<and> (\<exists>i > tick s. look s' = put_path (look s) es v i) \<Longrightarrow> L s'"
    and other: "\<And>s'. inv s' \<Longrightarrow> slack s' \<le> slack s \<Longrightarrow> look s' = look s \<Longrightarrow> look s es \<noteq> None \<Longrightarrow> \<not> holds (look s) es v \<Longrightarrow> L s'"
    and gone: "\<And>s'. inv s' \<Longrightarrow> slack s' \<le> slack s \<Longrightarrow> look s' = look s \<Longrightarrow> look s es = None \<Longrightarrow> tick s \<le> tick s' \<Longrightarrow> G s'"
  shows "wp (client_CompareAndSwap (client strong) (abs_path es) v ttl v 0) (\<lambda>r s'.
    if resp_err r = None then K s' else if convertError (resp_err r) = Some ErrorKeyNotFound then G s' else L s') s"
proof -
  have req: "client_CompareAndSwap (client strong) (abs_path es) v ttl v 0 = send (rput es [(''prevValue'', v)] v ttl)"
    using v by (simp add: client_prev_requests keyToPath_abs [OF es])
  have leaf: "is_leaf (look s es) \<longleftrightarrow> look s es \<noteq> None"
    using wf(2) by (cases "look s es") (auto simp: is_leaf_def intro: entry.exhaust)
  have h: "(\<exists>cur j. look s es = Some (LeafE cur j) \<and> cur = v) \<longleftrightarrow> holds (look s) es v" by (simp add: holds_def)
  show ?thesis
    unfolding req
  proof (rule wp_mono [OF api_swap [OF assms(1) es, of "[(''prevValue'', v)]" v "\<lambda>cur j. cur = v" 0 v ttl]], goal_cases)
    case (2 r s')
    note r = 2 [unfolded Let_def h leaf]
    consider "unreachable r" | "\<not> unreachable r" "holds (look s) es v" | "\<not> unreachable r" "\<not> holds (look s) es v" by blast
    then show ?case
    proof cases
      case 1
      then have "resp_err r \<noteq> None" "convertError (resp_err r) = Some ErrorTimeout" by (auto simp: unreachable_def convertError_def)
      then show ?thesis using r 1 by (auto intro: timed)
    next
      case 2
      then show ?thesis using r by (auto intro: kept)
    next
      case 3
      then obtain c where c: "refused c r" "look s es \<noteq> None \<longrightarrow> c = 101" "look s es = None \<longrightarrow> c = 100" using r wf(1) by auto
      then show ?thesis using r 3 by (cases "look s es = None") (auto dest!: refused_resp intro: gone other)
    qed
  qed (use v in simp)
qed

lemma wp_tick_create:
  assumes "inv s" and es: "clean es" and above: "no_leaf_above (look s) es"
    and made: "\<And>s' i. inv s' \<Longrightarrow> slack s' \<le> slack s \<Longrightarrow> look s es = None \<Longrightarrow> tick s < i \<Longrightarrow> look s' = put_path (look s) es v i \<Longrightarrow> K s'"
    and timed: "\<And>s'. inv s' \<Longrightarrow> slack s' < slack s \<Longrightarrow>
      look s' = look s \<or> look s es = None \<and> (\<exists>i > tick s. look s' = put_path (look s) es v i) \<Longrightarrow> L s'"
    and there: "\<And>s'. inv s' \<Longrightarrow> slack s' \<le> slack s \<Longrightarrow> look s' = look s \<Longrightarrow> look s es \<noteq> None \<Longrightarrow> tick s \<le> tick s' \<Longrightarrow> G s'"
  shows "wp (client_Create (client strong) (abs_path es) v ttl) (\<lambda>r s'.
    if resp_err r = None then K s' else if convertError (resp_err r) = Some ErrorKeyExists then G s' else L s') s"
proof -
  have req: "client_Create (client strong) (abs_path es) v ttl = send (rput es [(''prevExist'', ''false'')] v ttl)"
    by (simp add: client_requests keyToPath_abs [OF es])
  have cr: "creatable (look s) es \<longleftrightarrow> look s es = None" using above by (auto simp: creatable_def)
  show ?thesis
    unfolding req
  proof (rule wp_mono [OF api_create [OF assms(1) es, of v ttl]], goal_cases)
    case (1 r s')
    note r = 1 [unfolded cr]
    consider "unreachable r" | "\<not> unreachable r" "look s es = None" | "\<not> unreachable r" "look s es \<noteq> None" by blast
    then show ?case
    proof cases
      case 1
      then have "resp_err r \<noteq> None" "convertError (resp_err r) = Some ErrorTimeout" by (auto simp: unreachable_def convertError_def)
      then show ?thesis using r 1 by (auto intro: timed)
    next
      case 2
      then show ?thesis using r by (auto intro: made)
    next
      case 3
      then show ?thesis using r by (auto dest!: refused_resp intro: there)
    qed
  qed
qed

text \<open>A tick; the inner loop of the code runs at most twice.\<close>

lemma wp_tick_created:
  assumes "inv s" and es: "clean es" and v: "v \<noteq> []" and wf: "no_leaf_above (look s) es" "look s es \<noteq> Some DirE"
    and node: "sn_Key node = abs_path es" "sn_Value node = v" and m: "mn_created m"
    and kept: "\<And>m' s'. inv s' \<Longrightarrow> slack s' \<le> slack s \<Longrightarrow> maintained (\<lambda>i. tick s < i) (look s) es v (slack s) m m' (look s') \<Longrightarrow> Q m' s'"
    and gone: "\<And>s'. inv s' \<Longrightarrow> slack s' \<le> slack s \<Longrightarrow> look s' = look s \<Longrightarrow> look s es = None \<Longrightarrow> tick s \<le> tick s' \<Longrightarrow>
      wp (maintain_tick (client strong) node elapsed ((on_lost m)\<lparr>mn_created := False\<rparr>)) Q s'"
  shows "wp (maintain_tick (client strong) node elapsed m) Q s"
  unfolding maintain_tick_eq [of "client strong" node elapsed m] eqTrueI [OF m] if_True wp_bind node
proof (rule wp_mono [OF wp_tick_swap [where K = "\<lambda>s'. Q (on_kept (sn_TTL node) elapsed m) s'" and L = "\<lambda>s'. Q (on_retry (sn_TTL node) (on_lost m)) s'"
      and G = "\<lambda>s'. wp (maintain_tick (client strong) node elapsed ((on_lost m)\<lparr>mn_created := False\<rparr>)) Q s'", OF assms(1) es v wf]], goal_cases)
  case (1 s' i)
  then show ?case by (intro kept) (auto simp: maintained_def on_defs m holds_def)
next
  case (2 s')
  then show ?case by (intro kept) (auto simp: maintained_def on_defs m holds_def)
next
  case (3 s')
  then show ?case by (intro kept) (auto simp: maintained_def on_defs m)
next
  case (4 s')
  then show ?case by (rule gone)
qed (simp split: if_splits)

lemma wp_tick_fresh:
  assumes "inv s" and es: "clean es" and v: "v \<noteq> []" and wf: "no_leaf_above (look s) es" "look s es \<noteq> Some DirE"
    and node: "sn_Key node = abs_path es" "sn_Value node = v" and m: "\<not> mn_created m" "\<not> mn_owned m"
    and kept: "\<And>m' s'. inv s' \<Longrightarrow> slack s' \<le> slack s \<Longrightarrow> maintained (\<lambda>i. tick s < i) (look s) es v (slack s) m m' (look s') \<Longrightarrow> Q m' s'"
    and there: "\<And>s'. inv s' \<Longrightarrow> slack s' \<le> slack s \<Longrightarrow> look s' = look s \<Longrightarrow> look s es \<noteq> None \<Longrightarrow> tick s \<le> tick s' \<Longrightarrow>
      wp (maintain_tick (client strong) node elapsed (m\<lparr>mn_cycle := 0, mn_created := True\<rparr>)) Q s'"
  shows "wp (maintain_tick (client strong) node elapsed m) Q s"
  unfolding maintain_tick_eq [of "client strong" node elapsed m] if_not_P [OF m(1)] wp_bind node
proof (rule wp_mono [OF wp_tick_create [where K = "\<lambda>s'. Q (on_created (sn_TTL node) elapsed m) s'"
      and L = "\<lambda>s'. Q (on_retry (sn_TTL node) (m\<lparr>mn_cycle := 0\<rparr>)) s'"
      and G = "\<lambda>s'. wp (maintain_tick (client strong) node elapsed (m\<lparr>mn_cycle := 0, mn_created := True\<rparr>)) Q s'" and v = v, OF assms(1) es wf(1)]], goal_cases)
  case (1 s' i)
  then show ?case by (intro kept) (auto simp: maintained_def on_defs holds_def)
next
  case (2 s')
  then show ?case by (intro kept) (auto simp: maintained_def on_defs holds_def m)
next
  case (3 s')
  then show ?case by (rule there)
qed (simp split: if_splits)

lemma wp_tick:
  assumes "inv s" and es: "clean es" and v: "v \<noteq> []" and wf: "no_leaf_above (look s) es" "look s es \<noteq> Some DirE"
    and node: "sn_Key node = abs_path es" "sn_Value node = v" and m: "mn_owned m \<Longrightarrow> mn_created m"
  shows "wp (maintain_tick (client strong) node elapsed m) (\<lambda>m' s'. inv s' \<and> slack s' \<le> slack s \<and>
    maintained (\<lambda>i. tick s < i) (look s) es v (slack s) m m' (look s')) s"
proof (cases "mn_created m")
  case True
  show ?thesis
  proof (rule wp_tick_created [OF assms(1) es v wf node True], goal_cases)
    case gone: (2 s1)
    have wf1: "no_leaf_above (look s1) es" "look s1 es \<noteq> Some DirE" using wf gone(3) by simp_all
    show ?case
    proof (rule wp_tick_fresh [OF gone(1) es v wf1 node], goal_cases)
      case (3 m' s')
      then show ?case using gone by (auto simp: maintained_def on_lost_def intro: less_le_trans le_less_trans)
    next
      case (4 s')
      then show ?case using gone(3,4) by simp
    qed (simp_all add: on_lost_def)
  qed simp
next
  case False
  then have fresh: "\<not> mn_owned m" using m by blast
  show ?thesis
  proof (rule wp_tick_fresh [OF assms(1) es v wf node False fresh], goal_cases)
    case there: (2 s1)
    have wf1: "no_leaf_above (look s1) es" "look s1 es \<noteq> Some DirE" using wf there(3) by simp_all
    show ?case
    proof (rule wp_tick_created [OF there(1) es v wf1 node], goal_cases)
      case (2 m' s')
      then show ?case using there fresh by (auto simp: maintained_def intro: less_le_trans le_less_trans)
    next
      case (3 s')
      then show ?case using there(3,4) by simp
    qed simp
  qed simp
qed

lemma wp_maintain_release:
  assumes "inv s" and es: "clean es" and v: "v \<noteq> []" and node: "sn_Key node = abs_path es" "sn_Value node = v"
  shows "wp (maintain_release (client strong) node) (\<lambda>_ s'. inv s' \<and> slack s' \<le> slack s \<and>
    (look s' = look s \<or> holds (look s) es v \<and> look s' = del_path (look s) es) \<and>
    (slack s = 0 \<longrightarrow> \<not> holds (look s') es v)) s"
proof -
  have req: "client_CompareAndDelete (client strong) (abs_path es) v 0 = send (rdelete es [(''prevValue'', v)])"
    using v by (simp add: client_prev_requests keyToPath_abs [OF es])
  show ?thesis
    unfolding maintain_release_def node req wp_bind wp_return
    by (rule wp_mono [OF api_compare_delete [OF assms(1) es v]])
      (auto simp: Let_def holds_def del_path_def split: if_splits)
qed

text \<open>The goroutine over any events: what it has reported is true as long as it has not been released.\<close>

lemma wp_maintain_loop:
  assumes "inv s" and es: "clean es" and v: "v \<noteq> []" and "no_leaf_above (look s) es" "look s es \<noteq> Some DirE"
    and node: "sn_Key node = abs_path es" "sn_Value node = v" and "reports es v m (look s)"
  shows "wp (maintain_loop (client strong) node m events) (\<lambda>m' s'. inv s' \<and> slack s' \<le> slack s \<and>
    (if \<exists>b. ReleaseAsked b \<in> set events then mn_closed m' \<and> (slack s = 0 \<longrightarrow> \<not> holds (look s') es v)
     else reports es v m' (look s'))) s"
  using assms(1,4,5,8)
proof (induction events arbitrary: m s)
  case Nil
  then show ?case by simp
next
  case (Cons e events)
  show ?case
  proof (cases e)
    case (TimerFired elapsed)
    have m: "mn_owned m \<Longrightarrow> mn_created m" using Cons.prems(4) by (simp add: reports_def)
    show ?thesis
      unfolding TimerFired maintain_loop.simps wp_bind
    proof (rule wp_mono [OF wp_tick [OF Cons.prems(1) es v Cons.prems(2,3) node m]], simp, goal_cases)
      case (1 m' s1)
      then have s1: "inv s1" "slack s1 \<le> slack s"
        and mt: "maintained (\<lambda>i. tick s < i) (look s) es v (slack s) m m' (look s1)" by auto
      have wf1: "no_leaf_above (look s1) es" "look s1 es \<noteq> Some DirE"
        using mt Cons.prems(2,3) by (auto simp: maintained_def no_leaf_above_put put_path_leaf)
      have rep: "reports es v m' (look s1)" using mt Cons.prems(4) by (rule maintained_reports)
      show ?case
        by (rule wp_mono [OF Cons.IH [OF s1(1) wf1 rep]]) (use s1(2) in \<open>auto split: if_splits\<close>)
    qed
  next
    case (ReleaseAsked answer)
    show ?thesis
      unfolding ReleaseAsked maintain_loop.simps wp_bind wp_return
      by (rule wp_mono [OF wp_maintain_release [OF Cons.prems(1) es v node]]) auto
  qed
qed

end

text \<open>Several owners with different values at one key, who take turns in any order: at most one owns it.\<close>

lemma maintained_exclusive:
  assumes "maintained later f es (val k) n (ms k) m' f'" and "inj val"
    and "\<And>j. mn_owned (ms j) \<Longrightarrow> mn_created (ms j) \<and> holds f es (val j)"
  shows "mn_owned ((ms(k := m')) j) \<Longrightarrow> mn_created ((ms(k := m')) j) \<and> holds f' es (val j)"
proof -
  assume o: "mn_owned ((ms(k := m')) j)"
  show "mn_created ((ms(k := m')) j) \<and> holds f' es (val j)"
  proof (cases "j = k")
    case True
    then show ?thesis using assms(1) o by (simp add: maintained_def)
  next
    case False
    then have j: "mn_created (ms j)" "holds f es (val j)" using assms(3) o by auto
    then have "f es \<noteq> None" "\<not> holds f es (val k)" using False injD [OF assms(2), of j k] by (auto simp: holds_def)
    then show ?thesis using assms(1) j False by (auto simp: maintained_def)
  qed
qed

lemma holds_one: "holds f es v \<Longrightarrow> holds f es w \<Longrightarrow> v = w"
  by (auto simp: holds_def)

end
