(* ===== verification/WorkerPool.thy ===== *)
theory WorkerPool
  imports EtcdAdapter "HOL-Library.Multiset"
begin

text \<open>
  storeadapter/workerpool, and what the etcd adapter keeps beside its client: the pool its operations run
  on and the stop channels of the watches in flight. A pool is a step relation over the goroutines that
  offer work, the workers and the callers of \<open>StopWorkers\<close>; a job is whatever identifies a closure.
\<close>

section \<open>The pool\<close>

datatype 'j worker = Idle | Working 'j | Exited

record 'j worker_pool =
  wp_workers :: "'j worker list"
  wp_waiting :: "'j multiset"
  wp_closed :: bool
  wp_stopped :: bool
  wp_done :: "'j list"
  wp_spent :: duration
  wp_since :: gotime

definition NewWorkerPool :: "nat \<Rightarrow> gotime \<Rightarrow> 'j worker_pool" where
  "NewWorkerPool poolSize now = \<lparr>wp_workers = replicate poolSize Idle, wp_waiting = {#}, wp_closed = False,
     wp_stopped = False, wp_done = [], wp_spent = 0, wp_since = now\<rparr>"

text \<open>
  \<open>ScheduleWork\<close> starts a goroutine that offers the job to the queue, or does nothing when the close
  channel is closed: then the job is never run and nobody is told.
\<close>

definition ScheduleWork :: "'j \<Rightarrow> 'j worker_pool \<Rightarrow> 'j worker_pool" where
  "ScheduleWork work pool =
     (if wp_closed pool then pool else pool\<lparr>wp_waiting := add_mset work (wp_waiting pool)\<rparr>)"

definition addTimeSpentWorking :: "duration \<Rightarrow> 'j worker_pool \<Rightarrow> 'j worker_pool" where
  "addTimeSpentWorking moreTime pool = pool\<lparr>wp_spent := wp_spent pool + moreTime\<rparr>"

text \<open>The time spent working (which the code converts to seconds) and the time since the last reset.\<close>

definition resetUsageMetrics :: "gotime \<Rightarrow> 'j worker_pool \<Rightarrow> (duration \<times> duration) \<times> 'j worker_pool" where
  "resetUsageMetrics now pool =
     ((wp_spent pool, time_Sub now (wp_since pool)), pool\<lparr>wp_since := now, wp_spent := 0\<rparr>)"

text \<open>
  The steps. \<open>Taken i j\<close>: worker \<open>i\<close> receives job \<open>j\<close> from the queue, \<open>Finished i t\<close>: it is done with it after
  \<open>t\<close>. When both the queue and the close channel are ready a worker may take either. \<open>StopCalled\<close> is the
  first call of \<open>StopWorkers\<close>, which returns (\<open>StopReturned\<close>) when every worker has ended; later calls return at once.
\<close>

datatype 'j pool_event =
    Scheduled 'j
  | Taken nat 'j
  | Finished nat duration
  | StopCalled
  | WorkerExit nat
  | StopReturned
  | UsageReset gotime

inductive pool_step :: "'j worker_pool \<Rightarrow> 'j pool_event \<Rightarrow> 'j worker_pool \<Rightarrow> bool" where
  pool_schedule: "pool_step p (Scheduled j) (ScheduleWork j p)"
| pool_take: "i < length (wp_workers p) \<Longrightarrow> wp_workers p ! i = Idle \<Longrightarrow> j \<in># wp_waiting p \<Longrightarrow>
    pool_step p (Taken i j) (p\<lparr>wp_workers := (wp_workers p)[i := Working j], wp_waiting := wp_waiting p - {#j#}\<rparr>)"
| pool_finish: "i < length (wp_workers p) \<Longrightarrow> wp_workers p ! i = Working j \<Longrightarrow>
    pool_step p (Finished i t)
      (addTimeSpentWorking t (p\<lparr>wp_workers := (wp_workers p)[i := Idle], wp_done := wp_done p @ [j]\<rparr>))"
| pool_stop: "\<not> wp_closed p \<Longrightarrow> pool_step p StopCalled (p\<lparr>wp_closed := True\<rparr>)"
| pool_exit: "wp_closed p \<Longrightarrow> i < length (wp_workers p) \<Longrightarrow> wp_workers p ! i = Idle \<Longrightarrow>
    pool_step p (WorkerExit i) (p\<lparr>wp_workers := (wp_workers p)[i := Exited]\<rparr>)"
| pool_stopped: "wp_closed p \<Longrightarrow> set (wp_workers p) \<subseteq> {Exited} \<Longrightarrow>
    pool_step p StopReturned (p\<lparr>wp_stopped := True\<rparr>)"
| pool_reset: "pool_step p (UsageReset now) (snd (resetUsageMetrics now p))"

inductive_simps pool_step_simps:
  "pool_step p (Scheduled j) p'" "pool_step p (Taken i j) p'" "pool_step p (Finished i t) p'"
  "pool_step p StopCalled p'" "pool_step p (WorkerExit i) p'" "pool_step p StopReturned p'" "pool_step p (UsageReset now) p'"

inductive pool_steps :: "'j worker_pool \<Rightarrow> 'j pool_event list \<Rightarrow> 'j worker_pool \<Rightarrow> bool" where
  pool_steps_Nil: "pool_steps p [] p"
| pool_steps_snoc: "pool_steps p es q \<Longrightarrow> pool_step q e r \<Longrightarrow> pool_steps p (es @ [e]) r"

lemmas pool_ops = ScheduleWork_def addTimeSpentWorking_def resetUsageMetrics_def

subsection \<open>What becomes of the jobs\<close>

fun job_of :: "'j worker \<Rightarrow> 'j multiset" where
  "job_of (Working j) = {#j#}"
| "job_of _ = {#}"

fun at_work :: "'j worker list \<Rightarrow> 'j multiset" where
  "at_work [] = {#}"
| "at_work (w # ws) = job_of w + at_work ws"

text \<open>The jobs scheduled before the pool was asked to stop.\<close>

fun accepted_jobs :: "'j pool_event list \<Rightarrow> 'j multiset" where
  "accepted_jobs [] = {#}"
| "accepted_jobs (e # es) =
     (case e of Scheduled j \<Rightarrow> add_mset j (accepted_jobs es) | StopCalled \<Rightarrow> {#} | _ \<Rightarrow> accepted_jobs es)"

lemma accepted_jobs_snoc:
  "accepted_jobs (es @ [e]) =
     accepted_jobs es + (if StopCalled \<in> set es then {#} else case e of Scheduled j \<Rightarrow> {#j#} | _ \<Rightarrow> {#})"
  by (induction es) (auto split: pool_event.splits)

lemma at_work_update:
  "i < length ws \<Longrightarrow> at_work (ws[i := w]) + job_of (ws ! i) = at_work ws + job_of w"
proof (induction ws arbitrary: i)
  case (Cons v ws)
  then show ?case
  proof (cases i)
    case (Suc k)
    then have "at_work (ws[k := w]) + job_of (ws ! k) = at_work ws + job_of w" using Cons by simp
    then show ?thesis using Suc by (simp add: add.assoc)
  qed (simp add: ac_simps)
qed simp

lemma at_work_simps:
  "i < length ws \<Longrightarrow> ws ! i = Idle \<Longrightarrow> at_work (ws[i := Working j]) = add_mset j (at_work ws)"
  "i < length ws \<Longrightarrow> ws ! i = Working j \<Longrightarrow> add_mset j (at_work (ws[i := Idle])) = at_work ws"
  "i < length ws \<Longrightarrow> ws ! i = Idle \<Longrightarrow> at_work (ws[i := Exited]) = at_work ws"
  using at_work_update [of i ws "Working j"] at_work_update [of i ws Idle] at_work_update [of i ws Exited] by simp_all

lemma size_at_work: "size (at_work ws) \<le> length ws"
proof (induction ws)
  case (Cons w ws)
  then show ?case by (cases w) auto
qed simp

lemma at_work_exited: "set ws \<subseteq> {Exited} \<Longrightarrow> at_work ws = {#}"
  by (induction ws) auto

lemma not_all_exited: "i < length ws \<Longrightarrow> ws ! i \<noteq> Exited \<Longrightarrow> \<not> set ws \<subseteq> {Exited}"
  by (auto dest: nth_mem)

definition pool_inv :: "nat \<Rightarrow> 'j pool_event list \<Rightarrow> 'j worker_pool \<Rightarrow> bool" where
  "pool_inv n es p \<longleftrightarrow> length (wp_workers p) = n \<and>
     accepted_jobs es = wp_waiting p + at_work (wp_workers p) + mset (wp_done p) \<and>
     (wp_closed p \<longleftrightarrow> StopCalled \<in> set es) \<and> (Exited \<in> set (wp_workers p) \<longrightarrow> wp_closed p) \<and>
     (wp_stopped p \<longrightarrow> wp_closed p \<and> set (wp_workers p) \<subseteq> {Exited})"

lemma pool_inv_start: "pool_inv n [] (NewWorkerPool n now)"
proof -
  have "at_work (replicate n Idle) = {#}" by (induction n) auto
  then show ?thesis by (auto simp: pool_inv_def NewWorkerPool_def)
qed

lemma pool_inv_step:
  assumes "pool_inv n es p" and "pool_step p e q"
  shows "pool_inv n (es @ [e]) q"
proof (cases e)
  case (Taken i j)
  then show ?thesis using assms not_all_exited [of i "wp_workers p"]
    by (auto simp: pool_inv_def pool_step_simps accepted_jobs_snoc at_work_simps set_update_subset_insert
        dest!: multi_member_split set_update_subset_insert [THEN subsetD])
next
  case (Finished i t)
  then obtain j where q: "i < length (wp_workers p)" "wp_workers p ! i = Working j"
      "q = addTimeSpentWorking t (p\<lparr>wp_workers := (wp_workers p)[i := Idle], wp_done := wp_done p @ [j]\<rparr>)"
    using assms(2) by (auto simp: pool_step_simps)
  then show ?thesis using assms(1) Finished not_all_exited [OF q(1)] at_work_simps(2) [OF q(1,2)]
    by (auto simp: pool_inv_def accepted_jobs_snoc pool_ops dest!: set_update_subset_insert [THEN subsetD])
next
  case (WorkerExit i)
  then show ?thesis using assms not_all_exited [of i "wp_workers p"]
    by (auto simp: pool_inv_def pool_step_simps accepted_jobs_snoc at_work_simps
        dest!: set_update_subset_insert [THEN subsetD])
qed (use assms in \<open>auto simp: pool_inv_def pool_step_simps accepted_jobs_snoc pool_ops\<close>)

lemma pool_inv_steps: "pool_steps (NewWorkerPool n now) es p \<Longrightarrow> pool_inv n es p"
  by (induction "NewWorkerPool n now :: 'a worker_pool" es p rule: pool_steps.induct)
    (auto intro: pool_inv_start pool_inv_step)

lemma pool_steps_append: "pool_steps q fs r \<Longrightarrow> pool_steps p es q \<Longrightarrow> pool_steps p (es @ fs) r"
proof (induction arbitrary: es rule: pool_steps.induct)
  case (pool_steps_snoc q fs r e r')
  then show ?case using pool_steps.pool_steps_snoc [of p "es @ fs" r e r'] by simp
qed simp

text \<open>As long as the pool is not stopped, any worker can get to any job that waits.\<close>

lemma pool_serves:
  assumes "0 < length (wp_workers p)" and "Exited \<notin> set (wp_workers p)" and "j \<in># wp_waiting p"
  shows "\<exists>fs q. pool_steps p fs q \<and> j \<in> set (wp_done q) \<and> set fs \<subseteq> {Taken 0 j, Finished 0 0}"
proof -
  have run: "\<exists>q. pool_steps r [Taken 0 j, Finished 0 0] q \<and> j \<in> set (wp_done q)"
    if "0 < length (wp_workers r)" "wp_workers r ! 0 = Idle" "j \<in># wp_waiting r" for r :: "'a worker_pool"
  proof -
    let ?r1 = "r\<lparr>wp_workers := (wp_workers r)[0 := Working j], wp_waiting := wp_waiting r - {#j#}\<rparr>"
    let ?r2 = "addTimeSpentWorking 0 (?r1\<lparr>wp_workers := (wp_workers ?r1)[0 := Idle], wp_done := wp_done ?r1 @ [j]\<rparr>)"
    have "pool_step r (Taken 0 j) ?r1" using that by (rule pool_take)
    moreover have "pool_step ?r1 (Finished 0 0) ?r2" using that by (intro pool_finish) simp_all
    ultimately have "pool_steps r (([] @ [Taken 0 j]) @ [Finished 0 0]) ?r2"
      by (rule pool_steps_snoc [OF pool_steps_snoc [OF pool_steps_Nil]])
    then show ?thesis by (auto simp: addTimeSpentWorking_def)
  qed
  show ?thesis
  proof (cases "wp_workers p ! 0")
    case Idle
    then obtain q where "pool_steps p [Taken 0 j, Finished 0 0] q" "j \<in> set (wp_done q)"
      using run [OF assms(1) _ assms(3)] by blast
    then show ?thesis by (intro exI [of _ "[Taken 0 j, Finished 0 0]"] exI [of _ q]) simp
  next
    case (Working k)
    let ?q = "addTimeSpentWorking 0 (p\<lparr>wp_workers := (wp_workers p)[0 := Idle], wp_done := wp_done p @ [k]\<rparr>)"
    have "pool_steps p ([] @ [Finished 0 0]) ?q"
      using pool_finish [OF assms(1) Working] by (rule pool_steps_snoc [OF pool_steps_Nil])
    moreover obtain q where q: "pool_steps ?q [Taken 0 j, Finished 0 0] q" "j \<in> set (wp_done q)"
      using run [of ?q] assms by (auto simp: addTimeSpentWorking_def)
    ultimately have "pool_steps p (([] @ [Finished 0 0]) @ [Taken 0 j, Finished 0 0]) q" by (blast intro: pool_steps_append)
    then show ?thesis using q(2) by (intro exI [of _ "[Finished 0 0, Taken 0 j, Finished 0 0]"] exI [of _ q]) simp
  next
    case Exited
    then show ?thesis using assms nth_mem [OF assms(1)] by simp
  qed
qed

text \<open>When \<open>StopWorkers\<close> has returned, nothing that still waits is ever run, and nothing is accepted.\<close>

lemma pool_stopped_step:
  assumes "pool_step p e q" and "set (wp_workers p) \<subseteq> {Exited}" and "wp_closed p"
  shows "wp_workers q = wp_workers p \<and> wp_closed q \<and> wp_waiting q = wp_waiting p \<and> wp_done q = wp_done p"
proof (cases e)
  case (Taken i j)
  then show ?thesis using assms not_all_exited [of i "wp_workers p"] by (simp add: pool_step_simps)
next
  case (Finished i t)
  then show ?thesis using assms not_all_exited [of i "wp_workers p"] by (auto simp: pool_step_simps)
next
  case (WorkerExit i)
  then show ?thesis using assms not_all_exited [of i "wp_workers p"] by (simp add: pool_step_simps)
qed (use assms in \<open>simp_all add: pool_step_simps pool_ops\<close>)

lemma pool_stopped_steps:
  assumes "pool_steps p es q" and "set (wp_workers p) \<subseteq> {Exited}" and "wp_closed p"
  shows "wp_workers q = wp_workers p \<and> wp_closed q \<and> wp_waiting q = wp_waiting p \<and> wp_done q = wp_done p"
  using assms
proof (induction rule: pool_steps.induct)
  case (pool_steps_snoc p es q e r)
  then show ?case using pool_stopped_step [OF pool_steps_snoc(2)] by simp
qed simp

section \<open>Watches in flight\<close>

text \<open>
  The adapter keeps the stop channel of every watch in flight (buffered, capacity one) and closes them all
  on \<open>Disconnect\<close>. A channel is its number; \<open>if_chans\<close> says which are closed and which hold a value that
  was sent to stop the watch and not yet received.
\<close>

record stop_chan =
  ch_closed :: bool
  ch_full :: bool

record inflight =
  if_watches :: "nat list"
  if_chans :: "nat \<Rightarrow> stop_chan"

definition registerInflightWatch :: "nat \<Rightarrow> inflight \<Rightarrow> inflight" where
  "registerInflightWatch stop s = s\<lparr>if_watches := List.insert stop (if_watches s)\<rparr>"

definition unregisterInflightWatch :: "nat \<Rightarrow> inflight \<Rightarrow> inflight" where
  "unregisterInflightWatch stop s = s\<lparr>if_watches := removeAll stop (if_watches s)\<rparr>"

definition chan_close :: "nat \<Rightarrow> (inflight, unit) go" where
  "chan_close c s =
     (if ch_closed (if_chans s c) then Some (Panicked, s)
      else Some (Done (), s\<lparr>if_chans := (if_chans s)(c := (if_chans s c)\<lparr>ch_closed := True\<rparr>)\<rparr>))"

text \<open>
  One iteration of \<open>cancelInflightWatches\<close>: the receive is ready on a channel that holds a value (which it
  takes, \<open>ok\<close> being true) or is closed (\<open>ok\<close> being false); otherwise the default closes the channel.
\<close>

definition cancel_watch :: "nat \<Rightarrow> (inflight, unit) go" where
  "cancel_watch stop s =
     (if ch_full (if_chans s stop)
      then chan_close stop (s\<lparr>if_chans := (if_chans s)(stop := (if_chans s stop)\<lparr>ch_full := False\<rparr>)\<rparr>)
      else if ch_closed (if_chans s stop) then go_return () s
      else chan_close stop s)"

text \<open>The range over the map of watches takes them in some order.\<close>

definition cancelInflightWatches :: "(nat list \<Rightarrow> nat list) \<Rightarrow> (inflight, unit) go" where
  "cancelInflightWatches order s = go_for (order (if_watches s)) cancel_watch s"

lemma wp_cancel_watches:
  assumes "\<forall>c \<in> set cs. \<not> (ch_closed (if_chans s c) \<and> ch_full (if_chans s c))"
  shows "wp (go_for cs cancel_watch) (\<lambda>_ s'. if_watches s' = if_watches s \<and>
    (\<forall>c. if_chans s' c = (if c \<in> set cs then \<lparr>ch_closed = True, ch_full = False\<rparr> else if_chans s c))) s"
  using assms
proof (induction cs arbitrary: s)
  case (Cons c cs)
  let ?s = "s\<lparr>if_chans := (if_chans s)(c := \<lparr>ch_closed = True, ch_full = False\<rparr>)\<rparr>"
  have "cancel_watch c s = Some (Done (), ?s)"
    using Cons.prems by (cases s; cases "if_chans s c") (auto simp: cancel_watch_def chan_close_def go_return_def fun_upd_idem)
  moreover have "wp (go_for cs cancel_watch) (\<lambda>_ s'. if_watches s' = if_watches s \<and>
      (\<forall>c'. if_chans s' c' = (if c' \<in> set (c # cs) then \<lparr>ch_closed = True, ch_full = False\<rparr> else if_chans s c'))) ?s"
    by (rule wp_mono [OF Cons.IH]) (use Cons.prems in auto)
  ultimately show ?case by (simp add: wp_def go_bind_def)
qed simp

text \<open>
  Disconnecting never panics unless a user both sent a value on a stop channel and closed it, and it stops
  every watch in flight.
\<close>

lemma cancelInflightWatches_closes:
  assumes "\<forall>c \<in> set (if_watches s). \<not> (ch_closed (if_chans s c) \<and> ch_full (if_chans s c))"
    and "set (order (if_watches s)) = set (if_watches s)"
  shows "wp (cancelInflightWatches order) (\<lambda>_ s'. \<forall>c. if_chans s' c =
    (if c \<in> set (if_watches s) then \<lparr>ch_closed = True, ch_full = False\<rparr> else if_chans s c)) s"
proof -
  have "wp (cancelInflightWatches order) Q s = wp (go_for (order (if_watches s)) cancel_watch) Q s" for Q
    by (simp add: wp_def cancelInflightWatches_def)
  then show ?thesis
    using wp_mono [OF wp_cancel_watches [of "order (if_watches s)" s]] assms by simp
qed

end
