(* ===== verification/EtcdSend.thy ===== *)
theory EtcdSend
  imports EtcdClient
begin

text \<open>
  coreos/go-etcd, below EtcdClient: the cluster the client knows (cluster.go) and \<open>SendRequest\<close>
  (requests.go), which sends a request to the leader, follows redirects and goes round the machines when
  one does not answer. The HTTP client, the timer, the random source and the cancellation are arguments,
  as operations on the state of the world.
\<close>

section \<open>The cluster\<close>

record cluster =
  cl_Leader :: string
  cl_Machines :: "string list"

definition NewCluster :: "string list \<Rightarrow> cluster" where
  "NewCluster machines =
     (let machines = (if machines = [] then [''http://127.0.0.1:4001''] else machines)
      in \<lparr>cl_Leader = machines ! 0, cl_Machines = machines\<rparr>)"

text \<open>Indexing a slice out of its range panics.\<close>

definition switchLeader :: "nat \<Rightarrow> cluster \<Rightarrow> cluster option" where
  "switchLeader num cl = (if num < length (cl_Machines cl) then Some (cl\<lparr>cl_Leader := cl_Machines cl ! num\<rparr>) else None)"

definition updateLeader :: "string \<Rightarrow> cluster \<Rightarrow> cluster" where
  "updateLeader leader cl = cl\<lparr>cl_Leader := leader\<rparr>"

text \<open>A URL as far as it matters here: its scheme and its host.\<close>

definition updateLeaderFromURL :: "string \<times> string \<Rightarrow> cluster \<Rightarrow> cluster" where
  "updateLeaderFromURL u cl =
     updateLeader (if fst u = [] then ''http://'' @ snd u else fst u @ ''://'' @ snd u) cl"

section \<open>HTTP\<close>

record raw_request =
  rr_Method :: string
  rr_RelativePath :: string
  rr_Params :: "(string \<times> string) list"
  rr_Values :: "(string \<times> string) list option"

text \<open>A request on the wire, its parameters and its form still to be URL-encoded.\<close>

record http_request =
  hq_Method :: string
  hq_URL :: string
  hq_Params :: "(string \<times> string) list"
  hq_Form :: "(string \<times> string) list option"

text \<open>
  A response: its status, the outcome of reading its body, and of its \<open>Location\<close> header.
\<close>

record http_response =
  hr_StatusCode :: nat
  hr_Body :: "error + bytes"
  hr_Location :: "error + (string \<times> string)"

record raw_response =
  rw_StatusCode :: nat
  rw_Body :: bytes

text \<open>
  The world of the client: \<open>http.NewRequest\<close> (which checks the URL), \<open>http.Client.Do\<close>, the timer,
  \<open>rand.Intn\<close>, and whether a cancellation is seen when the code looks.
\<close>

record 's http =
  ht_NewRequest :: "http_request \<Rightarrow> error option"
  ht_Do :: "http_request \<Rightarrow> ('s, error + http_response) go"
  ht_Sleep :: "duration \<Rightarrow> ('s, unit) go"
  ht_Intn :: "nat \<Rightarrow> ('s, nat) go"
  ht_Cancelled :: "('s, bool) go"

text \<open>A retry policy: the number of requests, the last status (0 when there was no response) and the reason.\<close>

type_synonym 's check_retry = "nat \<Rightarrow> nat \<Rightarrow> error \<Rightarrow> (cluster \<times> 's, error option) go"

record 's conn =
  cn_http :: "'s http"
  cn_strong :: bool
  cn_CheckRetry :: "'s check_retry option"

definition on_world :: "('s, 'a) go \<Rightarrow> (cluster \<times> 's, 'a) go" where
  "on_world m = (\<lambda>(cl, s). case m s of None \<Rightarrow> None | Some (r, s') \<Rightarrow> Some (r, (cl, s')))"

definition on_cluster :: "(cluster \<Rightarrow> cluster option) \<Rightarrow> (cluster \<times> 's, unit) go" where
  "on_cluster f = (\<lambda>(cl, s). case f cl of None \<Rightarrow> Some (Panicked, (cl, s)) | Some cl' \<Rightarrow> Some (Done (), (cl', s)))"

definition the_cluster :: "(cluster \<times> 's, cluster) go" where
  "the_cluster = (\<lambda>(cl, s). Some (Done cl, (cl, s)))"

section \<open>SendRequest\<close>

definition millisecond :: duration where "millisecond = 1000000"

definition validHttpStatusCode :: "nat set" where
  "validHttpStatusCode = {201, 200, 400, 404, 412, 403}"

definition DefaultCheckRetry :: "'s http \<Rightarrow> 's check_retry" where
  "DefaultCheckRetry h numReqs code err =
     go_bind the_cluster (\<lambda>cl.
       if numReqs \<ge> 2 * length (cl_Machines cl)
       then go_return (Some (EtcdError 501 ''Tried to connect to each peer twice and failed''))
       else go_bind (if code = 500 then on_world (ht_Sleep h (200 * millisecond)) else go_return ())
              (\<lambda>_. go_return None))"

definition getHttpPath :: "'s http \<Rightarrow> bool \<Rightarrow> string list \<Rightarrow> (cluster \<times> 's, string) go" where
  "getHttpPath h random segs =
     go_bind the_cluster (\<lambda>cl.
       go_bind (if random
                then (if cl_Machines cl = [] then go_panic
                      else go_bind (on_world (ht_Intn h (length (cl_Machines cl)))) (\<lambda>i. go_return (cl_Machines cl ! i)))
                else go_return (cl_Leader cl))
         (\<lambda>machine. go_return (fold (\<lambda>seg fullPath. fullPath @ ''/'' @ seg) segs (machine @ ''/'' @ ''v2''))))"

text \<open>How an iteration of the loop ends: \<open>return\<close> or \<open>break\<close>, or on to the next one.\<close>

datatype send_next = Return "error + raw_response" | Again

text \<open>The wait before every attempt but the first; \<open>None\<close> when the request was cancelled meanwhile.\<close>

definition send_wait :: "'s http \<Rightarrow> nat \<Rightarrow> duration \<Rightarrow> (cluster \<times> 's, duration option) go" where
  "send_wait h attempt sleep =
     (if attempt = 0 then go_return (Some sleep)
      else go_bind (on_world (ht_Cancelled h)) (\<lambda>cancelled.
        if cancelled then go_return None
        else go_bind (on_world (ht_Sleep h sleep)) (\<lambda>_.
          go_return (Some (if sleep * 2 > 1000 * millisecond then 1000 * millisecond else sleep * 2)))))"

text \<open>What is made of the answer; \<open>check\<close> is the retry policy in force.\<close>

definition send_answer ::
  "'s check_retry \<Rightarrow> nat \<Rightarrow> nat \<Rightarrow> error + http_response \<Rightarrow> (cluster \<times> 's, send_next) go" where
  "send_answer check attempt numReqs answer =
     (case answer of
        Inl err \<Rightarrow>
          go_bind (check numReqs 0 err) (\<lambda>checkErr.
            case checkErr of
              Some e \<Rightarrow> go_return (Return (Inl e))
            | None \<Rightarrow> go_bind the_cluster (\<lambda>cl.
                if cl_Machines cl = [] then go_panic
                else go_bind (on_cluster (switchLeader (attempt mod length (cl_Machines cl)))) (\<lambda>_. go_return Again)))
      | Inr resp \<Rightarrow>
          if hr_StatusCode resp \<in> validHttpStatusCode \<and> \<not> isl (hr_Body resp)
          then go_return (Return (Inr \<lparr>rw_StatusCode = hr_StatusCode resp, rw_Body = projr (hr_Body resp)\<rparr>))
          else if hr_StatusCode resp = 307
          then (case hr_Location resp of
                  Inl _ \<Rightarrow> go_return Again
                | Inr u \<Rightarrow> go_bind (on_cluster (\<lambda>cl. Some (updateLeaderFromURL u cl))) (\<lambda>_. go_return Again))
          else go_bind (check numReqs (hr_StatusCode resp) (Errorf ''Unexpected HTTP status code'' [] None)) (\<lambda>checkErr.
                 case checkErr of Some e \<Rightarrow> go_return (Return (Inl e)) | None \<Rightarrow> go_return Again))"

text \<open>An attempt, between the wait and the treatment of the answer.\<close>

definition send_attempt :: "'s conn \<Rightarrow> raw_request \<Rightarrow> nat \<Rightarrow> nat \<Rightarrow> (cluster \<times> 's, send_next) go" where
  "send_attempt c rr attempt numReqs =
     (let h = cn_http c; check = (case cn_CheckRetry c of None \<Rightarrow> DefaultCheckRetry h | Some f \<Rightarrow> f) in
      go_bind (getHttpPath h (rr_Method rr = ''GET'' \<and> \<not> cn_strong c) [rr_RelativePath rr]) (\<lambda>httpPath.
        let req = \<lparr>hq_Method = rr_Method rr, hq_URL = httpPath, hq_Params = rr_Params rr, hq_Form = rr_Values rr\<rparr> in
        case ht_NewRequest h req of
          Some err \<Rightarrow> go_return (Return (Inl err))
        | None \<Rightarrow>
            go_bind (on_world (ht_Do h req)) (\<lambda>answer.
              go_bind (on_world (ht_Cancelled h)) (\<lambda>cancelled.
                if cancelled then go_return (Return (Inl ErrRequestCancelled))
                else send_answer check attempt (numReqs + 1) answer))))"

text \<open>
  One iteration: the sleep time for the next one, and how it ended.
\<close>

definition send_iteration ::
  "'s conn \<Rightarrow> raw_request \<Rightarrow> nat \<Rightarrow> duration \<Rightarrow> nat \<Rightarrow> (cluster \<times> 's, duration \<times> send_next) go" where
  "send_iteration c rr attempt sleep numReqs =
     go_bind (send_wait (cn_http c) attempt sleep) (\<lambda>w.
       case w of
         None \<Rightarrow> go_return (sleep, Return (Inl ErrRequestCancelled))
       | Some sleep' \<Rightarrow> go_bind (send_attempt c rr attempt numReqs) (\<lambda>next. go_return (sleep', next)))"

partial_function (option) send_loop ::
  "'s conn \<Rightarrow> raw_request \<Rightarrow> nat \<Rightarrow> duration \<Rightarrow> nat \<Rightarrow> cluster \<times> 's \<Rightarrow> ((error + raw_response) run \<times> cluster \<times> 's) option" where
  "send_loop c rr attempt sleep numReqs w =
     (case send_iteration c rr attempt sleep numReqs w of
        None \<Rightarrow> None
      | Some (r, w') \<Rightarrow>
          (case r of
             Panicked \<Rightarrow> Some (Panicked, w')
           | Done (sleep', next) \<Rightarrow>
               (case next of
                  Return x \<Rightarrow> Some (Done x, w')
                | Again \<Rightarrow> send_loop c rr (attempt + 1) sleep' (numReqs + 1) w')))"

definition SendRequest :: "'s conn \<Rightarrow> raw_request \<Rightarrow> (cluster \<times> 's, error + raw_response) go" where
  "SendRequest c rr = send_loop c rr 0 (25 * millisecond) 1"

section \<open>The transport of the client\<close>

text \<open>
  \<open>NewRawRequest\<close> as the four verbs call it: GET and DELETE without a form. \<open>decode\<close> is
  \<open>RawResponse.Unmarshal\<close> (\<open>EtcdResponse\<close>), which makes a response or an etcd error of the status and the body.
\<close>

definition NewRawRequest :: "etcd_request \<Rightarrow> raw_request" where
  "NewRawRequest rq = \<lparr>rr_Method = rq_Method rq, rr_RelativePath = rq_Path rq, rr_Params = rq_Params rq,
     rr_Values = (if rq_Method rq \<in> set [''GET'', ''DELETE''] then None else Some (rq_Values rq))\<rparr>"

definition http_transport :: "'s conn \<Rightarrow> (raw_response \<Rightarrow> error + etcd_response) \<Rightarrow> (cluster \<times> 's) transport" where
  "http_transport c decode rq =
     go_bind (SendRequest c (NewRawRequest rq)) (\<lambda>r. go_return (case r of Inl e \<Rightarrow> Inl e | Inr raw \<Rightarrow> decode raw))"

end
