(* ===== verification/EtcdSendProofs.thy ===== *)
theory EtcdSendProofs
  imports EtcdSend
begin

text \<open>
  How often and where \<open>SendRequest\<close> sends, and that it ends, over any HTTP layer that answers
  (\<open>http_api\<close>); the last section gives one, which plays back a script of answers.
\<close>

section \<open>The state of the world and the cluster\<close>

lemma wp_on_world [simp]: "wp (on_world m) Q (cl, s) = wp m (\<lambda>x s'. Q x (cl, s')) s"
  by (auto simp: wp_def on_world_def split: option.splits run.splits)

lemma wp_the_cluster [simp]: "wp the_cluster Q (cl, s) = Q cl (cl, s)"
  by (simp add: wp_def the_cluster_def)

lemma wp_on_cluster [simp]: "wp (on_cluster f) Q (cl, s) \<longleftrightarrow> (\<exists>cl'. f cl = Some cl' \<and> Q () (cl', s))"
  by (auto simp: wp_def on_cluster_def split: option.splits)

lemma wp_send_loop:
  "wp (send_loop c rr a sl n) Q w = wp (send_iteration c rr a sl n)
     (\<lambda>(sl', next) w'. case next of Return x \<Rightarrow> Q x w' | Again \<Rightarrow> wp (send_loop c rr (a + 1) sl' (n + 1)) Q w') w"
  by (subst (1) wp_def, subst send_loop.simps)
    (auto simp: wp_def split: option.splits run.splits send_next.splits)

section \<open>The HTTP layer\<close>

text \<open>
  The contract: every operation returns and keeps \<open>I\<close>; \<open>sent\<close> is the list of the requests made, and
  \<open>redirects\<close> bounds the redirects still to come.
\<close>

locale http_api =
  fixes h :: "'s http" and I :: "'s \<Rightarrow> bool" and sent :: "'s \<Rightarrow> http_request list" and redirects :: "'s \<Rightarrow> nat"
  assumes http_do: "I s \<Longrightarrow> wp (ht_Do h rq) (\<lambda>r s'. I s' \<and> sent s' = sent s @ [rq] \<and> redirects s' \<le> redirects s \<and>
      (\<forall>x. r = Inr x \<and> hr_StatusCode x = 307 \<longrightarrow> redirects s' < redirects s)) s"
  and http_sleep: "I s \<Longrightarrow> wp (ht_Sleep h d) (\<lambda>_ s'. I s' \<and> sent s' = sent s \<and> redirects s' \<le> redirects s) s"
  and http_intn: "I s \<Longrightarrow> 0 < n \<Longrightarrow> wp (ht_Intn h n) (\<lambda>i s'. i < n \<and> I s' \<and> sent s' = sent s \<and> redirects s' \<le> redirects s) s"
  and http_cancelled: "I s \<Longrightarrow> wp (ht_Cancelled h) (\<lambda>_ s'. I s' \<and> sent s' = sent s \<and> redirects s' \<le> redirects s) s"
begin

lemma wp_send_wait:
  assumes "I s"
    and "\<And>w s'. I s' \<Longrightarrow> sent s' = sent s \<Longrightarrow> redirects s' \<le> redirects s \<Longrightarrow> (w = None \<Longrightarrow> 0 < a) \<Longrightarrow> Q w (cl, s')"
  shows "wp (send_wait h a sl) Q (cl, s)"
proof (cases "a = 0")
  case True
  then show ?thesis by (simp add: send_wait_def) (rule assms(2); simp add: assms(1))
next
  case False
  show ?thesis
    unfolding send_wait_def if_not_P [OF False] wp_bind wp_on_world
  proof (rule wp_mono [OF http_cancelled [OF assms(1)]], goal_cases)
    case (1 b s1)
    show ?case
    proof (cases b)
      case False
      from 1 show ?thesis
        unfolding if_not_P [OF False] wp_bind wp_on_world wp_return
        by (intro wp_mono [OF http_sleep]) (auto intro: assms(2))
    qed (use 1 \<open>a \<noteq> 0\<close> in \<open>auto intro: assms(2)\<close>)
  qed
qed

lemma wp_getHttpPath:
  assumes "I s" and "cl_Machines cl \<noteq> []"
    and "\<And>p s'. I s' \<Longrightarrow> sent s' = sent s \<Longrightarrow> redirects s' \<le> redirects s \<Longrightarrow> (\<not> random \<Longrightarrow> p = cl_Leader cl @ ''/v2/'' @ seg) \<Longrightarrow> Q p (cl, s')"
  shows "wp (getHttpPath h random [seg]) Q (cl, s)"
proof (cases random)
  case True
  show ?thesis
    unfolding getHttpPath_def wp_bind wp_the_cluster if_P [OF True] if_not_P [OF assms(2)] wp_on_world wp_return
    by (rule wp_mono [OF http_intn [OF assms(1)]]) (use assms True in auto)
next
  case False
  then show ?thesis using assms by (simp add: getHttpPath_def)
qed

lemma wp_DefaultCheckRetry:
  assumes "I s"
    and "m \<ge> 2 * length (cl_Machines cl) \<Longrightarrow> Q (Some (EtcdError 501 ''Tried to connect to each peer twice and failed'')) (cl, s)"
    and "\<And>s'. m < 2 * length (cl_Machines cl) \<Longrightarrow> I s' \<Longrightarrow> sent s' = sent s \<Longrightarrow> redirects s' \<le> redirects s \<Longrightarrow> Q None (cl, s')"
  shows "wp (DefaultCheckRetry h m code err) Q (cl, s)"
proof (cases "m \<ge> 2 * length (cl_Machines cl)")
  case True
  then show ?thesis using assms(2) by (simp add: DefaultCheckRetry_def)
next
  case False
  then have m: "m < 2 * length (cl_Machines cl)" by simp
  show ?thesis
  proof (cases "code = 500")
    case True
    show ?thesis
      unfolding DefaultCheckRetry_def wp_bind wp_the_cluster if_not_P [OF False] if_P [OF True] wp_on_world wp_return
      by (rule wp_mono [OF http_sleep [OF assms(1)]]) (auto intro: assms(3) [OF m])
  qed (use assms(1) in \<open>simp add: DefaultCheckRetry_def False assms(3) [OF m]\<close>)
qed

definition send_ok :: "error + raw_response \<Rightarrow> bool" where
  "send_ok x \<longleftrightarrow> (case x of Inr r \<Rightarrow> rw_StatusCode r \<in> validHttpStatusCode
     | Inl e \<Rightarrow> e = EtcdError 501 ''Tried to connect to each peer twice and failed'' \<or> e = ErrRequestCancelled \<or>
         (\<exists>rq. ht_NewRequest h rq = Some e))"

lemma wp_send_answer:
  assumes "I s" and "cl_Machines cl \<noteq> []"
    and red: "\<And>x. r = Inr x \<Longrightarrow> hr_StatusCode x = 307 \<Longrightarrow> redirects s < R" and le: "redirects s \<le> R"
    and ret: "\<And>x s'. I s' \<Longrightarrow> sent s' = sent s \<Longrightarrow> redirects s' \<le> R \<Longrightarrow> send_ok x \<Longrightarrow> Q (Return x) (cl, s')"
    and again: "\<And>cl' s'. I s' \<Longrightarrow> sent s' = sent s \<Longrightarrow> cl_Machines cl' = cl_Machines cl \<Longrightarrow>
      redirects s' < R \<or> redirects s' \<le> R \<and> m < 2 * length (cl_Machines cl) \<Longrightarrow> Q Again (cl', s')"
  shows "wp (send_answer (DefaultCheckRetry h) a m r) Q (cl, s)"
proof (cases r)
  case (Inl e)
  show ?thesis
    unfolding send_answer_def Inl sum.case wp_bind
  proof (rule wp_DefaultCheckRetry [OF assms(1)], goal_cases)
    case 1
    then show ?case using assms(1) le by (auto intro!: ret simp: send_ok_def)
  next
    case (2 s')
    have "a mod length (cl_Machines cl) < length (cl_Machines cl)" using assms(2) by simp
    then show ?case using 2 le assms(2) by (auto simp: switchLeader_def intro!: again)
  qed
next
  case (Inr x)
  consider (valid) "hr_StatusCode x \<in> validHttpStatusCode \<and> \<not> isl (hr_Body x)"
    | (redirect) "\<not> (hr_StatusCode x \<in> validHttpStatusCode \<and> \<not> isl (hr_Body x))" "hr_StatusCode x = 307"
    | (other) "\<not> (hr_StatusCode x \<in> validHttpStatusCode \<and> \<not> isl (hr_Body x))" "hr_StatusCode x \<noteq> 307" by blast
  then show ?thesis
  proof cases
    case valid
    then show ?thesis using assms(1) le by (auto simp: send_answer_def Inr send_ok_def intro!: ret)
  next
    case redirect
    then have "redirects s < R" using red Inr by blast
    then show ?thesis
      using assms(1) redirect by (cases "hr_Location x")
        (auto simp: send_answer_def Inr updateLeaderFromURL_def updateLeader_def intro!: again)
  next
    case other
    show ?thesis
      unfolding send_answer_def Inr sum.case if_not_P [OF other(1)] if_not_P [OF other(2)] wp_bind
    proof (rule wp_DefaultCheckRetry [OF assms(1)], goal_cases)
      case 1
      then show ?case using assms(1) le by (auto intro!: ret simp: send_ok_def)
    next
      case (2 s')
      then show ?case using le by (auto intro!: again)
    qed
  qed
qed

lemma wp_send_iteration:
  assumes "I s" and "cl_Machines cl \<noteq> []" and c: "cn_http c = h" "cn_CheckRetry c = None"
    and ret: "\<And>x sl' s'. I s' \<Longrightarrow> redirects s' \<le> redirects s \<Longrightarrow> length (sent s') \<le> Suc (length (sent s)) \<Longrightarrow> send_ok x \<Longrightarrow>
      Q (sl', Return x) (cl, s')"
    and again: "\<And>sl' cl' s'. I s' \<Longrightarrow> length (sent s') = Suc (length (sent s)) \<Longrightarrow> cl_Machines cl' = cl_Machines cl \<Longrightarrow>
      redirects s' < redirects s \<or> redirects s' \<le> redirects s \<and> Suc m < 2 * length (cl_Machines cl) \<Longrightarrow> Q (sl', Again) (cl', s')"
  shows "wp (send_iteration c rr a sl m) Q (cl, s)"
  unfolding send_iteration_def c wp_bind
proof (rule wp_send_wait [OF assms(1)], goal_cases)
  case (1 w s1)
  show ?case
  proof (cases w)
    case None
    then show ?thesis using 1 by (auto intro!: ret simp: send_ok_def)
  next
    case (Some sl')
    show ?thesis
      unfolding Some option.case send_attempt_def c Let_def wp_bind
    proof (rule wp_getHttpPath [OF 1(1) assms(2)], goal_cases)
      case (1 p s2)
      note s2 = 1
      let ?rq = "\<lparr>hq_Method = rr_Method rr, hq_URL = p, hq_Params = rr_Params rr, hq_Form = rr_Values rr\<rparr>"
      show ?case
      proof (cases "ht_NewRequest h ?rq")
        case (Some e)
        then show ?thesis using s2 \<open>sent s1 = sent s\<close> \<open>redirects s1 \<le> redirects s\<close> by (auto intro!: ret simp: send_ok_def)
      next
        case None
        show ?thesis
          unfolding None option.case wp_bind wp_on_world
        proof (rule wp_mono [OF http_do [OF s2(1)]], rule wp_mono [OF http_cancelled], simp, goal_cases)
          case (1 r s3 b s4)
          then have s4: "I s4" "sent s4 = sent s @ [?rq]" "redirects s4 \<le> redirects s3" "redirects s3 \<le> redirects s"
            and red: "\<And>x. r = Inr x \<Longrightarrow> hr_StatusCode x = 307 \<Longrightarrow> redirects s4 < redirects s"
            using s2 \<open>sent s1 = sent s\<close> \<open>redirects s1 \<le> redirects s\<close> by fastforce+
          show ?case
          proof (cases b)
            case True
            then show ?thesis using s4 by (auto intro!: ret simp: send_ok_def)
          next
            case False
            show ?thesis
              unfolding if_not_P [OF False]
              by (rule wp_send_answer [OF s4(1) assms(2) red]) (use s4 in \<open>auto intro!: ret again\<close>)
          qed
        qed
      qed
    qed
  qed
qed


subsection \<open>It ends\<close>

lemma wp_send_loop_ends:
  assumes "I s" and "cl_Machines cl \<noteq> []" and c: "cn_http c = h" "cn_CheckRetry c = None"
  shows "wp (send_loop c rr a sl m) (\<lambda>x (_, s'). I s' \<and> send_ok x \<and>
    length (sent s') \<le> length (sent s) + redirects s + 1 + (2 * length (cl_Machines cl) - 1 - m)) (cl, s)"
  using assms(1,2)
proof (induction "redirects s + (2 * length (cl_Machines cl) - m)" arbitrary: s cl a sl m rule: less_induct)
  case less
  show ?case
    unfolding wp_send_loop [of c rr a sl m]
  proof (rule wp_send_iteration [OF less.prems c], goal_cases)
    case (1 x sl' s')
    then show ?case by simp
  next
    case (2 sl' cl' s')
    then have "redirects s' + (2 * length (cl_Machines cl') - (m + 1)) < redirects s + (2 * length (cl_Machines cl) - m)" by auto
    moreover have "cl_Machines cl' \<noteq> []" using 2 less.prems by simp
    ultimately show ?case
      unfolding prod.case send_next.case by (intro wp_mono [OF less.hyps [OF _ 2(1)]]) (use 2 in auto)
  qed
qed

lemma wp_SendRequest:
  assumes "I s" and "cl_Machines cl \<noteq> []" and "cn_http c = h" "cn_CheckRetry c = None"
  shows "wp (SendRequest c rr) (\<lambda>x (_, s'). I s' \<and> send_ok x \<and>
    length (sent s') \<le> length (sent s) + (2 * length (cl_Machines cl) - 1) + redirects s) (cl, s)"
  unfolding SendRequest_def
  by (rule wp_mono [OF wp_send_loop_ends [OF assms]]) (use assms(2) in \<open>auto simp: Suc_le_eq neq_Nil_conv\<close>)

subsection \<open>When no machine answers\<close>

lemma wp_dead_iteration:
  assumes s: "I s" and "cl_Machines cl \<noteq> []" and c: "cn_http c = h" "cn_CheckRetry c = None"
    and strong: "rr_Method rr \<noteq> ''GET'' \<or> cn_strong c"
    and dead: "\<And>s rq. I s \<Longrightarrow> wp (ht_Do h rq) (\<lambda>r _. isl r) s" "\<And>s. I s \<Longrightarrow> wp (ht_Cancelled h) (\<lambda>b _. \<not> b) s"
      "\<And>rq. ht_NewRequest h rq = None"
    and ret: "\<And>sl' s'. I s' \<Longrightarrow> map hq_URL (sent s') = map hq_URL (sent s) @ [cl_Leader cl @ ''/v2/'' @ rr_RelativePath rr] \<Longrightarrow>
      2 * length (cl_Machines cl) \<le> Suc m \<Longrightarrow>
      Q (sl', Return (Inl (EtcdError 501 ''Tried to connect to each peer twice and failed''))) (cl, s')"
    and again: "\<And>sl' s'. I s' \<Longrightarrow> map hq_URL (sent s') = map hq_URL (sent s) @ [cl_Leader cl @ ''/v2/'' @ rr_RelativePath rr] \<Longrightarrow>
      Suc m < 2 * length (cl_Machines cl) \<Longrightarrow>
      Q (sl', Again) (cl\<lparr>cl_Leader := cl_Machines cl ! (a mod length (cl_Machines cl))\<rparr>, s')"
  shows "wp (send_iteration c rr a sl m) Q (cl, s)"
proof -
  have wait: "wp (send_wait h a sl) (\<lambda>w (cl', s'). cl' = cl \<and> w \<noteq> None \<and> I s' \<and> sent s' = sent s) (cl, s)"
  proof (cases "a = 0")
    case False
    show ?thesis
      unfolding send_wait_def if_not_P [OF False] wp_bind wp_on_world
      by (rule wp_mono [OF wp_conj [OF http_cancelled [OF s] dead(2) [OF s]]]) (auto intro!: wp_mono [OF http_sleep])
  qed (simp add: send_wait_def s)
  have random: "\<not> (rr_Method rr = ''GET'' \<and> \<not> cn_strong c)" using strong by blast
  show ?thesis
    unfolding send_iteration_def c wp_bind
  proof (rule wp_mono [OF wait], clarsimp, goal_cases)
    case (1 sl' s1)
    let ?rq = "\<lparr>hq_Method = rr_Method rr, hq_URL = cl_Leader cl @ ''/v2/'' @ rr_RelativePath rr, hq_Params = rr_Params rr, hq_Form = rr_Values rr\<rparr>"
    show ?case
      unfolding send_attempt_def c Let_def wp_bind getHttpPath_def wp_the_cluster if_not_P [OF random] wp_return
      unfolding dead(3) option.case wp_bind wp_on_world fold.simps id_apply comp_apply append.assoc append.simps
    proof (rule wp_mono [OF wp_conj [OF http_do [OF 1(1)] dead(1) [OF 1(1)]]], goal_cases)
      case s2: (1 r s2)
      then have I2: "I s2" by blast
      obtain e where e: "r = Inl e" using s2 by (cases r) auto
      show ?case
      proof (rule wp_mono [OF wp_conj [OF http_cancelled [OF I2] dead(2) [OF I2]]], goal_cases)
        case s3: (1 b s3)
        have I3: "I s3" and b: "\<not> b" using s3 by blast+
        have urls: "map hq_URL (sent s3) = map hq_URL (sent s) @ [cl_Leader cl @ ''/v2/'' @ rr_RelativePath rr]"
          using s3 s2 1 by simp
        have n: "a mod length (cl_Machines cl) < length (cl_Machines cl)" using assms(2) by simp
        show ?case
          unfolding e if_not_P [OF b] send_answer_def sum.case wp_bind
          by (rule wp_DefaultCheckRetry [OF I3])
            (use I3 urls n assms(2) in \<open>auto simp: switchLeader_def intro!: ret again\<close>)
      qed
    qed
  qed
qed


text \<open>The machines that are tried: the leader, and then all of them in turn.\<close>

lemma wp_dead_loop:
  assumes "I s" and "cl_Machines cl \<noteq> []" and c: "cn_http c = h" "cn_CheckRetry c = None"
    and strong: "rr_Method rr \<noteq> ''GET'' \<or> cn_strong c"
    and dead: "\<And>s rq. I s \<Longrightarrow> wp (ht_Do h rq) (\<lambda>r _. isl r) s" "\<And>s. I s \<Longrightarrow> wp (ht_Cancelled h) (\<lambda>b _. \<not> b) s"
      "\<And>rq. ht_NewRequest h rq = None"
  shows "wp (send_loop c rr a sl (Suc a)) (\<lambda>x (_, s'). x = Inl (EtcdError 501 ''Tried to connect to each peer twice and failed'') \<and>
    map hq_URL (sent s') = map hq_URL (sent s) @ map (\<lambda>m. m @ ''/v2/'' @ rr_RelativePath rr)
      (cl_Leader cl # map (\<lambda>i. cl_Machines cl ! (i mod length (cl_Machines cl))) [a..<2 * length (cl_Machines cl) - 2])) (cl, s)"
  using assms(1,2)
proof (induction "2 * length (cl_Machines cl) - a" arbitrary: s cl a sl rule: less_induct)
  case less
  show ?case
    unfolding wp_send_loop [of c rr a sl "Suc a"]
  proof (rule wp_dead_iteration [OF less.prems c strong dead], goal_cases)
    case (3 sl' s')
    then show ?case by simp
  next
    case again: (4 sl' s')
    let ?cl = "cl\<lparr>cl_Leader := cl_Machines cl ! (a mod length (cl_Machines cl))\<rparr>"
    have "2 * length (cl_Machines ?cl) - Suc a < 2 * length (cl_Machines cl) - a" "cl_Machines ?cl \<noteq> []"
      using again(3) less.prems by simp_all
    note IH = less.hyps [OF this(1) again(1) this(2)]
    have upt: "[a..<2 * length (cl_Machines cl) - 2] = a # [Suc a..<2 * length (cl_Machines cl) - 2]"
      using again(3) by (intro upt_conv_Cons) simp
    show ?case
      unfolding prod.case send_next.case Suc_eq_plus1 [symmetric]
      by (rule wp_mono [OF IH]) (clarsimp simp: again(2) upt)
  qed assumption+
qed

lemma wp_dead_SendRequest:
  assumes "I s" and "cl_Machines cl \<noteq> []" and "cn_http c = h" "cn_CheckRetry c = None"
    and "rr_Method rr \<noteq> ''GET'' \<or> cn_strong c"
    and "\<And>s rq. I s \<Longrightarrow> wp (ht_Do h rq) (\<lambda>r _. isl r) s" "\<And>s. I s \<Longrightarrow> wp (ht_Cancelled h) (\<lambda>b _. \<not> b) s"
      "\<And>rq. ht_NewRequest h rq = None"
  shows "wp (SendRequest c rr) (\<lambda>x (_, s'). x = Inl (EtcdError 501 ''Tried to connect to each peer twice and failed'') \<and>
    map hq_URL (sent s') = map hq_URL (sent s) @ map (\<lambda>m. m @ ''/v2/'' @ rr_RelativePath rr)
      (cl_Leader cl # map (\<lambda>i. cl_Machines cl ! (i mod length (cl_Machines cl))) [0..<2 * length (cl_Machines cl) - 2])) (cl, s)"
  using wp_dead_loop [OF assms, of 0] by (simp add: SendRequest_def)

end

subsection \<open>Endless redirects\<close>

lemma wp_redirected:
  assumes "\<And>s rq. \<exists>x s'. ht_Do h rq s = Some (Done (Inr x), s') \<and> hr_StatusCode x = 307"
    and "\<And>s. \<exists>s'. ht_Cancelled h s = Some (Done False, s')"
  shows "wp (ht_Do h rq) (\<lambda>r s'. wp (ht_Cancelled h) (\<lambda>b s'.
    wp (if b then go_return (Return (Inl ErrRequestCancelled)) else send_answer check a m r)
      (\<lambda>next. case (sl, next) of (_, next) \<Rightarrow> \<lambda>_. next = Again) (cl, s')) s') s"
proof -
  obtain x s1 s2 where "ht_Do h rq s = Some (Done (Inr x), s1)" "hr_StatusCode x = 307"
      "ht_Cancelled h s1 = Some (Done False, s2)"
    using assms(1) [of rq s] assms(2) by metis
  then show ?thesis
    by (auto simp: wp_iff [of "ht_Do h rq"] wp_iff [of "ht_Cancelled h"] send_answer_def validHttpStatusCode_def split: sum.splits)
qed

lemma redirect_iteration:
  assumes "\<And>s rq. \<exists>x s'. ht_Do (cn_http c) rq s = Some (Done (Inr x), s') \<and> hr_StatusCode x = 307"
    and "\<And>s. \<exists>s'. ht_Cancelled (cn_http c) s = Some (Done False, s')"
    and "\<And>s d. \<exists>s'. ht_Sleep (cn_http c) d s = Some (Done (), s')" and "\<And>rq. ht_NewRequest (cn_http c) rq = None"
    and "rr_Method rr \<noteq> ''GET'' \<or> cn_strong c"
  shows "\<exists>sl' w'. send_iteration c rr a sl m w = Some (Done (sl', Again), w')"
proof -
  obtain cl s where w: "w = (cl, s)" by force
  have wait: "wp (send_wait (cn_http c) a sl) (\<lambda>w (cl', _). w \<noteq> None \<and> cl' = cl) (cl, s)"
  proof (cases "a = 0")
    case False
    obtain s1 s2 where "ht_Cancelled (cn_http c) s = Some (Done False, s1)" "ht_Sleep (cn_http c) sl s1 = Some (Done (), s2)"
      using assms(2,3) by metis
    then show ?thesis
      unfolding send_wait_def if_not_P [OF False] by (simp add: wp_iff [of "ht_Cancelled _"] wp_iff [of "ht_Sleep _ _"] ex_bool_eq)
  qed (simp add: send_wait_def)
  have random: "\<not> (rr_Method rr = ''GET'' \<and> \<not> cn_strong c)" using assms(5) by blast
  have "wp (send_iteration c rr a sl m) (\<lambda>(_, next) _. next = Again) (cl, s)"
    unfolding send_iteration_def wp_bind
  proof (rule wp_mono [OF wait], goal_cases)
    case (1 w x)
    then obtain sl' s1 where wx: "w = Some sl'" "x = (cl, s1)" by (cases x) auto
    show ?case
      unfolding wx option.case send_attempt_def Let_def wp_bind getHttpPath_def wp_the_cluster if_not_P [OF random] wp_return assms(4)
        option.case wp_on_world
      by (rule wp_redirected [OF assms(1,2)])
  qed
  then show ?thesis by (auto simp: wp_iff w)
qed

lemma endless_redirects:
  assumes "\<And>s rq. \<exists>x s'. ht_Do (cn_http c) rq s = Some (Done (Inr x), s') \<and> hr_StatusCode x = 307"
    and "\<And>s. \<exists>s'. ht_Cancelled (cn_http c) s = Some (Done False, s')"
    and "\<And>s d. \<exists>s'. ht_Sleep (cn_http c) d s = Some (Done (), s')" and "\<And>rq. ht_NewRequest (cn_http c) rq = None"
    and "rr_Method rr \<noteq> ''GET'' \<or> cn_strong c"
  shows "SendRequest c rr w = None"
proof -
  have "c' = c \<and> rr' = rr \<longrightarrow> False" if "send_loop c' rr' a sl m w = Some y" for c' rr' a sl m w y
  proof (rule send_loop.raw_induct [OF _ that, of "\<lambda>c' rr' a sl m w y. c' = c \<and> rr' = rr \<longrightarrow> False"], goal_cases)
    case (1 f c' rr' a sl m w y)
    show ?case
    proof
      assume c: "c' = c \<and> rr' = rr"
      obtain sl' w' where "send_iteration c rr a sl m w = Some (Done (sl', Again), w')"
        using redirect_iteration [OF assms] by blast
      then have "f c rr (a + 1) sl' (m + 1) w' = Some y" using 1(2) c by simp
      then show False using 1(1) by blast
    qed
  qed
  then show ?thesis
    unfolding SendRequest_def by (cases "send_loop c rr 0 (25 * millisecond) 1 w") blast+
qed

section \<open>A script of answers\<close>

text \<open>
  An HTTP layer that plays back a list of answers and fails when it is used up; its state is the answers
  left and the requests so far.
\<close>

definition script_http :: "((error + http_response) list \<times> http_request list) http" where
  "script_http = \<lparr>ht_NewRequest = (\<lambda>_. None),
     ht_Do = (\<lambda>rq (answers, log). Some (Done (case answers of [] \<Rightarrow> Inl (Errorf ''connection refused'' [] None) | a # _ \<Rightarrow> a),
       (tl answers, log @ [rq]))),
     ht_Sleep = (\<lambda>_. go_return ()), ht_Intn = (\<lambda>_. go_return 0), ht_Cancelled = go_return False\<rparr>"

definition is_redirect :: "error + http_response \<Rightarrow> bool" where
  "is_redirect a \<longleftrightarrow> (case a of Inr x \<Rightarrow> hr_StatusCode x = 307 | Inl _ \<Rightarrow> False)"

interpretation script: http_api script_http "\<lambda>_. True" snd "\<lambda>(answers, _). length (filter is_redirect answers)"
  by unfold_locales (auto simp: script_http_def wp_def go_return_def is_redirect_def split: list.splits)

end
