(* ===== verification/ServicesProofs.thy ===== *)
theory ServicesProofs
  imports ServicesBbs Listing
begin

text \<open>
  What the services components read from the store: the registrations of both kinds, exactly those that
  have a node, and a file server among the present ones.
\<close>

section \<open>The names below a root\<close>

definition present :: "view \<Rightarrow> string \<Rightarrow> string set" where
  "present f r = {e. f [''v1'', r, e] \<noteq> None}"

text \<open>What the services components rely on: their roots are directories, once there is anything below them.\<close>

definition services_wf :: "view \<Rightarrow> bool" where
  "services_wf f \<longleftrightarrow> \<not> is_leaf (f []) \<and> \<not> is_leaf (f [''v1'']) \<and>
     (\<forall>r \<in> {''executor'', ''file_server''}. \<not> is_leaf (f [''v1'', r]) \<and> (\<forall>e. f [''v1'', r, e] \<noteq> Some DirE))"

lemma services_wf_above:
  assumes "services_wf f"
  shows "no_leaf_above f [''v1'', r]"
proof -
  have "\<not> is_leaf (f p)" if "strict_prefix p [''v1'', r]" for p
    using that assms by (cases p rule: remdups_adj.cases) (auto simp: services_wf_def)
  then show ?thesis by (simp add: no_leaf_above_def)
qed

lemma listed_names:
  assumes "tree_of f [''v1'', r] n" and "f [''v1'', r] = Some DirE" and keys: "\<And>e. e \<in> present f r \<Longrightarrow> key_elem e"
  obtains names where "distinct names" and "set names = present f r" and "map (\<lambda>c. path_Base (sn_Key c)) (sn_ChildNodes n) = names"
    and "list_all2 (\<lambda>e c. tree_of f [''v1'', r, e] c) names (sn_ChildNodes n)"
proof -
  obtain names where names: "distinct names" "set names = {e. f ([''v1'', r] @ [e]) \<noteq> None}"
      "list_all2 (\<lambda>e c. tree_of f ([''v1'', r] @ [e]) c) names (sn_ChildNodes n)"
    by (rule tree_of_names [OF assms(1,2)])
  have set: "set names = present f r" using names(2) by (simp add: present_def)
  have "path_Base (sn_Key c) = e" if "tree_of f ([''v1'', r] @ [e]) c" "e \<in> present f r" for e c
    using tree_of_key [OF that(1)] path_Base_abs [OF key_elem_simple [OF keys [OF that(2)]], of "[''v1'', r]"] by simp
  then have "path_Base (sn_Key (sn_ChildNodes n ! i)) = names ! i" if "i < length names" for i
    using names(3) set that nth_mem [of i names] by (auto simp: list_all2_conv_all_nth)
  then have "map (\<lambda>c. path_Base (sn_Key c)) (sn_ChildNodes n) = names"
    using list_all2_lengthD [OF names(3)] by (intro nth_equalityI) auto
  then show thesis using that [OF names(1) set] names(3) by simp
qed

context kv_world
begin

lemma present_keys: "inv s \<Longrightarrow> e \<in> present (look s) r \<Longrightarrow> key_elem e"
  using look_simple [of s "[''v1'', r, e]"] by (simp add: present_def)

lemma root_dir:
  assumes "inv s" and "services_wf (look s)" and "r \<in> {''executor'', ''file_server''}"
  shows "look s [''v1'', r] = None \<Longrightarrow> present (look s) r = {}" and "look s [''v1'', r] \<noteq> None \<Longrightarrow> look s [''v1'', r] = Some DirE"
proof -
  show "present (look s) r = {}" if "look s [''v1'', r] = None"
    using look_dir [OF assms(1), of "[''v1'', r, e]" "[''v1'', r]" for e] that by (fastforce simp: present_def strict_prefix_def)
  show "look s [''v1'', r] = Some DirE" if "look s [''v1'', r] \<noteq> None"
    using assms(2,3) that by (cases "look s [''v1'', r]") (auto simp: services_wf_def is_leaf_def intro: entry.exhaust)
qed

lemma wp_registrations:
  assumes "inv s" and "services_wf (look s)" and "r \<in> {''executor'', ''file_server''}"
    and "map_of serviceSchemas name = Some (abs_path [''v1'', r])"
  shows "wp (registrationsForServiceName B name)
    (reads ((\<lambda>g. \<lparr>reg_Name = name, reg_Id = g\<rparr>) ` present (look s) r) s) s"
proof -
  let ?reg = "\<lambda>g. \<lparr>reg_Name = name, reg_Id = g\<rparr>"
  have clean: "clean [''v1'', r]" using assms(3) by auto
  have listed: "lists_exactly (map (\<lambda>c. ?reg (path_Base (sn_Key c))) (sn_ChildNodes n)) (?reg ` present (look s) r)"
    if n: "tree_of (look s) [''v1'', r] n" "look s [''v1'', r] = Some DirE" for n
  proof -
    obtain names where names: "distinct names" "set names = present (look s) r"
        "map (\<lambda>c. path_Base (sn_Key c)) (sn_ChildNodes n) = names"
      by (rule listed_names [OF n present_keys [OF assms(1)]])
    have "map (\<lambda>c. ?reg (path_Base (sn_Key c))) (sn_ChildNodes n) = map ?reg names"
      unfolding names(3) [symmetric] by simp
    then show ?thesis using names(1,2) by (simp add: lists_exactly_def distinct_map inj_on_def)
  qed
  show ?thesis
    unfolding registrationsForServiceName_def assms(4) option.case get_all_def wp_bind
  proof (rule wp_mono [OF law_List [OF assms(1) clean]], goal_cases)
    case (1 res s')
    obtain n err where res: "res = (n, err)" by force
    note root = root_dir [OF assms(1-3)] services_wf_above [OF assms(2), of r]
    show ?case
    proof (cases "look s [''v1'', r] = None")
      case True
      then show ?thesis using 1 root unfolding res by (auto simp: got_def lists_exactly_def split: if_splits)
    next
      case False
      then show ?thesis using 1 root(2) listed [of n] unfolding res by (auto simp: got_def split: if_splits)
    qed
  qed
qed

lemma got_append:
  "got S k (xs, None) \<Longrightarrow> got T k (ys, None) \<Longrightarrow> S \<inter> T = {} \<Longrightarrow> got (S \<union> T) k (xs @ ys, None)"
  by (auto simp: got_def lists_exactly_def)

lemma wp_GetServiceRegistrations:
  assumes "inv s" and "services_wf (look s)" and order: "order \<in> {[ExecutorServiceName, FileServerServiceName], [FileServerServiceName, ExecutorServiceName]}"
  shows "wp (GetServiceRegistrations order B) (reads ({\<lparr>reg_Name = ExecutorServiceName, reg_Id = g\<rparr> |g. g \<in> present (look s) ''executor''} \<union>
    {\<lparr>reg_Name = FileServerServiceName, reg_Id = g\<rparr> |g. g \<in> present (look s) ''file_server''}) s) s"
proof -
  let ?E = "(\<lambda>g. \<lparr>reg_Name = ExecutorServiceName, reg_Id = g\<rparr>) ` present (look s) ''executor''"
  let ?F = "(\<lambda>g. \<lparr>reg_Name = FileServerServiceName, reg_Id = g\<rparr>) ` present (look s) ''file_server''"
  have names: "ExecutorServiceName \<noteq> FileServerServiceName" by (simp add: ExecutorServiceName_def FileServerServiceName_def)
  have schemas: "map_of serviceSchemas ExecutorServiceName = Some (abs_path [''v1'', ''executor''])"
      "map_of serviceSchemas FileServerServiceName = Some (abs_path [''v1'', ''file_server''])"
    using names by (simp_all add: serviceSchemas_def)
  have two: "wp (GetServiceRegistrations [x, y] B) (reads (X \<union> Y) s) s"
    if x: "\<And>s. inv s \<Longrightarrow> look s = look s0 \<Longrightarrow> wp (registrationsForServiceName B x) (reads X s) s"
      and y: "\<And>s. inv s \<Longrightarrow> look s = look s0 \<Longrightarrow> wp (registrationsForServiceName B y) (reads Y s) s"
      and s0: "s0 = s" and dis: "X \<inter> Y = {}" for x y X Y s0
    unfolding GetServiceRegistrations_def registrations_loop.simps wp_bind
  proof (rule wp_mono [OF x [OF assms(1)]], simp add: s0, goal_cases)
    case (1 res s1)
    then obtain xs err where res: "res = (xs, err)" by force
    show ?case
    proof (cases err)
      case (Some e)
      then show ?thesis using 1 res by (auto simp: got_def)
    next
      case None
      have y1: "wp (registrationsForServiceName B y) (reads Y s1) s1" using y [of s1] 1 s0 by simp
      have xs: "lists_exactly xs X" "slack s1 \<le> slack s" "look s1 = look s"
        using 1 res None by (simp_all add: got_def)
      show ?thesis
        unfolding res None prod.case simp_thms if_False wp_bind
      proof (rule wp_mono [OF y1], goal_cases)
        case (1 res2 s2)
        then obtain ys err2 where res2: "res2 = (ys, err2)" by force
        show ?case
        proof (cases err2)
          case None
          then show ?thesis
            using 1 xs dis unfolding res2 by (auto simp: got_def lists_exactly_def)
        next
          case (Some e)
          then show ?thesis using 1 xs(2,3) unfolding res2 by (auto simp: got_def)
        qed
      qed
    qed
  qed
  have E: "wp (registrationsForServiceName B ExecutorServiceName) (reads ?E t) t" if "inv t" "look t = look s" for t
    using wp_registrations [OF that(1) _ _ schemas(1)] assms(2) that(2) by simp
  have F: "wp (registrationsForServiceName B FileServerServiceName) (reads ?F t) t" if "inv t" "look t = look s" for t
    using wp_registrations [OF that(1) _ _ schemas(2)] assms(2) that(2) by simp
  have dis: "?E \<inter> ?F = {}" using names by auto
  have sets: "{\<lparr>reg_Name = ExecutorServiceName, reg_Id = g\<rparr> |g. g \<in> present (look s) ''executor''} = ?E"
      "{\<lparr>reg_Name = FileServerServiceName, reg_Id = g\<rparr> |g. g \<in> present (look s) ''file_server''} = ?F"
    by (simp_all only: setcompr_eq_image Collect_mem_eq)
  consider "order = [ExecutorServiceName, FileServerServiceName]" | "order = [FileServerServiceName, ExecutorServiceName]"
    using order by blast
  then show ?thesis
  proof cases
    case 1
    show ?thesis unfolding 1 sets by (rule two [OF E F refl dis])
  next
    case 2
    have "?F \<inter> ?E = {}" using dis by blast
    from two [OF F E refl this] show ?thesis unfolding 2 sets Un_commute [of ?E] .
  qed
qed

text \<open>A file server is picked among those that are present.\<close>

lemma wp_GetAvailableFileServer:
  assumes "inv s" and "services_wf (look s)" and intn: "\<And>n. 0 < n \<Longrightarrow> intn n < n"
  shows "wp (GetAvailableFileServer intn B) (\<lambda>(url, err) s'. inv s' \<and> look s' = look s \<and> slack s' \<le> slack s \<and>
    (if err = None then \<exists>g i. look s [''v1'', ''file_server'', g] = Some (LeafE url i)
     else url = [] \<and> (present (look s) ''file_server'' = {} \<or> err = Some ErrorTimeout \<and> 0 < slack s))) s"
proof -
  have root: "look s [''v1'', ''file_server''] = None \<Longrightarrow> present (look s) ''file_server'' = {}"
      "look s [''v1'', ''file_server''] \<noteq> None \<Longrightarrow> look s [''v1'', ''file_server''] = Some DirE"
    using root_dir [OF assms(1,2), of "''file_server''"] by simp_all
  have pick: "if sn_ChildNodes n = [] then present (look s) ''file_server'' = {}
      else \<exists>g i. look s [''v1'', ''file_server'', g] = Some (LeafE (sn_Value (sn_ChildNodes n ! intn (length (sn_ChildNodes n)))) i)"
    if n: "tree_of (look s) [''v1'', ''file_server''] n" "look s [''v1'', ''file_server''] = Some DirE" for n
  proof -
    obtain names where names: "set names = present (look s) ''file_server''"
        "list_all2 (\<lambda>e c. tree_of (look s) [''v1'', ''file_server'', e] c) names (sn_ChildNodes n)"
      by (rule listed_names [OF n present_keys [OF assms(1)]])
    show ?thesis
    proof (cases "sn_ChildNodes n = []")
      case True
      then show ?thesis using names by simp
    next
      case False
      let ?i = "intn (length (sn_ChildNodes n))"
      have i: "?i < length (sn_ChildNodes n)" using intn False by simp
      have t: "tree_of (look s) [''v1'', ''file_server'', names ! ?i] (sn_ChildNodes n ! ?i)"
        using names(2) i by (auto simp: list_all2_conv_all_nth)
      have "look s [''v1'', ''file_server'', names ! ?i] \<noteq> Some DirE" using assms(2) by (simp add: services_wf_def)
      then obtain v j where "look s [''v1'', ''file_server'', names ! ?i] = Some (LeafE v j)"
        using tree_of_exists [OF t] by (metis entry.exhaust option.exhaust)
      then show ?thesis using tree_of_leaf [OF t] False by auto
    qed
  qed
  have clean: "clean [''v1'', ''file_server'']" by auto
  show ?thesis
    unfolding GetAvailableFileServer_def roots_abs wp_bind
  proof (rule wp_mono [OF law_List [OF assms(1) clean]], goal_cases)
    case (1 res s')
    obtain n err where res: "res = (n, err)" by force
    show ?case
    proof (cases "look s [''v1'', ''file_server''] = None")
      case True
      then show ?thesis using 1 root(1) unfolding res by (auto split: if_splits)
    next
      case False
      then show ?thesis using 1 root(2) pick [of n] unfolding res by (auto split: if_splits)
    qed
  qed
qed

end

end
