(* ===== verification/StoreProperties.thy ===== *)
theory StoreProperties
  imports LrpExamples Maintaining FakeWorld WorkerPool EtcdSendProofs ServicesProofs
begin

text \<open>
  The properties of the stores, of the etcd client and of the loops around them, each followed by an
  application to a concrete cluster.
\<close>

section \<open>Locks and presences\<close>





text \<open>
  Releasing a maintained key removes it only while it holds the owner's value, and on a cluster
  that answers it is not held in the owner's name afterwards.
\<close>

theorem release_own_only:
  fixes inv :: "'s \<Rightarrow> bool"
  assumes "etcd_api send inv look slack tick" and "inv s" and "clean es" and "v \<noteq> []"
  shows "wp (maintain_release \<lparr>ec_send = send, ec_strong = strong\<rparr> (leaf_node (abs_path es) v ttl)) (\<lambda>_ s'. inv s' \<and>
    (look s' = look s \<or> holds (look s) es v \<and> look s' = del_path (look s) es) \<and> (slack s = 0 \<longrightarrow> \<not> holds (look s') es v)) s"
  by (rule wp_mono [OF etcd_api.wp_maintain_release [OF assms]]) simp_all

theorem release_own_only_witness:
  "wp (maintain_release \<lparr>ec_send = srv_send, ec_strong = True\<rparr> (leaf_node (abs_path ex_desired_path) ex_desired_value 30))
    (\<lambda>_ s'. \<not> holds (srv_look s') ex_desired_path ex_desired_value) (fst (ex_at [] ex_desired_path ex_desired_value 9))"
proof (rule wp_mono [OF release_own_only [OF srv.etcd_api_axioms]], goal_cases)
  case 1
  show ?case using ex_at_inv [of ex_desired_path 9 "[]" ex_desired_value] by (auto simp: clocked_inv_def case_prod_beta)
next
  case 3
  show ?case using ex_values(2) by (auto simp: desired_printed read_empty)
qed (auto simp: clean_def)



section \<open>The in-memory store\<close>

text \<open>
  C19 -- The in-memory store of the tests meets the contract of a store: every read shows the tree,
  every write is applied exactly when it reports success, and nothing times out.
\<close>

theorem fake_store_refines:
  "kv_store fake_adapter fake_inv fake_look (\<lambda>_. 0) \<and> fake_inv fake_New \<and> (\<forall>p. p \<noteq> [] \<longrightarrow> fake_look fake_New p = None)"
  using fake.kv_store_axioms by (simp add: neq_Nil_conv) (auto simp: fake_New_def fake_Reset_def fake_look_def)

theorem fake_store_refines_witness: "fake_look fake_New [''v1''] = None"
  using fake_store_refines by blast

section \<open>The retry loop\<close>

text \<open>
  C20 -- The retry loop ends: if every attempt that times out uses up some of a finite supply of failures, the
  loop returns, with what an attempt that did not time out returned, in a state the attempts established. And
  it never hands a timeout to its caller, whatever the attempts do.
\<close>

theorem Retry_returns:
  fixes slack :: "'s \<Rightarrow> nat" and callback :: "'c \<Rightarrow> ('t, 'c \<times> error option) go"
  assumes "\<And>s. I s \<Longrightarrow> wp m (\<lambda>err s'. if err = Some ErrorTimeout then I s' \<and> slack s' < slack s else Q err s') s" and "I s"
  shows "(\<exists>err s'. Retry m s = Some (Done err, s') \<and> Q err s') \<and>
    (RetryIndefinitelyOnStoreTimeout callback c t = Some (Done (c', err), t') \<longrightarrow> err \<noteq> Some ErrorTimeout)"
  using wp_Retry [of I m slack Q s, OF assms] Retry_no_timeout_result [of callback c t c' err t'] by (auto simp: wp_iff)

theorem Retry_returns_witness:
  "(\<exists>err s'. Retry (\<lambda>s. Some (Done (if s = (0 :: nat) then Some ErrorKeyExists else Some ErrorTimeout), s - 1)) 5 =
     Some (Done err, s') \<and> err = Some ErrorKeyExists \<and> s' = 0)"
  by (rule conjunct1 [OF Retry_returns [where I = "\<lambda>_. True" and slack = id]]) (auto simp: wp_def)

section \<open>The etcd client\<close>

text \<open>
  The client checks the options of a request before it sends it: with an option that is unknown
  or of the wrong kind it answers with an error and sends nothing; otherwise the parameters are the
  options in order, each printed so that its value can be told.
\<close>

theorem client_options:
  "((k, v) \<in> set ops \<and> map_of valid k \<noteq> Some (kind_of v) \<longrightarrow>
     (\<exists>e. \<forall>s. etcd_send c verb key (toParameters (Some ops) valid) vs s = Some (Done (Inl e), s))) \<and>
   ((\<forall>(k, v) \<in> set ops. map_of valid k = Some (kind_of v)) \<longrightarrow>
     toParameters (Some ops) valid = Inr (map (\<lambda>(k, v). (k, show_opt v)) ops)) \<and>
   (kind_of v = kind_of w \<and> show_opt v = show_opt w \<longrightarrow> v = w)"
  using check_options_bad [of k v ops valid] check_options_ok [of ops valid] show_opt_inj [of v w]
  by (auto simp: toParameters_def etcd_send_def go_return_def)

theorem client_options_witness:
  "\<exists>e. \<forall>s. etcd_send \<lparr>ec_send = srv_send, ec_strong = True\<rparr> ''PUT'' ''/a'' (toParameters (Some [(''sorted'', OBool True)]) VALID_PUT_OPTIONS) [] s = Some (Done (Inl e), s)"
  using client_options [of "''sorted''" "OBool True" "[(''sorted'', OBool True)]" VALID_PUT_OPTIONS "\<lparr>ec_send = srv_send, ec_strong = True\<rparr>" "''PUT''" "''/a''" "[]"]
  by (simp add: VALID_PUT_OPTIONS_def)

text \<open>
  C38 -- When no machine of the cluster answers, a request (other than a read that may go to any machine)
  is sent to the leader and then to the machines in turn, 2n - 1 times for n machines, and reported as the
  etcd error 501, which the adapter turns into the timeout that the components retry on. With at least two
  machines every one of them is tried, but not every one twice, and a single one is tried once.
\<close>

theorem dead_cluster_times_out:
  assumes "http_api h I sent redirects" and "I s" and "cl_Machines cl \<noteq> []" and "cn_http c = h" and "cn_CheckRetry c = None"
    and "rq_Method rq \<noteq> ''GET'' \<or> cn_strong c"
    and "\<And>s x. I s \<Longrightarrow> wp (ht_Do h x) (\<lambda>r _. isl r) s" and "\<And>s. I s \<Longrightarrow> wp (ht_Cancelled h) (\<lambda>b _. \<not> b) s"
    and "\<And>x. ht_NewRequest h x = None"
  shows "wp (http_transport c decode rq) (\<lambda>r (_, s').
    let n = length (cl_Machines cl); url = (\<lambda>m. m @ ''/v2/'' @ rq_Path rq);
        tried = map url (cl_Leader cl # map (\<lambda>i. cl_Machines cl ! (i mod n)) [0..<2 * n - 2]) in
    (\<exists>e. r = Inl e \<and> convertError (Some e) = Some ErrorTimeout) \<and>
    map hq_URL (sent s') = map hq_URL (sent s) @ tried \<and> length tried = 2 * n - 1 \<and>
    (2 \<le> n \<longrightarrow> url ` set (cl_Machines cl) \<subseteq> set tried)) (cl, s)"
proof -
  have all: "url ` set ms \<subseteq> set (map url (l # map (\<lambda>i. ms ! (i mod length ms)) [0..<2 * length ms - 2]))"
    if "2 \<le> length ms" for url :: "string \<Rightarrow> string" and ms l
  proof
    fix u assume "u \<in> url ` set ms"
    then obtain i where i: "i < length ms" "u = url (ms ! i)" by (auto simp: in_set_conv_nth)
    moreover from i that have "i \<in> {0..<2 * length ms - 2}" by auto
    ultimately show "u \<in> set (map url (l # map (\<lambda>i. ms ! (i mod length ms)) [0..<2 * length ms - 2]))"
      by (auto intro!: image_eqI [of _ _ i])
  qed
  show ?thesis
    unfolding http_transport_def wp_bind wp_return
  proof (rule wp_mono [OF http_api.wp_dead_SendRequest [OF assms(1-5)]], goal_cases)
    case (5 r w)
    then show ?case
      using all [of "cl_Machines cl" "\<lambda>m. m @ ''/v2/'' @ rq_Path rq" "cl_Leader cl"] assms(3)
      by (cases "length (cl_Machines cl)") (auto simp: Let_def case_prod_beta convertError_def NewRawRequest_def)
  qed (use assms(6-9) in \<open>auto simp: NewRawRequest_def\<close>)
qed

theorem dead_cluster_times_out_witness:
  "wp (http_transport \<lparr>cn_http = script_http, cn_strong = True, cn_CheckRetry = None\<rparr> (\<lambda>_. Inl JSONSyntaxError)
      \<lparr>rq_Method = ''GET'', rq_Path = ''keys/a'', rq_Params = [], rq_Values = []\<rparr>)
    (\<lambda>r (_, s'). map hq_URL (snd s') = [''b/v2/keys/a'', ''a/v2/keys/a'', ''b/v2/keys/a''])
    (\<lparr>cl_Leader = ''b'', cl_Machines = [''a'', ''b'']\<rparr>, [], [])"
proof (rule wp_mono [OF dead_cluster_times_out [where I = "\<lambda>s. fst s = []" and sent = snd and redirects = "\<lambda>_. 0" and h = script_http]], goal_cases)
  case 1
  show ?case by unfold_locales (auto simp: script_http_def wp_def go_return_def)
next
  case (10 r w)
  have "[0..<2 * length [''a'', ''b''] - 2] = [0, Suc 0]" by (simp add: upt_rec)
  with 10 show ?case by (auto simp: Let_def case_prod_beta)
qed (auto simp: script_http_def wp_def go_return_def)

text \<open>
  C39 -- \<open>SendRequest\<close> ends on every HTTP layer that answers each request in one way or another and redirects
  only so often: with a response whose status the client accepts, with the error 501, with the error of an
  invalid URL or as cancelled, and after at most 2n - 1 requests more than there were redirects. Redirects
  do not count against that limit: a cluster that always redirects keeps the client in its loop for ever.
\<close>

theorem send_request_ends:
  assumes "http_api h I sent redirects" and "I s" and "cl_Machines cl \<noteq> []" and "cn_http c = h" and "cn_CheckRetry c = None"
  shows "wp (SendRequest c rr) (\<lambda>x (_, s'). I s' \<and>
      length (sent s') \<le> length (sent s) + (2 * length (cl_Machines cl) - 1) + redirects s \<and>
      (case x of Inr r \<Rightarrow> rw_StatusCode r \<in> validHttpStatusCode
       | Inl e \<Rightarrow> e = EtcdError 501 ''Tried to connect to each peer twice and failed'' \<or> e = ErrRequestCancelled \<or>
           (\<exists>rq. ht_NewRequest h rq = Some e))) (cl, s) \<and>
    (rr_Method rr' \<noteq> ''GET'' \<longrightarrow> SendRequest
       (c\<lparr>cn_http := h\<lparr>ht_NewRequest := (\<lambda>_. None), ht_Do := (\<lambda>_. go_return (Inr \<lparr>hr_StatusCode = 307, hr_Body = b, hr_Location = l\<rparr>)),
          ht_Sleep := (\<lambda>_. go_return ()), ht_Cancelled := go_return False\<rparr>\<rparr>) rr' w = None)"
proof
  show "wp (SendRequest c rr) (\<lambda>x (_, s'). I s' \<and>
      length (sent s') \<le> length (sent s) + (2 * length (cl_Machines cl) - 1) + redirects s \<and>
      (case x of Inr r \<Rightarrow> rw_StatusCode r \<in> validHttpStatusCode
       | Inl e \<Rightarrow> e = EtcdError 501 ''Tried to connect to each peer twice and failed'' \<or> e = ErrRequestCancelled \<or>
           (\<exists>rq. ht_NewRequest h rq = Some e))) (cl, s)"
    by (rule wp_mono [OF http_api.wp_SendRequest [OF assms]]) (auto simp: http_api.send_ok_def [OF assms(1)])
qed (auto intro!: endless_redirects simp: go_return_def)

theorem send_request_ends_witness:
  "wp (SendRequest \<lparr>cn_http = script_http, cn_strong = True, cn_CheckRetry = None\<rparr>
      \<lparr>rr_Method = ''PUT'', rr_RelativePath = ''keys/a'', rr_Params = [], rr_Values = Some []\<rparr>)
    (\<lambda>x (_, s'). length (snd s') \<le> 4)
    (NewCluster [''a'', ''b''], [Inr \<lparr>hr_StatusCode = 307, hr_Body = Inr [], hr_Location = Inr ([], ''b'')\<rparr>], [])"
  using conjunct1 [OF send_request_ends [OF script.http_api_axioms, where s = "([Inr \<lparr>hr_StatusCode = 307, hr_Body = Inr [], hr_Location = Inr ([], ''b'')\<rparr>], [])"
      and cl = "NewCluster [''a'', ''b'']" and c = "\<lparr>cn_http = script_http, cn_strong = True, cn_CheckRetry = None\<rparr>"
      and rr = "\<lparr>rr_Method = ''PUT'', rr_RelativePath = ''keys/a'', rr_Params = [], rr_Values = Some []\<rparr>"]]
  by (auto simp: NewCluster_def is_redirect_def case_prod_beta elim!: wp_mono)

section \<open>The worker pool\<close>

text \<open>
  C37 -- Every job that was accepted is waiting, at work on one worker or done, never twice, and at most as
  many are at work as there are workers. As long as the pool is not asked to stop, each waiting job can be
  served. When \<open>StopWorkers\<close> has returned none is at work, and those that still waited, and all that are
  scheduled afterwards, are never run: an operation of the adapter that waits for one hangs.
\<close>

theorem worker_pool_jobs:
  assumes "pool_steps (NewWorkerPool n now) es p"
  shows "accepted_jobs es = wp_waiting p + at_work (wp_workers p) + mset (wp_done p) \<and> size (at_work (wp_workers p)) \<le> n \<and>
    (StopCalled \<notin> set es \<and> 0 < n \<longrightarrow> (\<forall>j. j \<in># wp_waiting p \<longrightarrow> (\<exists>fs q. pool_steps p fs q \<and> j \<in> set (wp_done q)))) \<and>
    (wp_stopped p \<longrightarrow> at_work (wp_workers p) = {#} \<and>
      (\<forall>fs q. pool_steps p fs q \<longrightarrow> wp_waiting q = wp_waiting p \<and> wp_done q = wp_done p))"
proof -
  note inv = pool_inv_steps [OF assms, unfolded pool_inv_def]
  have "\<exists>fs q. pool_steps p fs q \<and> j \<in> set (wp_done q)" if "StopCalled \<notin> set es" "0 < n" "j \<in># wp_waiting p" for j
    using pool_serves [of p j] inv that by blast
  moreover have "wp_waiting q = wp_waiting p \<and> wp_done q = wp_done p" if "wp_stopped p" "pool_steps p fs q" for fs q
    using pool_stopped_steps [OF that(2)] inv that(1) by blast
  ultimately show ?thesis
    using inv size_at_work [of "wp_workers p"] at_work_exited [of "wp_workers p"] by blast
qed

theorem worker_pool_jobs_witness:
  "\<exists>p. pool_steps (NewWorkerPool 2 0) [Scheduled ''a'', Scheduled ''b''] p \<and> wp_waiting p = {#''a'', ''b''#} \<and>
    (\<exists>fs q. pool_steps p fs q \<and> ''a'' \<in> set (wp_done q))"
proof -
  let ?p = "ScheduleWork ''b'' (ScheduleWork ''a'' (NewWorkerPool 2 0))"
  have "pool_steps (NewWorkerPool 2 0) (([] @ [Scheduled ''a'']) @ [Scheduled ''b'']) ?p"
    by (rule pool_steps_snoc [OF pool_steps_snoc [OF pool_steps_Nil pool_schedule] pool_schedule])
  then have p: "pool_steps (NewWorkerPool 2 0) [Scheduled ''a'', Scheduled ''b''] ?p" by simp
  moreover have "wp_waiting ?p = {#''a'', ''b''#}" by (simp add: pool_ops NewWorkerPool_def)
  ultimately show ?thesis using worker_pool_jobs [OF p] by auto
qed

section \<open>Services\<close>



end
