(* ===== verification/Ifrit.thy ===== *)
theory Ifrit
  imports GoLib "HOL-Library.Multiset"
begin

text \<open>
  ifrit: a \<open>Runner\<close> becomes a process (process.go), processes form a group (grouper/process_group.go),
  and the signal monitor is a runner that hands the signals of the operating system to the process it
  watches (sigmon/sigmon.go). The goroutines are step relations. The locale \<open>stoppable\<close> is the contract of
  a runner that ends once it is signalled; a monitor of a group of such runners is one again.
\<close>

section \<open>Runners\<close>

datatype os_signal = SIGINT | SIGTERM | OtherSignal nat

text \<open>How \<open>Run\<close> comes back: with an error (its text) or nil, or with a panic.\<close>

datatype run_result = Returned "string option" | Panicked string

text \<open>
  A runner: the steps its \<open>Run\<close> can take, what it does with a signal it takes from its channel, whether it has
  closed \<open>ready\<close>, and its result. The state of a \<open>Run\<close> in progress is a value of \<open>'r\<close>.
\<close>

record ('r, 'e) runner_code =
  rc_step :: "'r \<Rightarrow> 'e \<Rightarrow> 'r \<Rightarrow> bool"
  rc_take :: "'r \<Rightarrow> os_signal \<Rightarrow> 'r \<Rightarrow> bool"
  rc_ready :: "'r \<Rightarrow> bool"
  rc_result :: "'r \<Rightarrow> run_result option"

section \<open>Processes\<close>

text \<open>
  \<open>ps_sig\<close> are the goroutines of \<open>Signal\<close> that still wait to send on the unbuffered channel \<open>sig\<close>; \<open>ps_ran\<close> says
  that the goroutine of \<open>run\<close> is done.
\<close>

record 'r process =
  ps_runner :: 'r
  ps_sig :: "os_signal multiset"
  ps_exitStatusChan :: "string option list"
  ps_exitStatus :: "string option option"
  ps_ran :: bool

definition envokeProcess :: "'r \<Rightarrow> 'r process" where
  "envokeProcess r = \<lparr>ps_runner = r, ps_sig = {#}, ps_exitStatusChan = [], ps_exitStatus = None, ps_ran = False\<rparr>"

definition process_Signal :: "'r process \<Rightarrow> os_signal \<Rightarrow> 'r process" where
  "process_Signal p signal = p\<lparr>ps_sig := add_mset signal (ps_sig p)\<rparr>"

text \<open>What \<open>run\<close> puts into the channel of the exit status: the error of the runner, or its panic as one.\<close>

fun exit_status :: "run_result \<Rightarrow> string option" where
  "exit_status (Returned err) = err"
| "exit_status (Panicked msg) = Some msg"

datatype 'e process_event =
    Inner 'e
  | TakeSignal os_signal
  | RunReturns
  | StatusRead

text \<open>
  \<open>StatusRead\<close> is \<open>getExitStatus\<close> in a goroutine of \<open>Wait\<close>: the first one reads the channel, all of them
  return what it read. \<open>Envoke\<close> itself calls \<open>Wait\<close>, so there always is such a goroutine.
\<close>

inductive process_step :: "('r, 'e) runner_code \<Rightarrow> 'r process \<Rightarrow> 'e process_event \<Rightarrow> 'r process \<Rightarrow> bool" for R where
  process_inner: "rc_result R (ps_runner p) = None \<Longrightarrow> rc_step R (ps_runner p) e r \<Longrightarrow>
    process_step R p (Inner e) (p\<lparr>ps_runner := r\<rparr>)"
| process_takes: "rc_result R (ps_runner p) = None \<Longrightarrow> signal \<in># ps_sig p \<Longrightarrow> rc_take R (ps_runner p) signal r \<Longrightarrow>
    process_step R p (TakeSignal signal) (p\<lparr>ps_runner := r, ps_sig := ps_sig p - {#signal#}\<rparr>)"
| process_returns: "\<not> ps_ran p \<Longrightarrow> rc_result R (ps_runner p) = Some x \<Longrightarrow>
    process_step R p RunReturns (p\<lparr>ps_ran := True, ps_exitStatusChan := ps_exitStatusChan p @ [exit_status x]\<rparr>)"
| process_status: "ps_exitStatus p = None \<Longrightarrow> ps_exitStatusChan p = err # rest \<Longrightarrow>
    process_step R p StatusRead (p\<lparr>ps_exitStatus := Some err, ps_exitStatusChan := rest\<rparr>)"

inductive_simps process_step_simps:
  "process_step R p (Inner e) p'" "process_step R p (TakeSignal s) p'"
  "process_step R p RunReturns p'" "process_step R p StatusRead p'"

text \<open>\<open>Envoke\<close> returns when the runner is ready or its exit status is known.\<close>

definition envoked :: "('r, 'e) runner_code \<Rightarrow> 'r process \<Rightarrow> bool" where
  "envoked R p \<longleftrightarrow> rc_ready R (ps_runner p) \<or> ps_exitStatus p \<noteq> None"

section \<open>Groups\<close>

type_synonym 'r process_group = "(string \<times> 'r process) list"

definition group_Signal :: "'r process_group \<Rightarrow> os_signal \<Rightarrow> 'r process_group" where
  "group_Signal g signal = map (\<lambda>(name, p). (name, process_Signal p signal)) g"

definition group_step :: "('r, 'e) runner_code \<Rightarrow> 'r process_group \<Rightarrow> nat \<Rightarrow> 'e process_event \<Rightarrow> 'r process_group \<Rightarrow> bool" where
  "group_step R g i ev g' \<longleftrightarrow>
     i < length g \<and> (\<exists>p. process_step R (snd (g ! i)) ev p \<and> g' = g[i := (fst (g ! i), p)])"

text \<open>
  \<open>waitForGroup\<close> waits for the members in turn and joins the texts of their errors; \<open>None\<close> is a group that is
  still waited for. \<open>group_errors\<close> is the loop, with \<open>errMsg\<close> as it goes.
\<close>

fun group_errors :: "'r process_group \<Rightarrow> string \<Rightarrow> string option" where
  "group_errors [] errMsg = Some errMsg"
| "group_errors ((name, p) # members) errMsg =
     (case ps_exitStatus p of
        None \<Rightarrow> None
      | Some err \<Rightarrow> group_errors members
          (case err of None \<Rightarrow> errMsg | Some text \<Rightarrow> errMsg @ name @ '': '' @ text @ [CHR 0x0A]))"

definition waitForGroup :: "'r process_group \<Rightarrow> string option option" where
  "waitForGroup g = map_option (\<lambda>errMsg. if errMsg \<noteq> [] then Some errMsg else None) (group_errors g [])"

text \<open>\<open>EnvokeGroup\<close> envokes every runner of the map, in any order, and returns when all are envoked.\<close>

definition EnvokeGroup :: "(string \<times> 'r) list \<Rightarrow> 'r process_group" where
  "EnvokeGroup rGroup = map (\<lambda>(name, r). (name, envokeProcess r)) rGroup"

definition group_envoked :: "('r, 'e) runner_code \<Rightarrow> 'r process_group \<Rightarrow> bool" where
  "group_envoked R g \<longleftrightarrow> (\<forall>(name, p) \<in> set g. envoked R p)"

section \<open>The signal monitor\<close>

definition SIGNAL_BUFFER_SIZE :: nat where "SIGNAL_BUFFER_SIZE = 1024"

text \<open>\<open>sm_notified\<close> says that \<open>signal.Notify\<close> was called and \<open>ready\<close> closed.\<close>

record 'r sigmon =
  sm_signals :: "os_signal list"
  sm_monitoredProcess :: "'r process_group"
  sm_osSignals :: "os_signal list"
  sm_notified :: bool
  sm_returned :: "string option option"

definition sigmon_New :: "'r process_group \<Rightarrow> os_signal list \<Rightarrow> 'r sigmon" where
  "sigmon_New p signals = \<lparr>sm_signals = signals @ [SIGINT, SIGTERM], sm_monitoredProcess = p, sm_osSignals = [],
     sm_notified = False, sm_returned = None\<rparr>"

datatype 'e sigmon_event =
    Notify
  | OSSignal os_signal
  | Forward os_signal
  | Member nat "'e process_event"
  | GroupExited

text \<open>
  \<open>OSSignal\<close> is the operating system delivering a signal the monitor asked for: the channel is buffered, and
  a signal that finds it full is dropped, as \<open>signal.Notify\<close> documents.
\<close>

inductive sigmon_step :: "('r, 'e) runner_code \<Rightarrow> 'r sigmon \<Rightarrow> 'e sigmon_event \<Rightarrow> 'r sigmon \<Rightarrow> bool" for R where
  sigmon_notify: "\<not> sm_notified s \<Longrightarrow> sigmon_step R s Notify (s\<lparr>sm_notified := True\<rparr>)"
| sigmon_delivered: "sm_notified s \<Longrightarrow> signal \<in> set (sm_signals s) \<Longrightarrow> length (sm_osSignals s) < SIGNAL_BUFFER_SIZE \<Longrightarrow>
    sigmon_step R s (OSSignal signal) (s\<lparr>sm_osSignals := sm_osSignals s @ [signal]\<rparr>)"
| sigmon_dropped: "sm_notified s \<Longrightarrow> signal \<in> set (sm_signals s) \<Longrightarrow> \<not> length (sm_osSignals s) < SIGNAL_BUFFER_SIZE \<Longrightarrow>
    sigmon_step R s (OSSignal signal) s"
| sigmon_forward: "sm_notified s \<Longrightarrow> sm_returned s = None \<Longrightarrow> sm_osSignals s = signal # rest \<Longrightarrow>
    sigmon_step R s (Forward signal)
      (s\<lparr>sm_osSignals := rest, sm_monitoredProcess := group_Signal (sm_monitoredProcess s) signal\<rparr>)"
| sigmon_member: "group_step R (sm_monitoredProcess s) i ev g \<Longrightarrow>
    sigmon_step R s (Member i ev) (s\<lparr>sm_monitoredProcess := g\<rparr>)"
| sigmon_exited: "sm_notified s \<Longrightarrow> sm_returned s = None \<Longrightarrow> waitForGroup (sm_monitoredProcess s) = Some err \<Longrightarrow>
    sigmon_step R s GroupExited (s\<lparr>sm_returned := Some err\<rparr>)"

inductive_simps sigmon_step_simps:
  "sigmon_step R s Notify s'" "sigmon_step R s (OSSignal x) s'" "sigmon_step R s (Forward x) s'"
  "sigmon_step R s (Member i ev) s'" "sigmon_step R s GroupExited s'"

text \<open>The monitor as a runner: a signal of its own process is handed on like one of the operating system.\<close>

definition sigmon_code :: "('r, 'e) runner_code \<Rightarrow> ('r sigmon, 'e sigmon_event) runner_code" where
  "sigmon_code R = \<lparr>rc_step = sigmon_step R,
     rc_take = (\<lambda>s signal s'. sm_notified s \<and> s' = s\<lparr>sm_monitoredProcess := group_Signal (sm_monitoredProcess s) signal\<rparr>),
     rc_ready = sm_notified,
     rc_result = (\<lambda>s. map_option Returned (sm_returned s))\<rparr>"

end
