(* ===== verification/IfritProofs.thy ===== *)
theory IfritProofs
  imports Ifrit
begin

text \<open>
  Processes that end once they are signalled. The laws of such a runner are the locale \<open>stoppable\<close>; its
  facts are about a process that runs it. The locale \<open>monitored\<close> is a group of such processes under a
  signal monitor, which is shown to be such a runner itself.
\<close>

section \<open>What is preserved, and what decreases\<close>

definition process_ok :: "('r, 'e) runner_code \<Rightarrow> ('r \<Rightarrow> bool) \<Rightarrow> 'r process \<Rightarrow> bool" where
  "process_ok R ok p \<longleftrightarrow> ok (ps_runner p) \<and>
     (if ps_ran p then \<exists>x. rc_result R (ps_runner p) = Some x \<and>
        (ps_exitStatusChan p, ps_exitStatus p) \<in> {([exit_status x], None), ([], Some (exit_status x))}
      else ps_exitStatusChan p = [] \<and> ps_exitStatus p = None)"

definition process_stopping :: "('r \<Rightarrow> bool) \<Rightarrow> 'r process \<Rightarrow> bool" where
  "process_stopping stopping p \<longleftrightarrow> ps_sig p \<noteq> {#} \<or> stopping (ps_runner p)"

definition process_effort :: "('r \<Rightarrow> nat) \<Rightarrow> nat \<Rightarrow> 'r process \<Rightarrow> nat" where
  "process_effort effort w p = effort (ps_runner p) + w * size (ps_sig p) +
     (if ps_ran p then 0 else 1) + (if ps_exitStatus p = None then 1 else 0)"

fun process_event_ok :: "('e \<Rightarrow> bool) \<Rightarrow> 'e process_event \<Rightarrow> bool" where
  "process_event_ok fine (Inner e) \<longleftrightarrow> fine e"
| "process_event_ok fine _ \<longleftrightarrow> True"

lemma process_ok_envoked: "ok r \<Longrightarrow> process_ok R ok (envokeProcess r)"
  by (simp add: process_ok_def envokeProcess_def)

lemma process_ok_Signal [simp]: "process_ok R ok (process_Signal p s) = process_ok R ok p"
  by (simp add: process_ok_def process_Signal_def)

lemma process_Signal_stopping [simp]: "process_stopping stopping (process_Signal p s)"
  by (simp add: process_stopping_def process_Signal_def)

lemma process_Signal_effort [simp]: "process_effort effort w (process_Signal p s) = process_effort effort w p + w"
  by (simp add: process_effort_def process_Signal_def)

lemma process_Signal_status [simp]: "ps_exitStatus (process_Signal p s) = ps_exitStatus p"
  by (simp add: process_Signal_def)

text \<open>The status of a process does not change once it is known, whoever waits for it.\<close>

lemma process_status_stays: "process_step R p ev p' \<Longrightarrow> ps_exitStatus p = Some e \<Longrightarrow> ps_exitStatus p' = Some e"
  by (cases ev) (auto simp: process_step_simps)

section \<open>Runners with an invariant\<close>

locale invariant_runner =
  fixes R :: "('r, 'e) runner_code" and ok :: "'r \<Rightarrow> bool" and fine :: "'e \<Rightarrow> bool"
  assumes inv_step: "ok r \<Longrightarrow> rc_step R r e r' \<Longrightarrow> fine e \<Longrightarrow> ok r'"
    and inv_take: "ok r \<Longrightarrow> rc_take R r s r' \<Longrightarrow> ok r'"
begin

lemma process_ok_step:
  assumes "process_ok R ok p" and "process_step R p ev p'" and "process_event_ok fine ev"
  shows "process_ok R ok p'"
  using assms(2)
proof cases
  case (process_inner e r)
  then show ?thesis using assms(1,3) inv_step [of "ps_runner p" e r] by (auto simp: process_ok_def split: if_splits)
next
  case (process_takes s r)
  then show ?thesis using assms(1) inv_take [of "ps_runner p" s r] by (auto simp: process_ok_def split: if_splits)
qed (use assms(1) in \<open>auto simp: process_ok_def split: if_splits\<close>)

end

section \<open>Runners that end once they are signalled\<close>

text \<open>
  \<open>own\<close> are the steps a runner takes by itself, \<open>fine\<close> these and what its environment may do to it; \<open>effort\<close>
  bounds its own steps, and \<open>w\<close> what one signal can add to it.
\<close>

locale stoppable = invariant_runner R ok fine
  for R :: "('r, 'e) runner_code" and ok :: "'r \<Rightarrow> bool" and fine :: "'e \<Rightarrow> bool" +
  fixes own :: "'e \<Rightarrow> bool" and stopping :: "'r \<Rightarrow> bool" and effort :: "'r \<Rightarrow> nat" and w :: nat
  assumes own_fine: "own e \<Longrightarrow> fine e"
    and stopping_step: "ok r \<Longrightarrow> rc_step R r e r' \<Longrightarrow> fine e \<Longrightarrow> stopping r \<Longrightarrow> stopping r'"
    and stopping_take: "ok r \<Longrightarrow> rc_take R r s r' \<Longrightarrow> stopping r'"
    and effort_step: "ok r \<Longrightarrow> rc_step R r e r' \<Longrightarrow> own e \<Longrightarrow> effort r' < effort r"
    and effort_take: "ok r \<Longrightarrow> rc_take R r s r' \<Longrightarrow> effort r' < effort r + w"
    and progress: "ok r \<Longrightarrow> rc_result R r = None \<Longrightarrow>
      (\<exists>e r'. own e \<and> rc_step R r e r') \<or> \<not> stopping r \<and> (\<forall>s. \<exists>r'. rc_take R r s r')"
begin

lemma process_stopping_step:
  assumes "process_ok R ok p" and "process_step R p ev p'" and "process_event_ok fine ev" and "process_stopping stopping p"
  shows "process_stopping stopping p'"
  using assms(2)
proof cases
  case (process_inner e r)
  then show ?thesis using assms(1,3,4) stopping_step [of "ps_runner p" e r] by (auto simp: process_ok_def process_stopping_def)
next
  case (process_takes s r)
  then show ?thesis using assms(1) stopping_take [of "ps_runner p" s r] by (auto simp: process_ok_def process_stopping_def)
qed (use assms(4) in \<open>auto simp: process_stopping_def\<close>)

lemma process_effort_step:
  assumes "process_ok R ok p" and "process_step R p ev p'" and "process_event_ok own ev"
  shows "process_effort effort w p' < process_effort effort w p"
  using assms(2)
proof cases
  case (process_inner e r)
  then show ?thesis using assms(1,3) effort_step [of "ps_runner p" e r] by (auto simp: process_ok_def process_effort_def)
next
  case (process_takes s r)
  obtain M where M: "ps_sig p = add_mset s M" using process_takes(4) by (metis multi_member_split)
  have "effort r < effort (ps_runner p) + w" using assms(1) effort_take [OF _ process_takes(5)] by (simp add: process_ok_def)
  then show ?thesis unfolding process_takes(2) by (simp add: process_effort_def M)
qed (auto simp: process_effort_def)

lemma process_progress:
  assumes "process_ok R ok p" and "process_stopping stopping p" and "ps_exitStatus p = None"
  shows "\<exists>ev p'. process_event_ok own ev \<and> process_step R p ev p'"
proof (cases "rc_result R (ps_runner p)")
  case None
  have "ok (ps_runner p)" using assms(1) by (simp add: process_ok_def)
  from progress [OF this None] consider
      e r where "own e" "rc_step R (ps_runner p) e r"
    | "\<not> stopping (ps_runner p)" "\<forall>s. \<exists>r. rc_take R (ps_runner p) s r" by blast
  then show ?thesis
  proof cases
    case 1
    then show ?thesis by (intro exI [of _ "Inner e"] exI) (simp add: process_step_simps None, blast)
  next
    case 2
    then obtain s where "s \<in># ps_sig p" using assms(2) by (auto simp: process_stopping_def)
    then show ?thesis using 2 None by (intro exI [of _ "TakeSignal s"]) (auto simp: process_step_simps)
  qed
next
  case (Some x)
  show ?thesis
  proof (cases "ps_ran p")
    case True
    then show ?thesis using assms by (intro exI [of _ StatusRead]) (auto simp: process_ok_def process_step_simps)
  next
    case False
    then show ?thesis using Some by (intro exI [of _ RunReturns]) (auto simp: process_step_simps)
  qed
qed

end

section \<open>Groups\<close>

definition group_effort :: "('r \<Rightarrow> nat) \<Rightarrow> nat \<Rightarrow> 'r process_group \<Rightarrow> nat" where
  "group_effort effort w g = (\<Sum>(name, p) \<leftarrow> g. process_effort effort w p)"

lemma group_errors_known:
  "(\<exists>m. group_errors g errMsg = Some m) \<longleftrightarrow> (\<forall>(name, p) \<in> set g. ps_exitStatus p \<noteq> None)"
  by (induction g errMsg rule: group_errors.induct) (auto split: option.splits)

lemma waitForGroup_known: "(\<exists>err. waitForGroup g = Some err) \<longleftrightarrow> (\<forall>(name, p) \<in> set g. ps_exitStatus p \<noteq> None)"
  unfolding group_errors_known [of g "[]", symmetric] by (auto simp: waitForGroup_def)

lemma group_errors_nil:
  "group_errors g errMsg = Some m \<Longrightarrow> m = [] \<longleftrightarrow> errMsg = [] \<and> (\<forall>(name, p) \<in> set g. ps_exitStatus p = Some None)"
  by (induction g errMsg rule: group_errors.induct) (auto split: option.splits)

text \<open>A group has failed when one of its members has.\<close>

lemma waitForGroup_nil: "waitForGroup g = Some None \<longleftrightarrow> (\<forall>(name, p) \<in> set g. ps_exitStatus p = Some None)"
proof
  assume "waitForGroup g = Some None"
  then show "\<forall>(name, p) \<in> set g. ps_exitStatus p = Some None"
    using group_errors_nil [of g "[]" "[]"] by (auto simp: waitForGroup_def split: if_splits)
next
  assume a: "\<forall>(name, p) \<in> set g. ps_exitStatus p = Some None"
  then obtain m where "group_errors g [] = Some m" using group_errors_known [of g "[]"] by fastforce
  then show "waitForGroup g = Some None" using group_errors_nil [of g "[]" m] a by (simp add: waitForGroup_def)
qed

lemma group_errors_cong:
  "map (\<lambda>(name, p). (name, ps_exitStatus p)) g = map (\<lambda>(name, p). (name, ps_exitStatus p)) g' \<Longrightarrow>
    group_errors g errMsg = group_errors g' errMsg"
proof (induction g errMsg arbitrary: g' rule: group_errors.induct)
  case (2 name p members errMsg)
  then obtain p' ms where "g' = (name, p') # ms" "ps_exitStatus p' = ps_exitStatus p"
      "map (\<lambda>(name, p). (name, ps_exitStatus p)) members = map (\<lambda>(name, p). (name, ps_exitStatus p)) ms"
    by (cases g') auto
  then show ?case using 2(1) by (auto split: option.split)
qed simp

text \<open>What \<open>Wait\<close> of a group reports, it reports for ever.\<close>

lemma waitForGroup_stays:
  assumes "group_step R g i ev g'" and "waitForGroup g = Some err"
  shows "waitForGroup g' = Some err"
proof -
  from assms(1) obtain p where p: "i < length g" "process_step R (snd (g ! i)) ev p" "g' = g[i := (fst (g ! i), p)]"
    by (auto simp: group_step_def)
  have "\<exists>err. waitForGroup g = Some err" using assms(2) by blast
  then have "ps_exitStatus (snd (g ! i)) \<noteq> None" using nth_mem [OF p(1)] unfolding waitForGroup_known by (auto simp: case_prod_beta)
  then have "ps_exitStatus p = ps_exitStatus (snd (g ! i))" using process_status_stays [OF p(2)] by auto
  then have "map (\<lambda>(name, p). (name, ps_exitStatus p)) g = map (\<lambda>(name, p). (name, ps_exitStatus p)) g'"
    using p(1) unfolding p(3) by (intro nth_equalityI) (auto simp: nth_list_update case_prod_beta)
  then show ?thesis using assms(2) group_errors_cong [of g g' "[]"] by (simp add: waitForGroup_def)
qed

lemma waitForGroup_Signal [simp]: "waitForGroup (group_Signal g s) = waitForGroup g"
  using group_errors_cong [of "group_Signal g s" g "[]"]
  by (simp add: waitForGroup_def group_Signal_def case_prod_beta comp_def)

lemma group_effort_Signal: "group_effort effort w (group_Signal g s) = group_effort effort w g + length g * w"
  by (induction g) (auto simp: group_effort_def group_Signal_def)

lemma group_effort_update:
  "i < length g \<Longrightarrow> process_effort effort w p < process_effort effort w (snd (g ! i)) \<Longrightarrow>
    group_effort effort w (g[i := (name, p)]) < group_effort effort w g"
proof (induction g arbitrary: i)
  case (Cons m g)
  then show ?case by (cases i) (auto simp: group_effort_def case_prod_beta)
qed simp

lemma group_all_update:
  "\<forall>(name, p) \<in> set g. P p \<Longrightarrow> P p' \<Longrightarrow> \<forall>(name, p) \<in> set (g[i := (name', p')]). P p"
  using set_update_subset_insert [of g i "(name', p')"] by auto

section \<open>A monitored group\<close>

definition monitor_ok :: "('r, 'e) runner_code \<Rightarrow> ('r \<Rightarrow> bool) \<Rightarrow> nat \<Rightarrow> 'r sigmon \<Rightarrow> bool" where
  "monitor_ok R ok n s \<longleftrightarrow> length (sm_monitoredProcess s) = n \<and> (\<forall>(name, p) \<in> set (sm_monitoredProcess s). process_ok R ok p) \<and>
     (\<forall>err. sm_returned s = Some err \<longrightarrow> waitForGroup (sm_monitoredProcess s) = Some err)"

definition monitor_stopping :: "('r \<Rightarrow> bool) \<Rightarrow> 'r sigmon \<Rightarrow> bool" where
  "monitor_stopping stopping s \<longleftrightarrow> sm_osSignals s \<noteq> [] \<or>
     (\<forall>(name, p) \<in> set (sm_monitoredProcess s). process_stopping stopping p \<or> ps_exitStatus p \<noteq> None)"

definition monitor_effort :: "('r \<Rightarrow> nat) \<Rightarrow> nat \<Rightarrow> nat \<Rightarrow> 'r sigmon \<Rightarrow> nat" where
  "monitor_effort effort w n s = length (sm_osSignals s) * Suc (n * w) + group_effort effort w (sm_monitoredProcess s) +
     (if sm_notified s then 0 else 1) + (if sm_returned s = None then 1 else 0)"

fun monitor_own :: "('e \<Rightarrow> bool) \<Rightarrow> 'e sigmon_event \<Rightarrow> bool" where
  "monitor_own own (OSSignal s) \<longleftrightarrow> False"
| "monitor_own own (Member i ev) \<longleftrightarrow> process_event_ok own ev"
| "monitor_own own _ \<longleftrightarrow> True"

fun monitor_fine :: "('e \<Rightarrow> bool) \<Rightarrow> 'e sigmon_event \<Rightarrow> bool" where
  "monitor_fine fine (Member i ev) \<longleftrightarrow> process_event_ok fine ev"
| "monitor_fine fine _ \<longleftrightarrow> True"

lemma group_Signal_all:
  "(\<forall>(name, p) \<in> set (group_Signal g s). P p) \<longleftrightarrow> (\<forall>(name, p) \<in> set g. P (process_Signal p s))"
  by (auto simp: group_Signal_def)

lemma length_group_Signal [simp]: "length (group_Signal g s) = length g"
  by (simp add: group_Signal_def)

context invariant_runner
begin

lemma member_ok:
  assumes "monitor_ok R ok n s" and "i < length (sm_monitoredProcess s)"
  shows "process_ok R ok (snd (sm_monitoredProcess s ! i))"
  using assms nth_mem [OF assms(2)] by (cases "sm_monitoredProcess s ! i") (auto simp: monitor_ok_def)

lemma monitor_ok_step:
  assumes "monitor_ok R ok n s" and "sigmon_step R s e s'" and "monitor_fine fine e"
  shows "monitor_ok R ok n s'"
  using assms(2)
proof cases
  case (sigmon_member i ev g)
  then obtain p where p: "i < length (sm_monitoredProcess s)" "process_step R (snd (sm_monitoredProcess s ! i)) ev p"
      "g = (sm_monitoredProcess s)[i := (fst (sm_monitoredProcess s ! i), p)]"
    by (auto simp: group_step_def)
  have "process_ok R ok p" using process_ok_step [OF member_ok [OF assms(1) p(1)] p(2)] assms(3) sigmon_member by simp
  moreover have "\<forall>(name, p) \<in> set (sm_monitoredProcess s). process_ok R ok p" using assms(1) by (simp add: monitor_ok_def)
  ultimately have g: "\<forall>(name, p) \<in> set g. process_ok R ok p" unfolding p(3) by (rule group_all_update [rotated])
  have "waitForGroup g = Some err" if "sm_returned s = Some err" for err
    using waitForGroup_stays [OF sigmon_member(3)] that assms(1) by (simp add: monitor_ok_def)
  then show ?thesis using assms(1) sigmon_member p(3) g by (simp add: monitor_ok_def)
qed (use assms(1) in \<open>auto simp: monitor_ok_def group_Signal_all\<close>)

lemma monitor_invariant: "invariant_runner (sigmon_code R) (monitor_ok R ok n) (monitor_fine fine)"
proof (unfold_locales, goal_cases)
  case (1 s e s') then show ?case using monitor_ok_step by (simp add: sigmon_code_def)
next
  case (2 s signal s') then show ?case by (auto simp: sigmon_code_def monitor_ok_def group_Signal_all)
qed

end

locale monitored = stoppable +
  fixes n :: nat
begin

lemma monitor_stopping_step:
  assumes "monitor_ok R ok n s" and "sigmon_step R s e s'" and "monitor_fine fine e" and "monitor_stopping stopping s"
  shows "monitor_stopping stopping s'"
  using assms(2)
proof cases
  case (sigmon_member i ev g)
  then obtain p where p: "i < length (sm_monitoredProcess s)" "process_step R (snd (sm_monitoredProcess s ! i)) ev p"
      "g = (sm_monitoredProcess s)[i := (fst (sm_monitoredProcess s ! i), p)]"
    by (auto simp: group_step_def)
  let ?stop = "\<lambda>p. process_stopping stopping p \<or> ps_exitStatus p \<noteq> None"
  show ?thesis
  proof (cases "sm_osSignals s = []")
    case True
    then have all: "\<forall>(name, p) \<in> set (sm_monitoredProcess s). ?stop p" using assms(4) by (simp add: monitor_stopping_def)
    then have "?stop (snd (sm_monitoredProcess s ! i))" using nth_mem [OF p(1)] by (auto simp: case_prod_beta)
    then have "?stop p"
      using process_stopping_step [OF member_ok [OF assms(1) p(1)] p(2)] process_status_stays [OF p(2)] assms(3) sigmon_member
      by auto
    then show ?thesis using group_all_update [OF all] sigmon_member p(3) by (simp add: monitor_stopping_def)
  qed (use sigmon_member in \<open>simp add: monitor_stopping_def\<close>)
qed (use assms(4) in \<open>auto simp: monitor_stopping_def group_Signal_all\<close>)

lemma monitor_effort_step:
  assumes "monitor_ok R ok n s" and "sigmon_step R s e s'" and "monitor_own own e"
  shows "monitor_effort effort w n s' < monitor_effort effort w n s"
  using assms(2)
proof cases
  case (sigmon_member i ev g)
  then obtain p where p: "i < length (sm_monitoredProcess s)" "process_step R (snd (sm_monitoredProcess s ! i)) ev p"
      "g = (sm_monitoredProcess s)[i := (fst (sm_monitoredProcess s ! i), p)]"
    by (auto simp: group_step_def)
  have "process_effort effort w p < process_effort effort w (snd (sm_monitoredProcess s ! i))"
    using process_effort_step [OF member_ok [OF assms(1) p(1)] p(2)] assms(3) sigmon_member by simp
  from group_effort_update [OF p(1) this] show ?thesis using sigmon_member p(3) by (simp add: monitor_effort_def)
qed (use assms(1,3) in \<open>auto simp: monitor_effort_def monitor_ok_def group_effort_Signal\<close>)

lemma monitor_progress:
  assumes "monitor_ok R ok n s" and "sm_returned s = None"
  shows "(\<exists>e s'. monitor_own own e \<and> sigmon_step R s e s') \<or> \<not> monitor_stopping stopping s \<and> sm_notified s"
proof (cases "sm_notified s \<and> sm_osSignals s = [] \<and> monitor_stopping stopping s")
  case True
  show ?thesis
  proof (cases "waitForGroup (sm_monitoredProcess s)")
    case None
    then obtain i where i: "i < length (sm_monitoredProcess s)" "ps_exitStatus (snd (sm_monitoredProcess s ! i)) = None"
      using waitForGroup_known [of "sm_monitoredProcess s"] by (fastforce simp: in_set_conv_nth case_prod_beta)
    then have "process_stopping stopping (snd (sm_monitoredProcess s ! i))"
      using True nth_mem [OF i(1)] by (auto simp: monitor_stopping_def case_prod_beta)
    from process_progress [OF member_ok [OF assms(1) i(1)] this i(2)] obtain ev p where
      "process_event_ok own ev" "process_step R (snd (sm_monitoredProcess s ! i)) ev p" by blast
    then show ?thesis using i(1) by (intro disjI1 exI [of _ "Member i ev"]) (auto simp: sigmon_step_simps group_step_def)
  next
    case (Some err)
    then show ?thesis using True assms(2) by (intro disjI1 exI [of _ GroupExited]) (auto simp: sigmon_step_simps)
  qed
next
  case False
  show ?thesis
  proof (cases "sm_notified s")
    case True
    show ?thesis
    proof (cases "sm_osSignals s")
      case (Cons signal rest)
      then show ?thesis using True assms(2) by (intro disjI1 exI [of _ "Forward signal"]) (auto simp: sigmon_step_simps)
    qed (use True False in simp)
  next
    case False
    then show ?thesis by (intro disjI1 exI [of _ Notify]) (auto simp: sigmon_step_simps)
  qed
qed

lemma own_is_fine: "monitor_own own e \<Longrightarrow> monitor_fine fine e"
proof (cases e)
  case (Member i ev)
  moreover assume "monitor_own own e"
  ultimately show ?thesis by (cases ev) (auto simp: own_fine)
qed simp_all

end

text \<open>A monitor is a runner of the same kind, so that its own process ends once a signal has come.\<close>

sublocale monitored \<subseteq> monitor: stoppable "sigmon_code R" "monitor_ok R ok n" "monitor_fine fine" "monitor_own own"
  "monitor_stopping stopping" "monitor_effort effort w n" "Suc (n * w)"
proof (unfold_locales, goal_cases)
  case (1 s e s') then show ?case by (rule invariant_runner.inv_step [OF monitor_invariant])
next
  case (2 s signal s') then show ?case by (rule invariant_runner.inv_take [OF monitor_invariant])
next
  case (3 e) then show ?case by (rule own_is_fine)
next
  case (4 s e s') then show ?case using monitor_stopping_step by (simp add: sigmon_code_def)
next
  case (5 s signal s') then show ?case by (auto simp: sigmon_code_def monitor_stopping_def group_Signal_all)
next
  case (6 s e s') then show ?case using monitor_effort_step by (simp add: sigmon_code_def)
next
  case (7 s signal s')
  then show ?case by (auto simp: sigmon_code_def monitor_effort_def monitor_ok_def group_effort_Signal)
next
  case (8 s) then show ?case using monitor_progress [of s] by (auto simp: sigmon_code_def)
qed

end
