(* ===== verification/AppManager.thy ===== *)
theory AppManager
  imports IfritProofs HandlerProofs
begin

text \<open>
  main.go: the handler as the one member of a group, under a signal monitor, whose exit status becomes that
  of the operating system process. Made of the run loop of \<open>Handler\<close> and the processes of \<open>Ifrit\<close>.
\<close>

section \<open>The handler as a runner\<close>

text \<open>
  \<open>hr_loop\<close> is None until \<open>Run\<close> has started its first watch and closed \<open>ready\<close>. \<open>hr_nil\<close> counts the goroutines
  among those at work that were started with a change of nothing: they can only panic
  (\<open>deleted_desired_panics\<close>), which no \<open>recover\<close> catches.
\<close>

record handler_run =
  hr_loop :: "runner option"
  hr_nil :: nat

definition handler_Run :: handler_run where
  "handler_Run = \<lparr>hr_loop = None, hr_nil = 0\<rparr>"

datatype handler_event = CloseReady | Loop run_event

fun nil_change :: "run_event \<Rightarrow> bool" where
  "nil_change (Change c) \<longleftrightarrow> desired_of c = None"
| "nil_change _ \<longleftrightarrow> False"

inductive handler_step :: "handler_run \<Rightarrow> handler_event \<Rightarrow> handler_run \<Rightarrow> bool" where
  handler_ready: "hr_loop h = None \<Longrightarrow> handler_step h CloseReady (h\<lparr>hr_loop := Some run_start\<rparr>)"
| handler_loop: "hr_loop h = Some s \<Longrightarrow> run_step s e s' \<Longrightarrow> e \<noteq> Signal \<Longrightarrow>
    (e = Processed \<Longrightarrow> hr_nil h < rn_active s) \<Longrightarrow>
    handler_step h (Loop e) (h\<lparr>hr_loop := Some s', hr_nil := (if nil_change e then Suc (hr_nil h) else hr_nil h)\<rparr>)"

inductive_simps handler_step_simps: "handler_step h CloseReady h'" "handler_step h (Loop e) h'"

text \<open>\<open>Run\<close> never returns an error, and itself does not panic: \<open>stopChan\<close> is the one of the watch just begun.\<close>

definition handler_code :: "(handler_run, handler_event) runner_code" where
  "handler_code = \<lparr>rc_step = handler_step,
     rc_take = (\<lambda>h signal h'. \<exists>s s'. hr_loop h = Some s \<and> run_step s Signal s' \<and> h' = h\<lparr>hr_loop := Some s'\<rparr>),
     rc_ready = (\<lambda>h. hr_loop h \<noteq> None),
     rc_result = (\<lambda>h. case hr_loop h of None \<Rightarrow> None | Some s \<Rightarrow> if rn_returned s then Some (Returned None) else None)\<rparr>"

section \<open>The operating system process\<close>

datatype ending = ExitCode nat | Crashed | KilledBy os_signal

text \<open>\<open>main\<close> first waits for \<open>EnvokeGroup\<close>, then for the monitor.\<close>

datatype phase =
    Starting "handler_run process_group"
  | Monitoring "handler_run sigmon process"

record app =
  ap_phase :: phase
  ap_ending :: "ending option"

definition app_main :: app where
  "app_main = \<lparr>ap_phase = Starting (EnvokeGroup [(''handler'', handler_Run)]), ap_ending = None\<rparr>"

fun phase_group :: "phase \<Rightarrow> handler_run process_group" where
  "phase_group (Starting g) = g"
| "phase_group (Monitoring p) = sm_monitoredProcess (ps_runner p)"

fun phase_notified :: "phase \<Rightarrow> bool" where
  "phase_notified (Starting g) = False"
| "phase_notified (Monitoring p) = sm_notified (ps_runner p)"

datatype app_event =
    Startup nat "handler_event process_event"
  | GroupUp
  | Monitor "handler_event sigmon_event process_event"
  | MainExits
  | NilDereference
  | DefaultAction os_signal

text \<open>
  A panic that is not recovered ends the whole process, and so does a signal before \<open>signal.Notify\<close>.
\<close>

inductive app_step :: "app \<Rightarrow> app_event \<Rightarrow> app \<Rightarrow> bool" where
  app_startup: "ap_ending a = None \<Longrightarrow> ap_phase a = Starting g \<Longrightarrow> group_step handler_code g i ev g' \<Longrightarrow>
    app_step a (Startup i ev) (a\<lparr>ap_phase := Starting g'\<rparr>)"
| app_group_up: "ap_ending a = None \<Longrightarrow> ap_phase a = Starting g \<Longrightarrow> group_envoked handler_code g \<Longrightarrow>
    app_step a GroupUp (a\<lparr>ap_phase := Monitoring (envokeProcess (sigmon_New g []))\<rparr>)"
| app_monitor: "ap_ending a = None \<Longrightarrow> ap_phase a = Monitoring p \<Longrightarrow> process_step (sigmon_code handler_code) p ev p' \<Longrightarrow>
    app_step a (Monitor ev) (a\<lparr>ap_phase := Monitoring p'\<rparr>)"
| app_exits: "ap_ending a = None \<Longrightarrow> ap_phase a = Monitoring p \<Longrightarrow> ps_exitStatus p = Some err \<Longrightarrow>
    app_step a MainExits (a\<lparr>ap_ending := Some (ExitCode (if err \<noteq> None then 1 else 0))\<rparr>)"
| app_crash: "ap_ending a = None \<Longrightarrow> (name, p) \<in> set (phase_group (ap_phase a)) \<Longrightarrow> 0 < hr_nil (ps_runner p) \<Longrightarrow>
    app_step a NilDereference (a\<lparr>ap_ending := Some Crashed\<rparr>)"
| app_killed: "ap_ending a = None \<Longrightarrow> \<not> phase_notified (ap_phase a) \<Longrightarrow> signal \<in> {SIGINT, SIGTERM} \<Longrightarrow>
    app_step a (DefaultAction signal) (a\<lparr>ap_ending := Some (KilledBy signal)\<rparr>)"

inductive_simps app_step_simps:
  "app_step a (Startup i ev) a'" "app_step a GroupUp a'" "app_step a (Monitor ev) a'" "app_step a MainExits a'"
  "app_step a NilDereference a'" "app_step a (DefaultAction s) a'"

inductive app_runs :: "app_event list \<Rightarrow> app \<Rightarrow> bool" where
  app_runs_start: "app_runs [] app_main"
| app_runs_step: "app_runs es a \<Longrightarrow> app_step a e a' \<Longrightarrow> app_runs (es @ [e]) a'"

inductive app_steps :: "app \<Rightarrow> app_event list \<Rightarrow> app \<Rightarrow> bool" where
  app_steps_Nil: "app_steps a [] a"
| app_steps_Cons: "app_step a e a' \<Longrightarrow> app_steps a' es a'' \<Longrightarrow> app_steps a (e # es) a''"

inductive_simps app_steps_simps: "app_steps a [] a'" "app_steps a (e # es) a'"

text \<open>What the handler does in a step, and the steps that the environment does not take.\<close>

fun handler_event_of :: "app_event \<Rightarrow> handler_event option" where
  "handler_event_of (Startup i (Inner e)) = Some e"
| "handler_event_of (Monitor (Inner (Member i (Inner e)))) = Some e"
| "handler_event_of _ = None"

definition takes_nil :: "app_event \<Rightarrow> bool" where
  "takes_nil e \<longleftrightarrow> (\<exists>c. handler_event_of e = Some (Loop (Change c)) \<and> desired_of c = None)"

definition delivers_signal :: "app_event \<Rightarrow> bool" where
  "delivers_signal e \<longleftrightarrow> (\<exists>signal \<in> {SIGINT, SIGTERM}. e = Monitor (Inner (OSSignal signal)))"

fun handler_own :: "handler_event \<Rightarrow> bool" where
  "handler_own CloseReady \<longleftrightarrow> True"
| "handler_own (Loop e) \<longleftrightarrow> e \<in> {Rewatch, Processed, AllDone}"

fun app_own :: "app_event \<Rightarrow> bool" where
  "app_own (Startup i ev) \<longleftrightarrow> process_event_ok handler_own ev"
| "app_own (Monitor ev) \<longleftrightarrow> process_event_ok (monitor_own handler_own) ev"
| "app_own (DefaultAction s) \<longleftrightarrow> False"
| "app_own _ \<longleftrightarrow> True"

end
