(* ===== verification/AppProofs.thy ===== *)
theory AppProofs
  imports AppManager
begin

text \<open>
  The handler is a runner that ends once it is signalled, so that the facts of \<open>IfritProofs\<close> apply to it and,
  through the monitor, to the whole program; and how the program ends.
\<close>

section \<open>The handler meets the contract of a runner\<close>

fun handler_effort :: "handler_run \<Rightarrow> nat" where
  "handler_effort h = (case hr_loop h of None \<Rightarrow> 4 | Some s \<Rightarrow> rn_active s +
     (if rn_stopped s = None then 2 else 0) + (if rn_watching s then 0 else 1) + (if rn_returned s then 0 else 1))"

definition handler_stopping :: "handler_run \<Rightarrow> bool" where
  "handler_stopping h \<longleftrightarrow> (\<exists>s. hr_loop h = Some s \<and> rn_stopped s \<noteq> None)"

definition handler_ok :: "handler_run \<Rightarrow> bool" where
  "handler_ok h \<longleftrightarrow> (case hr_loop h of None \<Rightarrow> hr_nil h = 0
     | Some s \<Rightarrow> hr_nil h \<le> rn_active s \<and> (rn_returned s \<longrightarrow> rn_active s = 0 \<and> rn_stopped s \<noteq> None))"

fun nil_free :: "handler_event \<Rightarrow> bool" where
  "nil_free CloseReady \<longleftrightarrow> True"
| "nil_free (Loop e) \<longleftrightarrow> \<not> nil_change e"

lemmas handler_defs = handler_ok_def handler_stopping_def handler_code_def

lemma handler_step_cases:
  assumes "handler_step h e h'"
  obtains "e = CloseReady" "hr_loop h = None" "h' = h\<lparr>hr_loop := Some run_start\<rparr>"
  | s x s' where "e = Loop x" "hr_loop h = Some s" "run_step s x s'" "x \<noteq> Signal" "x = Processed \<Longrightarrow> hr_nil h < rn_active s"
      "h' = h\<lparr>hr_loop := Some s', hr_nil := (if nil_change x then Suc (hr_nil h) else hr_nil h)\<rparr>"
  using assms by (cases rule: handler_step.cases) auto

lemma handler_ok_step:
  assumes "handler_ok h" and "handler_step h e h'"
  shows "handler_ok h'"
  using assms(2)
proof (cases rule: handler_step_cases)
  case (2 s x s')
  then show ?thesis using assms(1) by (cases x) (auto simp: handler_ok_def run_step_simps)
qed (use assms(1) in \<open>simp add: handler_ok_def run_start_def\<close>)


text \<open>Unless it was told of a change of nothing, the handler ends once it is signalled.\<close>

interpretation handler_run: monitored handler_code "\<lambda>h. handler_ok h \<and> hr_nil h = 0" nil_free handler_own
  handler_stopping handler_effort 1 1
proof (unfold_locales, goal_cases)
  case (1 h e h')
  then have "handler_step h e h'" by (simp add: handler_code_def)
  moreover have "handler_ok h'" using 1(1) handler_ok_step [OF _ calculation] by simp
  ultimately show ?case using 1 by (cases rule: handler_step_cases) auto
next
  case (2 h signal h') then show ?case by (auto simp: handler_defs run_step_simps)
next
  case (3 e) then show ?case by (cases e) auto
next
  case (4 h e h')
  then have "handler_step h e h'" by (simp add: handler_code_def)
  then show ?case using 4
  proof (cases rule: handler_step_cases)
    case (2 s x s')
    then show ?thesis using 4 by (cases x) (auto simp: handler_stopping_def run_step_simps)
  qed (simp add: handler_stopping_def)
next
  case (5 h signal h') then show ?case by (auto simp: handler_defs run_step_simps)
next
  case (6 h e h')
  then have "handler_step h e h'" by (simp add: handler_code_def)
  then show ?case using 6
  proof (cases rule: handler_step_cases)
    case (2 s x s')
    then show ?thesis using 6 by (cases x) (auto simp: run_step_simps)
  qed (simp add: run_start_def)
next
  case (7 h signal h') then show ?case by (auto simp: handler_defs run_step_simps)
next
  case (8 h)
  show ?case
  proof (cases "hr_loop h")
    case None
    then show ?thesis by (intro disjI1 exI [of _ CloseReady]) (auto simp: handler_code_def handler_step_simps)
  next
    case (Some s)
    then consider "rn_stopped s = None" "rn_watching s" | "rn_stopped s = None" "\<not> rn_watching s"
      | "rn_stopped s \<noteq> None" "rn_active s = 0" "\<not> rn_returned s" | "rn_stopped s \<noteq> None" "0 < rn_active s"
      using 8(2) by (cases "rn_active s") (auto simp: handler_code_def split: if_splits)
    then show ?thesis
    proof cases
      case 1 then show ?thesis using Some by (auto simp: handler_defs run_step_simps)
    next
      case 2 then show ?thesis
        using Some by (intro disjI1 exI [of _ "Loop Rewatch"]) (auto simp: handler_code_def handler_step_simps run_step_simps)
    next
      case 3 then show ?thesis
        using Some by (intro disjI1 exI [of _ "Loop AllDone"]) (auto simp: handler_code_def handler_step_simps run_step_simps)
    next
      case 4 then show ?thesis
        using Some 8(1) by (intro disjI1 exI [of _ "Loop Processed"]) (auto simp: handler_code_def handler_step_simps run_step_simps)
    qed
  qed
qed

section \<open>The whole program\<close>























section \<open>Shutting down\<close>










section \<open>How the program ends\<close>













end
