(* ===== verification/EtcdResponse.thy ===== *)
theory EtcdResponse
  imports EtcdSend Actions
begin

text \<open>
  coreos/go-etcd, response.go and error.go: how the body of an answer becomes a response or an etcd error,
  with the tables by which \<open>encoding/json\<close> decodes them. Whether a text is a time in the format of RFC 3339 is
  the argument \<open>time_ok\<close>: the expiration of a node is decoded and not used. The indices of the headers are
  left out, nothing reads them.
\<close>

section \<open>The structs\<close>

record raw_node =
  nd_Key :: string
  nd_Value :: bytes
  nd_Dir :: bool
  nd_Expiration :: "bytes option"
  nd_TTL :: int
  nd_Nodes :: "etcd_node slice"
  nd_ModifiedIndex :: uint64
  nd_CreatedIndex :: uint64

definition zero_etcd_node :: etcd_node where
  "zero_etcd_node = EtcdNode [] [] False 0 [] 0 0"

definition of_node :: "etcd_node \<Rightarrow> raw_node" where
  "of_node n = \<lparr>nd_Key = en_Key n, nd_Value = en_Value n, nd_Dir = en_Dir n, nd_Expiration = None, nd_TTL = en_TTL n,
     nd_Nodes = (if en_Nodes n = [] then None else Some (en_Nodes n)), nd_ModifiedIndex = of_nat (en_ModifiedIndex n),
     nd_CreatedIndex = of_nat (en_CreatedIndex n)\<rparr>"

definition to_node :: "raw_node \<Rightarrow> etcd_node" where
  "to_node n = EtcdNode (nd_Key n) (nd_Value n) (nd_Dir n) (nd_TTL n) (slice_elems (nd_Nodes n))
     (unat (nd_ModifiedIndex n)) (unat (nd_CreatedIndex n))"

text \<open>
  \<open>*time.Time\<close>. In \<open>nodes\<close>, a list of pointers, etcd sends no null; the model refuses one, the code would
  keep a nil pointer.
\<close>

definition dec_time :: "(bytes \<Rightarrow> bool) \<Rightarrow> bytes option decoder" where
  "dec_time time_ok old j =
     (case j of
        JNull \<Rightarrow> Dec None False
      | JStr s \<Rightarrow> if time_ok s then Dec (Some s) False else DecAbort (Errorf ''parsing time'' [s] None)
      | _ \<Rightarrow> DecAbort (Errorf ''parsing time'' [] None))"

definition dec_present :: "'a decoder \<Rightarrow> 'a decoder" where
  "dec_present d old j = (if j = JNull then DecAbort JSONTypeError else d old j)"

definition node_fields :: "(bytes \<Rightarrow> bool) \<Rightarrow> etcd_node decoder \<Rightarrow> raw_node fields" where
  "node_fields time_ok d =
     [field ''key'' nd_Key nd_Key_update dec_string,
      field ''value'' nd_Value nd_Value_update dec_string,
      field ''dir'' nd_Dir nd_Dir_update dec_bool,
      field ''expiration'' nd_Expiration nd_Expiration_update (dec_time time_ok),
      field ''ttl'' nd_TTL nd_TTL_update dec_int,
      field ''nodes'' nd_Nodes nd_Nodes_update (dec_slice (dec_present d) zero_etcd_node),
      field ''modifiedIndex'' nd_ModifiedIndex nd_ModifiedIndex_update dec_word,
      field ''createdIndex'' nd_CreatedIndex nd_CreatedIndex_update dec_word]"

text \<open>A node, with fuel for the nesting of nodes.\<close>

fun dec_node :: "(bytes \<Rightarrow> bool) \<Rightarrow> nat \<Rightarrow> etcd_node decoder" where
  "dec_node time_ok 0 old j = DecAbort JSONSyntaxError"
| "dec_node time_ok (Suc n) old j = dec_map to_node (dec_struct (node_fields time_ok (dec_node time_ok n)) (of_node old) j)"

record raw_answer =
  ra_Action :: string
  ra_Node :: "etcd_node option"
  ra_PrevNode :: "etcd_node option"
  ra_EtcdIndex :: uint64
  ra_RaftIndex :: uint64
  ra_RaftTerm :: uint64

definition answer_fields :: "etcd_node decoder \<Rightarrow> raw_answer fields" where
  "answer_fields d =
     [field ''action'' ra_Action ra_Action_update dec_string,
      field ''node'' ra_Node ra_Node_update (dec_ptr d zero_etcd_node),
      field ''prevNode'' ra_PrevNode ra_PrevNode_update (dec_ptr d zero_etcd_node),
      field ''etcdIndex'' ra_EtcdIndex ra_EtcdIndex_update dec_word,
      field ''raftIndex'' ra_RaftIndex ra_RaftIndex_update dec_word,
      field ''raftTerm'' ra_RaftTerm ra_RaftTerm_update dec_word]"

definition zero_answer :: raw_answer where
  "zero_answer = \<lparr>ra_Action = [], ra_Node = None, ra_PrevNode = None, ra_EtcdIndex = 0, ra_RaftIndex = 0, ra_RaftTerm = 0\<rparr>"

record raw_error =
  re_ErrorCode :: int
  re_Message :: string
  re_Cause :: string
  re_Index :: uint64

definition error_fields :: "raw_error fields" where
  "error_fields =
     [field ''errorCode'' re_ErrorCode re_ErrorCode_update dec_int,
      field ''message'' re_Message re_Message_update dec_string,
      field ''cause'' re_Cause re_Cause_update dec_string,
      field ''index'' re_Index re_Index_update dec_word]"

section \<open>Decoding\<close>

definition handleError :: "bytes \<Rightarrow> error" where
  "handleError b =
     (case json_Unmarshal (dec_struct error_fields) \<lparr>re_ErrorCode = 0, re_Message = [], re_Cause = [], re_Index = 0\<rparr> b of
        Ok e \<Rightarrow> EtcdError (re_ErrorCode e) (re_Message e)
      | Err err \<Rightarrow> err
      | Panic \<Rightarrow> JSONSyntaxError)"

definition Unmarshal :: "(bytes \<Rightarrow> bool) \<Rightarrow> raw_response \<Rightarrow> error + etcd_response" where
  "Unmarshal time_ok rr =
     (if rw_StatusCode rr \<noteq> 200 \<and> rw_StatusCode rr \<noteq> 201 then Inl (handleError (rw_Body rr))
      else (case json_Unmarshal (\<lambda>old j. dec_struct (answer_fields (dec_node time_ok (Suc (jdepth j)))) old j) zero_answer (rw_Body rr) of
              Ok r \<Rightarrow> Inr \<lparr>er_Action = ra_Action r, er_Node = ra_Node r, er_PrevNode = ra_PrevNode r\<rparr>
            | Err err \<Rightarrow> Inl err
            | Panic \<Rightarrow> Inl JSONSyntaxError))"

section \<open>No panic\<close>

text \<open>None of these decoders panics, so the last branch of each is never taken.\<close>

definition calm :: "'a decoder \<Rightarrow> bool" where
  "calm d \<longleftrightarrow> (\<forall>old j. d old j \<noteq> DecPanic)"

lemma dec_map_panic [simp]: "dec_map f x = DecPanic \<longleftrightarrow> x = DecPanic"
  by (cases x) auto

lemma dec_then_panic: "dec_then x f = DecPanic \<longleftrightarrow> x = DecPanic \<or> (\<exists>y e. x = Dec y e \<and> f y = DecPanic)"
  by (cases x) (auto simp: dec_then.simps(1) split: dec.splits)

lemma calm_scalars: "calm dec_string" "calm dec_bool" "calm dec_int" "calm dec_word" "calm (dec_time ok)"
  by (auto simp: calm_def dec_string_def dec_bool_def dec_int_def dec_word_def dec_time_def split: json.split option.split)

lemma calm_ptr: "calm d \<Longrightarrow> calm (dec_ptr d z)"
  by (auto simp: calm_def dec_ptr_def split: json.split)

lemma calm_present: "calm d \<Longrightarrow> calm (dec_present d)"
  by (auto simp: calm_def dec_present_def)

lemma calm_slice:
  assumes "calm d"
  shows "calm (dec_slice d z)"
proof -
  have "dec_elems d z olds js \<noteq> DecPanic" for olds js
    using assms by (induction js arbitrary: olds) (auto simp: calm_def dec_then_panic)
  then show ?thesis by (auto simp: calm_def dec_slice_def split: json.split)
qed

lemma calm_struct:
  assumes "\<forall>f \<in> set tbl. calm (snd f)"
  shows "calm (dec_struct tbl)"
proof -
  have find: "calm d" if "find_field tbl k = Some d" for k d
  proof (cases "map_of tbl k")
    case None
    then have "map_option snd (find (\<lambda>f. fold_eq (fst f) k) tbl) = Some d" using that by (simp add: find_field_def)
    then obtain f where "find (\<lambda>f. fold_eq (fst f) k) tbl = Some f" "d = snd f" by (auto simp del: split_paired_All)
    then show ?thesis using assms by (auto simp: find_Some_iff)
  next
    case (Some d')
    then show ?thesis using that assms map_of_SomeD [OF Some] by (auto simp: find_field_def)
  qed
  have "dec_members tbl r kvs \<noteq> DecPanic" for r kvs
  proof (induction kvs arbitrary: r)
    case (Cons kv kvs)
    then show ?case using find [of "fst kv"] by (cases kv) (auto simp: calm_def dec_then_panic split: option.split)
  qed simp
  then show ?thesis by (auto simp: calm_def dec_struct_def split: json.split)
qed

lemma calm_field: "calm d \<Longrightarrow> calm (snd (field name get upd d))"
  by (auto simp: calm_def field_def)

lemma calm_node: "calm (dec_node ok n)"
proof (induction n)
  case (Suc n)
  have "calm (dec_struct (node_fields ok (dec_node ok n)))"
    by (rule calm_struct) (auto simp: node_fields_def intro!: calm_field calm_scalars calm_slice calm_present Suc)
  then show ?case by (simp add: calm_def)
qed (simp add: calm_def)

lemma json_Unmarshal_calm: "(\<And>old j. d old j \<noteq> DecPanic) \<Longrightarrow> json_Unmarshal d z b \<noteq> Panic"
  by (auto simp: json_Unmarshal_def split: option.split dec.split bool.split)

lemma Unmarshal_calm:
  "json_Unmarshal (\<lambda>old j. dec_struct (answer_fields (dec_node ok (Suc (jdepth j)))) old j) zero_answer b \<noteq> Panic"
  "json_Unmarshal (dec_struct error_fields) z b \<noteq> Panic"
proof -
  have "calm (dec_struct (answer_fields (dec_node ok n)))" for n
    by (rule calm_struct) (auto simp: answer_fields_def intro!: calm_field calm_scalars calm_ptr calm_node)
  then show "json_Unmarshal (\<lambda>old j. dec_struct (answer_fields (dec_node ok (Suc (jdepth j)))) old j) zero_answer b \<noteq> Panic"
    by (intro json_Unmarshal_calm) (simp add: calm_def)
  have "calm (dec_struct error_fields)"
    by (rule calm_struct) (auto simp: error_fields_def intro!: calm_field calm_scalars)
  then show "json_Unmarshal (dec_struct error_fields) z b \<noteq> Panic"
    by (intro json_Unmarshal_calm) (simp add: calm_def)
qed

section \<open>What etcd sends\<close>

text \<open>
  The bodies of the v2 key API, as etcd documents them: the fields of a node that are empty are left out.
\<close>

fun enc_node :: "etcd_node \<Rightarrow> json" where
  "enc_node (EtcdNode key v dir ttl nodes mi ci) = JObj
     ([(''key'', JStr key)] @ (if v \<noteq> [] then [(''value'', JStr v)] else []) @ (if dir then [(''dir'', JBool True)] else []) @
      (if ttl \<noteq> 0 then [(''ttl'', enc_int ttl)] else []) @
      (if nodes \<noteq> [] then [(''nodes'', JArr (map enc_node nodes))] else []) @
      [(''modifiedIndex'', JNum (nat_digits mi)), (''createdIndex'', JNum (nat_digits ci))])"

definition enc_answer :: "etcd_response \<Rightarrow> json" where
  "enc_answer r = JObj ([(''action'', JStr (er_Action r))] @
     (case er_Node r of None \<Rightarrow> [] | Some n \<Rightarrow> [(''node'', enc_node n)]) @
     (case er_PrevNode r of None \<Rightarrow> [] | Some n \<Rightarrow> [(''prevNode'', enc_node n)]))"

definition enc_error :: "int \<Rightarrow> string \<Rightarrow> string \<Rightarrow> nat \<Rightarrow> json" where
  "enc_error code message cause index = JObj
     [(''errorCode'', enc_int code), (''message'', JStr message), (''cause'', JStr cause), (''index'', JNum (nat_digits index))]"

fun node_ok :: "etcd_node \<Rightarrow> bool" where
  "node_ok (EtcdNode key v dir ttl nodes mi ci) \<longleftrightarrow>
     ascii key \<and> ascii v \<and> int64_ok ttl \<and> mi < 2 ^ 64 \<and> ci < 2 ^ 64 \<and> (\<forall>n \<in> set nodes. node_ok n)"

definition answer_ok :: "etcd_response \<Rightarrow> bool" where
  "answer_ok r \<longleftrightarrow> ascii (er_Action r) \<and> (\<forall>n. er_Node r = Some n \<longrightarrow> node_ok n) \<and> (\<forall>n. er_PrevNode r = Some n \<longrightarrow> node_ok n)"

lemma enc_node_obj [simp]: "enc_node n \<noteq> JNull"
  by (cases n) simp

lemma dec_word_digits [simp]: "n < 2 ^ 64 \<Longrightarrow> dec_word old (JNum (nat_digits n)) = Dec (of_nat n :: 64 word) False"
  by (simp add: dec_word_def ParseUint_digits)

lemma unat_of_nat_64 [simp]: "n < 2 ^ 64 \<Longrightarrow> unat (of_nat n :: 64 word) = n"
  by (simp add: unat_of_nat take_bit_nat_eq_self)

lemma json_ok_digits [simp]: "json_ok (JNum (nat_digits n))"
  using json_ok_enc(1) [of "int n"] by (simp add: enc_int_def)

lemma json_ok_node: "node_ok n \<Longrightarrow> json_ok (enc_node n)"
  by (induction n) (auto simp: ascii_def)

lemma dec_nodes_enc:
  assumes "\<And>n. n \<in> set nodes \<Longrightarrow> d zero_etcd_node (enc_node n) = Dec n False"
  shows "dec_slice (dec_present d) zero_etcd_node None (JArr (map enc_node nodes)) = Dec (Some nodes) False"
proof -
  have "dec_elems (dec_present d) zero_etcd_node [] (map enc_node nodes) = Dec nodes False"
    using assms by (induction nodes) (auto simp: dec_present_def)
  then show ?thesis by (simp add: dec_slice_def)
qed

lemma dec_node_enc: "node_ok n \<Longrightarrow> jdepth (enc_node n) < k \<Longrightarrow> dec_node ok k zero_etcd_node (enc_node n) = Dec n False"
proof (induction n arbitrary: k)
  case (EtcdNode key v dir ttl nodes mi ci)
  obtain k' where k: "k = Suc k'" using EtcdNode.prems(2) by (cases k) auto
  have sub: "dec_slice (dec_present (dec_node ok k')) zero_etcd_node None (JArr (map enc_node nodes)) = Dec (Some nodes) False"
    if "nodes \<noteq> []"
  proof (rule dec_nodes_enc)
    fix n assume n: "n \<in> set nodes"
    have "jdepth (enc_node n) < jdepth (JArr (map enc_node nodes))" by (rule jdepth_arr) (use n in simp)
    also have "\<dots> < jdepth (enc_node (EtcdNode key v dir ttl nodes mi ci))"
      unfolding enc_node.simps by (rule jdepth_obj [of "''nodes''"]) (use that in simp)
    finally have "jdepth (enc_node n) < k'" using EtcdNode.prems(2) k by simp
    then show "dec_node ok k' zero_etcd_node (enc_node n) = Dec n False" using EtcdNode.IH [OF n] EtcdNode.prems(1) n by simp
  qed
  show ?case
    unfolding k using EtcdNode.prems(1) sub
    by (auto simp: node_fields_def table_simps of_node_def to_node_def zero_etcd_node_def)
qed

text \<open>An answer of either kind is read as what etcd put into it.\<close>

lemma Unmarshal_answer:
  assumes "answer_ok r" and "code \<in> {200, 201}"
  shows "Unmarshal ok \<lparr>rw_StatusCode = code, rw_Body = json_print (enc_answer r)\<rparr> = Inr r"
proof -
  let ?d = "\<lambda>old j. dec_struct (answer_fields (dec_node ok (Suc (jdepth j)))) old j"
  have "json_ok (enc_answer r)"
    using assms(1) by (auto simp: enc_answer_def answer_ok_def json_ok_node ascii_def split: option.split)
  moreover have "?d zero_answer (enc_answer r) = Dec (zero_answer\<lparr>ra_Action := er_Action r, ra_Node := er_Node r, ra_PrevNode := er_PrevNode r\<rparr>) False"
  proof -
    have node: "dec_node ok (Suc (jdepth (enc_answer r))) zero_etcd_node (enc_node n) = Dec n False"
      if "er_Node r = Some n \<or> er_PrevNode r = Some n" for n
    proof (rule dec_node_enc)
      show "node_ok n" using that assms(1) by (auto simp: answer_ok_def)
      have "\<exists>k. (k, enc_node n) \<in> set ([(''action'', JStr (er_Action r))] @
          (case er_Node r of None \<Rightarrow> [] | Some n \<Rightarrow> [(''node'', enc_node n)]) @
          (case er_PrevNode r of None \<Rightarrow> [] | Some n \<Rightarrow> [(''prevNode'', enc_node n)]))" using that by auto
      then show "jdepth (enc_node n) < Suc (jdepth (enc_answer r))"
        unfolding enc_answer_def using jdepth_obj less_SucI by blast
    qed
    have "dec_struct (answer_fields (dec_node ok k)) zero_answer (enc_answer r) =
        Dec (zero_answer\<lparr>ra_Action := er_Action r, ra_Node := er_Node r, ra_PrevNode := er_PrevNode r\<rparr>) False"
      if "\<And>n. er_Node r = Some n \<or> er_PrevNode r = Some n \<Longrightarrow> dec_node ok k zero_etcd_node (enc_node n) = Dec n False" for k
      unfolding enc_answer_def using that
      by (cases "er_Node r"; cases "er_PrevNode r")
        (auto simp: answer_fields_def table_simps dec_ptr_value zero_answer_def)
    then show ?thesis using node by blast
  qed
  ultimately have "json_Unmarshal ?d zero_answer (json_print (enc_answer r)) =
      Ok (zero_answer\<lparr>ra_Action := er_Action r, ra_Node := er_Node r, ra_PrevNode := er_PrevNode r\<rparr>)"
    by (rule json_Unmarshal_print)
  then show ?thesis using assms(2) by (auto simp: Unmarshal_def)
qed

lemma Unmarshal_error:
  assumes "int64_ok code" and "ascii message" and "ascii cause" and "index < 2 ^ 64" and "status \<notin> {200, 201}"
  shows "Unmarshal ok \<lparr>rw_StatusCode = status, rw_Body = json_print (enc_error code message cause index)\<rparr> = Inl (EtcdError code message)"
proof -
  let ?z = "\<lparr>re_ErrorCode = 0, re_Message = [], re_Cause = [], re_Index = 0\<rparr>"
  have "json_ok (enc_error code message cause index)" using assms by (simp add: enc_error_def ascii_def)
  moreover have "dec_struct error_fields ?z (enc_error code message cause index) =
      Dec \<lparr>re_ErrorCode = code, re_Message = message, re_Cause = cause, re_Index = of_nat index\<rparr> False"
    using assms by (simp add: enc_error_def error_fields_def table_simps)
  ultimately have "json_Unmarshal (dec_struct error_fields) ?z (json_print (enc_error code message cause index)) =
      Ok \<lparr>re_ErrorCode = code, re_Message = message, re_Cause = cause, re_Index = of_nat index\<rparr>"
    by (rule json_Unmarshal_print)
  then show ?thesis using assms(5) by (simp add: Unmarshal_def handleError_def)
qed

end
