(* ===== verification/EtcdResend.thy ===== *)
theory EtcdResend
  imports EtcdSendProofs EtcdResponse EtcdWorld
begin

text \<open>
  The adapter over the client over HTTP: what becomes of one operation of the store when its first request
  is answered, and when the answer is lost. \<open>SendRequest\<close> then sends the same request again, to another
  machine, whether or not the first one was applied.
\<close>

section \<open>One request on the wire\<close>

text \<open>The request for a machine, and the two ways the HTTP layer can come back with it.\<close>

definition wire :: "string \<Rightarrow> etcd_request \<Rightarrow> http_request" where
  "wire machine rq = \<lparr>hq_Method = rq_Method rq, hq_URL = machine @ ''/v2/'' @ rq_Path rq, hq_Params = rq_Params rq,
     hq_Form = rr_Values (NewRawRequest rq)\<rparr>"

definition answered ::
  "(bytes \<Rightarrow> bool) \<Rightarrow> 's http \<Rightarrow> http_request \<Rightarrow> 's \<Rightarrow> error + etcd_response \<Rightarrow> 's \<Rightarrow> bool" where
  "answered time_ok h hq s r s' \<longleftrightarrow> (\<exists>x b. ht_Do h hq s = Some (Done (Inr x), s') \<and>
     hr_StatusCode x \<in> validHttpStatusCode \<and> hr_Body x = Inr b \<and>
     Unmarshal time_ok \<lparr>rw_StatusCode = hr_StatusCode x, rw_Body = b\<rparr> = r)"

definition lost :: "'s http \<Rightarrow> http_request \<Rightarrow> 's \<Rightarrow> 's \<Rightarrow> bool" where
  "lost h hq s s' \<longleftrightarrow> (\<exists>e. ht_Do h hq s = Some (Done (Inl e), s'))"

text \<open>A layer that takes any URL and whose requests are not cancelled; sleeping changes nothing.\<close>

definition plain_http :: "'s http \<Rightarrow> bool" where
  "plain_http h \<longleftrightarrow> (\<forall>hq. ht_NewRequest h hq = None) \<and> (\<forall>s. ht_Cancelled h s = Some (Done False, s)) \<and>
     (\<forall>d s. ht_Sleep h d s = Some (Done (), s))"

abbreviation conn_over :: "'s http \<Rightarrow> 's conn" where
  "conn_over h \<equiv> \<lparr>cn_http = h, cn_strong = True, cn_CheckRetry = None\<rparr>"

definition etcd_transport :: "(bytes \<Rightarrow> bool) \<Rightarrow> 's http \<Rightarrow> (cluster \<times> 's) transport" where
  "etcd_transport time_ok h = http_transport (conn_over h) (Unmarshal time_ok)"

lemma send_attempt_plain:
  assumes "plain_http h"
  shows "send_attempt (conn_over h) (NewRawRequest rq) a n (cl, s) =
    (case ht_Do h (wire (cl_Leader cl) rq) s of
       None \<Rightarrow> None
     | Some (Panicked, s') \<Rightarrow> Some (Panicked, (cl, s'))
     | Some (Done answer, s') \<Rightarrow> send_answer (DefaultCheckRetry h) a (n + 1) answer (cl, s'))"
  using assms
  by (auto simp: plain_http_def send_attempt_def getHttpPath_def go_bind_def on_world_def the_cluster_def go_return_def wire_def
      NewRawRequest_def split: option.splits run.splits)

lemma send_wait_plain:
  "plain_http h \<Longrightarrow> \<exists>sl'. send_wait h a sl (cl, s) = Some (Done (Some sl'), (cl, s))"
  by (auto simp: plain_http_def send_wait_def go_bind_def on_world_def go_return_def)

text \<open>The loop on the answer to its current request.\<close>

lemma send_loop_answered:
  assumes "plain_http h" and "answered time_ok h (wire (cl_Leader cl) rq) s r s'"
  shows "\<exists>raw. send_loop (conn_over h) (NewRawRequest rq) a sl n (cl, s) = Some (Done (Inr raw), (cl, s')) \<and> Unmarshal time_ok raw = r"
proof -
  obtain sl' where w: "send_wait h a sl (cl, s) = Some (Done (Some sl'), (cl, s))" using send_wait_plain [OF assms(1)] by blast
  obtain x b where x: "ht_Do h (wire (cl_Leader cl) rq) s = Some (Done (Inr x), s')" "hr_StatusCode x \<in> validHttpStatusCode"
      "hr_Body x = Inr b" "Unmarshal time_ok \<lparr>rw_StatusCode = hr_StatusCode x, rw_Body = b\<rparr> = r"
    using assms(2) by (auto simp: answered_def)
  have "send_iteration (conn_over h) (NewRawRequest rq) a sl n (cl, s) =
      Some (Done (sl', Return (Inr \<lparr>rw_StatusCode = hr_StatusCode x, rw_Body = b\<rparr>)), (cl, s'))"
    using w x(1-3) by (simp add: send_iteration_def go_bind_def send_attempt_plain [OF assms(1)] send_answer_def go_return_def)
  then show ?thesis using x(4) by (simp add: send_loop.simps)
qed

lemma send_loop_lost:
  assumes "plain_http h" and "lost h (wire (cl_Leader cl) rq) s s'" and "cl_Machines cl \<noteq> []"
  shows "\<exists>sl'. send_loop (conn_over h) (NewRawRequest rq) a sl n (cl, s) =
    (if n + 1 \<ge> 2 * length (cl_Machines cl)
     then Some (Done (Inl (EtcdError 501 ''Tried to connect to each peer twice and failed'')), (cl, s'))
     else send_loop (conn_over h) (NewRawRequest rq) (a + 1) sl' (n + 1)
       (cl\<lparr>cl_Leader := cl_Machines cl ! (a mod length (cl_Machines cl))\<rparr>, s'))"
proof -
  obtain sl' where w: "send_wait h a sl (cl, s) = Some (Done (Some sl'), (cl, s))" using send_wait_plain [OF assms(1)] by blast
  obtain e where e: "ht_Do h (wire (cl_Leader cl) rq) s = Some (Done (Inl e), s')" using assms(2) by (auto simp: lost_def)
  have m: "a mod length (cl_Machines cl) < length (cl_Machines cl)" using assms(3) by simp
  have "send_iteration (conn_over h) (NewRawRequest rq) a sl n (cl, s) =
      (if n + 1 \<ge> 2 * length (cl_Machines cl)
       then Some (Done (sl', Return (Inl (EtcdError 501 ''Tried to connect to each peer twice and failed''))), (cl, s'))
       else Some (Done (sl', Again), (cl\<lparr>cl_Leader := cl_Machines cl ! (a mod length (cl_Machines cl))\<rparr>, s')))"
    using w e m assms(3)
    by (simp add: send_iteration_def go_bind_def send_attempt_plain [OF assms(1)] send_answer_def go_return_def
        DefaultCheckRetry_def the_cluster_def on_cluster_def switchLeader_def)
  then show ?thesis by (intro exI [of _ sl']) (simp add: send_loop.simps [of _ _ a])
qed

section \<open>One request of the client\<close>

lemma transport_answered:
  assumes "plain_http h" and "answered time_ok h (wire (cl_Leader cl) rq) s r s'"
  shows "etcd_transport time_ok h rq (cl, s) = Some (Done r, (cl, s'))"
proof -
  obtain raw where "send_loop (conn_over h) (NewRawRequest rq) 0 (25 * millisecond) 1 (cl, s) = Some (Done (Inr raw), (cl, s'))"
      "Unmarshal time_ok raw = r"
    using send_loop_answered [OF assms] by blast
  then show ?thesis by (simp add: etcd_transport_def http_transport_def SendRequest_def go_bind_def go_return_def)
qed

text \<open>With one machine a lost answer is a timeout; with more the request is sent again, to the first of them.\<close>

lemma transport_lost_single:
  assumes "plain_http h" and "lost h (wire (cl_Leader cl) rq) s s'" and "length (cl_Machines cl) = 1"
  shows "etcd_transport time_ok h rq (cl, s) =
    Some (Done (Inl (EtcdError 501 ''Tried to connect to each peer twice and failed'')), (cl, s'))"
proof -
  have ne: "cl_Machines cl \<noteq> []" using assms(3) by auto
  have "send_loop (conn_over h) (NewRawRequest rq) 0 (25 * millisecond) 1 (cl, s) =
      Some (Done (Inl (EtcdError 501 ''Tried to connect to each peer twice and failed'')), (cl, s'))"
    using send_loop_lost [OF assms(1,2) ne, of 0 "25 * millisecond" 1] assms(3) by auto
  then show ?thesis by (simp add: etcd_transport_def http_transport_def SendRequest_def go_bind_def go_return_def)
qed

lemma transport_lost_again:
  assumes "plain_http h" and "lost h (wire (cl_Leader cl) rq) s s1" and "2 \<le> length (cl_Machines cl)"
    and "answered time_ok h (wire (cl_Machines cl ! 0) rq) s1 r s2"
  shows "etcd_transport time_ok h rq (cl, s) = Some (Done r, (cl\<lparr>cl_Leader := cl_Machines cl ! 0\<rparr>, s2))"
proof -
  have ne: "cl_Machines cl \<noteq> []" using assms(3) by auto
  let ?cl = "cl\<lparr>cl_Leader := cl_Machines cl ! 0\<rparr>"
  from send_loop_lost [OF assms(1,2) ne, of 0 "25 * millisecond" 1] obtain sl' where
    first: "send_loop (conn_over h) (NewRawRequest rq) 0 (25 * millisecond) 1 (cl, s) =
      send_loop (conn_over h) (NewRawRequest rq) 1 sl' 2 (?cl, s1)"
    using assms(3) by (auto simp: numeral_2_eq_2)
  have "answered time_ok h (wire (cl_Leader ?cl) rq) s1 r s2" using assms(4) by simp
  from send_loop_answered [OF assms(1) this] obtain raw where
    "send_loop (conn_over h) (NewRawRequest rq) 1 sl' 2 (?cl, s1) = Some (Done (Inr raw), (?cl, s2))" "Unmarshal time_ok raw = r" by blast
  then show ?thesis
    unfolding etcd_transport_def http_transport_def SendRequest_def go_bind_def go_return_def first by simp
qed

section \<open>One operation of the adapter\<close>

text \<open>The layer carries the requests to a cluster that answers as \<open>T\<close> does, and loses those \<open>T\<close> does not answer.\<close>

definition carries :: "(bytes \<Rightarrow> bool) \<Rightarrow> 's http \<Rightarrow> string set \<Rightarrow> 's transport \<Rightarrow> etcd_request \<Rightarrow> 's \<Rightarrow> bool" where
  "carries time_ok h machines T rq s \<longleftrightarrow> (\<forall>m \<in> machines. \<forall>r s'. T rq s = Some (Done r, s') \<longrightarrow>
     (if unreachable r then lost h (wire m rq) s s' else answered time_ok h (wire m rq) s r s'))"

abbreviation remote :: "(bytes \<Rightarrow> bool) \<Rightarrow> 's http \<Rightarrow> (nat \<Rightarrow> nat list) \<Rightarrow> (cluster \<times> 's) etcd_adapter" where
  "remote time_ok h sched \<equiv> adapter_over (etcd_transport time_ok h) True sched"

context etcd_api
begin

text \<open>
  The only request that is lost was applied, the one sent again is refused; \<open>c\<close> is the code of the refusal.
\<close>

lemma resent:
  assumes h: "plain_http h" and m: "2 \<le> length (cl_Machines cl)" "cl_Leader cl \<in> set (cl_Machines cl)"
    and first: "send rq s = Some (Done r, s1)" "unreachable r"
    and second: "wp (send rq) (\<lambda>r s2. look s2 = look s1 \<and> refused c r) s1"
    and carried: "\<And>t. t \<in> {s, s1} \<Longrightarrow> carries time_ok h (set (cl_Machines cl)) send rq t"
    and work: "work = etcd_transport time_ok h rq" and c: "c \<in> {101, 105}"
  shows "\<exists>cl' s2. run_op (remote time_ok h sched) work (cl, s) = Some (Done (convertError (Some (EtcdError c []))), (cl', s2)) \<and>
    look s2 = look s1"
proof -
  obtain r' s2 where s2: "send rq s1 = Some (Done r', s2)" "look s2 = look s1" "refused c r'"
    using second by (auto simp: wp_iff)
  have "lost h (wire (cl_Leader cl) rq) s s1"
    using carried [of s, simplified, unfolded carries_def, rule_format, OF m(2) first(1)] first(2) by simp
  moreover have "cl_Machines cl ! 0 \<in> set (cl_Machines cl)" using m(1) by (intro nth_mem) linarith
  then have "answered time_ok h (wire (cl_Machines cl ! 0) rq) s1 r' s2"
    using carried [of s1, simplified, unfolded carries_def, rule_format, OF _ s2(1)] refused_not [OF s2(3)] by simp
  ultimately have "work (cl, s) = Some (Done r', (cl\<lparr>cl_Leader := cl_Machines cl ! 0\<rparr>, s2))"
    using transport_lost_again [OF h _ m(1)] work by blast
  then show ?thesis
    using s2(2,3) c by (auto simp: run_op_def schedule_def adapter_over_def go_bind_def go_return_def refused_def convertError_def)
qed

lemma resent_create:
  assumes "inv s" and "clean es" and "slack s = 1"
    and h: "plain_http h" and m: "2 \<le> length (cl_Machines cl)" "cl_Leader cl \<in> set (cl_Machines cl)"
    and carried: "\<And>t. t \<in> {s, s1} \<Longrightarrow>
      carries time_ok h (set (cl_Machines cl)) send (rput es [(''prevExist'', ''false'')] v ttl) t"
    and first: "send (rput es [(''prevExist'', ''false'')] v ttl) s = Some (Done r, s1)" "unreachable r" "look s1 \<noteq> look s"
  shows "\<exists>cl' s2 i. ea_Create (remote time_ok h sched) (leaf_node (abs_path es) v ttl) (cl, s) =
      Some (Done (Some ErrorKeyExists), (cl', s2)) \<and> look s es = None \<and> look s2 es = Some (LeafE v i)"
proof -
  let ?rq = "rput es [(''prevExist'', ''false'')] v ttl"
  obtain i where s1: "inv s1" "slack s1 = 0" "creatable (look s) es" "look s1 = put_path (look s) es v i"
    using api_create [OF assms(1,2), of v ttl] first assms(3) by (auto simp: wp_iff)
  have here: "look s1 es = Some (LeafE v i)" using s1(4) by (simp add: put_path_def)
  have second: "wp (send ?rq) (\<lambda>r s2. look s2 = look s1 \<and> refused 105 r) s1"
    by (rule wp_mono [OF api_create [OF s1(1) assms(2)]]) (use s1(2) here in \<open>auto simp: creatable_def split: if_splits\<close>)
  have req: "client_Create \<lparr>ec_send = etcd_transport time_ok h, ec_strong = True\<rparr> (abs_path es) v ttl = etcd_transport time_ok h ?rq"
    by (simp add: client_requests keyToPath_abs [OF assms(2)])
  obtain cl' s2 where "run_op (remote time_ok h sched) (etcd_transport time_ok h ?rq) (cl, s) =
      Some (Done (convertError (Some (EtcdError 105 []))), (cl', s2))" "look s2 = look s1"
    using resent [OF h m first(1,2) second carried refl, where sched = sched] by blast
  then show ?thesis
    using here s1(3) unfolding ea_Create_def adapter_over_simps leaf_node_def store_node.sel req
    by (auto simp: convertError_def creatable_def)
qed

lemma resent_swap:
  assumes "inv s" and "clean es" and "slack s = 1" and "look s es = Some (LeafE old idx)"
    and h: "plain_http h" and m: "2 \<le> length (cl_Machines cl)" "cl_Leader cl \<in> set (cl_Machines cl)"
    and carried: "\<And>t. t \<in> {s, s1} \<Longrightarrow>
      carries time_ok h (set (cl_Machines cl)) send (rput es [(''prevIndex'', nat_digits idx)] v ttl) t"
    and first: "send (rput es [(''prevIndex'', nat_digits idx)] v ttl) s = Some (Done r, s1)" "unreachable r" "look s1 \<noteq> look s"
  shows "\<exists>cl' s2 i. ea_CompareAndSwapByIndex (remote time_ok h sched) idx (leaf_node (abs_path es) v ttl) (cl, s) =
      Some (Done (Some ErrorKeyComparisonFailed), (cl', s2)) \<and> look s2 es = Some (LeafE v i)"
proof -
  let ?rq = "rput es [(''prevIndex'', nat_digits idx)] v ttl"
  have idx: "0 < idx" "idx \<le> tick s" using api_tick [OF assms(1,4)] by auto
  obtain i where s1: "inv s1" "slack s1 = 0" "tick s < i" "look s1 = put_path (look s) es v i"
    using api_swap [OF assms(1,2), where ps = "[(''prevIndex'', nat_digits idx)]" and idx = idx and M = "\<lambda>cur j. j = idx"
      and v = v and ttl = ttl] first assms(3,4) idx(1)
    by (auto simp: wp_iff Let_def)
  have here: "look s1 es = Some (LeafE v i)" using s1(4) by (simp add: put_path_def)
  have second: "wp (send ?rq) (\<lambda>r s2. look s2 = look s1 \<and> refused 101 r) s1"
    by (rule wp_mono [OF api_swap [OF s1(1) assms(2), where ps = "[(''prevIndex'', nat_digits idx)]" and idx = idx and M = "\<lambda>cur j. j = idx"
      and v = v and ttl = ttl]])
      (use s1(2,3) here idx in \<open>auto simp: is_leaf_def split: if_splits\<close>)
  have req: "client_CompareAndSwap \<lparr>ec_send = etcd_transport time_ok h, ec_strong = True\<rparr> (abs_path es) v ttl [] idx = etcd_transport time_ok h ?rq"
    using idx(1) by (simp add: client_prev_requests keyToPath_abs [OF assms(2)])
  obtain cl' s2 where "run_op (remote time_ok h sched) (etcd_transport time_ok h ?rq) (cl, s) =
      Some (Done (convertError (Some (EtcdError 101 []))), (cl', s2))" "look s2 = look s1"
    using resent [OF h m first(1,2) second carried refl, where sched = sched] by blast
  then show ?thesis
    using here unfolding ea_CompareAndSwapByIndex_def adapter_over_simps leaf_node_def store_node.sel req
    by (auto simp: convertError_def)
qed

end

end
