(* ===== verification/EtcdRemote.thy ===== *)
theory EtcdRemote
  imports EtcdResend
begin

text \<open>
  The properties of the client over HTTP, and an HTTP layer in front of the cluster of \<open>EtcdServer\<close> on which
  they are applied.
\<close>

section \<open>A cluster behind HTTP\<close>

text \<open>The machines of the examples have names of one letter; all of them answer for the same tree.\<close>

definition unwire :: "http_request \<Rightarrow> etcd_request" where
  "unwire hq = \<lparr>rq_Method = hq_Method hq, rq_Path = drop 5 (hq_URL hq), rq_Params = hq_Params hq,
     rq_Values = (case hq_Form hq of None \<Rightarrow> [] | Some vs \<Rightarrow> vs)\<rparr>"

fun http_answer :: "error + etcd_response \<Rightarrow> error + http_response" where
  "http_answer (Inr r) = Inr \<lparr>hr_StatusCode = 200, hr_Body = Inr (json_print (enc_answer r)), hr_Location = Inl (Errorf ''no location'' [] None)\<rparr>"
| "http_answer (Inl e) = (case e of
     EtcdError c m \<Rightarrow> (if c = 501 then Inl (Errorf ''EOF'' [] None)
       else Inr \<lparr>hr_StatusCode = 404, hr_Body = Inr (json_print (enc_error c m [] 0)), hr_Location = Inl (Errorf ''no location'' [] None)\<rparr>)
   | _ \<Rightarrow> Inl e)"

definition http_server :: "etcd_server http" where
  "http_server = \<lparr>ht_NewRequest = (\<lambda>_. None),
     ht_Do = (\<lambda>hq s. case srv_send (unwire hq) s of None \<Rightarrow> None | Some (Panicked, s') \<Rightarrow> Some (Panicked, s')
       | Some (Done r, s') \<Rightarrow> Some (Done (http_answer r), s')),
     ht_Sleep = (\<lambda>_. go_return ()), ht_Intn = (\<lambda>_. go_return 0), ht_Cancelled = go_return False\<rparr>"

lemma plain_http_server [simp]: "plain_http http_server"
  by (simp add: plain_http_def http_server_def go_return_def)

definition reply_ok :: "error + etcd_response \<Rightarrow> bool" where
  "reply_ok r \<longleftrightarrow> (case r of Inr x \<Rightarrow> answer_ok x | Inl e \<Rightarrow> \<exists>c m. e = EtcdError c m \<and> int64_ok c \<and> ascii m)"

lemma server_carries:
  assumes "\<forall>m \<in> ms. length m = 1" and "rq_Method rq \<in> set [''GET'', ''DELETE''] \<longrightarrow> rq_Values rq = []"
    and "\<And>r s'. srv_send rq s = Some (Done r, s') \<Longrightarrow> reply_ok r"
  shows "carries time_ok http_server ms srv_send rq s"
proof -
  have un: "unwire (wire m rq) = rq" if "m \<in> ms" for m
    using assms(1,2) that by (cases rq) (auto simp: unwire_def wire_def NewRawRequest_def)
  have "if unreachable r then lost http_server (wire m rq) s s' else answered time_ok http_server (wire m rq) s r s'"
    if "m \<in> ms" and r: "srv_send rq s = Some (Done r, s')" for m r s'
  proof (cases r)
    case (Inr x)
    have "Unmarshal time_ok \<lparr>rw_StatusCode = 200, rw_Body = json_print (enc_answer x)\<rparr> = r"
      using Unmarshal_answer [of x 200 time_ok] assms(3) [OF r] Inr by (simp add: reply_ok_def)
    then show ?thesis
      using Inr r by (auto simp: unreachable_def answered_def http_server_def un [OF that(1)] validHttpStatusCode_def)
  next
    case (Inl e)
    then obtain c m' where e: "e = EtcdError c m'" "int64_ok c" "ascii m'" using assms(3) [OF r] by (auto simp: reply_ok_def)
    have "Unmarshal time_ok \<lparr>rw_StatusCode = 404, rw_Body = json_print (enc_error c m' [] 0)\<rparr> = r"
      using Unmarshal_error [of c m' "[]" 0 404 time_ok] e Inl by simp
    then show ?thesis
      using Inl e r by (auto simp: unreachable_def lost_def answered_def http_server_def un [OF that(1)] validHttpStatusCode_def)
  qed
  then show ?thesis by (auto simp: carries_def)
qed

section \<open>Answers\<close>

text \<open>
  C33 -- The body of an answer is read as what etcd put into it: a response with its nodes, however deeply
  nested, and an error with its code and its message. No body whatever makes the reader panic.
\<close>

theorem answers_decoded:
  assumes "answer_ok r" and "code \<in> {200, 201}"
    and "int64_ok c" and "ascii message" and "ascii cause" and "index < 2 ^ 64" and "status \<notin> {200, 201}"
  shows "Unmarshal time_ok \<lparr>rw_StatusCode = code, rw_Body = json_print (enc_answer r)\<rparr> = Inr r \<and>
    Unmarshal time_ok \<lparr>rw_StatusCode = status, rw_Body = json_print (enc_error c message cause index)\<rparr> = Inl (EtcdError c message) \<and>
    json_Unmarshal (\<lambda>old j. dec_struct (answer_fields (dec_node time_ok (Suc (jdepth j)))) old j) zero_answer b \<noteq> Panic"
  using Unmarshal_answer [OF assms(1,2)] Unmarshal_error [OF assms(3-7)] Unmarshal_calm(1) by blast

definition ex_answer :: etcd_response where
  "ex_answer = \<lparr>er_Action = ''get'', er_Node = Some (EtcdNode ''/d'' [] True 0
     [EtcdNode ''/d/a'' ''x'' False 5 [] 7 7, EtcdNode ''/d/b'' ''y'' False 0 [] 9 8] 3 3), er_PrevNode = None\<rparr>"

theorem answers_decoded_witness:
  "Unmarshal (\<lambda>_. False) \<lparr>rw_StatusCode = 200, rw_Body = json_print (enc_answer ex_answer)\<rparr> = Inr ex_answer"
  by (rule conjunct1 [OF answers_decoded [where c = 100 and message = "[]" and cause = "[]" and index = 0 and status = 404]])
    (simp_all add: ex_answer_def answer_ok_def ascii_def int64_ok_def)

section \<open>Requests\<close>


text \<open>The request that creates \<open>/k\<close> on an empty tree whose first answer is lost.\<close>

definition ex_server :: etcd_server where
  "ex_server = \<lparr>es_tree = [([], DirE)], es_index = 1, es_faults = [LostAnswer]\<rparr>"

definition ex_created :: etcd_server where
  "ex_created = \<lparr>es_tree = srv_put [([], DirE)] [''k''] ''x'' 2, es_index = 2, es_faults = []\<rparr>"

definition ex_create :: etcd_request where
  "ex_create = rput [''k''] [(''prevExist'', ''false'')] ''x'' 0"

lemma ex_create_method [simp]: "rq_Method ex_create = ''PUT''"
  by (simp add: ex_create_def)

lemma ex_clean [simp]: "clean [''k'']"
  by (simp add: clean_def key_elem_def simple_elem_def)

lemma ex_create_answers:
  "srv_send ex_create ex_server = Some (Done (Inl (EtcdError 501 [])), ex_created)"
  "srv_send ex_create ex_created = Some (Done (Inl (EtcdError 105 [])), ex_created)"
proof -
  have "request_path ex_create = [''k'']" unfolding ex_create_def by (rule request_path_keys) simp
  moreover have "rq_Params ex_create = [(''prevExist'', ''false'')]" "rq_Values ex_create = [(''value'', ''x'')]"
    by (simp_all add: ex_create_def buildValues_def)
  ultimately show "srv_send ex_create ex_server = Some (Done (Inl (EtcdError 501 [])), ex_created)"
    "srv_send ex_create ex_created = Some (Done (Inl (EtcdError 105 [])), ex_created)"
    by (simp_all add: srv_send_def ex_server_def ex_created_def srv_answer_def srv_put_request_def put_on_def
        srv_leaf_above_def srv_write_def put_path_def Let_def numeral_2_eq_2)
qed

lemma ex_carried: "t \<in> {ex_server, ex_created} \<Longrightarrow> carries time_ok http_server (set [''a'', ''b'']) srv_send ex_create t"
  by (rule server_carries) (auto simp: ex_create_answers reply_ok_def int64_ok_def ascii_def)


text \<open>
  C35 -- A write can be reported as refused although it was applied. When the client knows several machines
  and only the answer to the first request is lost, \<open>Create\<close> returns \<open>ErrorKeyExists\<close> for the very node it has
  created, and \<open>CompareAndSwapByIndex\<close>, with which tasks are claimed, returns \<open>ErrorKeyComparisonFailed\<close> for a
  swap that took place.
\<close>

theorem applied_but_refused:
  fixes inv :: "'s \<Rightarrow> bool"
  assumes "etcd_api T inv look slack tick" and "inv s" and "clean es" and "slack s = 1"
    and "plain_http h" and "2 \<le> length (cl_Machines cl)" and "cl_Leader cl \<in> set (cl_Machines cl)"
    and "rq \<in> {rput es [(''prevExist'', ''false'')] v ttl, rput es [(''prevIndex'', nat_digits idx)] v ttl}"
    and "T rq s = Some (Done r, s1)" and "unreachable r" and "look s1 \<noteq> look s"
    and "\<forall>t \<in> {s, s1}. carries time_ok h (set (cl_Machines cl)) T rq t"
  shows "(rq = rput es [(''prevExist'', ''false'')] v ttl \<longrightarrow>
      (\<exists>cl' s2 i. ea_Create (remote time_ok h sched) (leaf_node (abs_path es) v ttl) (cl, s) =
        Some (Done (Some ErrorKeyExists), (cl', s2)) \<and> look s es = None \<and> look s2 es = Some (LeafE v i))) \<and>
    (rq = rput es [(''prevIndex'', nat_digits idx)] v ttl \<and> look s es = Some (LeafE old idx) \<longrightarrow>
      (\<exists>cl' s2 i. ea_CompareAndSwapByIndex (remote time_ok h sched) idx (leaf_node (abs_path es) v ttl) (cl, s) =
        Some (Done (Some ErrorKeyComparisonFailed), (cl', s2)) \<and> look s2 es = Some (LeafE v i)))"
  using etcd_api.resent_create [OF assms(1-7) _ _ assms(10,11)] etcd_api.resent_swap [OF assms(1-4) _ assms(5-7) _ _ assms(10,11)]
    assms(9,12) by blast

theorem applied_but_refused_witness:
  "\<exists>cl' s2 i. ea_Create (remote (\<lambda>_. False) http_server (\<lambda>n. [0..<n])) (leaf_node (abs_path [''k'']) ''x'' 0)
      (NewCluster [''a'', ''b''], ex_server) = Some (Done (Some ErrorKeyExists), (cl', s2)) \<and>
     srv_look ex_server [''k''] = None \<and> srv_look s2 [''k''] = Some (LeafE ''x'' i)"
proof -
  have "srv_inv ex_server" by (auto simp: srv_inv_def ex_server_def tree_ok_def strict_prefix_def)
  moreover have "srv_look ex_created \<noteq> srv_look ex_server"
    by (auto simp: srv_look_def ex_created_def ex_server_def put_path_def fun_eq_iff intro: exI [of _ "[''k'']"])
  moreover have "srv_slack ex_server = 1" by (simp add: srv_slack_def ex_server_def)
  ultimately show ?thesis
    using applied_but_refused [OF srv.etcd_api_axioms, of ex_server "[''k'']" http_server "NewCluster [''a'', ''b'']" ex_create
        "''x''" 0 0 "Inl (EtcdError 501 [])" ex_created "\<lambda>_. False" "\<lambda>n. [0..<n]"] ex_carried [of _ "\<lambda>_. False"]
    by (simp add: ex_create_answers NewCluster_def unreachable_def ex_create_def [symmetric] del: append.simps)
qed

end
