(* ===== verification/Lager.thy ===== *)
theory Lager
  imports JsonCodec "HOL-Library.AList" "HOL-Library.Char_ord" "HOL-Library.List_Lexorder"
begin

text \<open>
  pivotal-golang/lager and cf-lager, through which the app manager logs: loggers with their sessions, the JSON
  lines they print and the sink that writes them. A map that is passed with a call is a value here: every
  caller in the repository passes a fresh literal, which \<open>baseData\<close> then fills in place. The text of the
  current time and the trace of the stack are arguments.
\<close>

section \<open>Levels and data (models.go)\<close>

datatype log_level = DEBUG | INFO | ERROR | FATAL

primrec level_num :: "log_level \<Rightarrow> nat" where
  "level_num DEBUG = 0"
| "level_num INFO = 1"
| "level_num ERROR = 2"
| "level_num FATAL = 3"

lemma level_num_inject: "level_num a = level_num b \<longleftrightarrow> a = b"
  by (cases a; cases b) simp_all

instantiation log_level :: linorder
begin

definition less_eq_log_level :: "log_level \<Rightarrow> log_level \<Rightarrow> bool" where
  "less_eq_log_level a b \<longleftrightarrow> level_num a \<le> level_num b"

definition less_log_level :: "log_level \<Rightarrow> log_level \<Rightarrow> bool" where
  "less_log_level a b \<longleftrightarrow> level_num a < level_num b"

instance
  by standard (auto simp: less_eq_log_level_def less_log_level_def level_num_inject [symmetric])

end

text \<open>
  \<open>Data\<close>: a map from strings to any values, or nil; a value is its JSON, or nothing when it cannot be
  marshalled. Writing to a nil map panics.
\<close>

type_synonym log_data = "(string \<times> json option) list"

definition data_put :: "string \<Rightarrow> json option \<Rightarrow> log_data option \<Rightarrow> log_data option outcome" where
  "data_put k v d = (case d of None \<Rightarrow> Panic | Some kvs \<Rightarrow> Ok (Some (AList.update k v kvs)))"

fun data_put_all :: "log_data \<Rightarrow> log_data option \<Rightarrow> log_data option outcome" where
  "data_put_all [] d = Ok d"
| "data_put_all ((k, v) # kvs) d = outcome_bind (data_put k v d) (data_put_all kvs)"

record log_format =
  lf_Timestamp :: string
  lf_Source :: string
  lf_Message :: string
  lf_LogLevel :: log_level
  lf_Data :: "log_data option"

text \<open>\<open>encoding/json\<close> prints a map in the order of its keys, and nil as \<open>null\<close>.\<close>

fun marshal_members :: "log_data \<Rightarrow> (string \<times> json) list option" where
  "marshal_members [] = Some []"
| "marshal_members ((k, v) # kvs) =
     (case (v, marshal_members kvs) of (Some j, Some js) \<Rightarrow> Some ((k, j) # js) | _ \<Rightarrow> None)"

definition marshal_data :: "log_data option \<Rightarrow> json option" where
  "marshal_data d =
     (case d of None \<Rightarrow> Some JNull | Some kvs \<Rightarrow> map_option JObj (marshal_members (sort_key fst kvs)))"

definition log_json :: "log_format \<Rightarrow> json \<Rightarrow> json" where
  "log_json f d = JObj
     [(''timestamp'', JStr (lf_Timestamp f)), (''source'', JStr (lf_Source f)), (''message'', JStr (lf_Message f)),
      (''log_level'', enc_int (int (level_num (lf_LogLevel f)))), (''data'', d)]"

definition LogFormat_ToJSON :: "log_format \<Rightarrow> bytes option" where
  "LogFormat_ToJSON f = map_option (\<lambda>d. json_print (log_json f d)) (marshal_data (lf_Data f))"

section \<open>Sinks (writer_sink.go)\<close>

type_synonym 's sink = "log_level \<Rightarrow> bytes \<Rightarrow> ('s, unit) go"

abbreviation newline :: char where "newline \<equiv> CHR 0x0A"

text \<open>The lock makes the two writes of a line one; the results of \<open>Write\<close> are ignored.\<close>

definition NewWriterSink :: "(bytes \<Rightarrow> ('s, unit) go) \<Rightarrow> log_level \<Rightarrow> 's sink" where
  "NewWriterSink writer minLogLevel = (\<lambda>level log.
     if level < minLogLevel then go_return ()
     else go_bind (writer log) (\<lambda>_. writer [newline]))"

section \<open>Loggers (logger.go)\<close>

record 's logger =
  l_component :: string
  l_task :: string
  l_sinks :: "'s sink list"
  l_sessionID :: string
  l_nextSession :: uint64
  l_data :: "log_data option"

definition NewLogger :: "string \<Rightarrow> 's logger" where
  "NewLogger component =
     \<lparr>l_component = component, l_task = component, l_sinks = [], l_sessionID = [], l_nextSession = 0, l_data = Some []\<rparr>"

definition RegisterSink :: "'s logger \<Rightarrow> 's sink \<Rightarrow> 's logger" where
  "RegisterSink l sink = l\<lparr>l_sinks := l_sinks l @ [sink]\<rparr>"

definition baseData :: "'s logger \<Rightarrow> log_data option list \<Rightarrow> log_data option outcome" where
  "baseData l givenData =
     (let d = (case givenData of [] \<Rightarrow> Some [] | g # _ \<Rightarrow> g) in
      outcome_bind (data_put_all (slice_elems (l_data l)) d) (\<lambda>d.
        if l_sessionID l \<noteq> [] then data_put ''session'' (Some (JStr (l_sessionID l))) d else Ok d))"

text \<open>The new logger, and the one it is derived from with its counter moved.\<close>

definition Session :: "'s logger \<Rightarrow> string \<Rightarrow> log_data option list \<Rightarrow> ('s logger \<times> 's logger) outcome" where
  "Session l task givenData =
     (let sid = l_nextSession l + 1;
          sessionIDstr = (if l_sessionID l \<noteq> [] then l_sessionID l @ ''.'' @ nat_digits (unat sid) else nat_digits (unat sid))
      in outcome_bind (baseData l givenData) (\<lambda>d. Ok
           (\<lparr>l_component = l_component l, l_task = l_task l @ ''.'' @ task, l_sinks = l_sinks l,
             l_sessionID = sessionIDstr, l_nextSession = 0, l_data = d\<rparr>,
            l\<lparr>l_nextSession := sid\<rparr>)))"

text \<open>The end of every call that logs: the record goes to each sink.\<close>

definition log_to_sinks :: "'s logger \<Rightarrow> log_level \<Rightarrow> log_format \<Rightarrow> ('s, unit) go" where
  "log_to_sinks l level log =
     go_for (l_sinks l) (\<lambda>sink. go_bind (go_must (LogFormat_ToJSON log)) (sink level))"

definition log_record :: "'s logger \<Rightarrow> log_level \<Rightarrow> string \<Rightarrow> string \<Rightarrow> log_data option \<Rightarrow> log_format" where
  "log_record l level now action d =
     \<lparr>lf_Timestamp = now, lf_Source = l_component l, lf_Message = l_task l @ ''.'' @ action, lf_LogLevel = level, lf_Data = d\<rparr>"

definition outcome_or_panic :: "'a outcome \<Rightarrow> ('s, 'a) go" where
  "outcome_or_panic r = (case r of Ok x \<Rightarrow> go_return x | _ \<Rightarrow> go_panic)"

definition Debug :: "'s logger \<Rightarrow> string \<Rightarrow> string \<Rightarrow> log_data option list \<Rightarrow> ('s, unit) go" where
  "Debug l now action givenData =
     go_bind (outcome_or_panic (baseData l givenData)) (\<lambda>d. log_to_sinks l DEBUG (log_record l DEBUG now action d))"

definition Info :: "'s logger \<Rightarrow> string \<Rightarrow> string \<Rightarrow> log_data option list \<Rightarrow> ('s, unit) go" where
  "Info l now action givenData =
     go_bind (outcome_or_panic (baseData l givenData)) (\<lambda>d. log_to_sinks l INFO (log_record l INFO now action d))"

text \<open>The error is given by its text; \<open>None\<close> is nil.\<close>

definition put_error :: "string option \<Rightarrow> log_data option \<Rightarrow> log_data option outcome" where
  "put_error err d = (case err of None \<Rightarrow> Ok d | Some e \<Rightarrow> data_put ''error'' (Some (JStr e)) d)"

definition Error :: "'s logger \<Rightarrow> string \<Rightarrow> string \<Rightarrow> string option \<Rightarrow> log_data option list \<Rightarrow> ('s, unit) go" where
  "Error l now action err givenData =
     go_bind (outcome_or_panic (outcome_bind (baseData l givenData) (put_error err)))
       (\<lambda>d. log_to_sinks l ERROR (log_record l ERROR now action d))"

definition Fatal :: "'s logger \<Rightarrow> string \<Rightarrow> string \<Rightarrow> string \<Rightarrow> string option \<Rightarrow> log_data option list \<Rightarrow> ('s, unit) go" where
  "Fatal l now stackTrace action err givenData =
     go_bind (outcome_or_panic (outcome_bind (outcome_bind (baseData l givenData) (put_error err))
         (data_put ''trace'' (Some (JStr stackTrace)))))
       (\<lambda>d. go_bind (log_to_sinks l FATAL (log_record l FATAL now action d)) (\<lambda>_. go_panic))"

section \<open>The loggers of the app manager (cf_lager.go)\<close>

text \<open>Standard output, as the bytes written to it.\<close>

definition Stdout_Write :: "bytes \<Rightarrow> (bytes, unit) go" where
  "Stdout_Write b out = Some (Done (), out @ b)"

definition parse_level :: "string \<Rightarrow> log_level option" where
  "parse_level s =
     (if s = ''debug'' then Some DEBUG else if s = ''info'' then Some INFO
      else if s = ''error'' then Some ERROR else if s = ''fatal'' then Some FATAL else None)"

text \<open>\<open>None\<close> is the panic on an unknown level; the flag \<open>logLevel\<close> is an argument.\<close>

definition cf_lager_New :: "string \<Rightarrow> string \<Rightarrow> bytes logger option" where
  "cf_lager_New minLogLevel component =
     map_option (\<lambda>level. RegisterSink (NewLogger component) (NewWriterSink Stdout_Write level)) (parse_level minLogLevel)"

end
