(* ===== verification/LagerProofs.thy ===== *)
theory LagerProofs
  imports Lager JsonRoundtrip
begin

text \<open>
  What the log of the app manager says: every call writes one line or none, the line reads back as the record,
  and the session in it names the logger that wrote it.
\<close>

section \<open>Lines\<close>

lemma newline_digit: "newline \<notin> set (nat_digits n)"
  by (rule nat_digits_notin) (simp add: digit_char_def)

lemma newline_hex: "d < 16 \<Longrightarrow> hex_char d \<noteq> newline"
proof
  assume "d < 16" and "hex_char d = newline"
  then have "(of_char (hex_char d) :: nat) = 10" by simp
  with \<open>d < 16\<close> show False by (auto simp: hex_char_def digit_char_def split: if_splits)
qed

lemma newline_escape: "bval c < 128 \<Longrightarrow> newline \<notin> set (escape_ascii c)"
proof -
  assume "bval c < 128"
  then have "bval c div 16 < 16" "bval c mod 16 < 16" by auto
  from this [THEN newline_hex] show ?thesis by (auto simp: escape_ascii_def)
qed

lemma newline_quote: "ascii s \<Longrightarrow> newline \<notin> set (json_quote s)"
proof -
  have "newline \<notin> set (escape_body 0 0 s)" if "ascii s"
    using that by (induction s) (auto dest: newline_escape)
  then show "ascii s \<Longrightarrow> ?thesis" by (simp add: json_quote_def)
qed

lemma set_strings_Join: "set (strings_Join sep xs) \<subseteq> set sep \<union> (\<Union>x \<in> set xs. set x)"
  by (induction sep xs rule: strings_Join.induct) auto

lemma newline_digits: "newline \<notin> set (takeWhile is_digit s)"
  by (auto dest: set_takeWhileD simp: is_digit_def)

lemma newline_no_digit: "\<not> is_digit newline"
  by (simp add: is_digit_def)

lemma newline_scan:
  "scan_exp s = Some (l, r) \<Longrightarrow> newline \<notin> set l"
  "scan_frac s = Some (l, r) \<Longrightarrow> newline \<notin> set l"
  "scan_nat s = Some (l, r) \<Longrightarrow> newline \<notin> set l"
  "scan_number s = Some (l, r) \<Longrightarrow> newline \<notin> set l"
proof -
  show e: "newline \<notin> set l" if "scan_exp s = Some (l, r)" for s l r
    using that newline_digits by (auto simp: scan_exp_def Let_def newline_no_digit split: list.splits if_splits)
  show f: "newline \<notin> set l" if "scan_frac s = Some (l, r)" for s l r
    using that newline_digits by (auto simp: scan_frac_def Let_def newline_no_digit prepend_Some split: list.splits if_splits dest: e)
  show n: "newline \<notin> set l" if "scan_nat s = Some (l, r)" for s l r
    using that newline_digits by (auto simp: scan_nat_def prepend_Some newline_no_digit split: list.splits if_splits dest: f)
  show "newline \<notin> set l" if "scan_number s = Some (l, r)" for s l r
    using that by (auto simp: scan_number_def prepend_Some split: list.splits if_splits dest: n)
qed

lemma newline_print: "json_ok j \<Longrightarrow> newline \<notin> set (json_print j)"
proof (induction j rule: json_print.induct)
  case (5 js)
  then show ?case using set_strings_Join [of "'',''" "map json_print js"] by auto
next
  case (6 kvs)
  let ?m = "\<lambda>kv. json_quote (fst kv) @ CHR '':'' # json_print (snd kv)"
  from 6 have "\<forall>kv \<in> set kvs. newline \<notin> set (?m kv)" by (auto simp: newline_quote)
  then show ?case using set_strings_Join [of "'',''" "map ?m kvs"] by (auto split: if_splits)
qed (auto simp: newline_quote number_lit_def dest: newline_scan)

section \<open>Data\<close>

definition data_ok :: "log_data \<Rightarrow> bool" where
  "data_ok d \<longleftrightarrow> distinct (map fst d) \<and> (\<forall>(k, v) \<in> set d. ascii k \<and> (\<exists>j. v = Some j \<and> json_ok j))"

text \<open>What a call passes: nothing, or maps that are not nil and can be printed.\<close>

definition given_ok :: "log_data option list \<Rightarrow> bool" where
  "given_ok gs \<longleftrightarrow> (\<forall>g \<in> set gs. \<exists>d. g = Some d \<and> data_ok d)"

definition given_map :: "log_data option list \<Rightarrow> string \<rightharpoonup> json option" where
  "given_map gs = (case gs of [] \<Rightarrow> Map.empty | g # _ \<Rightarrow> map_of (slice_elems g))"

lemma data_ok_update: "data_ok d \<Longrightarrow> ascii k \<Longrightarrow> json_ok j \<Longrightarrow> data_ok (AList.update k (Some j) d)"
proof -
  assume d: "data_ok d" and k: "ascii k" "json_ok j"
  have "set (AList.update k (Some j) d) \<subseteq> insert (k, Some j) (set d)" by (induction d) auto
  with d k show ?thesis unfolding data_ok_def by (auto intro: distinct_update)
qed

lemma data_put_ok:
  assumes "data_ok d" and "ascii k" and "json_ok j"
  obtains d' where "data_put k (Some j) (Some d) = Ok (Some d')" and "data_ok d'" and "map_of d' = (map_of d)(k \<mapsto> Some j)"
  using assms that data_ok_update [OF assms] by (simp add: data_put_def update_conv')

lemma data_put_all_ok:
  assumes "data_ok d" and "\<forall>(k, v) \<in> set kvs. ascii k \<and> (\<exists>j. v = Some j \<and> json_ok j)" and "distinct (map fst kvs)"
  obtains d' where "data_put_all kvs (Some d) = Ok (Some d')" and "data_ok d'" and "map_of d' = map_of d ++ map_of kvs"
  using assms
proof (induction kvs arbitrary: d thesis)
  case Nil
  then show ?case by simp
next
  case (Cons kv kvs)
  obtain k j where kv: "kv = (k, Some j)" and j: "ascii k" "json_ok j" using Cons.prems(3) by (cases kv) auto
  obtain d1 where d1: "data_put k (Some j) (Some d) = Ok (Some d1)" "data_ok d1" "map_of d1 = (map_of d)(k \<mapsto> Some j)"
    using Cons.prems(2) j by (rule data_put_ok)
  obtain d2 where d2: "data_put_all kvs (Some d1) = Ok (Some d2)" "data_ok d2" "map_of d2 = map_of d1 ++ map_of kvs"
    using Cons.IH [of d1] d1(2) Cons.prems(3,4) by auto
  have "k \<notin> dom (map_of kvs)" using Cons.prems(4) by (simp add: kv dom_map_of_conv_image_fst)
  then have "map_of d2 = map_of d ++ map_of (kv # kvs)"
    by (auto simp: d2(3) d1(3) kv map_add_def fun_eq_iff split: option.splits)
  from Cons.prems(1) [OF _ d2(2) this] show ?case by (simp add: kv d1(1) d2(1))
qed

text \<open>The fields that \<open>baseData\<close> promises.\<close>

definition base_fields :: "'s logger \<Rightarrow> log_data option list \<Rightarrow> string \<rightharpoonup> json option" where
  "base_fields l gs =
     (let m = given_map gs ++ map_of (slice_elems (l_data l))
      in if l_sessionID l = [] then m else m(''session'' \<mapsto> Some (JStr (l_sessionID l))))"

definition logger_ok :: "'s logger \<Rightarrow> bool" where
  "logger_ok l \<longleftrightarrow> ascii (l_component l) \<and> ascii (l_task l) \<and> ascii (l_sessionID l) \<and> (\<exists>d. l_data l = Some d \<and> data_ok d)"

lemma baseData_ok:
  assumes "logger_ok l" and "given_ok gs"
  obtains d where "baseData l gs = Ok (Some d)" and "data_ok d" and "map_of d = base_fields l gs"
proof -
  obtain ld where ld: "l_data l = Some ld" "data_ok ld" and sid: "ascii (l_sessionID l)"
    using assms(1) by (auto simp: logger_ok_def)
  obtain g where g: "(case gs of [] \<Rightarrow> Some [] | g # _ \<Rightarrow> g) = Some g" "data_ok g" "map_of g = given_map gs"
    using assms(2) by (cases gs) (auto simp: given_ok_def data_ok_def given_map_def)
  obtain d1 where d1: "data_put_all ld (Some g) = Ok (Some d1)" "data_ok d1" "map_of d1 = map_of g ++ map_of ld"
    using data_put_all_ok [OF g(2)] ld(2) by (auto simp: data_ok_def)
  obtain d2 where "data_put ''session'' (Some (JStr (l_sessionID l))) (Some d1) = Ok (Some d2)" "data_ok d2"
      "map_of d2 = (map_of d1)(''session'' \<mapsto> Some (JStr (l_sessionID l)))"
    by (rule data_put_ok [OF d1(2), of "''session''" "JStr (l_sessionID l)"]) (use sid in simp_all)
  with d1 show thesis
    by (intro that [of "if l_sessionID l = [] then d1 else d2"])
      (simp_all add: baseData_def g(1,3) ld(1) base_fields_def)
qed

text \<open>The members that are printed.\<close>

definition members_of :: "log_data \<Rightarrow> (string \<times> json) list" where
  "members_of d = map (\<lambda>(k, v). (k, the v)) (sort_key fst d)"

lemma marshal_data_ok:
  assumes "data_ok d"
  shows "marshal_data (Some d) = Some (JObj (members_of d))" and "json_ok (JObj (members_of d))"
    and "map_of (members_of d) k = map_option the (map_of d k)"
proof -
  have "marshal_members kvs = Some (map (\<lambda>(k, v). (k, the v)) kvs)" if "\<forall>(k, v) \<in> set kvs. \<exists>j. v = Some j" for kvs
    using that by (induction kvs) auto
  moreover have "\<forall>(k, v) \<in> set (sort_key fst d). \<exists>j. v = Some j" using assms by (auto simp: data_ok_def)
  ultimately show "marshal_data (Some d) = Some (JObj (members_of d))"
    by (simp add: marshal_data_def members_of_def)
  show "json_ok (JObj (members_of d))" using assms by (auto simp: data_ok_def members_of_def)
  have "distinct (map fst (sort_key fst d))"
    using assms by (simp add: data_ok_def distinct_map)
  then have "map_of (sort_key fst d) = map_of d"
    using assms by (intro map_of_inject_set [THEN iffD2]) (auto simp: data_ok_def)
  moreover have "map_of (map (\<lambda>(k, v). (k, the v)) kvs) k = map_option the (map_of kvs k)" for kvs :: log_data
    by (induction kvs) auto
  ultimately show "map_of (members_of d) k = map_option the (map_of d k)" by (simp add: members_of_def)
qed

section \<open>Records\<close>

definition log_call :: "log_level \<Rightarrow> 's logger \<Rightarrow> string \<Rightarrow> string \<Rightarrow> string \<Rightarrow> string option \<Rightarrow> log_data option list \<Rightarrow> ('s, unit) go" where
  "log_call level l now trace action err gs =
     (case level of
        DEBUG \<Rightarrow> Debug l now action gs
      | INFO \<Rightarrow> Info l now action gs
      | ERROR \<Rightarrow> Error l now action err gs
      | FATAL \<Rightarrow> Fatal l now trace action err gs)"

text \<open>The fields of the data of a call: \<open>Error\<close> and \<open>Fatal\<close> add the error, \<open>Fatal\<close> the trace.\<close>

definition call_fields :: "log_level \<Rightarrow> 's logger \<Rightarrow> string \<Rightarrow> string option \<Rightarrow> log_data option list \<Rightarrow> string \<rightharpoonup> json option" where
  "call_fields level l trace err gs =
     (let m = base_fields l gs;
          m1 = (if level < ERROR \<or> err = None then m else m(''error'' \<mapsto> Some (JStr (the err))))
      in if level < FATAL then m1 else m1(''trace'' \<mapsto> Some (JStr trace)))"

definition call_record :: "log_level \<Rightarrow> 's logger \<Rightarrow> string \<Rightarrow> string \<Rightarrow> (string \<times> json) list \<Rightarrow> json" where
  "call_record level l now action kvs = JObj
     [(''timestamp'', JStr now), (''source'', JStr (l_component l)), (''message'', JStr (l_task l @ ''.'' @ action)),
      (''log_level'', enc_int (int (level_num level))), (''data'', JObj kvs)]"

lemma put_error_ok:
  assumes "data_ok d" and "ascii (case_option [] id err)"
  obtains d' where "put_error err (Some d) = Ok (Some d')" and "data_ok d'"
    and "map_of d' = (case err of None \<Rightarrow> map_of d | Some e \<Rightarrow> (map_of d)(''error'' \<mapsto> Some (JStr e)))"
proof (cases err)
  case None
  then show thesis using assms that by (simp add: put_error_def)
next
  case (Some e)
  with data_put_ok [OF assms(1), of "''error''" "JStr e"] assms(2) that show thesis by (auto simp: put_error_def)
qed

text \<open>Every call comes down to one record with these fields, sent to the sinks; \<open>Fatal\<close> then panics.\<close>

lemma call_sends:
  assumes "logger_ok l" and "given_ok gs" and "ascii trace" and "ascii (case_option [] id err)"
  obtains d where "data_ok d" and "map_of d = call_fields level l trace err gs"
    and "log_call level l now trace action err gs =
      go_bind (log_to_sinks l level (log_record l level now action (Some d)))
        (\<lambda>_. if level = FATAL then go_panic else go_return ())"
proof -
  obtain d where d: "baseData l gs = Ok (Some d)" "data_ok d" "map_of d = base_fields l gs"
    using assms(1,2) by (rule baseData_ok)
  obtain e where e: "put_error err (Some d) = Ok (Some e)" "data_ok e"
    "map_of e = (case err of None \<Rightarrow> map_of d | Some x \<Rightarrow> (map_of d)(''error'' \<mapsto> Some (JStr x)))"
    using d(2) assms(4) by (rule put_error_ok)
  obtain t where t: "data_put ''trace'' (Some (JStr trace)) (Some e) = Ok (Some t)" "data_ok t"
    "map_of t = (map_of e)(''trace'' \<mapsto> Some (JStr trace))"
    using data_put_ok [OF e(2), of "''trace''" "JStr trace"] assms(3) by auto
  note defs = log_call_def call_fields_def less_log_level_def outcome_or_panic_def Let_def
  show thesis
  proof (cases level)
    case DEBUG
    with d show thesis by (intro that [of d]) (simp_all add: defs Debug_def)
  next
    case INFO
    with d show thesis by (intro that [of d]) (simp_all add: defs Info_def)
  next
    case ERROR
    with d e show thesis by (intro that [of e]) (simp_all add: defs Error_def split: option.split)
  next
    case FATAL
    with d e t show thesis by (intro that [of t]) (simp_all add: defs Fatal_def split: option.split)
  qed
qed

lemma ToJSON_ok:
  assumes "logger_ok l" and "data_ok d" and "ascii now" and "ascii action"
  shows "LogFormat_ToJSON (log_record l level now action (Some d)) = Some (json_print (call_record level l now action (members_of d)))"
    and "json_ok (call_record level l now action (members_of d))"
  using assms marshal_data_ok [OF assms(2)]
  by (simp_all add: LogFormat_ToJSON_def log_record_def log_json_def call_record_def logger_ok_def enc_int_def)

section \<open>Sessions\<close>

text \<open>
  The loggers of a process, in the order they were made: the first is the one of \<open>cf_lager.New\<close>, every other a
  session of an earlier one. Beside each stands how it was derived: the tasks and the numbers of its sessions.
\<close>

inductive sessions :: "'s logger \<Rightarrow> 's logger list \<Rightarrow> (string list \<times> nat list) list \<Rightarrow> bool" for root where
  sessions_start: "sessions root [root] [([], [])]"
| sessions_more: "sessions root ls ps \<Longrightarrow> i < length ls \<Longrightarrow> Session (ls ! i) task gs = Ok (child, parent) \<Longrightarrow>
    ascii task \<Longrightarrow> given_ok gs \<Longrightarrow>
    sessions root (ls[i := parent] @ [child]) (ps @ [(fst (ps ! i) @ [task], snd (ps ! i) @ [unat (l_nextSession parent)])])"

inductive_cases sessions_cases: "sessions root ls ps"

definition dotted :: "string list \<Rightarrow> string" where
  "dotted = strings_Join ''.''"

lemma dotted_snoc: "xs \<noteq> [] \<Longrightarrow> dotted (xs @ [x]) = dotted xs @ ''.'' @ x"
  by (simp add: dotted_def strings_Join_append)

abbreviation id_text :: "nat list \<Rightarrow> string" where
  "id_text ids \<equiv> dotted (map nat_digits ids)"

lemma ascii_nat_digits: "ascii (nat_digits n)"
  using nat_digits_digit by (fastforce simp: ascii_def of_char_digit_char)

lemma nat_digits_inject: "nat_digits m = nat_digits n \<longleftrightarrow> m = n"
  by (metis option.inject parse_nat_digits)

lemma id_text_empty: "id_text ids = [] \<longleftrightarrow> ids = []"
  by (cases ids; cases "tl ids") (auto simp: dotted_def)

lemma id_text_inject: "id_text p = id_text q \<longleftrightarrow> p = q"
proof
  assume eq: "id_text p = id_text q"
  show "p = q"
  proof (cases "p = [] \<or> q = []")
    case True
    with eq show ?thesis using id_text_empty [of p] id_text_empty [of q] by (auto simp: dotted_def)
  next
    case False
    have "strings_Split CHR ''.'' (id_text r) = map nat_digits r" if "r \<noteq> []" for r
      unfolding dotted_def using that nat_digits_notin [of "CHR ''.''"] by (subst strings_Split_Join) auto
    with False eq have "map nat_digits p = map nat_digits q" by metis
    then show ?thesis by (rule map_injective) (simp add: inj_on_def nat_digits_inject)
  qed
qed simp

lemma Session_Ok:
  assumes "Session l task gs = Ok (child, parent)"
  shows "parent = l\<lparr>l_nextSession := l_nextSession l + 1\<rparr>"
    and "l_component child = l_component l" and "l_task child = l_task l @ ''.'' @ task" and "l_sinks child = l_sinks l"
    and "l_nextSession child = 0" and "baseData l gs = Ok (l_data child)"
    and "l_sessionID child = (if l_sessionID l \<noteq> [] then l_sessionID l @ ''.'' else []) @ nat_digits (unat (l_nextSession l + 1))"
  using assms by (cases "baseData l gs"; auto simp: Session_def Let_def)+

lemma Session_logger_ok:
  assumes "Session l task gs = Ok (child, parent)" and "logger_ok l" and "ascii task" and "given_ok gs"
  shows "logger_ok child"
proof -
  note S = Session_Ok [OF assms(1)]
  obtain d where "baseData l gs = Ok (Some d)" "data_ok d" using assms(2,4) by (rule baseData_ok)
  with S(6) have "l_data child = Some d" "data_ok d" by simp_all
  with S assms(2,3) show ?thesis by (simp add: logger_ok_def ascii_nat_digits)
qed

text \<open>
  What holds of them as long as the counters of 64 bits have not gone round: a number under a logger was
  given out by its counter.
\<close>

definition sessions_inv :: "'s logger \<Rightarrow> 's logger list \<Rightarrow> (string list \<times> nat list) list \<Rightarrow> bool" where
  "sessions_inv root ls ps \<longleftrightarrow> length ps = length ls \<and> distinct (map snd ps) \<and>
     (\<forall>i < length ls. unat (l_nextSession (ls ! i)) < length ls) \<and>
     (\<forall>j < length ls. \<forall>p n. snd (ps ! j) = p @ [n] \<longrightarrow>
        (\<exists>i < length ls. snd (ps ! i) = p \<and> n \<le> unat (l_nextSession (ls ! i))))"

definition named :: "'s logger \<Rightarrow> 's logger \<Rightarrow> string list \<times> nat list \<Rightarrow> bool" where
  "named root l p \<longleftrightarrow> logger_ok l \<and> l_component l = l_component root \<and> l_sinks l = l_sinks root \<and>
     l_sessionID l = id_text (snd p) \<and> l_task l = dotted (l_task root # fst p)"

definition fresh_root :: "'s logger \<Rightarrow> bool" where
  "fresh_root root \<longleftrightarrow> logger_ok root \<and> l_sessionID root = [] \<and> l_nextSession root = 0"

lemma sessions_inv_step:
  assumes "sessions_inv root ls ps" and i: "i < length ls" and "Session (ls ! i) task gs = Ok (child, parent)"
    and "length ls < 2 ^ 64"
  shows "sessions_inv root (ls[i := parent] @ [child]) (ps @ [(ts, snd (ps ! i) @ [unat (l_nextSession parent)])])"
proof -
  have len: "length ps = length ls" and dist: "distinct (map snd ps)"
    and cnt: "\<And>k. k < length ls \<Longrightarrow> unat (l_nextSession (ls ! k)) < length ls"
    and below: "\<And>j p n. j < length ls \<Longrightarrow> snd (ps ! j) = p @ [n] \<Longrightarrow>
        \<exists>k < length ls. snd (ps ! k) = p \<and> n \<le> unat (l_nextSession (ls ! k))"
    using assms(1) by (auto simp: sessions_inv_def)
  let ?ls = "ls[i := parent] @ [child]" and ?new = "snd (ps ! i) @ [unat (l_nextSession parent)]"
  have "unat (l_nextSession (ls ! i)) + 1 < 2 ^ 64" using cnt [OF i] assms(4) by simp
  then have parent: "unat (l_nextSession parent) = unat (l_nextSession (ls ! i)) + 1" and child: "l_nextSession child = 0"
    using Session_Ok [OF assms(3)] by (simp_all add: unat_word_ariths)
  have up: "unat (l_nextSession (ls ! k)) \<le> unat (l_nextSession (?ls ! k))" if "k < length ls" for k
    using that parent by (cases "k = i") (simp_all add: nth_append)
  have "?new \<notin> set (map snd ps)"
  proof
    assume "?new \<in> set (map snd ps)"
    then obtain j where j: "j < length ls" "snd (ps ! j) = ?new" by (auto simp: in_set_conv_nth len)
    obtain k where k: "k < length ls" "snd (ps ! k) = snd (ps ! i)" "unat (l_nextSession parent) \<le> unat (l_nextSession (ls ! k))"
      using below [OF j] by auto
    with dist i have "k = i" by (metis len length_map nth_eq_iff_index_eq nth_map)
    with k(3) parent show False by simp
  qed
  moreover have "\<exists>k < Suc (length ls). snd ((ps @ [(ts, ?new)]) ! k) = p \<and> n \<le> unat (l_nextSession (?ls ! k))"
    if "j < Suc (length ls)" "snd ((ps @ [(ts, ?new)]) ! j) = p @ [n]" for j p n
  proof (cases "j = length ls")
    case True
    with that(2) len i parent show ?thesis by (intro exI [of _ i]) (auto simp: nth_append)
  next
    case False
    with that obtain k where "k < length ls" "snd (ps ! k) = p" "n \<le> unat (l_nextSession (ls ! k))"
      using below [of j p n] len by (auto simp: nth_append)
    with up [of k] len show ?thesis by (intro exI [of _ k]) (auto simp: nth_append)
  qed
  moreover have "unat (l_nextSession (?ls ! k)) < Suc (length ls)" if "k < Suc (length ls)" for k
    using that cnt [of k] cnt [OF i] parent child by (cases "k = i") (auto simp: nth_append less_Suc_eq)
  ultimately show ?thesis by (simp add: sessions_inv_def len dist)
qed

lemma sessions_invariant: "sessions root ls ps \<Longrightarrow> fresh_root root \<Longrightarrow> length ls \<le> 2 ^ 64 \<Longrightarrow> sessions_inv root ls ps"
proof (induction rule: sessions.induct)
  case sessions_start
  then show ?case by (simp add: sessions_inv_def fresh_root_def)
next
  case (sessions_more ls ps i task gs child parent)
  then show ?case by (intro sessions_inv_step) simp_all
qed

lemma sessions_named: "sessions root ls ps \<Longrightarrow> fresh_root root \<Longrightarrow> list_all2 (named root) ls ps"
proof (induction rule: sessions.induct)
  case sessions_start
  then show ?case by (simp add: named_def fresh_root_def dotted_def)
next
  case (sessions_more ls ps i task gs child parent)
  then have all: "list_all2 (named root) ls ps" and i: "named root (ls ! i) (ps ! i)"
    by (auto dest: list_all2_nthD)
  note S = Session_Ok [OF sessions_more.hyps(3)]
  have "logger_ok child" using sessions_more.hyps(3-5) i by (auto simp: named_def intro: Session_logger_ok)
  moreover have "dotted (l_task root # fst (ps ! i) @ [task]) = dotted (l_task root # fst (ps ! i)) @ ''.'' @ task"
    using dotted_snoc [of "l_task root # fst (ps ! i)"] by simp
  moreover have "id_text (snd (ps ! i) @ [n]) = (if id_text (snd (ps ! i)) \<noteq> [] then id_text (snd (ps ! i)) @ ''.'' else []) @ nat_digits n" for n
    using dotted_snoc [of "map nat_digits (snd (ps ! i))"] by (cases "snd (ps ! i) = []") (simp_all add: id_text_empty, simp add: dotted_def)
  ultimately have "named root child (fst (ps ! i) @ [task], snd (ps ! i) @ [unat (l_nextSession parent)])"
    using S i by (simp add: named_def)
  moreover have "named root parent (ps ! i)" using i S(1) by (auto simp: named_def logger_ok_def)
  moreover have "list_all2 (named root) (ls[i := parent]) (ps[i := ps ! i])"
    using all \<open>named root parent (ps ! i)\<close> by (rule list_all2_update_cong)
  ultimately show ?case by (simp add: list_all2_appendI)
qed

section \<open>What a call writes\<close>

definition app_logger :: "string \<Rightarrow> log_level \<Rightarrow> bytes logger" where
  "app_logger component level = RegisterSink (NewLogger component) (NewWriterSink Stdout_Write level)"

lemma cf_lager_New_root: "cf_lager_New flag component = Some root \<longleftrightarrow>
    (\<exists>level. parse_level flag = Some level \<and> root = app_logger component level)"
  by (auto simp: cf_lager_New_def app_logger_def)

lemma app_logger_fresh: "ascii component \<Longrightarrow> fresh_root (app_logger component level)"
  by (simp add: fresh_root_def app_logger_def RegisterSink_def NewLogger_def logger_ok_def data_ok_def)

lemma sink_writes:
  "log_to_sinks l level r out = (case LogFormat_ToJSON r of None \<Rightarrow> Some (Panicked, out)
     | Some b \<Rightarrow> Some (Done (), if level < least then out else out @ b @ [newline]))"
  if "l_sinks l = [NewWriterSink Stdout_Write least]"
  using that by (simp add: log_to_sinks_def NewWriterSink_def Stdout_Write_def go_bind_def go_must_def go_return_def
      go_panic_def split: option.split)

lemma log_call_writes:
  assumes "logger_ok l" and "l_sinks l = [NewWriterSink Stdout_Write least]"
    and "given_ok gs" and "ascii now" and "ascii trace" and "ascii action" and "ascii (case_option [] id err)"
  obtains kvs where
    "log_call level l now trace action err gs out =
       Some (if level = FATAL then Panicked else Done (),
         if level < least then out else out @ json_print (call_record level l now action kvs) @ [newline])"
    and "json_ok (call_record level l now action kvs)"
    and "\<forall>k. map_of kvs k = map_option the (call_fields level l trace err gs k)"
proof -
  obtain d where d: "data_ok d" "map_of d = call_fields level l trace err gs"
    "log_call level l now trace action err gs =
      go_bind (log_to_sinks l level (log_record l level now action (Some d)))
        (\<lambda>_. if level = FATAL then go_panic else go_return ())"
    using assms(1,3,5,7) by (rule call_sends)
  show thesis
  proof (rule that [of "members_of d"])
    show "json_ok (call_record level l now action (members_of d))"
      using assms(1) d(1) assms(4,6) by (rule ToJSON_ok)
    show "\<forall>k. map_of (members_of d) k = map_option the (call_fields level l trace err gs k)"
      using marshal_data_ok(3) [OF d(1)] d(2) by simp
    show "log_call level l now trace action err gs out =
       Some (if level = FATAL then Panicked else Done (),
         if level < least then out else out @ json_print (call_record level l now action (members_of d)) @ [newline])"
      unfolding d(3) using sink_writes [OF assms(2)] ToJSON_ok(1) [OF assms(1) d(1) assms(4,6)]
      by (simp add: go_bind_def go_return_def go_panic_def)
  qed
qed

section \<open>An example\<close>

text \<open>The loggers of \<open>main\<close> and of the handler, and the one of each of two changes.\<close>

definition ex_root :: "bytes logger" where
  "ex_root = app_logger ''app-manager'' INFO"

definition ex_session :: "string \<Rightarrow> string \<Rightarrow> uint64 \<Rightarrow> log_data \<Rightarrow> bytes logger" where
  "ex_session task sid next d = ex_root\<lparr>l_task := task, l_sessionID := sid, l_nextSession := next, l_data := Some d\<rparr>"

abbreviation ex_change :: "string \<Rightarrow> bytes logger" where
  "ex_change sid \<equiv> ex_session ''app-manager.handler.desired-lrp-change'' sid 0 [(''session'', Some (JStr ''1''))]"

definition ex_loggers :: "bytes logger list" where
  "ex_loggers = [ex_root\<lparr>l_nextSession := 1\<rparr>, ex_session ''app-manager.handler'' ''1'' 2 [], ex_change ''1.1'', ex_change ''1.2'']"

definition ex_derivations :: "(string list \<times> nat list) list" where
  "ex_derivations =
     [([], []), ([''handler''], [1]), ([''handler'', ''desired-lrp-change''], [1, 1]),
      ([''handler'', ''desired-lrp-change''], [1, 2])]"

lemma ex_root_New: "cf_lager_New ''info'' ''app-manager'' = Some ex_root"
  by (simp add: cf_lager_New_def parse_level_def ex_root_def app_logger_def)

lemma ex_sessions: "sessions ex_root ex_loggers ex_derivations"
proof -
  note defs = Session_def baseData_def data_put_def Let_def ex_session_def ex_root_def app_logger_def NewLogger_def
    RegisterSink_def given_ok_def slice_elems_def
  have [simp]: "nat_digits (Suc 0) = ''1''" "nat_digits 2 = ''2''" by code_simp+
  let ?h = "ex_session ''app-manager.handler'' ''1''"
  let ?root = "ex_root\<lparr>l_nextSession := 1\<rparr>"
  have 1: "sessions ex_root [?root, ?h 0 []] [([], []), ([''handler''], [1])]"
    using sessions_more [OF sessions_start, of 0 ex_root "''handler''" "[]" "?h 0 []" ?root] by (simp add: defs)
  have 2: "sessions ex_root [?root, ?h 1 [], ex_change ''1.1'']
      [([], []), ([''handler''], [1]), ([''handler'', ''desired-lrp-change''], [1, 1])]"
    using sessions_more [OF 1, of 1 "''desired-lrp-change''" "[]" "ex_change ''1.1''" "?h 1 []"] by (simp add: defs)
  show ?thesis
    using sessions_more [OF 2, of 1 "''desired-lrp-change''" "[]" "ex_change ''1.2''" "?h 2 []"]
    by (simp add: defs ex_loggers_def ex_derivations_def)
qed

section \<open>The properties\<close>

text \<open>
  C31 -- The session in a log line names its logger: as long as a process makes at most 2^64 loggers, all
  loggers derived from the one of \<open>cf_lager.New\<close>, in whatever order and depth, have different session ids, and
  the id spells out how the logger was derived: the numbers of its sessions, separated by dots.
\<close>

theorem session_ids_unique:
  assumes "cf_lager_New flag component = Some root" and "ascii component"
    and "sessions root ls ps" and "length ls \<le> 2 ^ 64"
  shows "distinct (map l_sessionID ls) \<and> map l_sessionID ls = map (\<lambda>p. dotted (map nat_digits (snd p))) ps \<and>
    map l_task ls = map (\<lambda>p. dotted (component # fst p)) ps"
proof -
  obtain least where root: "root = app_logger component least" using assms(1) by (auto simp: cf_lager_New_root)
  have fresh: "fresh_root root" unfolding root using assms(2) by (rule app_logger_fresh)
  have all: "list_all2 (named root) ls ps" using assms(3) fresh by (rule sessions_named)
  have inv: "sessions_inv root ls ps" using assms(3) fresh assms(4) by (rule sessions_invariant)
  have ids: "map l_sessionID ls = map (\<lambda>p. id_text (snd p)) ps"
    using all by (induction rule: list_all2_induct) (simp_all add: named_def)
  have tasks: "map l_task ls = map (\<lambda>p. dotted (component # fst p)) ps"
    using all by (induction rule: list_all2_induct) (simp_all add: named_def root app_logger_def RegisterSink_def NewLogger_def)
  have "distinct (map id_text (map snd ps))"
    using inv unfolding distinct_map [of id_text] by (simp add: sessions_inv_def inj_on_def id_text_inject)
  then show ?thesis unfolding ids tasks by (simp add: comp_def)
qed

theorem session_ids_unique_witness:
  "distinct (map l_sessionID ex_loggers) \<and> map l_sessionID ex_loggers = [[], ''1'', ''1.1'', ''1.2''] \<and>
   map l_task ex_loggers ! 3 = ''app-manager.handler.desired-lrp-change''"
proof -
  have "map (\<lambda>p. dotted (map nat_digits (snd p))) ex_derivations = [[], ''1'', ''1.1'', ''1.2'']"
    "map (\<lambda>p. dotted (''app-manager'' # fst p)) ex_derivations ! 3 = ''app-manager.handler.desired-lrp-change''"
    by code_simp+
  with session_ids_unique [of "''info''" "''app-manager''" ex_root ex_loggers ex_derivations] ex_sessions ex_root_New
  show ?thesis by (simp add: ex_loggers_def)
qed

text \<open>
  C32 -- Every call of a logger of the app manager appends to standard output exactly one line, or nothing if
  its level is below the flag's: a JSON record without a newline in it that reads back as it was printed, with
  the component, the tasks of the sessions and the action joined by dots as its message, and as its data the
  given fields, the fields of the sessions above them, the session id, the error and the trace. \<open>Fatal\<close> panics
  after the line is written; no other call does.
\<close>

theorem call_writes_line:
  assumes "cf_lager_New flag component = Some root" and "parse_level flag = Some least" and "ascii component"
    and "sessions root ls ps" and "j < length ls"
    and "given_ok gs" and "ascii now" and "ascii trace" and "ascii action" and "ascii (case_option [] id err)"
  shows "\<exists>line kvs. let l = ls ! j; text = json_print line in
    line = JObj [(''timestamp'', JStr now), (''source'', JStr component),
      (''message'', JStr (dotted (component # fst (ps ! j) @ [action]))),
      (''log_level'', enc_int (int (level_num level))), (''data'', JObj kvs)] \<and>
    log_call level l now trace action err gs out =
      Some (if level = FATAL then Panicked else Done (), if level < least then out else out @ text @ [newline]) \<and>
    newline \<notin> set text \<and> json_parse text = Some line \<and>
    (\<forall>k. map_of kvs k = map_option the (call_fields level l trace err gs k))"
proof -
  have root: "root = app_logger component least" using assms(1,2) by (simp add: cf_lager_New_root)
  have "list_all2 (named root) ls ps" using assms(4) app_logger_fresh [OF assms(3)] unfolding root by (rule sessions_named)
  then have l: "named root (ls ! j) (ps ! j)" using assms(5) by (simp add: list_all2_nthD)
  then have ok: "logger_ok (ls ! j)" "l_sinks (ls ! j) = [NewWriterSink Stdout_Write least]"
    by (simp_all add: named_def root app_logger_def RegisterSink_def NewLogger_def)
  have "dotted (component # fst (ps ! j) @ [action]) = l_task (ls ! j) @ ''.'' @ action" "l_component (ls ! j) = component"
    using l dotted_snoc [of "component # fst (ps ! j)" action]
    by (simp_all add: named_def root app_logger_def RegisterSink_def NewLogger_def)
  then have rec: "call_record level (ls ! j) now action kvs = JObj [(''timestamp'', JStr now), (''source'', JStr component),
      (''message'', JStr (dotted (component # fst (ps ! j) @ [action]))),
      (''log_level'', enc_int (int (level_num level))), (''data'', JObj kvs)]" for kvs
    by (simp add: call_record_def)
  obtain kvs where "log_call level (ls ! j) now trace action err gs out =
       Some (if level = FATAL then Panicked else Done (),
         if level < least then out else out @ json_print (call_record level (ls ! j) now action kvs) @ [newline])"
    and "json_ok (call_record level (ls ! j) now action kvs)"
    and "\<forall>k. map_of kvs k = map_option the (call_fields level (ls ! j) trace err gs k)"
    using ok assms(6-10) by (rule log_call_writes)
  then show ?thesis
    using json_roundtrip newline_print unfolding Let_def rec by blast
qed

theorem call_writes_line_witness:
  "\<exists>line. let text = json_print line in
     Error (ex_loggers ! 3) ''12.5'' ''fetch-actuals-failed'' (Some ''timeout'') [] [] = Some (Done (), text @ [newline]) \<and>
     newline \<notin> set text \<and> json_parse text = Some line"
proof -
  have "\<not> ERROR < INFO" "parse_level ''info'' = Some INFO" by (simp_all add: less_log_level_def parse_level_def)
  moreover obtain line where
    "log_call ERROR (ex_loggers ! 3) ''12.5'' [] ''fetch-actuals-failed'' (Some ''timeout'') [] [] =
       Some (if ERROR = FATAL then Panicked else Done (), if ERROR < INFO then [] else [] @ json_print line @ [newline])"
    "newline \<notin> set (json_print line)" "json_parse (json_print line) = Some line"
    using call_writes_line [where j = 3 and gs = "[]" and now = "''12.5''" and trace = "[]" and err = "Some ''timeout''"
        and action = "''fetch-actuals-failed''" and level = ERROR and out = "[]", OF ex_root_New calculation(2) _ ex_sessions]
    unfolding Let_def by (auto simp: given_ok_def ex_loggers_def simp del: json_print.simps)
  ultimately show ?thesis by (auto simp: Let_def log_call_def)
qed

end
