(* ===== verification/EtcdConfig.thy ===== *)
theory EtcdConfig
  imports EtcdResponse "HOL-Library.Char_ord" "HOL-Library.List_Lexorder"
begin

text \<open>
  coreos/go-etcd, client.go: the configuration of a client, its JSON and where it is saved, and how the client
  learns the machines of its cluster. Certificates, the HTTP client itself and the cURL log are left out; the
  GET of \<open>/v2/machines\<close> is an argument. Also the order of the nodes of an answer (response.go).
\<close>

section \<open>The configuration\<close>

abbreviation STRONG_CONSISTENCY :: string where "STRONG_CONSISTENCY \<equiv> ''STRONG''"
abbreviation WEAK_CONSISTENCY :: string where "WEAK_CONSISTENCY \<equiv> ''WEAK''"

record config =
  cf_CertFile :: string
  cf_KeyFile :: string
  cf_CaCertFile :: "string slice"
  cf_DialTimeout :: int
  cf_Consistency :: string

text \<open>
  The client: the pointer to its cluster, the writer the configuration is saved to (nil at first; it reports
  an error or takes the bytes), and what was written.
\<close>

record client_data =
  cd_config :: config
  cd_cluster :: "cluster option"
  cd_persistence :: "(bytes \<Rightarrow> error option) option"
  cd_written :: "bytes list"

definition zero_config :: config where
  "zero_config = \<lparr>cf_CertFile = [], cf_KeyFile = [], cf_CaCertFile = None, cf_DialTimeout = 0, cf_Consistency = []\<rparr>"

definition config_fields :: "config fields" where
  "config_fields =
     [field ''certFile'' cf_CertFile cf_CertFile_update dec_string,
      field ''keyFile'' cf_KeyFile cf_KeyFile_update dec_string,
      field ''caCertFiles'' cf_CaCertFile cf_CaCertFile_update (dec_slice dec_string []),
      field ''timeout'' cf_DialTimeout cf_DialTimeout_update dec_int,
      field ''consistency'' cf_Consistency cf_Consistency_update dec_string]"

definition enc_config :: "config \<Rightarrow> json" where
  "enc_config c = JObj [(''certFile'', JStr (cf_CertFile c)), (''keyFile'', JStr (cf_KeyFile c)),
     (''caCertFiles'', enc_slice JStr (cf_CaCertFile c)), (''timeout'', enc_int (cf_DialTimeout c)),
     (''consistency'', JStr (cf_Consistency c))]"

text \<open>A cluster in JSON. Its machines are a list here: an empty one stands for the nil slice.\<close>

definition list_of_slice :: "string list decoder" where
  "list_of_slice old j = dec_map slice_elems (dec_slice dec_string [] (if old = [] then None else Some old) j)"

definition cluster_fields :: "cluster fields" where
  "cluster_fields =
     [field ''leader'' cl_Leader cl_Leader_update dec_string,
      field ''machines'' cl_Machines cl_Machines_update list_of_slice]"

definition enc_cluster :: "cluster \<Rightarrow> json" where
  "enc_cluster cl = JObj [(''leader'', JStr (cl_Leader cl)),
     (''machines'', enc_slice JStr (if cl_Machines cl = [] then None else Some (cl_Machines cl)))]"

record client_json =
  cj_config :: config
  cj_cluster :: "cluster option"

definition client_fields :: "client_json fields" where
  "client_fields =
     [field ''config'' cj_config cj_config_update (dec_struct config_fields),
      field ''cluster'' cj_cluster cj_cluster_update (dec_ptr (dec_struct cluster_fields) \<lparr>cl_Leader = [], cl_Machines = []\<rparr>)]"

definition client_MarshalJSON :: "client_data \<Rightarrow> bytes" where
  "client_MarshalJSON c = json_print (JObj [(''config'', enc_config (cd_config c)),
     (''cluster'', case cd_cluster c of None \<Rightarrow> JNull | Some cl \<Rightarrow> enc_cluster cl)])"

definition client_UnmarshalJSON :: "client_data \<Rightarrow> bytes \<Rightarrow> client_data outcome" where
  "client_UnmarshalJSON c b =
     outcome_bind (json_Unmarshal (dec_struct client_fields) \<lparr>cj_config = zero_config, cj_cluster = None\<rparr> b)
       (\<lambda>temp. Ok (c\<lparr>cd_cluster := cj_cluster temp, cd_config := cj_config temp\<rparr>))"

text \<open>Nobody looks at the result of \<open>saveConfig\<close>.\<close>

definition saveConfig :: "client_data \<Rightarrow> client_data \<times> error option" where
  "saveConfig c =
     (case cd_persistence c of
        None \<Rightarrow> (c, None)
      | Some write \<Rightarrow>
          (let b = client_MarshalJSON c in
           case write b of None \<Rightarrow> (c\<lparr>cd_written := cd_written c @ [b]\<rparr>, None) | Some err \<Rightarrow> (c, Some err)))"

definition SetPersistence :: "(bytes \<Rightarrow> error option) \<Rightarrow> client_data \<Rightarrow> client_data" where
  "SetPersistence writer c = c\<lparr>cd_persistence := Some writer\<rparr>"

definition SetConsistency :: "string \<Rightarrow> client_data \<Rightarrow> client_data \<times> error option" where
  "SetConsistency consistency c =
     (if \<not> (consistency = STRONG_CONSISTENCY \<or> consistency = WEAK_CONSISTENCY)
      then (c, Some (Errorf ''The argument must be either STRONG_CONSISTENCY or WEAK_CONSISTENCY.'' [] None))
      else (c\<lparr>cd_config := (cd_config c)\<lparr>cf_Consistency := consistency\<rparr>\<rparr>, None))"

definition NewClient :: "string list \<Rightarrow> client_data" where
  "NewClient machines =
     fst (saveConfig \<lparr>cd_config = zero_config\<lparr>cf_DialTimeout := 1000 * millisecond, cf_Consistency := STRONG_CONSISTENCY\<rparr>,
       cd_cluster = Some (NewCluster machines), cd_persistence = None, cd_written = []\<rparr>)"

section \<open>The machines of the cluster\<close>

text \<open>\<open>strings.Split\<close> with a separator of several bytes; \<open>acc\<close> is the part since the last one.\<close>

fun split_on :: "string \<Rightarrow> string \<Rightarrow> string \<Rightarrow> string list" where
  "split_on sep acc [] = [acc]"
| "split_on sep acc (c # cs) =
     (if prefix sep (c # cs) then acc # split_on sep [] (drop (length sep - 1) cs)
      else split_on sep (acc @ [c]) cs)"

definition updateFromStr :: "string \<Rightarrow> cluster \<Rightarrow> cluster" where
  "updateFromStr machines cl = cl\<lparr>cl_Machines := split_on '', '' [] machines\<rparr>"

text \<open>\<open>get\<close> reads \<open>/v2/machines\<close> of a machine; the dereference of a nil cluster is a panic.\<close>

fun internalSyncCluster ::
  "(string \<Rightarrow> ('s, error + bytes) go) \<Rightarrow> string list \<Rightarrow> client_data \<Rightarrow> ('s, client_data \<times> bool) go" where
  "internalSyncCluster get [] c = go_return (c, False)"
| "internalSyncCluster get (machine # machines) c =
     go_bind (get machine) (\<lambda>resp.
       case resp of
         Inl err \<Rightarrow> internalSyncCluster get machines c
       | Inr b \<Rightarrow>
           go_bind (go_must (cd_cluster c)) (\<lambda>cl.
             go_bind (go_must (switchLeader 0 (updateFromStr b cl))) (\<lambda>cl'.
               go_return (fst (saveConfig (c\<lparr>cd_cluster := Some cl'\<rparr>)), True))))"

definition SetCluster :: "(string \<Rightarrow> ('s, error + bytes) go) \<Rightarrow> string list \<Rightarrow> client_data \<Rightarrow> ('s, client_data \<times> bool) go" where
  "SetCluster get machines c = internalSyncCluster get machines c"

definition SyncCluster :: "(string \<Rightarrow> ('s, error + bytes) go) \<Rightarrow> client_data \<Rightarrow> ('s, client_data \<times> bool) go" where
  "SyncCluster get c = go_bind (go_must (cd_cluster c)) (\<lambda>cl. internalSyncCluster get (cl_Machines cl) c)"

definition GetCluster :: "client_data \<Rightarrow> string list option" where
  "GetCluster c = map_option cl_Machines (cd_cluster c)"

section \<open>Lemmas\<close>

definition config_ok :: "config \<Rightarrow> bool" where
  "config_ok c \<longleftrightarrow> ascii (cf_CertFile c) \<and> ascii (cf_KeyFile c) \<and> (\<forall>f \<in> set (slice_elems (cf_CaCertFile c)). ascii f) \<and>
     int64_ok (cf_DialTimeout c) \<and> ascii (cf_Consistency c)"

definition cluster_ok :: "cluster \<Rightarrow> bool" where
  "cluster_ok cl \<longleftrightarrow> ascii (cl_Leader cl) \<and> (\<forall>m \<in> set (cl_Machines cl). ascii m)"

lemma dec_config_enc: "config_ok c \<Longrightarrow> dec_struct config_fields old (enc_config c) = Dec c False"
  by (simp add: config_ok_def config_fields_def enc_config_def table_simps dec_slice_enc)

lemma dec_cluster_enc: "dec_struct cluster_fields old (enc_cluster cl) = Dec cl False"
proof -
  have "list_of_slice ms (enc_slice JStr (if xs = [] then None else Some xs)) = Dec xs False" for ms xs
    unfolding list_of_slice_def by (subst dec_slice_enc) auto
  then have "dec_struct cluster_fields old (enc_cluster cl) =
      Dec (old\<lparr>cl_Leader := cl_Leader cl, cl_Machines := cl_Machines cl\<rparr>) False"
    by (simp add: cluster_fields_def enc_cluster_def table_simps split del: if_split)
  then show ?thesis by simp
qed

text \<open>What was saved is read back, whatever the client that reads it had before.\<close>

lemma client_json_roundtrip:
  assumes "config_ok (cd_config c)" and "\<forall>cl. cd_cluster c = Some cl \<longrightarrow> cluster_ok cl"
  shows "client_UnmarshalJSON c' (client_MarshalJSON c) = Ok (c'\<lparr>cd_config := cd_config c, cd_cluster := cd_cluster c\<rparr>)"
proof -
  let ?j = "JObj [(''config'', enc_config (cd_config c)), (''cluster'', case cd_cluster c of None \<Rightarrow> JNull | Some cl \<Rightarrow> enc_cluster cl)]"
  have nn: "enc_cluster cl \<noteq> JNull" for cl by (simp add: enc_cluster_def)
  have "json_ok ?j"
    using assms by (auto simp: enc_config_def enc_cluster_def config_ok_def cluster_ok_def ascii_def split: option.split)
  moreover have "dec_struct client_fields \<lparr>cj_config = zero_config, cj_cluster = None\<rparr> ?j =
      Dec \<lparr>cj_config = cd_config c, cj_cluster = cd_cluster c\<rparr> False"
    using assms(1) by (cases "cd_cluster c") (simp_all add: client_fields_def table_simps dec_config_enc dec_cluster_enc dec_ptr_value nn)
  ultimately show ?thesis
    unfolding client_UnmarshalJSON_def client_MarshalJSON_def by (subst json_Unmarshal_print) auto
qed

text \<open>Whatever is configured, the consistency of a client is one of the two levels.\<close>

lemma NewClient_consistency: "cf_Consistency (cd_config (NewClient ms)) = STRONG_CONSISTENCY"
  by (simp add: NewClient_def saveConfig_def)

lemma SetConsistency_valid:
  assumes "cf_Consistency (cd_config c) \<in> {STRONG_CONSISTENCY, WEAK_CONSISTENCY}"
  shows "cf_Consistency (cd_config (fst (SetConsistency x c))) \<in> {STRONG_CONSISTENCY, WEAK_CONSISTENCY}"
    and "snd (SetConsistency x c) = None \<longleftrightarrow> x \<in> {STRONG_CONSISTENCY, WEAK_CONSISTENCY}"
  using assms by (auto simp: SetConsistency_def)

lemma saveConfig_cluster [simp]: "cd_cluster (fst (saveConfig c)) = cd_cluster c"
  by (auto simp: saveConfig_def Let_def split: option.split)

lemma split_on_nonempty [simp]: "split_on sep acc s \<noteq> []"
  by (induction sep acc s rule: split_on.induct) auto

text \<open>The list that is split is the one that was joined, when no machine contains a comma.\<close>

lemma split_on_elem: "CHR '','' \<notin> set x \<Longrightarrow> split_on '', '' acc (x @ s) = split_on '', '' (acc @ x) s"
  by (induction x arbitrary: acc) auto

lemma split_on_join: "ms \<noteq> [] \<Longrightarrow> \<forall>m \<in> set ms. CHR '','' \<notin> set m \<Longrightarrow> split_on '', '' [] (strings_Join '', '' ms) = ms"
proof (induction "'', ''" ms rule: strings_Join.induct)
  case (2 x)
  then show ?case using split_on_elem [of x "[]" "[]"] by simp
next
  case (3 x y ys)
  then show ?case using split_on_elem [of x "[]" "'', '' @ strings_Join '', '' (y # ys)"] by simp
qed simp

text \<open>
  After a synchronisation the client knows the machines that the first machine to answer has named, the
  first of them as the leader; when none answers nothing changes.
\<close>

lemma SyncCluster_result:
  assumes "\<And>m s. \<exists>r s'. get m s = Some (Done r, s')" and "cd_cluster c = Some cl"
  shows "wp (internalSyncCluster get ms c) (\<lambda>(c', ok) _. if ok
    then \<exists>m \<in> set ms. \<exists>s b s'. get m s = Some (Done (Inr b), s') \<and>
      (\<exists>cl'. cd_cluster c' = Some cl' \<and> cl_Machines cl' = split_on '', '' [] b \<and> cl_Leader cl' = hd (split_on '', '' [] b))
    else c' = c) s"
proof (induction ms arbitrary: s)
  case (Cons m ms)
  obtain r s' where r: "get m s = Some (Done r, s')" using assms(1) by blast
  show ?case
  proof (cases r)
    case (Inl e)
    then show ?thesis using r by (auto simp: wp_bind wp_iff [of "get m"] intro!: wp_mono [OF Cons.IH])
  next
    case (Inr b)
    let ?cl = "cl\<lparr>cl_Machines := split_on '', '' [] b, cl_Leader := hd (split_on '', '' [] b)\<rparr>"
    have "switchLeader 0 (updateFromStr b cl) = Some ?cl" by (simp add: updateFromStr_def switchLeader_def hd_conv_nth)
    then have "internalSyncCluster get (m # ms) c s = Some (Done (fst (saveConfig (c\<lparr>cd_cluster := Some ?cl\<rparr>)), True), s')"
      using r Inr assms(2) by (simp add: go_bind_def go_must_def go_return_def)
    then show ?thesis
      using r Inr by (fastforce simp: wp_iff)
  qed
qed simp

section \<open>The order of nodes\<close>

text \<open>
  \<open>Less\<close> of \<open>Nodes\<close> compares the keys. With it nodes are a preorder, which is what \<open>sort.Sort\<close> asks of its
  argument: nodes with equal keys are equivalent, not equal.
\<close>

instantiation etcd_node :: preorder
begin

definition less_eq_etcd_node :: "etcd_node \<Rightarrow> etcd_node \<Rightarrow> bool" where
  "less_eq_etcd_node n m \<longleftrightarrow> en_Key n \<le> en_Key m"

definition less_etcd_node :: "etcd_node \<Rightarrow> etcd_node \<Rightarrow> bool" where
  "less_etcd_node n m \<longleftrightarrow> en_Key n < en_Key m"

instance
  by standard (auto simp: less_eq_etcd_node_def less_etcd_node_def)

end

lemma node_incomparable: "\<not> n < m \<Longrightarrow> \<not> m < n \<Longrightarrow> en_Key n = en_Key (m :: etcd_node)"
  by (simp add: less_etcd_node_def)

end
