(* ===== verification/OtherModels.thy ===== *)
theory OtherModels
  imports ModelsRoundtrip Uuid "HOL-Library.Char_ord" "HOL-Library.List_Lexorder"
begin

text \<open>
  runtime-schema/models of the other processes: the command line of the tailor (circus_tailor_config.go), the
  messages of the cloud controller (cc_desired_app_messages.go) and the factory of tasks (factories/task.go).
\<close>

section \<open>Flags\<close>

text \<open>
  A \<open>flag.FlagSet\<close> of string flags: the names with the values they have now. \<open>VisitAll\<close> goes through them in
  the order of their names. \<open>flag_Parse\<close> is its \<open>Parse\<close>, where \<open>None\<close> is the exit of a set made with
  \<open>ExitOnError\<close>; parsing stops at the first argument that is no flag.
\<close>

type_synonym flag_set = "(string \<times> string) list"

definition flag_names :: "flag_set \<Rightarrow> string list" where
  "flag_names fs = sort (map fst fs)"

definition flag_Set :: "string \<Rightarrow> string \<Rightarrow> flag_set \<Rightarrow> flag_set" where
  "flag_Set name v fs = map (\<lambda>(n, w). (n, if n = name then v else w)) fs"

definition flag_body :: "string \<Rightarrow> string option" where
  "flag_body arg =
     (if length arg < 2 \<or> hd arg \<noteq> CHR ''-'' then None
      else if arg ! 1 = CHR ''-'' then (if length arg = 2 then None else Some (drop 2 arg)) else Some (drop 1 arg))"

fun flag_Parse :: "flag_set \<Rightarrow> string list \<Rightarrow> flag_set option" where
  "flag_Parse fs [] = Some fs"
| "flag_Parse fs (arg # args) =
     (case flag_body arg of
        None \<Rightarrow> Some fs
      | Some s \<Rightarrow>
          (let name = takeWhile (\<lambda>c. c \<noteq> CHR ''='') s; rest = drop (length name) s in
           if name = [] \<or> hd s = CHR ''-'' then None
           else if map_of fs name = None then None
           else if rest \<noteq> [] then flag_Parse (flag_Set name (drop 1 rest) fs) args
           else (case args of [] \<Rightarrow> None | v # args' \<Rightarrow> flag_Parse (flag_Set name v fs) args')))"

section \<open>The command line of the tailor\<close>

abbreviation circusTailorAppDirFlag :: string where "circusTailorAppDirFlag \<equiv> ''appDir''"
abbreviation circusTailorOutputDropletDirFlag :: string where "circusTailorOutputDropletDirFlag \<equiv> ''outputDropletDir''"
abbreviation circusTailorOutputMetadataDirFlag :: string where "circusTailorOutputMetadataDirFlag \<equiv> ''outputMetadataDir''"
abbreviation circusTailorBuildpacksDirFlag :: string where "circusTailorBuildpacksDirFlag \<equiv> ''buildpacksDir''"
abbreviation circusTailorBuildArtifactsCacheDirFlag :: string where
  "circusTailorBuildArtifactsCacheDirFlag \<equiv> ''buildArtifactsCacheDir''"
abbreviation circusTailorBuildpackOrderFlag :: string where "circusTailorBuildpackOrderFlag \<equiv> ''buildpackOrder''"

definition circusTailorDefaults :: "string \<rightharpoonup> string" where
  "circusTailorDefaults = map_of
     [(circusTailorAppDirFlag, ''/app''),
      (circusTailorOutputDropletDirFlag, ''/tmp/droplet''),
      (circusTailorOutputMetadataDirFlag, ''/tmp/result''),
      (circusTailorBuildpacksDirFlag, ''/tmp/buildpacks''),
      (circusTailorBuildArtifactsCacheDirFlag, ''/tmp/cache'')]"

text \<open>
  The map \<open>values\<close> holds the pointers to the values of the flags, so it is the set of its keys here. A flag
  added to the set afterwards is not in it.
\<close>

record circus_tailor_config =
  ct_FlagSet :: flag_set
  ct_values :: "string list"
  ct_ExecutablePath :: string

definition tailor_default :: "string \<Rightarrow> string" where
  "tailor_default name = (case circusTailorDefaults name of None \<Rightarrow> [] | Some v \<Rightarrow> v)"

definition NewCircusTailorConfig :: "string list \<Rightarrow> circus_tailor_config" where
  "NewCircusTailorConfig buildpacks =
     \<lparr>ct_FlagSet =
        map (\<lambda>name. (name, tailor_default name))
          [circusTailorAppDirFlag, circusTailorOutputDropletDirFlag, circusTailorOutputMetadataDirFlag,
           circusTailorBuildpacksDirFlag, circusTailorBuildArtifactsCacheDirFlag] @
        [(circusTailorBuildpackOrderFlag, strings_Join '','' buildpacks)],
      ct_values = [circusTailorAppDirFlag, circusTailorOutputDropletDirFlag, circusTailorOutputMetadataDirFlag,
        circusTailorBuildpacksDirFlag, circusTailorBuildArtifactsCacheDirFlag, circusTailorBuildpackOrderFlag],
      ct_ExecutablePath = ''/tmp/circus/tailor''\<rparr>"

text \<open>The value behind a pointer of the config; \<open>None\<close> is the nil pointer a missing key of \<open>values\<close> gives.\<close>

definition tailor_value :: "circus_tailor_config \<Rightarrow> string \<Rightarrow> string option" where
  "tailor_value s name = (if name \<in> set (ct_values s) then map_of (ct_FlagSet s) name else None)"

definition Path :: "circus_tailor_config \<Rightarrow> string" where
  "Path s = ct_ExecutablePath s"

text \<open>\<open>None\<close> is the panic of the nil dereference.\<close>

definition Args :: "circus_tailor_config \<Rightarrow> string list option" where
  "Args s = those (map (\<lambda>name. map_option (\<lambda>v. ''-'' @ name @ ''='' @ v) (tailor_value s name)) (flag_names (ct_FlagSet s)))"

definition Validate :: "circus_tailor_config \<Rightarrow> error option" where
  "Validate s =
     (let missingFlags = map (\<lambda>name. ''-'' @ name) (filter (\<lambda>name. tailor_value s name = Some []) (flag_names (ct_FlagSet s))) in
      if missingFlags \<noteq> [] then Some (Errorf ''missing flags: %s'' [strings_Join '', '' missingFlags] None) else None)"

definition tailor_get :: "string \<Rightarrow> circus_tailor_config \<Rightarrow> string" where
  "tailor_get name s = (case tailor_value s name of None \<Rightarrow> [] | Some v \<Rightarrow> v)"

definition AppDir :: "circus_tailor_config \<Rightarrow> string" where
  "AppDir = tailor_get circusTailorAppDirFlag"

definition BuildpacksDir :: "circus_tailor_config \<Rightarrow> string" where
  "BuildpacksDir = tailor_get circusTailorBuildpacksDirFlag"

definition BuildArtifactsCacheDir :: "circus_tailor_config \<Rightarrow> string" where
  "BuildArtifactsCacheDir = tailor_get circusTailorBuildArtifactsCacheDirFlag"

definition OutputDropletDir :: "circus_tailor_config \<Rightarrow> string" where
  "OutputDropletDir = tailor_get circusTailorOutputDropletDirFlag"

definition OutputMetadataDir :: "circus_tailor_config \<Rightarrow> string" where
  "OutputMetadataDir = tailor_get circusTailorOutputMetadataDirFlag"

definition OutputMetadataPath :: "circus_tailor_config \<Rightarrow> string" where
  "OutputMetadataPath s = path_Join [OutputMetadataDir s, ''result.json'']"

definition BuildpackOrder :: "circus_tailor_config \<Rightarrow> string list" where
  "BuildpackOrder s = strings_Split (CHR '','') (tailor_get circusTailorBuildpackOrderFlag s)"

text \<open>\<open>md5\<close> is \<open>md5.Sum\<close>.\<close>

definition BuildpackPath :: "(bytes \<Rightarrow> byte list) \<Rightarrow> circus_tailor_config \<Rightarrow> string \<Rightarrow> string" where
  "BuildpackPath md5 s buildpackName = path_Join [BuildpacksDir s, hex (md5 buildpackName)]"

section \<open>Messages of the cloud controller\<close>

record desire_app_request =
  da_ProcessGuid :: string
  da_DropletUri :: string
  da_Stack :: string
  da_StartCommand :: string
  da_Environment :: "environment_variable slice"
  da_MemoryMB :: int
  da_DiskMB :: int
  da_FileDescriptors :: uint64
  da_NumInstances :: int
  da_Routes :: "string slice"
  da_LogGuid :: string

definition desire_app_fields :: "desire_app_request fields" where
  "desire_app_fields =
     [field ''process_guid'' da_ProcessGuid da_ProcessGuid_update dec_string,
      field ''droplet_uri'' da_DropletUri da_DropletUri_update dec_string,
      field ''stack'' da_Stack da_Stack_update dec_string,
      field ''start_command'' da_StartCommand da_StartCommand_update dec_string,
      field ''environment'' da_Environment da_Environment_update (dec_slice (dec_struct env_fields) zero_env),
      field ''memory_mb'' da_MemoryMB da_MemoryMB_update dec_int,
      field ''disk_mb'' da_DiskMB da_DiskMB_update dec_int,
      field ''file_descriptors'' da_FileDescriptors da_FileDescriptors_update dec_word,
      field ''num_instances'' da_NumInstances da_NumInstances_update dec_int,
      field ''routes'' da_Routes da_Routes_update (dec_slice dec_string []),
      field ''log_guid'' da_LogGuid da_LogGuid_update dec_string]"

definition enc_desire_app :: "desire_app_request \<Rightarrow> json" where
  "enc_desire_app d = JObj
     [(''process_guid'', JStr (da_ProcessGuid d)), (''droplet_uri'', JStr (da_DropletUri d)), (''stack'', JStr (da_Stack d)),
      (''start_command'', JStr (da_StartCommand d)), (''environment'', enc_slice enc_env (da_Environment d)),
      (''memory_mb'', enc_int (da_MemoryMB d)), (''disk_mb'', enc_int (da_DiskMB d)),
      (''file_descriptors'', enc_word (da_FileDescriptors d)), (''num_instances'', enc_int (da_NumInstances d)),
      (''routes'', enc_slice JStr (da_Routes d)), (''log_guid'', JStr (da_LogGuid d))]"

definition desire_app_ToJSON :: "desire_app_request \<Rightarrow> bytes" where
  "desire_app_ToJSON d = json_print (enc_desire_app d)"

section \<open>The factory of tasks\<close>

text \<open>The random source is an argument; when it fails the factory panics.\<close>

definition GenerateGuid :: "('s, error + byte list) go \<Rightarrow> ('s, string) go" where
  "GenerateGuid rand =
     go_bind rand (\<lambda>r. case NewV4 r of Inl err \<Rightarrow> go_panic | Inr guid \<Rightarrow> go_return (String guid))"

definition BuildTaskWithRunAction ::
  "('s, error + byte list) go \<Rightarrow> string \<Rightarrow> int \<Rightarrow> int \<Rightarrow> string \<Rightarrow> string slice \<Rightarrow> ('s, task) go" where
  "BuildTaskWithRunAction rand stack memoryMB diskMB path args =
     go_bind (GenerateGuid rand) (\<lambda>guid. go_return
       (zero_task\<lparr>task_Guid := guid, task_MemoryMB := memoryMB, task_DiskMB := diskMB,
          task_Actions := Some [RunAction (zero_run\<lparr>run_Path := path, run_Args := args\<rparr>)], task_Stack := stack\<rparr>))"

section \<open>Lemmas\<close>

lemma flag_Parse_set:
  assumes "name \<noteq> []" and "CHR ''='' \<notin> set name" and "hd name \<noteq> CHR ''-''" and "map_of fs name \<noteq> None"
  shows "flag_Parse fs ((''-'' @ name @ ''='' @ v) # args) = flag_Parse (flag_Set name v fs) args"
proof -
  obtain c cs where n: "name = c # cs" using assms(1) by (cases name) auto
  have "flag_body (''-'' @ name @ ''='' @ v) = Some (name @ CHR ''='' # v)" using assms(3) n by (simp add: flag_body_def)
  moreover have "takeWhile (\<lambda>x. x \<noteq> CHR ''='') (name @ CHR ''='' # v) = name"
    using assms(2) by (simp add: takeWhile_append2 takeWhile_tail) (metis takeWhile_eq_all_conv)
  ultimately show ?thesis using assms by (auto simp: Let_def n)
qed

definition tailor_names :: "string list" where
  "tailor_names = map fst (ct_FlagSet (NewCircusTailorConfig []))"

lemma tailor_names_eq:
  "tailor_names = [''appDir'', ''outputDropletDir'', ''outputMetadataDir'', ''buildpacksDir'', ''buildArtifactsCacheDir'', ''buildpackOrder'']"
  by (simp add: tailor_names_def NewCircusTailorConfig_def)

lemma flag_names_tailor: "map fst fs = tailor_names \<Longrightarrow> flag_names fs =
    [''appDir'', ''buildArtifactsCacheDir'', ''buildpackOrder'', ''buildpacksDir'', ''outputDropletDir'', ''outputMetadataDir'']"
  unfolding flag_names_def tailor_names_eq by simp

text \<open>
  A config whose flags are the ones it was made with, with any values: its arguments, parsed by a fresh config,
  give the same values, and it is valid when none is empty.
\<close>

lemma tailor_args_roundtrip:
  assumes "map fst (ct_FlagSet c) = tailor_names" and "ct_values c = ct_values (NewCircusTailorConfig [])"
  shows "\<exists>args. Args c = Some args \<and> flag_Parse (ct_FlagSet (NewCircusTailorConfig bs)) args = Some (ct_FlagSet c)"
proof -
  obtain v1 v2 v3 v4 v5 v6 where fs: "ct_FlagSet c = [(''appDir'', v1), (''outputDropletDir'', v2), (''outputMetadataDir'', v3),
      (''buildpacksDir'', v4), (''buildArtifactsCacheDir'', v5), (''buildpackOrder'', v6)]"
    using assms(1) unfolding tailor_names_eq by (auto simp: map_eq_Cons_conv)
  obtain w1 w2 w3 w4 w5 w6 where New: "ct_FlagSet (NewCircusTailorConfig bs) = [(''appDir'', w1), (''outputDropletDir'', w2),
      (''outputMetadataDir'', w3), (''buildpacksDir'', w4), (''buildArtifactsCacheDir'', w5), (''buildpackOrder'', w6)]"
    by (simp add: NewCircusTailorConfig_def)
  let ?args = "[''-'' @ ''appDir'' @ ''='' @ v1, ''-'' @ ''buildArtifactsCacheDir'' @ ''='' @ v5, ''-'' @ ''buildpackOrder'' @ ''='' @ v6,
    ''-'' @ ''buildpacksDir'' @ ''='' @ v4, ''-'' @ ''outputDropletDir'' @ ''='' @ v2, ''-'' @ ''outputMetadataDir'' @ ''='' @ v3]"
  have "Args c = Some ?args"
    unfolding Args_def flag_names_tailor [OF assms(1)] by (simp add: tailor_value_def assms(2) fs NewCircusTailorConfig_def)
  moreover have "flag_Parse (ct_FlagSet (NewCircusTailorConfig bs)) ?args = Some (ct_FlagSet c)"
    unfolding fs New by (simp add: flag_Parse_set flag_Set_def del: append.simps flag_Parse.simps(2))
  ultimately show ?thesis by blast
qed

lemma Validate_iff: "Validate c = None \<longleftrightarrow> (\<forall>name \<in> set (map fst (ct_FlagSet c)). tailor_value c name \<noteq> Some [])"
  by (auto simp: Validate_def Let_def flag_names_def filter_empty_conv)

lemma BuildpackOrder_New:
  assumes "bs \<noteq> []" and "\<forall>b \<in> set bs. CHR '','' \<notin> set b"
  shows "BuildpackOrder (NewCircusTailorConfig bs) = bs"
  using strings_Split_Join [OF assms] by (simp add: BuildpackOrder_def tailor_get_def tailor_value_def NewCircusTailorConfig_def)

definition desire_app_ok :: "desire_app_request \<Rightarrow> bool" where
  "desire_app_ok d \<longleftrightarrow> ascii (da_ProcessGuid d) \<and> ascii (da_DropletUri d) \<and> ascii (da_Stack d) \<and> ascii (da_StartCommand d) \<and>
     (\<forall>v \<in> set (slice_elems (da_Environment d)). ascii (env_Name v) \<and> ascii (env_Value v)) \<and>
     int64_ok (da_MemoryMB d) \<and> int64_ok (da_DiskMB d) \<and> int64_ok (da_NumInstances d) \<and>
     (\<forall>r \<in> set (slice_elems (da_Routes d)). ascii r) \<and> ascii (da_LogGuid d)"

lemma desire_app_roundtrip:
  assumes "desire_app_ok d"
  shows "json_Unmarshal (dec_struct desire_app_fields) z (desire_app_ToJSON d) = Ok d"
proof -
  have "json_ok (enc_desire_app d)"
    using assms by (auto simp: enc_desire_app_def desire_app_ok_def enc_env_def ascii_def)
  moreover have "dec_struct desire_app_fields z (enc_desire_app d) = Dec d False"
    using assms by (simp add: desire_app_fields_def enc_desire_app_def table_simps desire_app_ok_def dec_slice_enc dec_env_enc)
  ultimately show ?thesis unfolding desire_app_ToJSON_def by (rule json_Unmarshal_print)
qed

text \<open>A task of the factory is one that its own reader takes back.\<close>

lemma factory_task_fields:
  assumes "rand s = Some (Done (Inr u), s')"
  shows "BuildTaskWithRunAction rand stack mem disk path args s =
    Some (Done (zero_task\<lparr>task_Guid := String (setVersion 4 (setVariant ReservedRFC4122 u)), task_MemoryMB := mem, task_DiskMB := disk,
      task_Actions := Some [RunAction (zero_run\<lparr>run_Path := path, run_Args := args\<rparr>)], task_Stack := stack\<rparr>), s')"
  using assms by (simp add: BuildTaskWithRunAction_def GenerateGuid_def go_bind_def go_return_def NewV4_def)

end
