(* ===== verification/Startup.thy ===== *)
theory Startup
  imports AppManager LagerProofs EtcdConfig OtherModels
begin

text \<open>
  The parts of main.go around the supervised group: the command line, the logger, the client of the etcd
  cluster, and what is logged at the start and at the end. The pre-processor of LRPs comes from a package that
  is not in the repository; the handler has it as an argument.
\<close>

section \<open>The start\<close>

text \<open>The flags of the program: its own and that of cf-lager.\<close>

definition etcdCluster :: string where
  "etcdCluster = ''etcdCluster''"

definition app_flags :: flag_set where
  "app_flags = [(etcdCluster, ''http://127.0.0.1:4001''), (''logLevel'', ''info'')]"

text \<open>\<open>Connect\<close> makes a client and never fails.\<close>

definition Connect :: "string list \<Rightarrow> client_data \<times> error option" where
  "Connect urls = (NewClient urls, None)"

definition initializeBbs :: "bytes logger \<Rightarrow> string \<Rightarrow> string \<Rightarrow> string \<Rightarrow> (bytes, client_data) go" where
  "initializeBbs logger now trace cluster =
     (case Connect (strings_Split CHR '','' cluster) of
        (client, Some err) \<Rightarrow> go_bind (Fatal logger now trace ''failed-to-connect-to-etcd'' (Some ''error'') []) (\<lambda>_. go_panic)
      | (client, None) \<Rightarrow> go_return client)"

text \<open>
  \<open>None\<close> is the exit with status 2 of a command line that cannot be parsed. What is left of a start is the
  logger, the one of the handler and the client of the cluster; then the group is envoked (\<open>app_main\<close>).
\<close>

record started =
  st_logger :: "bytes logger"
  st_handler_logger :: "bytes logger"
  st_client :: client_data

definition main_start :: "string list \<Rightarrow> string \<Rightarrow> string \<Rightarrow> (bytes, started option) go" where
  "main_start args now trace =
     (case flag_Parse app_flags args of
        None \<Rightarrow> go_return None
      | Some fs \<Rightarrow>
          (case cf_lager_New (the (map_of fs ''logLevel'')) ''app-manager'' of
             None \<Rightarrow> go_panic
           | Some logger \<Rightarrow>
               go_bind (initializeBbs logger now trace (the (map_of fs etcdCluster))) (\<lambda>client.
               go_bind (outcome_or_panic (Session logger ''handler'' [])) (\<lambda>(handlerLogger, logger).
               go_return (Some \<lparr>st_logger = logger, st_handler_logger = handlerLogger, st_client = client\<rparr>)))))"

text \<open>When the group is up (\<open>GroupUp\<close>), one line says so.\<close>

definition main_started :: "started \<Rightarrow> string \<Rightarrow> (bytes, unit) go" where
  "main_started st now = Info (st_logger st) now ''started'' []"

section \<open>The end\<close>

text \<open>What follows \<open>monitor.Wait\<close>: the exit status, after a last line.\<close>

definition main_exit :: "started \<Rightarrow> string \<Rightarrow> string option \<Rightarrow> (bytes, nat) go" where
  "main_exit st now err =
     (case err of
        Some e \<Rightarrow> go_bind (Error (st_logger st) now ''exited-with-failure'' (Some e) []) (\<lambda>_. go_return 1)
      | None \<Rightarrow> go_bind (Info (st_logger st) now ''exited'' []) (\<lambda>_. go_return 0))"

section \<open>What it starts with\<close>

lemma flag_Parse_given:
  assumes "name \<noteq> []" and "hd name \<noteq> CHR ''-''" and "CHR ''='' \<notin> set name" and "map_of fs name \<noteq> None"
  shows "flag_Parse fs ((CHR ''-'' # name @ CHR ''='' # v) # args) = flag_Parse (flag_Set name v fs) args"
proof -
  have "flag_body (CHR ''-'' # name @ CHR ''='' # v) = Some (name @ CHR ''='' # v)"
    using assms(1,2) by (cases name) (simp_all add: flag_body_def)
  moreover have "takeWhile (\<lambda>c. c \<noteq> CHR ''='') (name @ CHR ''='' # v) = name"
    using assms(3) by (intro takeWhile_tail [THEN trans]) (auto simp: takeWhile_eq_all_conv)
  ultimately show ?thesis using assms by (auto simp: Let_def)
qed

lemma app_flags_given:
  "flag_Parse app_flags [''-etcdCluster='' @ c, ''-logLevel='' @ l] = Some [(etcdCluster, c), (''logLevel'', l)]"
  using flag_Parse_given [of "''etcdCluster''" app_flags c "[''-logLevel='' @ l]"]
    flag_Parse_given [of "''logLevel''" "flag_Set ''etcdCluster'' c app_flags" l "[]"]
  by (simp add: app_flags_def flag_Set_def etcdCluster_def del: flag_Parse.simps(2))

text \<open>
  With its two flags, the machines of the cluster separated by commas and a known level, the program starts:
  nothing is written yet, the client knows exactly these machines and takes the first for the leader, the
  handler logs in session 1. An unknown level ends it in a panic.
\<close>

theorem main_starts:
  assumes "ms \<noteq> []" and "\<forall>m \<in> set ms. CHR '','' \<notin> set m"
  shows "let run = main_start [''-etcdCluster='' @ strings_Join '','' ms, ''-logLevel='' @ level] now trace out in
    if parse_level level = None then run = Some (run.Panicked, out)
    else \<exists>st. run = Some (Done (Some st), out) \<and>
      cd_cluster (st_client st) = Some \<lparr>cl_Leader = hd ms, cl_Machines = ms\<rparr> \<and>
      l_task (st_logger st) = ''app-manager'' \<and> l_sessionID (st_logger st) = [] \<and>
      l_task (st_handler_logger st) = ''app-manager.handler'' \<and> l_sessionID (st_handler_logger st) = ''1''"
proof -
  have "strings_Split CHR '','' (strings_Join '','' ms) = ms"
    using assms by (intro strings_Split_Join) auto
  then have cluster: "Connect (strings_Split CHR '','' (strings_Join '','' ms)) = (NewClient ms, None)"
    "cd_cluster (NewClient ms) = Some \<lparr>cl_Leader = hd ms, cl_Machines = ms\<rparr>"
    using assms(1) by (simp_all add: Connect_def NewClient_def NewCluster_def hd_conv_nth)
  have one: "nat_digits (Suc 0) = ''1''" by code_simp
  show ?thesis
    unfolding main_start_def app_flags_given option.case
    by (cases "parse_level level")
      (simp_all add: cf_lager_New_def initializeBbs_def cluster etcdCluster_def RegisterSink_def
        NewLogger_def Session_def baseData_def slice_elems_def outcome_or_panic_def go_bind_def go_return_def go_panic_def
        Let_def one)
qed

theorem main_starts_witness:
  "\<exists>st. main_start [''-etcdCluster=http://a:4001,http://b:4001'', ''-logLevel=info''] ''0'' [] [] = Some (Done (Some st), []) \<and>
     cl_Machines (the (cd_cluster (st_client st))) = [''http://a:4001'', ''http://b:4001'']"
  using main_starts [where ms = "[''http://a:4001'', ''http://b:4001'']" and level = "''info''" and now = "''0''" and trace = "[]" and out = "[]"]
  by (auto simp: parse_level_def Let_def)

text \<open>
  The two lines of \<open>main\<close>, and the exit status: 0 after \<open>exited\<close>, 1 after \<open>exited-with-failure\<close>.
\<close>

theorem main_logs:
  assumes "logger_ok (st_logger st)" and "l_sinks (st_logger st) = [NewWriterSink Stdout_Write least]"
    and "ascii now" and "ascii now'" and "ascii (case_option [] id err)"
  shows "\<exists>started exited.
    go_bind (main_started st now) (\<lambda>_. main_exit st now' err) out =
      Some (Done (if err = None then 0 else 1),
        out @ (if INFO < least then [] else started @ [newline]) @
        (if (if err = None then INFO else ERROR) < least then [] else exited @ [newline])) \<and>
    newline \<notin> set started \<and> newline \<notin> set exited"
proof -
  have "\<exists>line. log_call level (st_logger st) t [] action err [] s =
      Some (Done (), s @ (if level < least then [] else line @ [newline])) \<and> newline \<notin> set line"
    if lv: "level \<noteq> FATAL" and t: "ascii t" and a: "ascii action" for level t action s
  proof -
    obtain kvs where "log_call level (st_logger st) t [] action err [] s =
        Some (if level = FATAL then run.Panicked else Done (),
          if level < least then s else s @ json_print (call_record level (st_logger st) t action kvs) @ [newline])"
      "json_ok (call_record level (st_logger st) t action kvs)"
      using log_call_writes [OF assms(1,2) _ t _ a assms(5), of "[]" "[]" level s] by (auto simp: given_ok_def)
    with lv newline_print show ?thesis by auto
  qed
  note line = this
  obtain started where s: "Info (st_logger st) now ''started'' [] out = Some (Done (), out @ (if INFO < least then [] else started @ [newline]))"
    "newline \<notin> set started"
    using line [of INFO now "''started''" out] assms(3) by (auto simp: log_call_def)
  obtain exited where "main_exit st now' err (out @ (if INFO < least then [] else started @ [newline])) =
      Some (Done (if err = None then 0 else 1), (out @ (if INFO < least then [] else started @ [newline])) @
        (if (if err = None then INFO else ERROR) < least then [] else exited @ [newline]))" "newline \<notin> set exited"
    using line [of "if err = None then INFO else ERROR" now' "if err = None then ''exited'' else ''exited-with-failure''"
        "out @ (if INFO < least then [] else started @ [newline])"] assms(4)
    by (cases err) (auto simp: log_call_def main_exit_def go_bind_def go_return_def)
  with s show ?thesis by (auto simp: main_started_def go_bind_def)
qed

end
