(* ===== verification/Nats.thy ===== *)
theory Nats
  imports JsonRoundtrip
begin

text \<open>
  The NATS client cloudfoundry/yagnats, with which the integration environment talks to the message bus: the
  packets and their text (packets.go), and the parser of what a server sends (parser.go), with the regular
  expressions it uses.
\<close>

section \<open>Packets (packets.go)\<close>

datatype packet =
    PingPacket
  | PongPacket
  | InfoPacket string
  | ConnectPacket string string
  | OKPacket
  | ERRPacket string
  | SubPacket string string int
  | UnsubPacket int
  | PubPacket string string bytes
  | MsgPacket string int string bytes

abbreviation cr :: char where "cr \<equiv> CHR 0x0D"
abbreviation lf :: char where "lf \<equiv> CHR 0x0A"

definition connectionPayload :: "string \<Rightarrow> string \<Rightarrow> json" where
  "connectionPayload user pass =
     JObj [(''user'', JStr user), (''pass'', JStr pass), (''verbose'', JBool True), (''pedantic'', JBool True)]"

fun Encode :: "packet \<Rightarrow> bytes" where
  "Encode PingPacket = ''PING'' @ [cr, lf]"
| "Encode PongPacket = ''PONG'' @ [cr, lf]"
| "Encode (InfoPacket payload) = ''INFO '' @ payload @ [cr, lf]"
| "Encode (ConnectPacket user pass) = ''CONNECT '' @ json_print (connectionPayload user pass) @ [cr, lf]"
| "Encode OKPacket = ''+OK'' @ [cr, lf]"
| "Encode (ERRPacket message) = ''-ERR '' @ [CHR 0x27] @ message @ [CHR 0x27, cr, lf]"
| "Encode (SubPacket subject queue sid) =
     ''SUB '' @ subject @ '' '' @ (if queue \<noteq> [] then queue @ '' '' else []) @ Itoa sid @ [cr, lf]"
| "Encode (UnsubPacket sid) = ''UNSUB '' @ Itoa sid @ [cr, lf]"
| "Encode (PubPacket subject reply payload) =
     ''PUB '' @ subject @ '' '' @ (if reply \<noteq> [] then reply @ '' '' else []) @ nat_digits (length payload) @ [cr, lf] @
     payload @ [cr, lf]"
| "Encode (MsgPacket subject sid reply payload) =
     ''MSG '' @ subject @ '' '' @ Itoa sid @ '' '' @ (if reply \<noteq> [] then reply @ '' '' else []) @
     nat_digits (length payload) @ [cr, lf] @ payload @ [cr, lf]"

section \<open>Regular expressions\<close>

text \<open>
  As much of \<open>regexp\<close> as the parser uses: characters, greedy repetitions of a class of characters that may
  capture what they take, and optional parts. A match is the first one in the order of preference (leftmost,
  then as many repetitions as possible, then the optional part taken); its captures are in the order of the
  groups, an optional group that is not taken captures nothing. The classes hold ASCII characters or all but
  ASCII characters, so that it makes no difference whether runes or bytes are taken.
\<close>

datatype rx = Lit char | Many bool "char \<Rightarrow> bool" nat | Opt "rx list"

fun rx_groups :: "rx list \<Rightarrow> nat" where
  "rx_groups [] = 0"
| "rx_groups (Lit c # rs) = rx_groups rs"
| "rx_groups (Many cap P n # rs) = (if cap then 1 else 0) + rx_groups rs"
| "rx_groups (Opt os # rs) = rx_groups os + rx_groups rs"

fun rx_size :: "rx list \<Rightarrow> nat" where
  "rx_size [] = 0"
| "rx_size (Lit c # rs) = Suc (rx_size rs)"
| "rx_size (Many cap P n # rs) = Suc (rx_size rs)"
| "rx_size (Opt os # rs) = Suc (rx_size os + rx_size rs)"

lemma rx_size_append [simp]: "rx_size (rs @ ts) = rx_size rs + rx_size ts"
  by (induction rs rule: rx_size.induct) simp_all

text \<open>\<open>rx_try k\<close> lets the repetition take \<open>k\<close> characters, then fewer, down to the least number.\<close>

function rx_match :: "rx list \<Rightarrow> bytes \<Rightarrow> bytes list option"
  and rx_try :: "bool \<Rightarrow> nat \<Rightarrow> rx list \<Rightarrow> nat \<Rightarrow> bytes \<Rightarrow> bytes list option" where
  "rx_match [] s = Some []"
| "rx_match (Lit c # rs) s = (case s of d # s' \<Rightarrow> if d = c then rx_match rs s' else None | [] \<Rightarrow> None)"
| "rx_match (Many cap P n # rs) s = rx_try cap n rs (length (takeWhile P s)) s"
| "rx_match (Opt os # rs) s =
     (case rx_match (os @ rs) s of
        Some caps \<Rightarrow> Some caps
      | None \<Rightarrow> map_option (\<lambda>caps. replicate (rx_groups os) [] @ caps) (rx_match rs s))"
| "rx_try cap n rs k s =
     (if k < n then None
      else case rx_match rs (drop k s) of
             Some caps \<Rightarrow> Some (if cap then take k s # caps else caps)
           | None \<Rightarrow> if k = 0 then None else rx_try cap n rs (k - 1) s)"
  by pat_completeness auto
termination
  by (relation "measures [\<lambda>x. case x of Inl (rs, s) \<Rightarrow> 2 * rx_size rs | Inr (cap, n, rs, k, s) \<Rightarrow> 2 * rx_size rs + 1,
      \<lambda>x. case x of Inl (rs, s) \<Rightarrow> 0 | Inr (cap, n, rs, k, s) \<Rightarrow> k]") auto

declare rx_try.simps [simp del]

text \<open>The leftmost match.\<close>

fun FindSubmatch :: "rx list \<Rightarrow> bytes \<Rightarrow> bytes list option" where
  "FindSubmatch rs [] = rx_match rs []"
| "FindSubmatch rs (c # s) = (case rx_match rs (c # s) of Some caps \<Rightarrow> Some caps | None \<Rightarrow> FindSubmatch rs s)"

definition rx_space :: "char \<Rightarrow> bool" where
  "rx_space c \<longleftrightarrow> c \<in> {CHR '' '', CHR 0x09, lf, CHR 0x0C, cr}"

definition line_end :: "rx list" where
  "line_end = [Many False rx_space 0, Lit cr, Lit lf]"

definition err_rx :: "rx list" where
  "err_rx = [Many False rx_space 0, Lit (CHR 0x27), Many True (\<lambda>c. c \<noteq> lf) 0, Lit (CHR 0x27)] @ line_end"

definition info_rx :: "rx list" where
  "info_rx = [Many False rx_space 0, Many True (\<lambda>c. \<not> rx_space c) 1] @ line_end"

definition msg_rx :: "rx list" where
  "msg_rx = [Many False rx_space 0, Many True (\<lambda>c. \<not> rx_space c) 1, Many False rx_space 1, Many True is_digit 1,
     Many False rx_space 1, Opt [Many True (\<lambda>c. \<not> rx_space c) 1, Many False rx_space 1], Many True is_digit 1] @ line_end"

section \<open>The parser (parser.go)\<close>

text \<open>
  A reader is what is still to be read, up to the end of the stream. \<open>ReadBytes\<close> gives a line with its end,
  or the rest of the stream; \<open>readWord\<close> needs a delimiter.
\<close>

definition ReadLine :: "bytes \<Rightarrow> bytes \<times> bytes" where
  "ReadLine io =
     (let s = takeWhile (\<lambda>c. c \<noteq> lf) io; rest = dropWhile (\<lambda>c. c \<noteq> lf) io
      in if rest = [] then (s, []) else (s @ [lf], tl rest))"

abbreviation io_EOF :: error where "io_EOF \<equiv> Errorf ''EOF'' [] None"

fun readWord :: "bytes \<Rightarrow> (bytes \<times> bytes) outcome" where
  "readWord [] = Err io_EOF"
| "readWord (next # io) =
     (if next \<in> {CHR '' '', CHR 0x09, cr, lf} then Ok ([], io)
      else outcome_bind (readWord io) (\<lambda>(word, rest). Ok (next # word, rest)))"

text \<open>\<open>make\<close> panics when it is asked for more than \<open>mem\<close> bytes.\<close>

definition readNBytes :: "nat \<Rightarrow> nat \<Rightarrow> bytes \<Rightarrow> (bytes \<times> bytes) outcome" where
  "readNBytes mem n io =
     (if mem < n then Panic else if length io < n then Err io_EOF else Ok (take n io, drop n io))"

text \<open>\<open>ParseInt\<close> and \<open>Atoi\<close> of digits, with their errors ignored: out of range is the largest number.\<close>

definition parse_number :: "string \<Rightarrow> nat" where
  "parse_number ds = (case parse_digits 0 ds of Some n \<Rightarrow> if int64_ok (int n) then n else nat (2 ^ 63 - 1) | None \<Rightarrow> 0)"

definition parse_err :: "bytes \<Rightarrow> (packet \<times> bytes) outcome" where
  "parse_err io =
     (let (line, rest) = ReadLine io in
      case FindSubmatch err_rx line of
        Some [message] \<Rightarrow> Ok (ERRPacket message, rest)
      | _ \<Rightarrow> Err (Errorf ''Malformed -ERR message'' [] None))"

definition parse_info :: "bytes \<Rightarrow> (packet \<times> bytes) outcome" where
  "parse_info io =
     (let (line, rest) = ReadLine io in
      case FindSubmatch info_rx line of
        Some [payload] \<Rightarrow> Ok (InfoPacket payload, rest)
      | _ \<Rightarrow> Err (Errorf ''Malformed INFO message'' [] None))"

definition parse_msg :: "nat \<Rightarrow> bytes \<Rightarrow> (packet \<times> bytes) outcome" where
  "parse_msg mem io =
     (let (line, rest) = ReadLine io in
      case FindSubmatch msg_rx line of
        Some [subject, sid, reply, digits] \<Rightarrow>
          outcome_bind (readNBytes mem (parse_number digits) rest) (\<lambda>(payload, rest').
            Ok (MsgPacket subject (int (parse_number sid)) reply payload, snd (ReadLine rest')))
      | _ \<Rightarrow> Err (Errorf ''Malformed MSG message'' [] None))"

definition Parse_packet :: "nat \<Rightarrow> bytes \<Rightarrow> (packet \<times> bytes) outcome" where
  "Parse_packet mem io = outcome_bind (readWord io) (\<lambda>(header, io').
     if header = ''PING'' then Ok (PingPacket, snd (ReadLine io'))
     else if header = ''PONG'' then Ok (PongPacket, snd (ReadLine io'))
     else if header = ''+OK'' then Ok (OKPacket, snd (ReadLine io'))
     else if header = ''-ERR'' then parse_err io'
     else if header = ''INFO'' then parse_info io'
     else if header = ''MSG'' then parse_msg mem io'
     else Err (Errorf ''Unknown header: %s'' [header] None))"

end
