(* ===== verification/NatsProofs.thy ===== *)
theory NatsProofs
  imports Nats
begin

text \<open>
  Round trip of the packets of a NATS server through the parser: each of its regular expressions finds what the
  packet was printed from.
\<close>

section \<open>Matching\<close>

lemma rx_many_greedy:
  assumes "\<forall>c \<in> set a. P c" and "b = [] \<or> \<not> P (hd b)" and "n \<le> length a" and "rx_match rs b = Some caps"
  shows "rx_match (Many cap P n # rs) (a @ b) = Some (if cap then a # caps else caps)"
proof -
  have "takeWhile P (a @ b) = a" using assms(1,2) by (cases b) (auto simp: takeWhile_append)
  with assms(3,4) show ?thesis by (simp add: rx_try.simps [of _ _ _ "length a"])
qed

lemma rx_many_none:
  assumes "s = [] \<or> \<not> P (hd s)" and "rx_match rs s = Some caps"
  shows "rx_match (Many False P 0 # rs) s = Some caps"
  using rx_many_greedy [of "[]" P s 0 rs caps False] assms by simp

text \<open>Where no number of repetitions lets the rest match, there is no match.\<close>

lemma rx_try_None: "\<forall>i \<le> k. n \<le> i \<longrightarrow> rx_match rs (drop i s) = None \<Longrightarrow> rx_try cap n rs k s = None"
  by (induction k) (simp_all add: rx_try.simps [of _ _ _ _ s])

lemma rx_many_None:
  assumes "\<And>i. n \<le> i \<Longrightarrow> i \<le> length (takeWhile P s) \<Longrightarrow> rx_match rs (drop i s) = None"
  shows "rx_match (Many cap P n # rs) s = None"
  using assms by (simp add: rx_try_None)

lemma rx_line_end: "rx_match line_end [cr, lf] = Some []"
  by code_simp

lemma FindSubmatch_first: "rx_match rs s = Some caps \<Longrightarrow> FindSubmatch rs s = Some caps"
  by (cases s) simp_all

section \<open>The three expressions\<close>

lemma err_rx_matches:
  assumes "lf \<notin> set m"
  shows "FindSubmatch err_rx (CHR 0x27 # m @ [CHR 0x27, cr, lf]) = Some [m]"
proof (rule FindSubmatch_first)
  let ?rs = "Lit (CHR 0x27) # line_end" and ?s = "m @ [CHR 0x27, cr, lf]"
  have tw: "takeWhile (\<lambda>c. c \<noteq> lf) ?s = m @ [CHR 0x27, cr]"
    using assms by (subst takeWhile_append2) auto
  have "rx_match ?rs [CHR 0x27, cr, lf] = Some []" "rx_match ?rs [lf] = None" "rx_match ?rs [cr, lf] = None"
    by (simp_all add: rx_line_end)
  then have "rx_try True 0 ?rs (Suc (Suc (length m))) ?s = Some [m]"
    by (simp add: rx_try.simps [of _ _ _ "Suc (Suc (length m))"] rx_try.simps [of _ _ _ "Suc (length m)"]
        rx_try.simps [of _ _ _ "length m"])
  then have "rx_match (Many True (\<lambda>c. c \<noteq> lf) 0 # ?rs) ?s = Some [m]"
    by (simp del: takeWhile.simps add: tw)
  then have "rx_match (Lit (CHR 0x27) # Many True (\<lambda>c. c \<noteq> lf) 0 # ?rs) (CHR 0x27 # ?s) = Some [m]" by simp
  then show "rx_match err_rx (CHR 0x27 # ?s) = Some [m]"
    unfolding err_rx_def append_Cons append_Nil by (intro rx_many_none) (simp_all add: rx_space_def)
qed

text \<open>A token of the protocol: something without white space.\<close>

definition token :: "string \<Rightarrow> bool" where
  "token t \<longleftrightarrow> t \<noteq> [] \<and> (\<forall>c \<in> set t. \<not> rx_space c)"

lemma rx_token:
  assumes "token t" and "b = [] \<or> rx_space (hd b)" and "rx_match rs b = Some caps"
  shows "rx_match (Many True (\<lambda>c. \<not> rx_space c) 1 # rs) (t @ b) = Some (t # caps)"
  using rx_many_greedy [of t "\<lambda>c. \<not> rx_space c" b 1 rs caps True] assms
  by (cases t) (auto simp: token_def)

lemma rx_blank:
  assumes "s \<noteq> []" and "\<not> rx_space (hd s)" and "rx_match rs s = Some caps"
  shows "rx_match (Many False rx_space 1 # rs) (CHR '' '' # s) = Some caps"
  using rx_many_greedy [of "'' ''" rx_space s 1 rs caps False] assms by (simp add: rx_space_def)

lemma rx_number:
  assumes "b = [] \<or> \<not> is_digit (hd b)" and "rx_match rs b = Some caps"
  shows "rx_match (Many True is_digit 1 # rs) (nat_digits n @ b) = Some (nat_digits n # caps)"
proof -
  have "\<forall>c \<in> set (nat_digits n). is_digit c" "1 \<le> length (nat_digits n)"
    by (auto simp: nat_digits_is_digit Suc_le_eq)
  from rx_many_greedy [OF this(1) assms(1) this(2) assms(2), of True] show ?thesis by simp
qed

lemma info_rx_matches:
  assumes "token p"
  shows "FindSubmatch info_rx (p @ [cr, lf]) = Some [p]"
proof (rule FindSubmatch_first)
  have "rx_match (Many True (\<lambda>c. \<not> rx_space c) 1 # line_end) (p @ [cr, lf]) = Some [p]"
    using assms rx_line_end by (intro rx_token) (simp_all add: rx_space_def)
  then show "rx_match info_rx (p @ [cr, lf]) = Some [p]"
    unfolding info_rx_def append_Cons append_Nil
    using assms by (intro rx_many_none) (cases p, auto simp: token_def)
qed

text \<open>In a message without a reply subject the optional part is tried on the length, in vain.\<close>

lemma msg_tail_number:
  "rx_match [Opt [Many True (\<lambda>c. \<not> rx_space c) 1, Many False rx_space 1], Many True is_digit 1, Many False rx_space 0,
     Lit cr, Lit lf] (nat_digits n @ [cr, lf]) = Some [[], nat_digits n]"
proof -
  let ?s = "nat_digits n @ [cr, lf]"
  have nospace: "\<forall>c \<in> set (nat_digits n). \<not> rx_space c"
    using nat_digits_is_digit by (fastforce simp: rx_space_def is_digit_def)
  have "rx_match (Many True is_digit 1 # line_end) s = None" if "s \<in> {[], [lf], [cr, lf]}" for s
    using that by (intro rx_many_None) (auto simp: is_digit_def)
  moreover have "drop m [cr, lf] \<in> {[], [lf], [cr, lf]}" for m by (cases m; cases "m - 1") auto
  ultimately have tail: "rx_match (Many True is_digit 1 # line_end) (drop m [cr, lf]) = None" for m by blast
  have blank: "rx_match (Many False rx_space 1 # Many True is_digit 1 # line_end) (drop i ?s) = None" for i
  proof (rule rx_many_None)
    fix k :: nat
    assume "1 \<le> k" and k: "k \<le> length (takeWhile rx_space (drop i ?s))"
    have "length (nat_digits n) \<le> i"
    proof (rule ccontr)
      assume "\<not> length (nat_digits n) \<le> i"
      then have "drop i ?s = nat_digits n ! i # drop (Suc i) ?s" "\<not> rx_space (nat_digits n ! i)"
        using nospace by (auto simp: Cons_nth_drop_Suc [symmetric] nth_append)
      with k \<open>1 \<le> k\<close> show False by simp
    qed
    then show "rx_match (Many True is_digit 1 # line_end) (drop k (drop i ?s)) = None" using tail by simp
  qed
  have "rx_match (Many True (\<lambda>c. \<not> rx_space c) 1 # Many False rx_space 1 # Many True is_digit 1 # line_end) ?s = None"
    using blank by (rule rx_many_None)
  moreover have "rx_match (Many True is_digit 1 # line_end) ?s = Some [nat_digits n]"
    using rx_line_end by (intro rx_number) (simp_all add: is_digit_def)
  ultimately show ?thesis by (simp add: line_end_def)
qed

lemma msg_rx_matches:
  assumes "token subject" and "reply = [] \<or> token reply"
  shows "FindSubmatch msg_rx (subject @ '' '' @ nat_digits sid @ '' '' @ (if reply \<noteq> [] then reply @ '' '' else []) @
    nat_digits n @ [cr, lf]) = Some [subject, nat_digits sid, reply, nat_digits n]"
proof (rule FindSubmatch_first)
  let ?opt = "[Opt [Many True (\<lambda>c. \<not> rx_space c) 1, Many False rx_space 1], Many True is_digit 1, Many False rx_space 0, Lit cr, Lit lf]"
  let ?tail = "(if reply \<noteq> [] then reply @ '' '' else []) @ nat_digits n @ [cr, lf]"
  have digits: "nat_digits m \<noteq> []" "\<not> rx_space (hd (nat_digits m @ t))" for m t
    using nat_digits_is_digit [of "hd (nat_digits m)" m] by (auto simp: rx_space_def is_digit_def)
  have "rx_match ?opt ?tail = Some [reply, nat_digits n]"
  proof (cases "reply = []")
    case True
    with msg_tail_number [of n] show ?thesis by simp
  next
    case False
    have "rx_match (Many True is_digit 1 # line_end) (nat_digits n @ [cr, lf]) = Some [nat_digits n]"
      using rx_line_end by (intro rx_number) (simp_all add: is_digit_def)
    then have "rx_match (Many False rx_space 1 # Many True is_digit 1 # line_end) (CHR '' '' # nat_digits n @ [cr, lf]) = Some [nat_digits n]"
      using digits [of n] by (intro rx_blank) simp_all
    then have "rx_match (Many True (\<lambda>c. \<not> rx_space c) 1 # Many False rx_space 1 # Many True is_digit 1 # line_end)
        (reply @ CHR '' '' # nat_digits n @ [cr, lf]) = Some [reply, nat_digits n]"
      using False assms(2) by (intro rx_token) (simp_all add: rx_space_def)
    with False show ?thesis by (simp add: line_end_def)
  qed
  moreover have "?tail \<noteq> []" "\<not> rx_space (hd ?tail)"
    using digits [of n] assms(2) by (auto simp: token_def)
  ultimately have "rx_match (Many False rx_space 1 # ?opt) (CHR '' '' # ?tail) = Some [reply, nat_digits n]"
    by (intro rx_blank)
  then have "rx_match (Many True is_digit 1 # Many False rx_space 1 # ?opt) (nat_digits sid @ CHR '' '' # ?tail) =
      Some [nat_digits sid, reply, nat_digits n]"
    by (intro rx_number) (simp_all add: is_digit_def)
  then have "rx_match (Many False rx_space 1 # Many True is_digit 1 # Many False rx_space 1 # ?opt)
      (CHR '' '' # nat_digits sid @ CHR '' '' # ?tail) = Some [nat_digits sid, reply, nat_digits n]"
    using digits [of sid] by (intro rx_blank) simp_all
  then have "rx_match (Many True (\<lambda>c. \<not> rx_space c) 1 # Many False rx_space 1 # Many True is_digit 1 # Many False rx_space 1 # ?opt)
      (subject @ CHR '' '' # nat_digits sid @ CHR '' '' # ?tail) = Some [subject, nat_digits sid, reply, nat_digits n]"
    using assms(1) by (intro rx_token) (simp_all add: rx_space_def)
  then show "rx_match msg_rx (subject @ '' '' @ nat_digits sid @ '' '' @ ?tail) = Some [subject, nat_digits sid, reply, nat_digits n]"
    unfolding msg_rx_def line_end_def append_Cons append_Nil
    using assms(1) by (intro rx_many_none) (cases subject, auto simp: token_def)
qed

section \<open>Packets\<close>

lemma ReadLine_append: "lf \<notin> set l \<Longrightarrow> ReadLine (l @ lf # rest) = (l @ [lf], rest)"
proof -
  assume "lf \<notin> set l"
  then have l: "\<forall>c \<in> set l. c \<noteq> lf" by auto
  show ?thesis using l by (simp add: ReadLine_def Let_def takeWhile_append2 dropWhile_append2)
qed

lemma parse_number_digits: "int64_ok (int n) \<Longrightarrow> parse_number (nat_digits n) = n"
  by (simp add: parse_number_def parse_nat_digits)

text \<open>The packets of a server, with what the protocol allows in their fields.\<close>

fun server_packet :: "nat \<Rightarrow> packet \<Rightarrow> bool" where
  "server_packet mem (InfoPacket payload) \<longleftrightarrow> token payload"
| "server_packet mem (ERRPacket message) \<longleftrightarrow> lf \<notin> set message"
| "server_packet mem (MsgPacket subject sid reply payload) \<longleftrightarrow>
     token subject \<and> 0 \<le> sid \<and> int64_ok sid \<and> (reply = [] \<or> token reply) \<and>
     length payload \<le> mem \<and> int64_ok (int (length payload))"
| "server_packet mem p \<longleftrightarrow> p \<in> {PingPacket, PongPacket, OKPacket}"

lemma token_no_lf: "token t \<Longrightarrow> lf \<notin> set t"
  by (auto simp: token_def rx_space_def)

lemma parse_err_line: "lf \<notin> set m \<Longrightarrow> parse_err (CHR 0x27 # m @ [CHR 0x27, cr] @ lf # rest) = Ok (ERRPacket m, rest)"
  using ReadLine_append [of "CHR 0x27 # m @ [CHR 0x27, cr]" rest] err_rx_matches [of m]
  by (simp add: parse_err_def)

lemma parse_info_line: "token p \<Longrightarrow> parse_info (p @ [cr] @ lf # rest) = Ok (InfoPacket p, rest)"
  using ReadLine_append [of "p @ [cr]" rest] info_rx_matches [of p] token_no_lf [of p]
  by (simp add: parse_info_def)

lemma parse_msg_line:
  assumes "server_packet mem (MsgPacket subject (int sid) reply payload)"
  shows "parse_msg mem (subject @ '' '' @ nat_digits sid @ '' '' @ (if reply \<noteq> [] then reply @ '' '' else []) @
    nat_digits (length payload) @ [cr] @ lf # payload @ [cr] @ lf # rest) = Ok (MsgPacket subject (int sid) reply payload, rest)"
proof -
  let ?l = "subject @ '' '' @ nat_digits sid @ '' '' @ (if reply \<noteq> [] then reply @ '' '' else []) @ nat_digits (length payload) @ [cr]"
  have "lf \<notin> set ?l"
    using assms nat_digits_notin [of lf] by (auto dest: token_no_lf)
  then have "ReadLine (?l @ lf # payload @ [cr] @ lf # rest) = (?l @ [lf], payload @ [cr] @ lf # rest)" by (rule ReadLine_append)
  moreover have "FindSubmatch msg_rx (?l @ [lf]) = Some [subject, nat_digits sid, reply, nat_digits (length payload)]"
    using msg_rx_matches [of subject reply sid "length payload"] assms by simp
  moreover have "snd (ReadLine ([cr] @ lf # rest)) = rest" using ReadLine_append [of "[cr]" rest] by simp
  ultimately show ?thesis
    using assms by (simp add: parse_msg_def parse_number_digits readNBytes_def)
qed

lemma packet_read_back:
  assumes "server_packet mem p"
  shows "Parse_packet mem (Encode p @ rest) = Ok (p, rest)"
proof (cases p)
  case (ERRPacket m)
  with assms parse_err_line [of m rest] show ?thesis by (simp add: Parse_packet_def)
next
  case (InfoPacket payload)
  with assms parse_info_line [of payload rest] show ?thesis by (simp add: Parse_packet_def)
next
  case (MsgPacket subject sid reply payload)
  with assms parse_msg_line [of mem subject "nat sid" reply payload rest] show ?thesis
    by (simp add: Parse_packet_def Itoa_def)
qed (use assms in \<open>simp_all add: Parse_packet_def ReadLine_def\<close>)

end
