(* ===== verification/NatsClient.thy ===== *)
theory NatsClient
  imports NatsProofs
begin

text \<open>
  The connection and the client of cloudfoundry/yagnats (connection.go, client.go), for one caller at a time:
  the goroutine that receives packets runs while the caller waits for an answer. What the server sends on a
  connection is given in advance; a callback that is started is recorded with its message. Logging is left out.
\<close>

section \<open>State\<close>

record 'cb subscription =
  ns_Subject :: string
  ns_Queue :: string
  ns_Callback :: 'cb
  ns_ID :: int

record message =
  nm_Subject :: string
  nm_ReplyTo :: string
  nm_Payload :: bytes

text \<open>
  The client and its connection: \<open>n_in\<close> is what the server still sends, \<open>n_out\<close> what was written,
  \<open>n_onMessage\<close> whether the connection has its callback already, \<open>n_calls\<close> the callbacks that were started.
\<close>

record 'cb nats =
  n_in :: bytes
  n_out :: bytes
  n_onMessage :: bool
  n_gone :: bool
  n_subscriptions :: "int \<rightharpoonup> 'cb subscription"
  n_counter :: "64 word"
  n_calls :: "('cb \<times> message) list"

section \<open>The connection\<close>

text \<open>Errors of writing are ignored.\<close>

definition Send :: "packet \<Rightarrow> ('cb nats, unit) go" where
  "Send p n = Some (Done (), if n_gone n then n else n\<lparr>n_out := n_out n @ Encode p\<rparr>)"

definition dispatchMessage :: "packet \<Rightarrow> 'cb nats \<Rightarrow> 'cb nats" where
  "dispatchMessage p n =
     (case p of
        MsgPacket subject sid reply payload \<Rightarrow>
          (case n_subscriptions n sid of
             None \<Rightarrow> n
           | Some sub \<Rightarrow> n\<lparr>n_calls := n_calls n @
               [(ns_Callback sub, \<lparr>nm_Subject = subject, nm_ReplyTo = reply, nm_Payload = payload\<rparr>)]\<rparr>)
      | _ \<Rightarrow> n)"

text \<open>
  What \<open>receivePackets\<close> does with a packet that is not an answer; calling the callback before it is set
  panics. A pong that nobody waits for is dropped.
\<close>

definition on_packet :: "packet \<Rightarrow> ('cb nats, unit) go" where
  "on_packet p =
     (case p of
        PingPacket \<Rightarrow> Send PongPacket
      | MsgPacket subject sid reply payload \<Rightarrow>
          (\<lambda>n. if n_onMessage n then Some (Done (), dispatchMessage p n) else Some (Panicked, n))
      | _ \<Rightarrow> go_return ())"

lemma ReadLine_length: "length (snd (ReadLine io)) \<le> length io"
  using dropWhile_length [of "\<lambda>c. c \<noteq> lf" io] by (cases "dropWhile (\<lambda>c. c \<noteq> lf) io") (auto simp: ReadLine_def Let_def)

lemma outcome_bind_Ok: "outcome_bind r f = Ok y \<longleftrightarrow> (\<exists>x. r = Ok x \<and> f x = Ok y)"
  by (cases r) simp_all

lemma readWord_length: "readWord io = Ok (w, rest) \<Longrightarrow> length rest < length io"
  by (induction io arbitrary: w) (auto simp: outcome_bind_Ok less_Suc_eq split: if_splits)

lemma parse_rest_length:
  "parse_err io = Ok (p, rest) \<Longrightarrow> length rest \<le> length io"
  "parse_info io = Ok (p, rest) \<Longrightarrow> length rest \<le> length io"
  "parse_msg mem io = Ok (p, rest) \<Longrightarrow> length rest \<le> length io"
proof -
  show "parse_err io = Ok (p, rest) \<Longrightarrow> length rest \<le> length io"
    using ReadLine_length [of io] by (auto simp: parse_err_def split: prod.splits option.splits list.splits)
  show "parse_info io = Ok (p, rest) \<Longrightarrow> length rest \<le> length io"
    using ReadLine_length [of io] by (auto simp: parse_info_def split: prod.splits option.splits list.splits)
  have "length (snd (ReadLine (drop k r))) \<le> length io" if "ReadLine io = (l, r)" for k l r
    using ReadLine_length [of "drop k r"] ReadLine_length [of io] that by simp
  then show "parse_msg mem io = Ok (p, rest) \<Longrightarrow> length rest \<le> length io"
    by (auto simp: parse_msg_def readNBytes_def outcome_bind_Ok split: prod.splits option.splits list.splits if_splits)
qed

lemma Parse_packet_length:
  assumes "Parse_packet mem io = Ok (p, rest)"
  shows "length rest < length io"
proof -
  obtain w io' where w: "readWord io = Ok (w, io')"
    using assms by (auto simp: Parse_packet_def outcome_bind_Ok)
  have "length rest \<le> length io'"
    using assms ReadLine_length [of io'] by (auto simp: Parse_packet_def w parse_rest_length split: if_splits)
  with readWord_length [OF w] show ?thesis by simp
qed

text \<open>
  \<open>ErrOrOK\<close>, with the packets that are received while it waits. When the stream ends, or a packet cannot be
  parsed, the connection is given up and the waiting call gets an error.
\<close>

function await_answer :: "nat \<Rightarrow> bytes \<Rightarrow> ('cb nats, error option) go" where
  "await_answer mem io = (\<lambda>n.
     case Parse_packet mem io of
       Panic \<Rightarrow> Some (Panicked, n)
     | Err e \<Rightarrow> Some (Done (Some (Errorf ''disconnected'' [] None)), n\<lparr>n_in := [], n_gone := True\<rparr>)
     | Ok (p, rest) \<Rightarrow>
         (case p of
            OKPacket \<Rightarrow> Some (Done None, n\<lparr>n_in := rest\<rparr>)
          | ERRPacket message \<Rightarrow> Some (Done (Some (Errorf message [] None)), n\<lparr>n_in := rest\<rparr>)
          | _ \<Rightarrow> go_bind (on_packet p) (\<lambda>_. await_answer mem rest) n))"
  by pat_completeness auto
termination
  by (relation "measure (\<lambda>(mem, io). length io)") (auto dest: Parse_packet_length)

declare await_answer.simps [simp del]

definition ErrOrOK :: "nat \<Rightarrow> ('cb nats, error option) go" where
  "ErrOrOK mem n = await_answer mem (n_in n) n"

text \<open>A request and its answer, as every operation of the client has it.\<close>

definition request :: "nat \<Rightarrow> packet \<Rightarrow> ('cb nats, error option) go" where
  "request mem p = go_bind (Send p) (\<lambda>_. ErrOrOK mem)"

definition Handshake :: "nat \<Rightarrow> string \<Rightarrow> string \<Rightarrow> ('cb nats, error option) go" where
  "Handshake mem user pass = request mem (ConnectPacket user pass)"

section \<open>The client\<close>

definition nats_NewClient :: "'cb nats" where
  "nats_NewClient = \<lparr>n_in = [], n_out = [], n_onMessage = False, n_gone = True,
     n_subscriptions = Map.empty, n_counter = 0, n_calls = []\<rparr>"

text \<open>
  Taking the connection from the channel of the client: without one the caller waits until it has reconnected.
\<close>

definition connection :: "('cb nats, unit) go" where
  "connection n = (if n_gone n then None else Some (Done (), n))"

definition Publish :: "nat \<Rightarrow> string \<Rightarrow> bytes \<Rightarrow> ('cb nats, error option) go" where
  "Publish mem subject payload = go_bind connection (\<lambda>_. request mem (PubPacket subject [] payload))"

definition PublishWithReplyTo :: "nat \<Rightarrow> string \<Rightarrow> string \<Rightarrow> bytes \<Rightarrow> ('cb nats, error option) go" where
  "PublishWithReplyTo mem subject reply payload = go_bind connection (\<lambda>_. request mem (PubPacket subject reply payload))"

definition subscribe :: "nat \<Rightarrow> string \<Rightarrow> string \<Rightarrow> 'cb \<Rightarrow> ('cb nats, int \<times> error option) go" where
  "subscribe mem subject queue callback = go_bind connection (\<lambda>_ n.
     let counter = n_counter n + 1; sid = sint counter;
         sub = \<lparr>ns_Subject = subject, ns_Queue = queue, ns_Callback = callback, ns_ID = sid\<rparr>
     in go_bind (request mem (SubPacket subject queue sid))
          (\<lambda>err. go_return (case err of Some e \<Rightarrow> (- 1, Some e) | None \<Rightarrow> (sid, None)))
          (n\<lparr>n_counter := counter, n_subscriptions := (n_subscriptions n)(sid \<mapsto> sub)\<rparr>))"

definition Subscribe :: "nat \<Rightarrow> string \<Rightarrow> 'cb \<Rightarrow> ('cb nats, int \<times> error option) go" where
  "Subscribe mem subject callback = subscribe mem subject [] callback"

definition SubscribeWithQueue :: "nat \<Rightarrow> string \<Rightarrow> string \<Rightarrow> 'cb \<Rightarrow> ('cb nats, int \<times> error option) go" where
  "SubscribeWithQueue mem subject queue callback = subscribe mem subject queue callback"

definition Unsubscribe :: "nat \<Rightarrow> int \<Rightarrow> ('cb nats, error option) go" where
  "Unsubscribe mem sid = go_bind connection (\<lambda>_. go_bind (Send (UnsubPacket sid)) (\<lambda>_.
     go_bind (\<lambda>n. Some (Done (), n\<lparr>n_subscriptions := (n_subscriptions n)(sid := None)\<rparr>)) (\<lambda>_. ErrOrOK mem)))"

text \<open>The order of the range over the subscriptions is an argument: a list of their ids.\<close>

definition UnsubscribeAll :: "nat \<Rightarrow> int list \<Rightarrow> string \<Rightarrow> ('cb nats, unit) go" where
  "UnsubscribeAll mem order subject n =
     (let ids = filter (\<lambda>sid. \<exists>sub. n_subscriptions n sid = Some sub \<and> ns_Subject sub = subject) order
      in go_for ids (\<lambda>sid. go_bind (Unsubscribe mem sid) (\<lambda>_. go_return ())) n)"

fun send_subs :: "nat \<Rightarrow> packet list \<Rightarrow> ('cb nats, error option) go" where
  "send_subs mem [] = go_return None"
| "send_subs mem (p # ps) = go_bind (request mem p) (\<lambda>err. if err \<noteq> None then go_return err else send_subs mem ps)"

definition sub_packets :: "int list \<Rightarrow> 'cb nats \<Rightarrow> packet list" where
  "sub_packets order n =
     map (\<lambda>sid. case n_subscriptions n sid of Some sub \<Rightarrow> SubPacket (ns_Subject sub) (ns_Queue sub) sid | None \<Rightarrow> SubPacket [] [] sid) order"

definition resubscribe :: "nat \<Rightarrow> int list \<Rightarrow> ('cb nats, error option) go" where
  "resubscribe mem order n = send_subs mem (sub_packets order n) n"

text \<open>
  A dial fails, or gives a connection with what the server will send on it. \<open>connect\<close> shakes hands and only
  then sets the callback.
\<close>

definition nats_connect :: "nat \<Rightarrow> string \<Rightarrow> string \<Rightarrow> error + bytes \<Rightarrow> ('cb nats, error option) go" where
  "nats_connect mem user pass dialled n =
     (case dialled of
        Inl e \<Rightarrow> Some (Done (Some e), n)
      | Inr input \<Rightarrow>
          go_bind (Handshake mem user pass) (\<lambda>err.
            if err \<noteq> None then go_return err
            else (\<lambda>n. Some (Done None, n\<lparr>n_onMessage := True\<rparr>)))
          (n\<lparr>n_in := input, n_out := [], n_onMessage := False, n_gone := False\<rparr>))"

text \<open>\<open>reconnect\<close> tries for ever: the results of its dials are a list, and when it is used up it has not returned.\<close>

fun reconnect :: "nat \<Rightarrow> string \<Rightarrow> string \<Rightarrow> int list \<Rightarrow> (error + bytes) list \<Rightarrow> ('cb nats, unit) go" where
  "reconnect mem user pass order [] = (\<lambda>n. None)"
| "reconnect mem user pass order (d # ds) =
     go_bind (nats_connect mem user pass d) (\<lambda>err.
       if err = None then go_bind (resubscribe mem order) (\<lambda>_. go_return ())
       else reconnect mem user pass order ds)"

section \<open>What the server sends is what the client handles\<close>

text \<open>The effect of the packets that are no answers: a pong for every ping, a callback for every message of a subscription.\<close>

definition answer_packet :: "packet \<Rightarrow> bool" where
  "answer_packet p \<longleftrightarrow> (case p of OKPacket \<Rightarrow> True | ERRPacket m \<Rightarrow> True | _ \<Rightarrow> False)"

definition answer_of :: "packet \<Rightarrow> error option" where
  "answer_of p = (case p of ERRPacket m \<Rightarrow> Some (Errorf m [] None) | _ \<Rightarrow> None)"

definition calls_for :: "(int \<rightharpoonup> 'cb subscription) \<Rightarrow> packet list \<Rightarrow> ('cb \<times> message) list" where
  "calls_for subs ps = List.map_filter (\<lambda>p. case p of
     MsgPacket subject sid reply payload \<Rightarrow>
       map_option (\<lambda>sub. (ns_Callback sub, \<lparr>nm_Subject = subject, nm_ReplyTo = reply, nm_Payload = payload\<rparr>)) (subs sid)
   | _ \<Rightarrow> None) ps"

definition pongs_for :: "packet list \<Rightarrow> bytes" where
  "pongs_for ps = concat (map (\<lambda>p. if p = PingPacket then Encode PongPacket else []) ps)"

lemma handled_Nil [simp]: "calls_for subs [] = []" "pongs_for [] = []"
  by (simp_all add: calls_for_def pongs_for_def map_filter_simps)

lemma handled_Cons:
  "calls_for subs (p # ps) = calls_for subs [p] @ calls_for subs ps" "pongs_for (p # ps) = pongs_for [p] @ pongs_for ps"
  by (simp_all add: calls_for_def pongs_for_def map_filter_simps split: option.split)

definition listening :: "'cb nats \<Rightarrow> bool" where
  "listening n \<longleftrightarrow> n_onMessage n \<and> \<not> n_gone n"

definition handled :: "packet list \<Rightarrow> bytes \<Rightarrow> 'cb nats \<Rightarrow> 'cb nats" where
  "handled ps rest n = n\<lparr>n_in := rest, n_out := n_out n @ pongs_for ps, n_calls := n_calls n @ calls_for (n_subscriptions n) ps\<rparr>"

lemma on_packet_handled:
  assumes "server_packet mem p" and "\<not> answer_packet p" and "listening n"
  shows "on_packet p n = Some (Done (), handled [p] (n_in n) n)"
  using assms
  by (cases p)
    (auto simp: on_packet_def listening_def handled_def Send_def dispatchMessage_def answer_packet_def calls_for_def
      pongs_for_def map_filter_simps go_return_def split: option.split)

lemma await_parsed:
  assumes "Parse_packet mem io = Ok (p, rest)"
  shows "answer_packet p \<Longrightarrow> await_answer mem io n = Some (Done (answer_of p), n\<lparr>n_in := rest\<rparr>)"
    and "\<not> answer_packet p \<Longrightarrow> await_answer mem io n = go_bind (on_packet p) (\<lambda>_. await_answer mem rest) n"
  by (cases p; simp add: await_answer.simps [of mem io] assms answer_packet_def answer_of_def)+

lemma await_handles:
  assumes "\<forall>p \<in> set ps. server_packet mem p \<and> \<not> answer_packet p" and "server_packet mem a" and "answer_packet a"
    and "listening n"
  shows "await_answer mem (concat (map Encode ps) @ Encode a @ rest) n = Some (Done (answer_of a), handled ps rest n)"
  using assms(1,4)
proof (induction ps arbitrary: n)
  case Nil
  then show ?case
    using await_parsed(1) [OF packet_read_back [OF assms(2), of rest] assms(3), of n] by (simp add: handled_def)
next
  case (Cons p ps)
  let ?io = "concat (map Encode ps) @ Encode a @ rest"
  let ?n = "handled [p] (n_in n) n"
  have "await_answer mem ?io ?n = Some (Done (answer_of a), handled ps rest ?n)"
    using Cons.prems by (intro Cons.IH) (simp_all add: listening_def handled_def)
  moreover have "await_answer mem (Encode p @ ?io) n = go_bind (on_packet p) (\<lambda>_. await_answer mem ?io) n"
    using Cons.prems(1) by (intro await_parsed(2) packet_read_back) simp_all
  moreover have "handled ps rest ?n = handled (p # ps) rest n"
    by (simp add: handled_def handled_Cons [where p = p and ps = ps])
  ultimately show ?case
    using Cons.prems by (simp add: on_packet_handled [of mem p n] go_bind_def)
qed

text \<open>
  C40 -- A subscription takes effect whatever the server sends before its answer: from any sequence of pings,
  notices and messages, followed by the answer, the client reads back exactly these packets. It has written the
  request and a pong for every ping, started the callback of every message whose subscription it knows, in
  order, and returns the new id, or the error the server gave. Also in that case the subscription stays in the
  map (and is sent again when the client reconnects).
\<close>

theorem subscribe_outcome:
  assumes "\<forall>p \<in> set ps. server_packet mem p \<and> \<not> answer_packet p" and "server_packet mem a" and "answer_packet a"
    and "listening n" and "n_in n = concat (map Encode ps) @ Encode a @ rest"
  shows "\<exists>n'. subscribe mem subject queue callback n =
      Some (Done (if answer_of a = None then (sint (n_counter n + 1), None) else (- 1, answer_of a)), n') \<and>
    n_subscriptions n' = (n_subscriptions n)(sint (n_counter n + 1) \<mapsto>
      \<lparr>ns_Subject = subject, ns_Queue = queue, ns_Callback = callback, ns_ID = sint (n_counter n + 1)\<rparr>) \<and>
    n_out n' = n_out n @ Encode (SubPacket subject queue (sint (n_counter n + 1))) @ pongs_for ps \<and>
    n_calls n' = n_calls n @ calls_for (n_subscriptions n') ps \<and> n_in n' = rest"
proof -
  let ?id = "sint (n_counter n + 1)"
  let ?sub = "\<lparr>ns_Subject = subject, ns_Queue = queue, ns_Callback = callback, ns_ID = ?id\<rparr>"
  let ?n = "n\<lparr>n_counter := n_counter n + 1, n_subscriptions := (n_subscriptions n)(?id \<mapsto> ?sub),
      n_out := n_out n @ Encode (SubPacket subject queue ?id)\<rparr>"
  have "await_answer mem (n_in n) ?n = Some (Done (answer_of a), handled ps rest ?n)"
    unfolding assms(5) using assms(1-3) by (rule await_handles) (use assms(4) in \<open>simp add: listening_def\<close>)
  then show ?thesis
    using assms(4)
    by (simp add: subscribe_def connection_def Let_def request_def ErrOrOK_def Send_def listening_def go_bind_def go_return_def handled_def
        del: Encode.simps split: option.split)
qed

definition ex_nats :: "bytes \<Rightarrow> nat nats" where
  "ex_nats input = \<lparr>n_in = input, n_out = [], n_onMessage = True, n_gone = False, n_subscriptions = Map.empty,
     n_counter = 0, n_calls = []\<rparr>"

theorem subscribe_outcome_witness:
  "\<exists>n'. subscribe 1000 ''router.start'' [] 7
      (ex_nats (Encode PingPacket @ Encode (MsgPacket ''router.start'' 1 [] ''{}'') @ Encode (ERRPacket ''Authorization is required'')))
      = Some (Done (- 1, Some (Errorf ''Authorization is required'' [] None)), n') \<and>
    ns_Callback (the (n_subscriptions n' 1)) = 7 \<and>
    n_calls n' = [(7, \<lparr>nm_Subject = ''router.start'', nm_ReplyTo = [], nm_Payload = ''{}''\<rparr>)] \<and>
    n_out n' = Encode (SubPacket ''router.start'' [] 1) @ Encode PongPacket"
  using subscribe_outcome [of "[PingPacket, MsgPacket ''router.start'' 1 [] ''{}'']" 1000 "ERRPacket ''Authorization is required''"
      "ex_nats (Encode PingPacket @ Encode (MsgPacket ''router.start'' 1 [] ''{}'') @ Encode (ERRPacket ''Authorization is required''))"
      "[]" "''router.start''" "[]" 7]
  by (auto simp: ex_nats_def listening_def answer_packet_def answer_of_def token_def rx_space_def int64_ok_def calls_for_def
      map_filter_simps pongs_for_def)

section \<open>Reconnecting\<close>

lemma request_confirmed:
  assumes "n_in n = Encode OKPacket @ rest" and "\<not> n_gone n"
  shows "request mem p n = Some (Done None, n\<lparr>n_in := rest, n_out := n_out n @ Encode p\<rparr>)"
proof -
  have "await_answer mem (n_in n) (n\<lparr>n_out := n_out n @ Encode p\<rparr>) = Some (Done None, n\<lparr>n_out := n_out n @ Encode p, n_in := rest\<rparr>)"
    unfolding assms(1) using await_parsed(1) [OF packet_read_back [of mem OKPacket rest]]
    by (simp add: answer_packet_def answer_of_def del: Encode.simps)
  with assms(2) show ?thesis by (simp add: request_def ErrOrOK_def Send_def go_bind_def del: Encode.simps)
qed

lemma send_subs_confirmed:
  assumes "n_in n = concat (replicate (length ps) (Encode OKPacket)) @ rest" and "\<not> n_gone n"
  shows "send_subs mem ps n = Some (Done None, n\<lparr>n_in := rest, n_out := n_out n @ concat (map Encode ps)\<rparr>)"
  using assms
proof (induction ps arbitrary: n)
  case Nil
  then show ?case by (simp add: go_return_def)
next
  case (Cons p ps)
  have "request mem p n = Some (Done None, n\<lparr>n_in := concat (replicate (length ps) (Encode OKPacket)) @ rest,
      n_out := n_out n @ Encode p\<rparr>)"
    using Cons.prems by (intro request_confirmed) (simp_all del: Encode.simps)
  with Cons.prems(2) show ?case by (simp add: go_bind_def Cons.IH del: Encode.simps)
qed

text \<open>
  However many dials fail, once one succeeds and the server confirms, the new connection carries the greeting
  and then every subscription of the client under its old id.
\<close>

theorem reconnect_restores:
  "reconnect mem user pass order (map Inl errs @ [Inr (concat (replicate (Suc (length order)) (Encode OKPacket)) @ rest)]) n =
    Some (Done (), n\<lparr>n_in := rest, n_onMessage := True, n_gone := False,
      n_out := Encode (ConnectPacket user pass) @ concat (map Encode (sub_packets order n))\<rparr>)"
proof (induction errs)
  case Nil
  let ?io = "concat (replicate (length order) (Encode OKPacket)) @ rest"
  let ?n = "n\<lparr>n_in := Encode OKPacket @ ?io, n_out := [], n_onMessage := False, n_gone := False\<rparr>"
  let ?n' = "n\<lparr>n_in := ?io, n_out := Encode (ConnectPacket user pass), n_onMessage := True, n_gone := False\<rparr>"
  have "nats_connect mem user pass (Inr (Encode OKPacket @ ?io)) n = Some (Done None, ?n')"
    using request_confirmed [of ?n ?io mem "ConnectPacket user pass"]
    by (simp add: nats_connect_def Handshake_def go_bind_def del: Encode.simps)
  moreover have "resubscribe mem order ?n' = Some (Done None, ?n'\<lparr>n_in := rest,
      n_out := n_out ?n' @ concat (map Encode (sub_packets order n))\<rparr>)"
    using send_subs_confirmed [of ?n' "sub_packets order n" rest mem]
    by (simp add: resubscribe_def sub_packets_def del: Encode.simps)
  ultimately show ?case by (simp add: go_bind_def go_return_def del: Encode.simps)
next
  case (Cons e errs)
  then show ?case by (simp add: nats_connect_def go_bind_def del: Encode.simps)
qed

theorem reconnect_restores_witness:
  "reconnect 1000 ''u'' ''p'' [] [Inl ErrorTimeout, Inr (Encode OKPacket)] (ex_nats []) =
     Some (Done (), (ex_nats [])\<lparr>n_out := Encode (ConnectPacket ''u'' ''p'')\<rparr>)"
  using reconnect_restores [of 1000 "''u''" "''p''" "[]" "[ErrorTimeout]" "[]" "ex_nats []"]
  by (simp add: ex_nats_def sub_packets_def del: Encode.simps)

end
