(* ===== verification/Restarts.thy ===== *)
theory Restarts
  imports Ifrit
begin

text \<open>
  ifrit/grouper/0.2: groups whose members are restarted by policy (members.go, restart.go, signal.go). The app
  manager uses the first grouper (\<open>Ifrit\<close>). A process is a number here; how its runner ends is up to the
  environment. That a runner is a \<open>Loader\<close>, and what it loads, is the argument \<open>load\<close>.
\<close>

section \<open>Policies\<close>

text \<open>\<open>None\<close> is the signal \<open>Continue\<close>. Time-outs are stored and never read.\<close>

record restart =
  rs_AttemptRestart :: bool
  rs_Signal :: "os_signal option"
  rs_Timeout :: duration

definition NoTimeout :: duration where "NoTimeout = 0"
definition DefaultGraceTimeout :: duration where "DefaultGraceTimeout = 5 * 60 * 1000000000"

definition RestartMePolicy :: restart where
  "RestartMePolicy = \<lparr>rs_AttemptRestart = True, rs_Signal = None, rs_Timeout = NoTimeout\<rparr>"

definition StopMePolicy :: restart where
  "StopMePolicy = \<lparr>rs_AttemptRestart = False, rs_Signal = None, rs_Timeout = NoTimeout\<rparr>"

definition RestartGroupPolicy :: restart where
  "RestartGroupPolicy = \<lparr>rs_AttemptRestart = True, rs_Signal = Some SIGINT, rs_Timeout = DefaultGraceTimeout\<rparr>"

definition StopGroupPolicy :: restart where
  "StopGroupPolicy = \<lparr>rs_AttemptRestart = False, rs_Signal = Some SIGINT, rs_Timeout = DefaultGraceTimeout\<rparr>"

section \<open>The group\<close>

record 'r member =
  mb_Name :: string
  mb_Runner :: 'r
  mb_Restart :: restart

text \<open>
  \<open>gr_group\<close> is the map of the members that run; \<open>gr_waiting\<close> are the processes with a goroutine in
  \<open>waitForProcess\<close>, \<open>gr_starting\<close> the members whose goroutine is in \<open>envokeMember\<close>. \<open>gr_signals\<close> records what
  each process was sent; \<open>gr_next\<close> numbers the processes.
\<close>

record 'r restart_group =
  gr_group :: "nat \<rightharpoonup> 'r member"
  gr_waiting :: "nat set"
  gr_starting :: "'r member list"
  gr_signals :: "nat \<Rightarrow> os_signal list"
  gr_next :: nat
  gr_desiredCount :: int
  gr_errToReturn :: "string option"
  gr_signaledToStop :: bool
  gr_panicked :: bool
  gr_returned :: "string option option"

text \<open>\<open>envokeGroup\<close> waits until all members have started; then their exits are waited for.\<close>

definition envokeMembers :: "'r member list \<Rightarrow> 'r restart_group" where
  "envokeMembers ms =
     \<lparr>gr_group = map_of (zip [0..<length ms] ms), gr_waiting = {0..<length ms}, gr_starting = [], gr_signals = (\<lambda>_. []),
      gr_next = length ms, gr_desiredCount = int (length ms), gr_errToReturn = None, gr_signaledToStop = False,
      gr_panicked = False, gr_returned = None\<rparr>"

definition signal_members :: "os_signal \<Rightarrow> 'r restart_group \<Rightarrow> 'r restart_group" where
  "signal_members s g = g\<lparr>gr_signals := (\<lambda>p. if gr_group g p \<noteq> None then gr_signals g p @ [s] else gr_signals g p)\<rparr>"

text \<open>The case of the select that receives an exit.\<close>

definition restart_member ::
  "('r \<Rightarrow> (string option \<Rightarrow> 'r option) option) \<Rightarrow> 'r member \<Rightarrow> string option \<Rightarrow> 'r restart_group \<Rightarrow> 'r restart_group" where
  "restart_member load m err g =
     (case load (mb_Runner m) of
        None \<Rightarrow> g
      | Some loader \<Rightarrow>
          (case loader err of
             None \<Rightarrow> g
           | Some nextRunner \<Rightarrow>
               g\<lparr>gr_desiredCount := gr_desiredCount g + 1, gr_starting := gr_starting g @ [m\<lparr>mb_Runner := nextRunner\<rparr>]\<rparr>))"

definition on_exit ::
  "('r \<Rightarrow> (string option \<Rightarrow> 'r option) option) \<Rightarrow> nat \<Rightarrow> string option \<Rightarrow> 'r restart_group \<Rightarrow> 'r restart_group" where
  "on_exit load p err g =
     (case gr_group g p of
        None \<Rightarrow> g\<lparr>gr_panicked := True\<rparr>
      | Some m \<Rightarrow>
          (let g = g\<lparr>gr_group := (gr_group g)(p := None), gr_waiting := gr_waiting g - {p}, gr_desiredCount := gr_desiredCount g - 1\<rparr>;
               g = (case rs_Signal (mb_Restart m) of None \<Rightarrow> g | Some s \<Rightarrow> signal_members s g) in
           if gr_signaledToStop g then g
           else
             let g = (case err of None \<Rightarrow> g | Some e \<Rightarrow> g\<lparr>gr_errToReturn := Some (mb_Name m @ '' exited with error: '' @ e)\<rparr>) in
             if \<not> rs_AttemptRestart (mb_Restart m) then
               (if rs_Signal (mb_Restart m) \<noteq> None then g\<lparr>gr_signaledToStop := True\<rparr> else g)
             else restart_member load m err g))"

datatype group_event = GroupSignal os_signal | MemberStarted nat | MemberExited nat "string option" | GroupReturns

inductive restart_step ::
  "('r \<Rightarrow> (string option \<Rightarrow> 'r option) option) \<Rightarrow> 'r restart_group \<Rightarrow> group_event \<Rightarrow> 'r restart_group \<Rightarrow> bool" for load where
  restart_signal: "gr_returned g = None \<Longrightarrow> \<not> gr_panicked g \<Longrightarrow> gr_desiredCount g \<noteq> 0 \<Longrightarrow>
    restart_step load g (GroupSignal s) ((signal_members s g)\<lparr>gr_signaledToStop := True\<rparr>)"
| restart_started: "gr_returned g = None \<Longrightarrow> \<not> gr_panicked g \<Longrightarrow> gr_desiredCount g \<noteq> 0 \<Longrightarrow> i < length (gr_starting g) \<Longrightarrow>
    restart_step load g (MemberStarted i)
      (g\<lparr>gr_group := (gr_group g)(gr_next g \<mapsto> gr_starting g ! i), gr_waiting := insert (gr_next g) (gr_waiting g),
         gr_next := gr_next g + 1, gr_starting := take i (gr_starting g) @ drop (i + 1) (gr_starting g)\<rparr>)"
| restart_exited: "gr_returned g = None \<Longrightarrow> \<not> gr_panicked g \<Longrightarrow> gr_desiredCount g \<noteq> 0 \<Longrightarrow> p \<in> gr_waiting g \<Longrightarrow>
    restart_step load g (MemberExited p err) (on_exit load p err g)"
| restart_returns: "gr_returned g = None \<Longrightarrow> \<not> gr_panicked g \<Longrightarrow> gr_desiredCount g = 0 \<Longrightarrow>
    restart_step load g GroupReturns (g\<lparr>gr_returned := Some (gr_errToReturn g)\<rparr>)"

inductive_simps restart_step_simps:
  "restart_step load g (GroupSignal s) g'" "restart_step load g (MemberStarted i) g'"
  "restart_step load g (MemberExited p err) g'" "restart_step load g GroupReturns g'"

inductive restart_runs :: "('r \<Rightarrow> (string option \<Rightarrow> 'r option) option) \<Rightarrow> 'r member list \<Rightarrow> group_event list \<Rightarrow> 'r restart_group \<Rightarrow> bool"
  for load ms where
  restart_runs_start: "restart_runs load ms [] (envokeMembers ms)"
| restart_runs_step: "restart_runs load ms es g \<Longrightarrow> restart_step load g e g' \<Longrightarrow> restart_runs load ms (es @ [e]) g'"

section \<open>The invariant\<close>

text \<open>The count is that of the members that run or are being started, and every exit is one of the map.\<close>

definition group_inv :: "'r restart_group \<Rightarrow> bool" where
  "group_inv g \<longleftrightarrow> \<not> gr_panicked g \<and> finite (dom (gr_group g)) \<and> gr_waiting g = dom (gr_group g) \<and>
     (\<forall>p \<in> dom (gr_group g). p < gr_next g) \<and>
     gr_desiredCount g = int (card (dom (gr_group g)) + length (gr_starting g)) \<and>
     (gr_returned g \<noteq> None \<longrightarrow> gr_desiredCount g = 0)"

lemma group_inv_start: "group_inv (envokeMembers ms)"
  by (auto simp: group_inv_def envokeMembers_def dom_map_of_zip)

lemma group_inv_exit:
  assumes "group_inv g" and "p \<in> gr_waiting g" and "gr_returned g = None"
  shows "group_inv (on_exit load p err g)"
proof -
  obtain m where m: "gr_group g p = Some m" using assms(1,2) by (auto simp: group_inv_def)
  define g1 where "g1 = g\<lparr>gr_group := (gr_group g)(p := None), gr_waiting := gr_waiting g - {p}, gr_desiredCount := gr_desiredCount g - 1\<rparr>"
  have p: "p \<in> dom (gr_group g)" using m by auto
  then have count: "card (dom (gr_group g)) = Suc (card (dom (gr_group g) - {p}))"
    using assms(1) by (intro card.remove [OF _ p]) (simp add: group_inv_def)
  have "group_inv g1" using assms(1,3) count by (simp add: group_inv_def g1_def)
  then have g1: "group_inv g1" "gr_returned g1 = None" using assms(3) by (simp_all add: g1_def)
  have signal: "group_inv (signal_members s x) \<and> gr_returned (signal_members s x) = None" if "group_inv x" "gr_returned x = None" for x :: "'a restart_group" and s
    using that by (simp add: group_inv_def signal_members_def)
  have restart: "group_inv (restart_member load m err x)" if "group_inv x" "gr_returned x = None" for x
    using that by (auto simp: group_inv_def restart_member_def split: option.split)
  define g2 where "g2 = (case rs_Signal (mb_Restart m) of None \<Rightarrow> g1 | Some s \<Rightarrow> signal_members s g1)"
  have g2: "group_inv g2" "gr_returned g2 = None" using g1 signal by (auto simp: g2_def split: option.split)
  define g3 where "g3 = (case err of None \<Rightarrow> g2 | Some e \<Rightarrow> g2\<lparr>gr_errToReturn := Some (mb_Name m @ '' exited with error: '' @ e)\<rparr>)"
  have g3: "group_inv g3" "gr_returned g3 = None" using g2 by (auto simp: g3_def group_inv_def split: option.split)
  have "on_exit load p err g = (if gr_signaledToStop g2 then g2 else if \<not> rs_AttemptRestart (mb_Restart m) then
      (if rs_Signal (mb_Restart m) \<noteq> None then g3\<lparr>gr_signaledToStop := True\<rparr> else g3) else restart_member load m err g3)"
    by (simp only: on_exit_def m option.case Let_def g1_def g2_def g3_def)
  moreover have "group_inv (g3\<lparr>gr_signaledToStop := True\<rparr>)" using g3 by (simp add: group_inv_def)
  ultimately show ?thesis using g2 g3 restart by simp
qed

lemma group_inv_step: "restart_step load g e g' \<Longrightarrow> group_inv g \<Longrightarrow> group_inv g'"
proof (induction rule: restart_step.induct)
  case (restart_signal g s)
  then show ?case by (simp add: group_inv_def signal_members_def)
next
  case (restart_started g i)
  then have "gr_next g \<notin> dom (gr_group g)" "\<forall>p \<in> dom (gr_group g). p < Suc (gr_next g)" by (auto simp: group_inv_def intro: less_SucI)
  with restart_started show ?case by (simp add: group_inv_def)
next
  case (restart_exited g p err)
  then show ?case by (intro group_inv_exit)
next
  case (restart_returns g)
  then show ?case by (simp add: group_inv_def)
qed

text \<open>
  In every run of a group, whatever its members do: an exit is always one of a member of the map, so the
  group does not panic; and when it returns, no member runs and none is being started.
\<close>

theorem group_keeps_count:
  assumes "restart_runs load ms es g"
  shows "\<not> gr_panicked g \<and> gr_waiting g = dom (gr_group g) \<and>
    gr_desiredCount g = int (card (dom (gr_group g)) + length (gr_starting g)) \<and>
    (gr_returned g \<noteq> None \<longrightarrow> dom (gr_group g) = {} \<and> gr_starting g = [])"
proof -
  have "group_inv g" using assms by (induction) (auto intro: group_inv_start group_inv_step)
  moreover have "dom (gr_group g) = {} \<and> gr_starting g = []" if "gr_returned g \<noteq> None"
  proof -
    have "int (card (dom (gr_group g)) + length (gr_starting g)) = 0" "finite (dom (gr_group g))"
      using \<open>group_inv g\<close> that by (simp_all add: group_inv_def)
    then show ?thesis by (metis add_is_0 card_eq_0_iff length_0_conv of_nat_eq_0_iff)
  qed
  ultimately show ?thesis by (simp add: group_inv_def)
qed

section \<open>A signal that comes too early\<close>

text \<open>
  A member that is being restarted when the group is signalled is not in the map: it is started afterwards and
  never told to stop, and the group waits for it.
\<close>

definition ex_member :: "unit member" where
  "ex_member = \<lparr>mb_Name = ''ping1'', mb_Runner = (), mb_Restart = RestartMePolicy\<rparr>"

theorem late_start_not_signalled:
  "\<exists>g. restart_runs (\<lambda>r. Some (\<lambda>err. Some r)) [ex_member] [MemberExited 0 None, GroupSignal SIGINT, MemberStarted 0] g \<and>
     gr_signaledToStop g \<and> dom (gr_group g) = {1} \<and> gr_signals g 1 = [] \<and> gr_returned g = None"
proof -
  let ?load = "\<lambda>r. Some (\<lambda>err. Some r)"
  let ?g0 = "envokeMembers [ex_member]"
  let ?g1 = "on_exit ?load 0 None ?g0"
  let ?g2 = "(signal_members SIGINT ?g1)\<lparr>gr_signaledToStop := True\<rparr>"
  let ?g3 = "?g2\<lparr>gr_group := [1 \<mapsto> ex_member], gr_waiting := {1}, gr_next := 2, gr_starting := []\<rparr>"
  note now = ex_member_def envokeMembers_def on_exit_def restart_member_def signal_members_def RestartMePolicy_def
  have g1: "restart_step ?load ?g0 (MemberExited 0 None) ?g1"
    by (rule restart_exited) (simp_all add: now)
  have g2: "restart_step ?load ?g1 (GroupSignal SIGINT) ?g2"
    by (rule restart_signal) (simp_all add: now)
  have g3: "restart_step ?load ?g2 (MemberStarted 0) ?g3"
    by (simp add: restart_step_simps now fun_eq_iff)
  have "restart_runs ?load [ex_member] ((([] @ [MemberExited 0 None]) @ [GroupSignal SIGINT]) @ [MemberStarted 0]) ?g3"
    by (intro restart_runs_step [OF _ g3] restart_runs_step [OF _ g2] restart_runs_step [OF _ g1] restart_runs_start)
  moreover have "gr_signals ?g3 1 = [] \<and> gr_returned ?g3 = None" by (simp add: now)
  ultimately show ?thesis by (intro exI [of _ ?g3]) simp
qed

end
