(* ===== verification/Spec2Isabelle.thy ===== *)
theory Spec2Isabelle
  imports DeltaForce ServicesBbs FakeWorld LrpProperties AuctionProperties DataProperties StoreProperties AppProofs EtcdRemote
    Startup NatsClient Restarts
begin

text \<open>
  The Cloud Foundry app manager and the libraries it is built from. Paths below are relative to the
  repository; G stands for \<open>Godeps/_workspace/src/github.com\<close>, RS for
  \<open>G/cloudfoundry-incubator/runtime-schema\<close>.

  \<^bold>\<open>The program.\<close> The app manager (\<open>handler/handler.go\<close>) watches the desired LRPs (long running
  processes) that other processes write to etcd. For every change it reads the actual LRPs of the
  process, lets \<open>Reconcile\<close> (\<open>G/cloudfoundry-incubator/delta_force\<close>) compare the two and writes start
  auctions, stop requests and stop auctions, which the executors and the auctioneer pick up. All of
  that goes through the BBS components (\<open>RS/bbs\<close>), which keep JSON values (\<open>RS/models\<close>) under keys of
  their own (\<open>RS/bbs/shared/schema.go\<close>) in a store adapter (\<open>G/cloudfoundry/storeadapter\<close>), in
  production the one over the etcd client (\<open>G/coreos/go-etcd/etcd\<close>), in tests an in-memory tree.
  Convergence passes repair what failed or crashed processes leave behind.

  \<^bold>\<open>How Go is modelled.\<close> \<open>Prelude\<close>: a call that touches the world is a function of the world's state
  (\<open>('s, 'a) go\<close>); it returns, panics or never returns (\<open>None\<close>). Its total-correctness calculus is \<open>wp\<close>:
  \<open>wp m Q s\<close> says that \<open>m\<close> returns from \<open>s\<close> without a panic, in a result and state that satisfy \<open>Q\<close>.
  Go's errors are the datatype \<open>error\<close>, a pure call with an error or a panic is an \<open>outcome\<close>, a nil-able
  slice is a \<open>slice\<close>, strings and byte slices are lists of bytes. Integers that only pass through are HOL
  integers with the range \<open>int64_ok\<close>; where the code computes with them at their width (the bits of a
  UUID, the refresh interval, nanoseconds) they are words. \<open>GoLib\<close>, \<open>Json\<close>, \<open>JsonCodec\<close> and \<open>Float64\<close> model
  what the code uses of the standard library: \<open>strings\<close>, \<open>path\<close>, \<open>strconv\<close>, \<open>time\<close>, and of \<open>encoding/json\<close>
  the text layer, the tables by which structs are decoded, and the formatting of floats.

  \<^bold>\<open>The parts, bottom up.\<close>
  \<^item> \<open>DeltaForce\<close>: \<open>Reconcile\<close> and its loops; closed forms of the three lists.
  \<^item> \<open>Actions\<close>, \<open>Models\<close>: the structs of \<open>RS/models\<close> with \<open>ToJSON\<close> and the readers;
    \<open>JsonRoundtrip\<close>, \<open>ModelsRoundtrip\<close>: what is printed is read back, on the values a model can have
    (\<open>task_ok\<close>, \<open>desired_ok\<close>, and the like: ASCII strings, 64-bit integers, finite floats). \<open>OtherModels\<close>: the
    models of other processes, and flag sets.
  \<^item> \<open>StoreAdapter\<close>: nodes, events, the operations of the interface as the record \<open>store_adapter\<close>, and its
    contract as two locales. \<open>kv_store\<close> says what every operation does to the tree that \<open>look\<close> shows; a
    write that times out was applied or not. \<open>cas_store\<close> adds the comparing writes and the index that
    every write moves up. \<open>slack\<close> bounds the failures still to come, so that retry loops end.
  \<^item> \<open>Shared\<close>: keys and their injectivity, \<open>RetryIndefinitelyOnStoreTimeout\<close>, and the worlds of the
    components: \<open>kv_world\<close> and \<open>cas_world\<close> (a store and a clock), \<open>frozen_world\<close> (the clock stands).
  \<^item> \<open>FakeStore\<close>, \<open>FakeWorld\<close>: \<open>fakestoreadapter\<close> and \<open>faketimeprovider\<close>, which interpret \<open>kv_store\<close>
    and \<open>kv_world\<close>.
  \<^item> \<open>EtcdClient\<close>: how go-etcd turns its operations into requests; sending a request is the parameter
    \<open>ec_send\<close>. \<open>EtcdAdapter\<close>: the adapter's operations, its watch loop, its maintaining goroutine.
    \<open>EtcdLaws\<close>: the documented answers of an etcd v2 cluster as the locale \<open>etcd_api\<close>, and the proof that
    the adapter over such a cluster meets \<open>cas_store\<close>. \<open>EtcdServer\<close>: a cluster that has the documented
    behaviour, faults included, so that the locale is interpreted; \<open>EtcdWorld\<close>: the worlds over it.
  \<^item> Below \<open>ec_send\<close>: \<open>EtcdSend\<close>, \<open>EtcdSendProofs\<close>: the known machines and \<open>SendRequest\<close> (retries, redirects,
    leader changes, cancellation) over an HTTP layer, whose laws are the locale \<open>http_api\<close>; \<open>EtcdResponse\<close>: how
    the body of an answer is decoded; \<open>EtcdResend\<close>, \<open>EtcdRemote\<close>: the two put together over the server of
    \<open>EtcdServer\<close> behind a connection that can lose requests and answers. \<open>EtcdConfig\<close>: the client's
    configuration, its JSON and the synchronisation of the machines.
  \<^item> \<open>WorkerPool\<close>: \<open>G/cloudfoundry/storeadapter/workerpool\<close> as a step relation.
  \<^item> \<open>TaskBbs\<close>, \<open>TaskProofs\<close>, \<open>TaskConvergence\<close>: \<open>RS/bbs/task_bbs\<close>.
  \<^item> \<open>LrpBbs\<close>, \<open>Schema\<close>, \<open>LrpProofs\<close>, \<open>Listing\<close>, \<open>LrpConvergence\<close>: \<open>RS/bbs/lrp_bbs\<close>; \<open>Schema\<close> abstracts the
    tree below \<open>/v1\<close> to five partial functions (\<open>abs_lrps\<close>).
  \<^item> \<open>Auction\<close>, \<open>StartAuctionBbs\<close>, \<open>StopAuctionBbs\<close>: the two auction components; what they share is proved
    once in the locales \<open>auction_laws\<close>, \<open>auction_world\<close> and \<open>auction_frozen\<close> and interpreted for both.
  \<^item> \<open>LrpRefinement\<close>: the abstract specification of LRPs, stop requests and auctions (\<open>lrp_op\<close>,
    \<open>lrp_effect\<close>, \<open>lrp_result\<close>) and the proof that every operation implements it.
  \<^item> \<open>Watch\<close>, \<open>WatchProofs\<close>: \<open>WatchWithFilter\<close> as a fold over what its select receives, with the filters of the
    components. \<open>ServicesBbs\<close>, \<open>ServicesProofs\<close>: presences, registrations, locks. \<open>Uuid\<close>, \<open>UuidProofs\<close>:
    gouuid. \<open>Maintaining\<close>: ownership of maintained keys over time.
  \<^item> \<open>Handler\<close>: \<open>processDesiredChange\<close>, and the loop of \<open>Run\<close> as the step relation \<open>run_step\<close>.
    \<open>HandlerProofs\<close>: the processing of a change as a sequence of operations of the specification, in the
    locale \<open>handler_world\<close>, and the invariant of the loop.
  \<^item> \<open>Ifrit\<close>, \<open>IfritProofs\<close>: \<open>G/tedsuo/ifrit\<close>, its processes, groups and signal monitor as step relations over
    the code of a runner (\<open>runner_code\<close>). The locales \<open>invariant_runner\<close>, \<open>stoppable\<close> and \<open>monitored\<close> say what
    supervision preserves, and that a monitored group of stoppable runners is stoppable again. \<open>Restarts\<close>: the
    groups of \<open>grouper/0.2\<close>, whose members are restarted by policy; an exit is always one of a known member, and
    a group returns only when none runs or is being started.
  \<^item> \<open>Lager\<close>, \<open>LagerProofs\<close>: \<open>G/pivotal-golang/lager\<close> and \<open>cf-lager\<close>: loggers, sessions, the lines they write.
  \<^item> \<open>AppManager\<close>, \<open>AppProofs\<close>, \<open>Startup\<close>: \<open>main.go\<close>: the handler in a group under a monitor up to the exit
    status of the operating system process; the command line, logger and client before it.
  \<^item> \<open>Nats\<close>, \<open>NatsProofs\<close>, \<open>NatsClient\<close>: \<open>G/cloudfoundry/yagnats\<close>, the bus client of the integration
    environment: packets, parser (with the regular expressions it uses), requests and subscriptions.
  \<^item> \<open>Examples\<close>, \<open>LrpExamples\<close>, \<open>EtcdBbs\<close>: the concrete clusters on which the properties are applied.

  \<^bold>\<open>The properties\<close> are in this theory (\<open>Reconcile\<close>, the adapter, tasks) and in \<open>LrpProperties\<close> (handler, run
  loop, LRPs), \<open>AuctionProperties\<close> (auctions, convergence of LRPs), \<open>DataProperties\<close> (JSON, keys, UUIDs,
  watching), \<open>StoreProperties\<close> (locks, services, the in-memory store, retries, the pool, \<open>SendRequest\<close>),
  \<open>EtcdRemote\<close> (answers over the wire), \<open>AppProofs\<close> (the process), \<open>LagerProofs\<close> and \<open>NatsClient\<close>. Those about a
  BBS component hold in every world that meets the contract of its store; each is applied to a concrete
  cluster of \<open>EtcdServer\<close> in the theorem after it.

  \<^bold>\<open>What the contract of the cluster leaves out.\<close> \<open>etcd_api\<close> says that a request is applied once and answered,
  or ends in a time-out, applied or not. That is the client's own promise only as long as it does not send a
  request a second time: \<open>request_outcome\<close> shows it for a request whose answer arrives, and
  \<open>applied_but_refused\<close> shows what \<open>SendRequest\<close> does otherwise: when an answer is lost it sends the request to
  the next machine, and a create or a compare-and-swap that was applied is then reported as refused.

  \<^bold>\<open>Bounds and fuel.\<close> The JSON parser and the reader of nested actions take fuel that the length of the
  text and the depth of the value provide; \<open>JsonRoundtrip\<close> shows it is enough for what is printed. The
  loops that need not end (\<open>Retry\<close>, one turn of the maintaining loop, \<open>SendRequest\<close>) are partial functions
  whose result \<open>None\<close> means that they never return; the properties show that they do. The session ids of the
  loggers are different up to \<open>2 ^ 64\<close> loggers, the width of their counters.

  \<^bold>\<open>Nondeterminism.\<close> The order of goroutines that are started together and waited for (the batches of
  compare-and-swaps, the worker pool) and the order of a range over a map are arguments (\<open>sched\<close>,
  \<open>order\<close>, \<open>schedule\<close>); what holds for all of them is proved for all. Where steps of several goroutines
  interleave freely (\<open>Run\<close>, ifrit, the pool, the maintained keys) they are a step relation. The etcd cluster
  may at any time fail to answer, with the request applied or not.

  \<^bold>\<open>Not modelled.\<close> What the handler and the convergence passes log on their way (the logger itself is
  modelled); HTTP itself, TLS, certificates and dialling; the log of cURL commands, reading a client from a
  file and the indices in response headers of go-etcd; the arithmetic of the pool's usage figure; the HTTP
  runner of ifrit, and of the bus client what needs several callers at once: the app
  manager uses none of them. The facade of the BBS only embeds its components, and test doubles, starters of
  servers and test frameworks are not part of the program. The pre-processor of LRPs is a parameter of the
  handler: its package is not in the repository.
\<close>

section \<open>Reconciliation of instance counts\<close>

text \<open>
  C3 -- \<open>Reconcile\<close> decides exactly: an index below the desired count is started if and only if no
  instance has it; when none is missing, an instance is stopped if and only if its index is not below
  the count, and an index is thinned out if and only if several instances have it; the indices come
  in increasing order without duplicates. Nothing is to do if and only if every index below the count
  has exactly one instance and no index lies above.
\<close>

theorem Reconcile_exact:
  "let r = Reconcile n a; lacking = (\<exists>i. 0 \<le> i \<and> i < n \<and> (\<forall>x \<in> set a. Index x \<noteq> i)) in
   (\<forall>i. i \<in> set (IndicesToStart r) \<longleftrightarrow> 0 \<le> i \<and> i < n \<and> (\<forall>x \<in> set a. Index x \<noteq> i)) \<and>
   (\<forall>g. g \<in> set (GuidsToStop r) \<longleftrightarrow> \<not> lacking \<and> (\<exists>x \<in> set a. Guid x = g \<and> n \<le> Index x)) \<and>
   (\<forall>i. i \<in> set (IndicesToStopAllButOne r) \<longleftrightarrow>
      \<not> lacking \<and> 0 \<le> i \<and> i < n \<and> 1 < length (filter (\<lambda>x. Index x = i) a)) \<and>
   sorted (IndicesToStart r) \<and> distinct (IndicesToStart r) \<and>
   sorted (IndicesToStopAllButOne r) \<and> distinct (IndicesToStopAllButOne r) \<and>
   (Empty r \<longleftrightarrow> (\<forall>i. 0 \<le> i \<and> i < n \<longrightarrow> length (filter (\<lambda>x. Index x = i) a) = 1) \<and> (\<forall>x \<in> set a. Index x < n))"
proof -
  have lacking: "(\<exists>i. 0 \<le> i \<and> i < n \<and> (\<forall>x \<in> set a. Index x \<noteq> i)) \<longleftrightarrow> missing n a \<noteq> []"
    by (auto simp: missing_empty_iff)
  have sorted: "sorted (missing n a)" "distinct (missing n a)" "sorted (duplicated n a)" "distinct (duplicated n a)"
    by (simp_all add: missing_def duplicated_def sorted_wrt_filter)
  have "length (filter (\<lambda>x. Index x = i) a) = 1 \<longleftrightarrow>
      (\<exists>x \<in> set a. Index x = i) \<and> length (filter (\<lambda>x. Index x = i) a) \<le> 1" for i
    using filter_empty_iff [of "\<lambda>x. Index x = i" a] by (cases "filter (\<lambda>x. Index x = i) a") auto
  then have one: "(\<forall>i. 0 \<le> i \<and> i < n \<longrightarrow> length (filter (\<lambda>x. Index x = i) a) = 1) \<longleftrightarrow>
      missing n a = [] \<and> duplicated n a = []"
    by (auto simp: missing_empty_iff duplicated_empty_iff)
  show ?thesis
    unfolding Let_def lacking one Empty_iff Reconcile_closed extra_empty_iff [symmetric]
    by (cases "missing n a = []") (auto simp: sorted in_extra in_duplicated in_missing [symmetric])
qed

theorem Reconcile_exact_witness:
  "Reconcile 2 [\<lparr>Index = 0, Guid = ''a''\<rparr>, \<lparr>Index = 0, Guid = ''b''\<rparr>, \<lparr>Index = 1, Guid = ''c''\<rparr>, \<lparr>Index = 2, Guid = ''d''\<rparr>]
     = \<lparr>IndicesToStart = [], GuidsToStop = [''d''], IndicesToStopAllButOne = [0]\<rparr> \<and>
   1 \<in> set (IndicesToStart (Reconcile 2 [\<lparr>Index = 0, Guid = ''a''\<rparr>]))"
proof -
  have "Reconcile 2 [\<lparr>Index = 0, Guid = ''a''\<rparr>, \<lparr>Index = 0, Guid = ''b''\<rparr>, \<lparr>Index = 1, Guid = ''c''\<rparr>, \<lparr>Index = 2, Guid = ''d''\<rparr>]
     = \<lparr>IndicesToStart = [], GuidsToStop = [''d''], IndicesToStopAllButOne = [0]\<rparr>" by code_simp
  then show ?thesis using Reconcile_exact [of 2 "[\<lparr>Index = 0, Guid = ''a''\<rparr>]"] by (simp add: Let_def)
qed

section \<open>The store adapter\<close>

text \<open>
  C10 -- The etcd store adapter over any cluster that answers as etcd documents it meets the contract
  of a store with comparing writes: every read shows the tree, every write is applied exactly when it
  reports success, one that timed out was applied or not, a write that compares the index succeeds
  only on the index the entry has, and every write moves the index up. The order in which the worker
  pool serves the closures of a batch does not matter.
\<close>

theorem etcd_adapter_refines:
  fixes inv :: "'s \<Rightarrow> bool"
  assumes "etcd_api send inv look slack tick" and "\<forall>n. mset (sched n) = mset [0..<n]"
  shows "cas_store (etcd_store (adapter_over send strong sched)) inv look slack tick"
  using assms by (rule adapter_cas_store)

theorem etcd_adapter_refines_witness:
  "cas_store (etcd_store (adapter_over srv_send False (\<lambda>n. rev [0..<n]))) srv_inv srv_look srv_slack es_index"
  using etcd_adapter_refines [OF srv.etcd_api_axioms, of "\<lambda>n. rev [0..<n]" False] by simp

section \<open>Tasks\<close>

text \<open>
  C5 -- Every operation of the task life cycle returns, on any store that meets its contract, and
  moves only its own task: to the next state of the life cycle under a larger index, from the state
  the operation requires; out of the store when a resolving task is resolved; into the store as
  pending when it was desired and absent; or not at all. Every other task keeps its entry, and every
  stored task stays readable.
\<close>

theorem task_lifecycle:
  fixes inv :: "'s \<Rightarrow> bool"
  assumes "cas_world B inv look slack tick" and "inv s" and "key_elem (op_guid op)" and "op_ok op" and "tasks_ok (look s)"
  shows "wp (run_task_op B op) (\<lambda>err s'. inv s' \<and> lifecycle_post op (look s) (look s')) s"
  using assms by (rule cas_world.wp_task_op)

theorem task_lifecycle_witness:
  "wp (ClaimTask etcd_bbs ''guid-1'' ''exec'') (\<lambda>err w. etcd_inv 9 w \<and>
     lifecycle_post (OpClaim ''guid-1'' ''exec'') (srv_look (fst (ex_task_world [LostAnswer] ex_task 9))) (srv_look (fst w)))
     (ex_task_world [LostAnswer] ex_task 9)"
  using task_lifecycle [OF etcd_world.cas_world_axioms [of 9], where op = "OpClaim ''guid-1'' ''exec''" and
      s = "ex_task_world [LostAnswer] ex_task 9"]
    ex_inv_one [of "''task''" "''guid-1''" 9 "[LostAnswer]"] ex_tasks_ok
  by (simp add: case_prod_beta ex_look_one int64_ok_def)

text \<open>
  C6 -- Two executors that both read the pending task: at most one claim succeeds, and the one that
  succeeds leaves the task claimed in its name. On a store that does not time out the first to write
  wins and the other is told that the comparison failed.
\<close>

theorem claim_race:
  fixes inv :: "'s \<Rightarrow> bool"
  assumes "cas_world B inv look slack tick" and "inv s" and "key_elem g" and "task_entry (look s) g t j" and "task_ok t"
    and "task_State t = TaskStatePending" and "ascii eA" and "ascii eB"
  shows "wp (go_bind (getTask B g) (\<lambda>rA. go_bind (getTask B g) (\<lambda>rB.
      go_bind (ClaimTask_read B g eA rA) (\<lambda>xA. go_bind (ClaimTask_read B g eB rB) (\<lambda>xB. go_return (xA, xB))))))
    (\<lambda>(xA, xB) s'. inv s' \<and> (xA \<noteq> None \<or> xB \<noteq> None) \<and>
       (xA = None \<longrightarrow> claimed_by (look s') g eA t) \<and>
       (xB = None \<longrightarrow> claimed_by (look s') g eB t) \<and>
       (slack s = 0 \<longrightarrow> xA = None \<and> xB = Some ErrorKeyComparisonFailed)) s"
  using assms by (rule cas_world.wp_claim_race)

theorem claim_race_witness:
  "wp (go_bind (getTask etcd_bbs ''guid-1'') (\<lambda>rA. go_bind (getTask etcd_bbs ''guid-1'') (\<lambda>rB.
      go_bind (ClaimTask_read etcd_bbs ''guid-1'' ''exec'' rA) (\<lambda>xA.
        go_bind (ClaimTask_read etcd_bbs ''guid-1'' ''other'' rB) (\<lambda>xB. go_return (xA, xB))))))
    (\<lambda>(xA, xB) w. etcd_inv 9 w \<and> xA = None \<and> xB = Some ErrorKeyComparisonFailed \<and>
       claimed_by (srv_look (fst w)) ''guid-1'' ''exec'' ex_task) (ex_task_world [] ex_task 9)"
  by (rule wp_mono [OF claim_race [OF etcd_world.cas_world_axioms [of 9], where g = "''guid-1''" and t = ex_task and j = 1 and
      eA = "''exec''" and eB = "''other''" and s = "ex_task_world [] ex_task 9"]])
    (use ex_inv_one [of "''task''" "''guid-1''" 9 "[]"] ex_task_entry in
      \<open>auto simp: case_prod_beta ex_look_one int64_ok_def ex_world_def srv_slack_def srv_look_def\<close>)

text \<open>
  C7 -- One pass of the task convergence, on a store that does not time out, whatever the order in
  which the swaps are served: every stored task is left with exactly the entry its state, its age and
  its executor's presence call for, entries that are not tasks are deleted.
\<close>

theorem ConvergeTask_converges:
  fixes inv :: "'s \<Rightarrow> bool"
  assumes "frozen_world B inv look slack tick t0" and "inv s" and "slack s = 0" and "conv_ok (look s)"
    and "\<And>zs. mset (sched zs) = mset zs"
  shows "wp (ConvergeTask sched B ttc ci)
    (\<lambda>_ s'. inv s' \<and> (\<forall>g. converged t0 ttc ci (alive (look s)) (look s) (look s') g)) s"
  using assms by (rule frozen_world.wp_ConvergeTask)

theorem ConvergeTask_converges_witness:
  "wp (ConvergeTask rev etcd_bbs 30 10) (\<lambda>_ w. etcd_inv 40 w \<and>
     converged 40 30 10 (alive (srv_look (fst (ex_task_world [] ex_task 40))))
       (srv_look (fst (ex_task_world [] ex_task 40))) (srv_look (fst w)) ''guid-1'') (ex_task_world [] ex_task 40)"
  by (rule wp_mono [OF ConvergeTask_converges [OF etcd_world.frozen_world_axioms [of 40], where sched = rev and ttc = 30 and ci = 10
      and s = "ex_task_world [] ex_task 40"]])
    (use ex_inv_one [of "''task''" "''guid-1''" 40 "[]"] in
      \<open>auto simp: case_prod_beta ex_look_one int64_ok_def ex_world_def srv_slack_def srv_look_def conv_ok_def ex_tree_one ex_value prefix_Cons split: if_splits\<close>)

text \<open>
  An entry below the task root whose action names a known kind but has no payload makes the
  reader of tasks panic, and with it every getter and the convergence loop that meet the entry.
\<close>

theorem reader_panics_on_missing_args:
  assumes "k \<in> set action_kinds" and "ascii k" and "ascii g"
  shows "NewTaskFromJSON (json_print (JObj [(''guid'', JStr g), (''actions'', JArr [JObj [(''action'', JStr k)]])])) = Panic"
  using assms by (rule NewTaskFromJSON_panics)

theorem reader_panics_on_missing_args_witness:
  "NewTaskFromJSON (json_print (JObj [(''guid'', JStr ''g''), (''actions'', JArr [JObj [(''action'', JStr ''run'')]])])) = Panic"
  by (rule reader_panics_on_missing_args) (simp_all add: action_kinds_def ascii_def)

end
